(* ===== verification/Prelude.thy ===== *)
theory Prelude
  imports Main "HOL-Library.Word"
begin

text \<open>
  Shared vocabulary of the development: the result type of C functions that may call
  \<^verbatim>\<open>exit()\<close> or run into undefined behaviour, two's complement wrap-around of
  C's 32-bit \<^verbatim>\<open>int\<close>, C strings as character lists without the terminating NUL,
  and the lemma collections the component theories use.
\<close>

named_theorems frame_simps
  \<open>which parts of the daemon's state an operation leaves alone\<close>
named_theorems cstring_simps
  \<open>evaluation rules of the C library's string functions\<close>
named_theorems monad_splits
  \<open>elimination of sequenced results\<close>

section \<open>Outcomes of C code\<close>

text \<open>
  \<open>Ok x\<close> is a normal return, \<open>Exit c\<close> the end of the process by
  \<^verbatim>\<open>exit(c)\<close>, and \<open>Undef\<close> a step the C standard gives no meaning (a null or
  dangling pointer, an out-of-bounds access, a loop that never ends).
\<close>

datatype 'a result = Ok 'a | Exit int | Undef

fun rbind :: "'a result \<Rightarrow> ('a \<Rightarrow> 'b result) \<Rightarrow> 'b result" where
  "rbind (Ok x) f = f x"
| "rbind (Exit c) f = Exit c"
| "rbind Undef f = Undef"

fun of_opt :: "'a option \<Rightarrow> 'a result" where
  "of_opt (Some x) = Ok x"
| "of_opt None = Undef"

lemma rbind_Ok_iff: "rbind m f = Ok y \<longleftrightarrow> (\<exists>x. m = Ok x \<and> f x = Ok y)"
  by (cases m) auto

lemma rbind_OkE [monad_splits]:
  assumes "rbind m f = Ok y"
  obtains x where "m = Ok x" "f x = Ok y"
  using assms by (auto simp: rbind_Ok_iff)

lemma rbind_cong [fundef_cong]:
  "m = m' \<Longrightarrow> (\<And>x. m' = Ok x \<Longrightarrow> f x = f' x) \<Longrightarrow> rbind m f = rbind m' f'"
  by (cases m) auto

lemma rbind_assoc: "rbind (rbind m f) g = rbind m (\<lambda>x. rbind (f x) g)"
  by (cases m) auto

lemma of_opt_Ok_iff [simp]: "of_opt m = Ok x \<longleftrightarrow> m = Some x"
  by (cases m) auto

text \<open>A computation that neither exits nor is undefined.\<close>

fun is_ok :: "'a result \<Rightarrow> bool" where
  "is_ok (Ok x) \<longleftrightarrow> True"
| "is_ok (Exit c) \<longleftrightarrow> False"
| "is_ok Undef \<longleftrightarrow> False"

lemma is_ok_iff: "is_ok m \<longleftrightarrow> (\<exists>x. m = Ok x)"
  by (cases m) auto

section \<open>C integers\<close>

text \<open>
  A C \<^verbatim>\<open>int\<close> is an \<open>int\<close> kept in the 32-bit range by \<open>s32\<close> wherever the code
  computes or converts; unsigned quantities whose bits matter are words.
\<close>

definition s32 :: "int \<Rightarrow> int" where
  "s32 x = (x + 2147483648) mod 4294967296 - 2147483648"

definition in_s32 :: "int \<Rightarrow> bool" where
  "in_s32 x \<longleftrightarrow> -2147483648 \<le> x \<and> x < 2147483648"

lemma s32_id [simp]: "in_s32 x \<Longrightarrow> s32 x = x"
  by (simp add: s32_def in_s32_def)

lemma in_s32_s32 [simp, intro]: "in_s32 (s32 x)"
  by (simp add: s32_def in_s32_def)

lemma s32_idem [simp]: "s32 (s32 x) = s32 x"
  by simp

section \<open>Characters\<close>

text \<open>
  The character classes of the C locale. A byte above 127 is in none of them.
\<close>

definition cc :: "char \<Rightarrow> nat" where
  "cc c = of_char c"

lemma cc_char_of [simp]: "cc (char_of n) = n mod 256"
  by (simp add: cc_def)

lemma char_of_cc [simp]: "char_of (cc c) = c"
  by (simp add: cc_def)

lemma cc_inj [simp]: "cc a = cc b \<longleftrightarrow> a = b"
  by (simp add: cc_def)

lemma cc_less [simp]: "cc c < 256"
  by (simp add: cc_def)

definition isblank :: "char \<Rightarrow> bool" where
  "isblank c \<longleftrightarrow> cc c = 32 \<or> cc c = 9"

definition isspace :: "char \<Rightarrow> bool" where
  "isspace c \<longleftrightarrow> cc c = 32 \<or> (9 \<le> cc c \<and> cc c \<le> 13)"

definition isdigit :: "char \<Rightarrow> bool" where
  "isdigit c \<longleftrightarrow> 48 \<le> cc c \<and> cc c \<le> 57"

definition isalpha :: "char \<Rightarrow> bool" where
  "isalpha c \<longleftrightarrow> (65 \<le> cc c \<and> cc c \<le> 90) \<or> (97 \<le> cc c \<and> cc c \<le> 122)"

definition isalnum :: "char \<Rightarrow> bool" where
  "isalnum c \<longleftrightarrow> isdigit c \<or> isalpha c"

definition isxdigit :: "char \<Rightarrow> bool" where
  "isxdigit c \<longleftrightarrow> isdigit c \<or> (65 \<le> cc c \<and> cc c \<le> 70) \<or> (97 \<le> cc c \<and> cc c \<le> 102)"

definition tolower :: "char \<Rightarrow> char" where
  "tolower c = (if 65 \<le> cc c \<and> cc c \<le> 90 then char_of (cc c + 32) else c)"

lemmas ctype_defs = isblank_def isspace_def isdigit_def isalpha_def isalnum_def
  isxdigit_def tolower_def cc_def

lemma isblank_isspace: "isblank c \<Longrightarrow> isspace c"
  by (auto simp: isblank_def isspace_def)

lemma cc_tolower: "cc (tolower c) = (if 65 \<le> cc c \<and> cc c \<le> 90 then cc c + 32 else cc c)"
  by (simp add: tolower_def)

lemma tolower_tolower [simp]: "tolower (tolower c) = tolower c"
  by (simp add: tolower_def)

lemma isspace_tolower [simp]: "isspace (tolower c) = isspace c"
  by (auto simp: isspace_def cc_tolower)

lemma isblank_tolower [simp]: "isblank (tolower c) = isblank c"
  by (auto simp: isblank_def cc_tolower)

section \<open>Generic lemmas on lists\<close>

lemma takeWhile_all: "\<forall>x \<in> set (takeWhile P xs). P x"
  by (auto dest: set_takeWhileD)

lemma dropWhile_hd: "dropWhile P xs \<noteq> [] \<Longrightarrow> \<not> P (hd (dropWhile P xs))"
  by (rule hd_dropWhile)

lemma length_dropWhile_less_eq [simp]: "length (dropWhile P xs) \<le> length xs"
  by (simp add: length_dropWhile_le)

lemma find_Some_mem: "List.find P xs = Some x \<Longrightarrow> x \<in> set xs \<and> P x"
  by (auto simp: find_Some_iff)

lemma find_None_all: "List.find P xs = None \<longleftrightarrow> (\<forall>x \<in> set xs. \<not> P x)"
  by (auto simp: find_None_iff)

lemma find_append:
  "List.find P (xs @ ys) = (case List.find P xs of Some x \<Rightarrow> Some x | None \<Rightarrow> List.find P ys)"
  by (induction xs) auto

lemma map_list_update_notin:
  "(\<And>y. y \<in> set ys \<Longrightarrow> y \<noteq> a) \<Longrightarrow> map (f(a := v)) ys = map f ys"
  by (auto simp: fun_upd_def)

text \<open>
  Removing the first element that satisfies a predicate: what a search that unlinks its
  first hit does to the list.
\<close>

fun remove_first :: "('a \<Rightarrow> bool) \<Rightarrow> 'a list \<Rightarrow> 'a list" where
  "remove_first P [] = []"
| "remove_first P (x # xs) = (if P x then xs else x # remove_first P xs)"

lemma remove_first_id: "\<forall>x \<in> set xs. \<not> P x \<Longrightarrow> remove_first P xs = xs"
  by (induction xs) auto

lemma set_remove_first_subset: "set (remove_first P xs) \<subseteq> set xs"
  by (induction xs) auto

lemma distinct_remove_first: "distinct xs \<Longrightarrow> distinct (remove_first P xs)"
  using set_remove_first_subset by (induction xs) (auto, fast)

lemma length_remove_first:
  "\<exists>x \<in> set xs. P x \<Longrightarrow> Suc (length (remove_first P xs)) = length xs"
  by (induction xs) auto

lemma remove_first_eq: "remove_first (\<lambda>x. x = a) xs = remove1 a xs"
  by (induction xs) auto

lemma remove_first_unique:
  assumes "distinct (map f xs)"
  shows "remove_first (\<lambda>x. f x = k) xs = filter (\<lambda>x. f x \<noteq> k) xs"
  using assms
proof (induction xs)
  case (Cons x xs)
  show ?case
  proof (cases "f x = k")
    case True
    have "\<forall>y \<in> set xs. f y \<noteq> k"
    proof
      fix y assume "y \<in> set xs"
      then have "f y \<in> f ` set xs" by (rule imageI)
      with Cons.prems True show "f y \<noteq> k" by auto
    qed
    then have "filter (\<lambda>x. f x \<noteq> k) xs = xs" by (simp add: filter_id_conv)
    with True show ?thesis by simp
  qed (use Cons in simp)
qed simp

text \<open>Replacing the first element that satisfies a predicate: an update in place.\<close>

fun update_first :: "('a \<Rightarrow> bool) \<Rightarrow> ('a \<Rightarrow> 'a) \<Rightarrow> 'a list \<Rightarrow> 'a list" where
  "update_first P f [] = []"
| "update_first P f (x # xs) = (if P x then f x # xs else x # update_first P f xs)"

lemma length_update_first [simp]: "length (update_first P f xs) = length xs"
  by (induction xs) auto

lemma update_first_id: "\<forall>x \<in> set xs. \<not> P x \<Longrightarrow> update_first P f xs = xs"
  by (induction xs) auto

lemma map_update_first:
  "(\<And>x. P x \<Longrightarrow> g (f x) = g x) \<Longrightarrow> map g (update_first P f xs) = map g xs"
  by (induction xs) auto

lemma find_update_first:
  "(\<And>x. P x \<Longrightarrow> P (f x)) \<Longrightarrow>
   List.find P (update_first P f xs) = map_option f (List.find P xs)"
  by (induction xs) auto

lemma find_update_first_other:
  "(\<And>x. P x \<Longrightarrow> \<not> Q x \<and> \<not> Q (f x)) \<Longrightarrow> List.find Q (update_first P f xs) = List.find Q xs"
  by (induction xs) auto

text \<open>Searching for the first free slot of an array.\<close>

fun first_index :: "('a \<Rightarrow> bool) \<Rightarrow> 'a list \<Rightarrow> nat" where
  "first_index P [] = 0"
| "first_index P (x # xs) = (if P x then 0 else Suc (first_index P xs))"

lemma first_index_le: "first_index P xs \<le> length xs"
  by (induction xs) auto

lemma first_index_less_iff: "first_index P xs < length xs \<longleftrightarrow> (\<exists>x \<in> set xs. P x)"
  by (induction xs) auto

lemma first_index_holds: "first_index P xs < length xs \<Longrightarrow> P (xs ! first_index P xs)"
  by (induction xs) auto

lemma first_index_least: "i < first_index P xs \<Longrightarrow> \<not> P (xs ! i)"
  by (induction xs arbitrary: i) (auto simp: nth_Cons split: nat.splits if_splits)

section \<open>Invariants of state machines\<close>

text \<open>
  What a state machine relies on to keep an invariant however it runs: \<open>kept s t\<close> relates a state to
  the ones its steps may lead to.
\<close>

locale kept_steps =
  fixes step :: "'s \<Rightarrow> 's \<Rightarrow> bool"
    and inv :: "'s \<Rightarrow> bool"
    and kept :: "'s \<Rightarrow> 's \<Rightarrow> bool"
  assumes kept_refl: "inv s \<Longrightarrow> kept s s"
    and kept_trans: "kept s t \<Longrightarrow> kept t u \<Longrightarrow> kept s u"
    and kept_inv: "inv s \<Longrightarrow> kept s t \<Longrightarrow> inv t"
    and step_kept: "inv s \<Longrightarrow> step s t \<Longrightarrow> kept s t"
begin

lemma run_kept: "step\<^sup>*\<^sup>* s t \<Longrightarrow> inv s \<Longrightarrow> kept s t"
  by (induction rule: rtranclp_induct) (blast intro: kept_refl kept_trans kept_inv step_kept)+

lemma run_inv: "step\<^sup>*\<^sup>* s t \<Longrightarrow> inv s \<Longrightarrow> inv t"
  by (blast intro: run_kept kept_inv)

end

end
