(* ===== verification/CString.thy ===== *)
theory CString
  imports Prelude
begin

text \<open>
  The part of the C standard library the sources use on strings: comparison, number
  formatting, \<^verbatim>\<open>atoi\<close>, \<^verbatim>\<open>strsep\<close>, \<^verbatim>\<open>strstr\<close>, bounded copies and an
  interpreter of \<^verbatim>\<open>scanf\<close> format directives. A string is the list of its characters
  before the terminating NUL.
\<close>

section \<open>Comparison\<close>

definition strcasecmp_eq :: "string \<Rightarrow> string \<Rightarrow> bool" where
  "strcasecmp_eq a b \<longleftrightarrow> map tolower a = map tolower b"

definition strncmp_eq :: "string \<Rightarrow> string \<Rightarrow> nat \<Rightarrow> bool" where
  "strncmp_eq a b n \<longleftrightarrow> take n a = take n b"

definition strncasecmp_eq :: "string \<Rightarrow> string \<Rightarrow> nat \<Rightarrow> bool" where
  "strncasecmp_eq a b n \<longleftrightarrow> map tolower (take n a) = map tolower (take n b)"

lemma strcasecmp_eq_refl [simp]: "strcasecmp_eq a a"
  by (simp add: strcasecmp_eq_def)

lemma strcasecmp_eq_sym: "strcasecmp_eq a b = strcasecmp_eq b a"
  by (auto simp: strcasecmp_eq_def)

lemma strcasecmp_eq_trans: "strcasecmp_eq a b \<Longrightarrow> strcasecmp_eq b c \<Longrightarrow> strcasecmp_eq a c"
  by (simp add: strcasecmp_eq_def)

section \<open>Searching\<close>

text \<open>\<^verbatim>\<open>strstr(s, pat)\<close>: the suffix of \<open>s\<close> that starts at the first occurrence.\<close>

fun strstr :: "string \<Rightarrow> string \<Rightarrow> string option" where
  "strstr s pat =
     (if take (length pat) s = pat then Some s
      else case s of [] \<Rightarrow> None | _ # s' \<Rightarrow> strstr s' pat)"

declare strstr.simps [simp del]

lemma strstr_Nil: "strstr [] pat = (if pat = [] then Some [] else None)"
  by (subst strstr.simps) auto

lemma strstr_Cons:
  "strstr (c # s) pat = (if take (length pat) (c # s) = pat then Some (c # s) else strstr s pat)"
  by (subst strstr.simps) simp

lemmas strstr_eval [cstring_simps] = strstr_Nil strstr_Cons

lemma strstr_SomeD: "strstr s pat = Some t \<Longrightarrow> \<exists>u. s = u @ t \<and> take (length pat) t = pat"
proof (induction s)
  case (Cons c s)
  show ?case
  proof (cases "take (length pat) (c # s) = pat")
    case False
    with Cons obtain u where "s = u @ t" "take (length pat) t = pat"
      by (auto simp: strstr_Cons)
    then have "c # s = (c # u) @ t" by simp
    with \<open>take (length pat) t = pat\<close> show ?thesis by blast
  qed (use Cons in \<open>auto simp: strstr_Cons\<close>)
qed (auto simp: strstr_Nil split: if_splits)

section \<open>Formatting numbers\<close>

fun udec :: "nat \<Rightarrow> string" where
  "udec n = (if n < 10 then [char_of (48 + n)] else udec (n div 10) @ [char_of (48 + n mod 10)])"

declare udec.simps [simp del]

lemma udec_small: "n < 10 \<Longrightarrow> udec n = [char_of (48 + n)]"
  by (subst udec.simps) simp

lemma udec_step: "10 \<le> n \<Longrightarrow> udec n = udec (n div 10) @ [char_of (48 + n mod 10)]"
  by (subst udec.simps) simp

definition fmt_d :: "int \<Rightarrow> string" where
  "fmt_d x = (if x < 0 then CHR ''-'' # udec (nat (- x)) else udec (nat x))"

definition hexc :: "nat \<Rightarrow> char" where
  "hexc n = (if n < 10 then char_of (48 + n) else char_of (87 + n))"

fun uhex :: "nat \<Rightarrow> string" where
  "uhex n = (if n < 16 then [hexc n] else uhex (n div 16) @ [hexc (n mod 16)])"

declare uhex.simps [simp del]

lemma uhex_small: "n < 16 \<Longrightarrow> uhex n = [hexc n]"
  by (subst uhex.simps) simp

lemma uhex_step: "16 \<le> n \<Longrightarrow> uhex n = uhex (n div 16) @ [hexc (n mod 16)]"
  by (subst uhex.simps) simp

text \<open>\<^verbatim>\<open>%x\<close> of an \<^verbatim>\<open>int\<close> or \<^verbatim>\<open>unsigned int\<close> prints the 32-bit pattern.\<close>

definition fmt_x :: "int \<Rightarrow> string" where
  "fmt_x x = uhex (nat (x mod 4294967296))"

text \<open>\<^verbatim>\<open>%04hx\<close> of an \<^verbatim>\<open>unsigned short\<close>.\<close>

definition fmt_04hx :: "16 word \<Rightarrow> string" where
  "fmt_04hx w = (let s = uhex (unat w) in replicate (4 - length s) CHR ''0'' @ s)"

definition hexval1 :: "char \<Rightarrow> nat" where
  "hexval1 c = (if isdigit c then cc c - 48 else if 97 \<le> cc c then cc c - 87 else cc c - 55)"

definition hexval :: "string \<Rightarrow> nat" where
  "hexval s = foldl (\<lambda>acc c. 16 * acc + hexval1 c) 0 s"

lemma hexval1_hexc [simp]: "n < 16 \<Longrightarrow> hexval1 (hexc n) = n"
  by (auto simp: hexval1_def hexc_def isdigit_def)

lemma isxdigit_hexc: "n < 16 \<Longrightarrow> isxdigit (hexc n)"
  by (auto simp: hexc_def isxdigit_def isdigit_def)

lemma foldl_hexval:
  "foldl (\<lambda>acc c. 16 * acc + hexval1 c) a s = a * 16 ^ length s + hexval s"
proof (induction s arbitrary: a)
  case Nil
  show ?case by (simp add: hexval_def)
next
  case (Cons c s)
  have c: "hexval (c # s) = hexval1 c * 16 ^ length s + hexval s"
    using Cons.IH [of "hexval1 c"] by (simp add: hexval_def)
  have "foldl (\<lambda>acc c. 16 * acc + hexval1 c) a (c # s) =
      (16 * a + hexval1 c) * 16 ^ length s + hexval s"
    using Cons.IH [of "16 * a + hexval1 c"] by simp
  with c show ?case by (simp add: add_mult_distrib add_mult_distrib2)
qed

lemma hexval_append: "hexval (s @ t) = hexval s * 16 ^ length t + hexval t"
  using foldl_hexval [of "hexval s" t] by (simp add: hexval_def)

lemma hexval_Nil [simp]: "hexval [] = 0"
  by (simp add: hexval_def)

lemma hexval_single [simp]: "hexval [c] = hexval1 c"
  by (simp add: hexval_def)

lemma hexval_uhex [simp]: "hexval (uhex n) = n"
proof (induction n rule: uhex.induct)
  case (1 n)
  show ?case
  proof (cases "n < 16")
    case True
    then show ?thesis by (subst uhex.simps) simp
  next
    case False
    with 1 have "hexval (uhex (n div 16)) = n div 16" by simp
    with False show ?thesis by (subst uhex.simps) (simp add: hexval_append)
  qed
qed

lemma uhex_xdigits: "\<forall>c \<in> set (uhex n). isxdigit c"
proof (induction n rule: uhex.induct)
  case (1 n)
  then show ?case by (subst uhex.simps) (auto simp: isxdigit_hexc)
qed

lemma uhex_nonempty [simp]: "uhex n \<noteq> []"
  by (subst uhex.simps) simp

lemma uhex_inj [simp]: "uhex m = uhex n \<longleftrightarrow> m = n"
  by (metis hexval_uhex)

text \<open>A number below \<open>16 ^ length\<close> is what its digits can hold.\<close>

lemma uhex_bound: "n < 16 ^ length (uhex n)"
proof (induction n rule: uhex.induct)
  case (1 n)
  show ?case
  proof (cases "n < 16")
    case True
    then show ?thesis by (simp add: uhex_small)
  next
    case False
    with 1 have "n div 16 < 16 ^ length (uhex (n div 16))" by simp
    then have "n < 16 * 16 ^ length (uhex (n div 16))" by simp
    with False show ?thesis by (simp add: uhex_step)
  qed
qed

lemma length_uhex_le: "0 < k \<Longrightarrow> n < 16 ^ k \<Longrightarrow> length (uhex n) \<le> k"
proof (induction n arbitrary: k rule: uhex.induct)
  case (1 n)
  show ?case
  proof (cases "n < 16")
    case True
    with 1 show ?thesis by (subst uhex.simps) simp
  next
    case False
    obtain k' where k: "k = Suc k'" using 1 by (cases k) auto
    with False "1.prems" have k': "0 < k'" by (cases k') auto
    have "n div 16 < 16 ^ k'" using "1.prems" k by simp
    with 1 False k' have "length (uhex (n div 16)) \<le> k'" by simp
    with False k show ?thesis by (subst uhex.simps) simp
  qed
qed

lemma udec_digits: "\<forall>c \<in> set (udec n). isdigit c"
proof (induction n rule: udec.induct)
  case (1 n)
  then show ?case by (subst udec.simps) (auto simp: isdigit_def)
qed

lemma udec_nonempty [simp]: "udec n \<noteq> []"
  by (subst udec.simps) simp

definition decval :: "string \<Rightarrow> nat" where
  "decval s = foldl (\<lambda>acc c. 10 * acc + (cc c - 48)) 0 s"

lemma decval_snoc [simp]: "decval (s @ [c]) = 10 * decval s + (cc c - 48)"
  by (simp add: decval_def)

lemma decval_udec [simp]: "decval (udec n) = n"
proof (induction n rule: udec.induct)
  case (1 n)
  show ?case
  proof (cases "n < 10")
    case True
    then show ?thesis by (subst udec.simps) (simp add: decval_def)
  next
    case False
    with 1 have "decval (udec (n div 10)) = n div 10" by simp
    with False show ?thesis by (subst udec.simps) simp
  qed
qed

lemma udec_inj [simp]: "udec m = udec n \<longleftrightarrow> m = n"
  by (metis decval_udec)

section \<open>scanf\<close>

text \<open>
  One directive per conversion the sources use. \<open>SWs\<close> is white space in the format,
  \<open>SLit c\<close> an ordinary character, \<open>SSkip\<close> is \<^verbatim>\<open>%*s\<close>, \<open>SStr\<close> is \<^verbatim>\<open>%s\<close>,
  \<open>SSet n P\<close> is a character class of width \<open>n\<close> (\<^verbatim>\<open>%17[A-Fa-f0-9:]\<close>), \<open>SInt\<close> is
  \<^verbatim>\<open>%d\<close>, \<open>SSkipInt\<close> is \<^verbatim>\<open>%*d\<close>, \<open>SUns\<close> is \<^verbatim>\<open>%u\<close> or \<^verbatim>\<open>%llu\<close> and
  \<open>SHex\<close> is \<^verbatim>\<open>%x\<close>.
\<close>

datatype scan_dir = SWs | SLit char | SSkip | SStr | SSet nat "char \<Rightarrow> bool"
  | SInt | SSkipInt | SUns | SHex

datatype scan_val = VStr string | VNum int

definition skip_ws :: "string \<Rightarrow> string" where
  "skip_ws s = dropWhile isspace s"

definition scan_sign :: "string \<Rightarrow> bool \<times> string" where
  "scan_sign s = (case s of [] \<Rightarrow> (False, [])
     | c # s' \<Rightarrow> if c = CHR ''-'' then (True, s') else if c = CHR ''+'' then (False, s') else (False, s))"

definition scan_dec :: "string \<Rightarrow> (int \<times> string) option" where
  "scan_dec s = (let (neg, t) = scan_sign s; ds = takeWhile isdigit t in
     if ds = [] then None
     else Some (if neg then - int (decval ds) else int (decval ds), dropWhile isdigit t))"

definition strip_0x :: "string \<Rightarrow> string" where
  "strip_0x s = (if strncasecmp_eq s ''0x'' 2 then drop 2 s else s)"

definition scan_hex :: "string \<Rightarrow> (int \<times> string) option" where
  "scan_hex s = (let (neg, t) = scan_sign s; u = strip_0x t; ds = takeWhile isxdigit u in
     if ds = [] then None
     else Some (if neg then - int (hexval ds) else int (hexval ds), dropWhile isxdigit u))"

text \<open>
  \<open>scanf ds s\<close> returns the values stored, the input left, and whether the scan stopped
  because the input ran out (an input failure) rather than at a mismatch.
\<close>

fun scanf :: "scan_dir list \<Rightarrow> string \<Rightarrow> scan_val list \<times> string \<times> bool" where
  "scanf [] s = ([], s, False)"
| "scanf (SWs # ds) s = scanf ds (skip_ws s)"
| "scanf (SLit c # ds) s =
     (case s of [] \<Rightarrow> ([], [], True) | x # s' \<Rightarrow> if x = c then scanf ds s' else ([], s, False))"
| "scanf (SSkip # ds) s = (let t = skip_ws s in
     if t = [] then ([], [], True) else scanf ds (dropWhile (\<lambda>c. \<not> isspace c) t))"
| "scanf (SStr # ds) s = (let t = skip_ws s in
     if t = [] then ([], [], True)
     else apfst (\<lambda>vs. VStr (takeWhile (\<lambda>c. \<not> isspace c) t) # vs)
            (scanf ds (dropWhile (\<lambda>c. \<not> isspace c) t)))"
| "scanf (SSet n P # ds) s = (let w = takeWhile P (take n s) in
     if s = [] then ([], [], True) else if w = [] then ([], s, False)
     else apfst (\<lambda>vs. VStr w # vs) (scanf ds (drop (length w) s)))"
| "scanf (SInt # ds) s = (let t = skip_ws s in
     if t = [] then ([], [], True)
     else case scan_dec t of None \<Rightarrow> ([], t, False)
       | Some (v, r) \<Rightarrow> apfst (\<lambda>vs. VNum v # vs) (scanf ds r))"
| "scanf (SSkipInt # ds) s = (let t = skip_ws s in
     if t = [] then ([], [], True)
     else case scan_dec t of None \<Rightarrow> ([], t, False) | Some (v, r) \<Rightarrow> scanf ds r)"
| "scanf (SUns # ds) s = (let t = skip_ws s in
     if t = [] then ([], [], True)
     else case scan_dec t of None \<Rightarrow> ([], t, False)
       | Some (v, r) \<Rightarrow> apfst (\<lambda>vs. VNum v # vs) (scanf ds r))"
| "scanf (SHex # ds) s = (let t = skip_ws s in
     if t = [] then ([], [], True)
     else case scan_hex t of None \<Rightarrow> ([], t, False)
       | Some (v, r) \<Rightarrow> apfst (\<lambda>vs. VNum v # vs) (scanf ds r))"

declare scanf.simps [simp del]

text \<open>The value a \<^verbatim>\<open>scanf\<close> call returns: \<open>-1\<close> on an input failure before the
  first conversion, else the number of values stored.\<close>

definition scan_rc :: "scan_val list \<times> string \<times> bool \<Rightarrow> int" where
  "scan_rc r = (if fst r = [] \<and> snd (snd r) then -1 else int (length (fst r)))"

text \<open>\<^verbatim>\<open>sscanf(s, "%d", &x)\<close> and its relatives: \<open>None\<close> when nothing is stored.\<close>

definition sscanf_d :: "string \<Rightarrow> int option" where
  "sscanf_d s = (case fst (scanf [SInt] s) of VNum v # _ \<Rightarrow> Some (s32 v) | _ \<Rightarrow> None)"

definition sscanf_u :: "string \<Rightarrow> 32 word option" where
  "sscanf_u s = (case fst (scanf [SUns] s) of VNum v # _ \<Rightarrow> Some (word_of_int v) | _ \<Rightarrow> None)"

definition sscanf_x :: "string \<Rightarrow> 32 word option" where
  "sscanf_x s = (case fst (scanf [SHex] s) of VNum v # _ \<Rightarrow> Some (word_of_int v) | _ \<Rightarrow> None)"

definition atoi :: "string \<Rightarrow> int" where
  "atoi s = (case scan_dec (skip_ws s) of None \<Rightarrow> 0 | Some (v, _) \<Rightarrow> s32 v)"

lemma in_s32_atoi: "in_s32 (atoi s)"
  by (auto simp: atoi_def in_s32_def split: option.splits)
     (metis in_s32_def in_s32_s32)+

section \<open>Scanning what was printed\<close>

lemma isdigit_not_space: "isdigit c \<Longrightarrow> \<not> isspace c"
  by (auto simp: isdigit_def isspace_def)

lemma isdigit_not_sign: "isdigit c \<Longrightarrow> c \<noteq> CHR ''-'' \<and> c \<noteq> CHR ''+''"
  by (auto simp: isdigit_def cc_def)

lemma takeWhile_prefix:
  assumes "\<forall>c \<in> set w. P c" "r = [] \<or> \<not> P (hd r)"
  shows "takeWhile P (w @ r) = w" "dropWhile P (w @ r) = r"
  using assms by (cases r; simp add: takeWhile_append2 dropWhile_append2)+

lemma udec_hd: "isdigit (hd (udec n))"
  using udec_digits [of n] by (cases "udec n") auto

lemma scan_sign_udec: "scan_sign (udec n @ r) = (False, udec n @ r)"
  using udec_hd [of n] isdigit_not_sign
  by (cases "udec n") (auto simp: scan_sign_def)

lemma scan_dec_udec [cstring_simps]:
  "r = [] \<or> \<not> isdigit (hd r) \<Longrightarrow> scan_dec (udec n @ r) = Some (int n, r)"
  using takeWhile_prefix [OF udec_digits] by (simp add: scan_dec_def scan_sign_udec)

lemma skip_ws_udec [cstring_simps]: "skip_ws (udec n @ r) = udec n @ r"
  using udec_hd [of n] isdigit_not_space by (cases "udec n") (auto simp: skip_ws_def)

lemma scanf_SUns_udec [cstring_simps]:
  "r = [] \<or> \<not> isdigit (hd r) \<Longrightarrow>
   scanf (SUns # ds) (udec n @ r) = apfst (\<lambda>vs. VNum (int n) # vs) (scanf ds r)"
  by (simp add: scanf.simps skip_ws_udec scan_dec_udec)

lemma scanf_SInt_udec [cstring_simps]:
  "r = [] \<or> \<not> isdigit (hd r) \<Longrightarrow>
   scanf (SInt # ds) (udec n @ r) = apfst (\<lambda>vs. VNum (int n) # vs) (scanf ds r)"
  by (simp add: scanf.simps skip_ws_udec scan_dec_udec)

lemma length_udec_le: "0 < k \<Longrightarrow> n < 10 ^ k \<Longrightarrow> length (udec n) \<le> k"
proof (induction n arbitrary: k rule: udec.induct)
  case (1 n)
  show ?case
  proof (cases "n < 10")
    case True
    with 1 show ?thesis by (simp add: udec_small)
  next
    case False
    obtain k' where k: "k = Suc k'" using 1 by (cases k) auto
    with False "1.prems" have k': "0 < k'" by (cases k') auto
    have "n div 10 < 10 ^ k'" using "1.prems" k by simp
    with 1 False k' have "length (udec (n div 10)) \<le> k'" by simp
    with False k show ?thesis by (simp add: udec_step)
  qed
qed

section \<open>A scan consumes its input\<close>

lemma skip_ws_le: "length (skip_ws s) \<le> length s"
  by (simp add: skip_ws_def)

lemma scan_sign_le: "length (snd (scan_sign s)) \<le> length s"
  by (simp add: scan_sign_def split: list.split)

lemma strip_0x_le: "length (strip_0x s) \<le> length s"
  by (simp add: strip_0x_def)

lemma length_dropWhile_strict: "takeWhile P s \<noteq> [] \<Longrightarrow> length (dropWhile P s) < length s"
  by (cases s) (auto simp: le_imp_less_Suc split: if_splits)

lemma scan_dec_less: "scan_dec s = Some (v, r) \<Longrightarrow> length r < length s"
  using scan_sign_le [of s] length_dropWhile_strict [of isdigit "snd (scan_sign s)"]
  by (auto simp: scan_dec_def Let_def split: prod.splits if_splits)

lemma scan_hex_less: "scan_hex s = Some (v, r) \<Longrightarrow> length r < length s"
  using scan_sign_le [of s] strip_0x_le [of "snd (scan_sign s)"]
    length_dropWhile_strict [of isxdigit "strip_0x (snd (scan_sign s))"]
  by (auto simp: scan_hex_def Let_def split: prod.splits if_splits)

lemma word_less: "skip_ws s \<noteq> [] \<Longrightarrow> length (dropWhile (\<lambda>c. \<not> isspace c) (skip_ws s)) < length s"
proof -
  assume ne: "skip_ws s \<noteq> []"
  then have "\<not> isspace (hd (skip_ws s))" unfolding skip_ws_def by (rule dropWhile_hd)
  with ne have "takeWhile (\<lambda>c. \<not> isspace c) (skip_ws s) \<noteq> []" by (cases "skip_ws s") auto
  from length_dropWhile_strict [OF this] skip_ws_le [of s] show ?thesis by simp
qed

text \<open>What is left is no longer than the input, and shorter when a value was stored.\<close>

lemma scanf_shorter:
  "length (fst (snd (scanf ds s))) \<le> length s \<and>
   (fst (scanf ds s) \<noteq> [] \<longrightarrow> length (fst (snd (scanf ds s))) < length s)"
proof (induction ds s rule: scanf.induct)
  case (2 ds s)
  with skip_ws_le [of s] show ?case by (auto simp: scanf.simps)
next
  case (3 c ds s)
  then show ?case by (auto simp: scanf.simps split: list.split)
next
  case (4 ds s)
  with word_less [of s] show ?case by (auto simp: scanf.simps Let_def)
next
  case (5 ds s)
  with word_less [of s] show ?case by (auto simp: scanf.simps Let_def)
next
  case (6 n P ds s)
  have "length (drop (length w) s) < length s" if "w \<noteq> []" "s \<noteq> []" for w :: string
    using that by (cases w) auto
  from this [of "takeWhile P (take n s)"] 6 show ?case
    by (auto simp add: scanf.simps Let_def simp del: length_drop)
next
  case (7 ds s)
  show ?case
  proof (cases "scan_dec (skip_ws s)")
    case (Some vr)
    obtain v r where vr: "vr = (v, r)" by (cases vr)
    with Some scan_dec_less [of "skip_ws s" v r] skip_ws_le [of s] have "length r < length s" by simp
    moreover have "skip_ws s \<noteq> [] \<Longrightarrow> length (fst (snd (scanf ds r))) \<le> length r"
      using 7 [OF refl _ Some] vr by blast
    ultimately show ?thesis using Some vr by (auto simp: scanf.simps Let_def)
  qed (use skip_ws_le [of s] in \<open>simp add: scanf.simps Let_def\<close>)
next
  case (8 ds s)
  show ?case
  proof (cases "scan_dec (skip_ws s)")
    case (Some vr)
    obtain v r where vr: "vr = (v, r)" by (cases vr)
    with Some scan_dec_less [of "skip_ws s" v r] skip_ws_le [of s] have "length r < length s" by simp
    moreover have "skip_ws s \<noteq> [] \<Longrightarrow> length (fst (snd (scanf ds r))) \<le> length r"
      using 8 [OF refl _ Some] vr by blast
    ultimately show ?thesis using Some vr by (auto simp: scanf.simps Let_def)
  qed (use skip_ws_le [of s] in \<open>simp add: scanf.simps Let_def\<close>)
next
  case (9 ds s)
  show ?case
  proof (cases "scan_dec (skip_ws s)")
    case (Some vr)
    obtain v r where vr: "vr = (v, r)" by (cases vr)
    with Some scan_dec_less [of "skip_ws s" v r] skip_ws_le [of s] have "length r < length s" by simp
    moreover have "skip_ws s \<noteq> [] \<Longrightarrow> length (fst (snd (scanf ds r))) \<le> length r"
      using 9 [OF refl _ Some] vr by blast
    ultimately show ?thesis using Some vr by (auto simp: scanf.simps Let_def)
  qed (use skip_ws_le [of s] in \<open>simp add: scanf.simps Let_def\<close>)
next
  case (10 ds s)
  show ?case
  proof (cases "scan_hex (skip_ws s)")
    case (Some vr)
    obtain v r where vr: "vr = (v, r)" by (cases vr)
    with Some scan_hex_less [of "skip_ws s" v r] skip_ws_le [of s] have "length r < length s" by simp
    moreover have "skip_ws s \<noteq> [] \<Longrightarrow> length (fst (snd (scanf ds r))) \<le> length r"
      using 10 [OF refl _ Some] vr by blast
    ultimately show ?thesis using Some vr by (auto simp: scanf.simps Let_def)
  qed (use skip_ws_le [of s] in \<open>simp add: scanf.simps Let_def\<close>)
qed (simp add: scanf.simps)

section \<open>Tokenising\<close>

text \<open>
  \<^verbatim>\<open>strsep(&p, delims)\<close> called until it returns NULL yields the fields between
  single delimiter characters, empty fields included.
\<close>

fun strsep_all :: "(char \<Rightarrow> bool) \<Rightarrow> string \<Rightarrow> string list" where
  "strsep_all D [] = [[]]"
| "strsep_all D (c # s) =
     (if D c then [] # strsep_all D s
      else case strsep_all D s of [] \<Rightarrow> [[c]] | w # ws \<Rightarrow> (c # w) # ws)"

lemma strsep_all_nonempty [simp]: "strsep_all D s \<noteq> []"
  by (induction s) (auto split: list.splits)

lemma strsep_all_no_delim: "w \<in> set (strsep_all D s) \<Longrightarrow> \<forall>c \<in> set w. \<not> D c"
proof (induction s arbitrary: w)
  case (Cons c s)
  then show ?case by (cases "strsep_all D s") (fastforce split: if_splits)+
qed simp

section \<open>Lines and bounded copies\<close>

text \<open>
  \<^verbatim>\<open>fgets(line, n, fd)\<close>: at most \<open>n - 1\<close> characters, up to and including the next
  newline; \<open>None\<close> at end of file. The line is the C string in the buffer, which a NUL byte
  among the characters read ends early.
\<close>

definition nl :: char where
  "nl = CHR 0x0A"

text \<open>The C string in a buffer ends at the first NUL byte.\<close>

definition NUL :: char where
  "NUL = CHR 0x00"

definition c_string :: "string \<Rightarrow> string" where
  "c_string s = takeWhile (\<lambda>c. c \<noteq> NUL) s"

definition fgets :: "nat \<Rightarrow> string \<Rightarrow> (string \<times> string) option" where
  "fgets n s = (if s = [] then None
     else let w = takeWhile (\<lambda>c. c \<noteq> nl) s;
              m = min (n - 1) (if length w < length s then Suc (length w) else length w)
          in Some (c_string (take m s), drop m s))"

lemma fgets_decreases:
  assumes "fgets n s = Some (l, r)" "2 \<le> n"
  shows "length r < length s"
proof -
  let ?w = "takeWhile (\<lambda>c. c \<noteq> nl) s"
  let ?k = "if length ?w < length s then Suc (length ?w) else length ?w"
  from assms have s: "s \<noteq> []" by (auto simp: fgets_def)
  then have "0 < ?k" by auto
  with assms(2) have "0 < min (n - 1) ?k" by simp
  moreover from assms s have "r = drop (min (n - 1) ?k) s"
    by (simp add: fgets_def Let_def)
  ultimately show ?thesis using s by (simp only: length_drop) auto
qed

definition MAX_BUF :: nat where
  "MAX_BUF = 4096"

lemma MAX_BUF_ge2 [simp]: "2 \<le> MAX_BUF"
  by (simp add: MAX_BUF_def)

text \<open>\<^verbatim>\<open>snprintf(buf, n, "%s", s)\<close> keeps at most \<open>n - 1\<close> characters.\<close>

definition snprintf_s :: "nat \<Rightarrow> string \<Rightarrow> string" where
  "snprintf_s n s = take (n - 1) s"

lemma length_snprintf_s: "0 < n \<Longrightarrow> length (snprintf_s n s) < n"
  by (auto simp: snprintf_s_def)

end
