(* ===== verification/Jsmn.thy ===== *)
theory Jsmn
  imports CString
begin

text \<open>
  The JSON tokenizer (\<^verbatim>\<open>src/jsmn.c\<close>, compiled without strict mode and parent links): a
  single pass over the text that fills an array of tokens, each with the place of its first
  character and the place behind its last one. The tokens allocated so far are a list; what
  the array holds behind them is indeterminate. The state of the parser is the position and
  the superior token. Called with an array the number of tokens is what it returns; errors
  are negative numbers.
\<close>

section \<open>Tokens\<close>

datatype jsmntype = JSMN_PRIMITIVE | JSMN_OBJECT | JSMN_ARRAY | JSMN_STRING

definition JSMN_ERROR_NOMEM :: int where
  "JSMN_ERROR_NOMEM = -1"

definition JSMN_ERROR_INVAL :: int where
  "JSMN_ERROR_INVAL = -2"

definition JSMN_ERROR_PART :: int where
  "JSMN_ERROR_PART = -3"

record jsmntok =
  tk_type :: jsmntype
  tk_start :: int
  tk_end :: int
  tk_size :: nat

definition tok_open :: "jsmntok \<Rightarrow> bool" where
  "tok_open t \<longleftrightarrow> tk_start t \<noteq> -1 \<and> tk_end t = -1"

text \<open>A token of the array; the ones that are not allocated must not be read.\<close>

definition token_at :: "jsmntok list \<Rightarrow> int \<Rightarrow> jsmntok result" where
  "token_at toks i = (if 0 \<le> i \<and> nat i < length toks then Ok (toks ! nat i) else Undef)"

text \<open>\<^verbatim>\<open>jsmn_alloc_token\<close> with its result filled in; \<open>None\<close> when the array is full.\<close>

definition jsmn_alloc_token :: "nat \<Rightarrow> jsmntok list \<Rightarrow> jsmntype \<Rightarrow> int \<Rightarrow> int \<Rightarrow> jsmntok list option" where
  "jsmn_alloc_token num toks ty start stop =
     (if num \<le> length toks then None
      else Some (toks @ [\<lparr>tk_type = ty, tk_start = start, tk_end = stop, tk_size = 0\<rparr>]))"

text \<open>The superior token counts its parts.\<close>

definition count_part :: "int \<Rightarrow> jsmntok list \<Rightarrow> jsmntok list result" where
  "count_part super toks =
     (if super = -1 then Ok toks
      else rbind (token_at toks super) (\<lambda>t. Ok (toks[nat super := t\<lparr>tk_size := tk_size t + 1\<rparr>])))"

text \<open>The last token of the array that satisfies \<open>P\<close>.\<close>

fun last_index :: "('a \<Rightarrow> bool) \<Rightarrow> 'a list \<Rightarrow> nat option" where
  "last_index P [] = None"
| "last_index P (x # xs) = (case last_index P xs of
     Some i \<Rightarrow> Some (Suc i)
   | None \<Rightarrow> if P x then Some 0 else None)"

section \<open>Scanning\<close>

definition json_delim :: "char \<Rightarrow> bool" where
  "json_delim c \<longleftrightarrow> c \<in> {CHR '':'', CHR 0x09, CHR 0x0D, nl, CHR '' '', CHR '','', CHR '']'', CHR ''}''}"

text \<open>The place behind a primitive; a character that is not printable is an error.\<close>

fun primitive_scan :: "string \<Rightarrow> nat \<Rightarrow> nat option" where
  "primitive_scan [] pos = Some pos"
| "primitive_scan (c # s) pos =
     (if c = NUL \<or> json_delim c then Some pos
      else if cc c < 32 \<or> 127 \<le> cc c then None
      else primitive_scan s (Suc pos))"

definition json_hex :: "char \<Rightarrow> bool" where
  "json_hex c \<longleftrightarrow> 48 \<le> cc c \<and> cc c \<le> 57 \<or> 65 \<le> cc c \<and> cc c \<le> 70 \<or> 97 \<le> cc c \<and> cc c \<le> 102"

text \<open>
  Up to four hexadecimal digits and how many there were; \<open>None\<close> when another character
  stands among them.
\<close>

fun hex_digits4 :: "nat \<Rightarrow> string \<Rightarrow> nat option" where
  "hex_digits4 0 s = Some 0"
| "hex_digits4 (Suc k) [] = Some 0"
| "hex_digits4 (Suc k) (c # s) =
     (if c = NUL then Some 0 else if \<not> json_hex c then None else map_option Suc (hex_digits4 k s))"

text \<open>The place of the quote that ends a string, from behind the one that starts it.\<close>

function string_scan :: "string \<Rightarrow> nat \<Rightarrow> int + nat" where
  "string_scan [] pos = Inl JSMN_ERROR_PART"
| "string_scan (c # s) pos =
     (if c = NUL then Inl JSMN_ERROR_PART
      else if c = CHR 0x22 then Inr pos
      else if c = CHR 0x5C \<and> s \<noteq> [] then
        (let e = hd s in
         if e \<in> {CHR 0x22, CHR ''/'', CHR 0x5C, CHR ''b'', CHR ''f'', CHR ''r'', CHR ''n'', CHR ''t''}
         then string_scan (tl s) (pos + 2)
         else if e = CHR ''u'' then
           (case hex_digits4 4 (tl s) of
              None \<Rightarrow> Inl JSMN_ERROR_INVAL
            | Some k \<Rightarrow> string_scan (drop k (tl s)) (pos + 2 + k))
         else Inl JSMN_ERROR_INVAL)
      else string_scan s (Suc pos))"
  by pat_completeness auto
termination
  by (relation "measure (\<lambda>(s, pos). length s)") auto

declare string_scan.simps [simp del]

text \<open>
  Both parsers give the place where the main loop goes on, which for a primitive is the
  character that ended it.
\<close>

definition jsmn_parse_primitive :: "string \<Rightarrow> nat \<Rightarrow> nat \<Rightarrow> jsmntok list \<Rightarrow> int + nat \<times> jsmntok list" where
  "jsmn_parse_primitive js num pos toks =
     (case primitive_scan (drop pos js) pos of
        None \<Rightarrow> Inl JSMN_ERROR_INVAL
      | Some p \<Rightarrow> (case jsmn_alloc_token num toks JSMN_PRIMITIVE (int pos) (int p) of
          None \<Rightarrow> Inl JSMN_ERROR_NOMEM
        | Some toks' \<Rightarrow> Inr (p, toks')))"

definition jsmn_parse_string :: "string \<Rightarrow> nat \<Rightarrow> nat \<Rightarrow> jsmntok list \<Rightarrow> int + nat \<times> jsmntok list" where
  "jsmn_parse_string js num pos toks =
     (case string_scan (drop (Suc pos) js) (Suc pos) of
        Inl r \<Rightarrow> Inl r
      | Inr p \<Rightarrow> (case jsmn_alloc_token num toks JSMN_STRING (int pos + 1) (int p) of
          None \<Rightarrow> Inl JSMN_ERROR_NOMEM
        | Some toks' \<Rightarrow> Inr (Suc p, toks')))"

lemma primitive_scan_ge: "primitive_scan s pos = Some p \<Longrightarrow> pos \<le> p \<and> p \<le> pos + length s"
  by (induction s pos rule: primitive_scan.induct) (fastforce split: if_splits)+

lemma hex_digits4_le: "hex_digits4 k s = Some n \<Longrightarrow> n \<le> length s"
  by (induction k s arbitrary: n rule: hex_digits4.induct) (auto split: if_splits)

lemma string_scan_ge: "string_scan s pos = Inr p \<Longrightarrow> pos \<le> p \<and> p < pos + length s \<and> s ! (p - pos) = CHR 0x22"
proof (induction s pos arbitrary: p rule: string_scan.induct)
  case (1 pos)
  then show ?case by (simp add: string_scan.simps)
next
  case (2 c s pos)
  have step: "pos \<le> p \<and> p < pos + length (c # s) \<and> (c # s) ! (p - pos) = CHR 0x22"
    if "pos + Suc k \<le> p \<and> p < pos + Suc k + length (drop k s) \<and> drop k s ! (p - (pos + Suc k)) = CHR 0x22"
      "k \<le> length s" for k
  proof -
    have "(c # s) ! (p - pos) = s ! (p - pos - 1)" using that(1) by (simp add: nth_Cons')
    also have "\<dots> = drop k s ! (p - (pos + Suc k))" using that by (simp add: algebra_simps)
    finally show ?thesis using that by auto
  qed
  from "2.prems" consider "c = CHR 0x22" "p = pos"
    | "c \<noteq> NUL" "c \<noteq> CHR 0x22" "\<not> (c = CHR 0x5C \<and> s \<noteq> [])" "string_scan s (Suc pos) = Inr p"
    | "s \<noteq> []" "string_scan (tl s) (pos + 2) = Inr p" "c = CHR 0x5C" "hd s \<in> {CHR 0x22, CHR ''/'', CHR 0x5C, CHR ''b'', CHR ''f'', CHR ''r'', CHR ''n'', CHR ''t''}"
    | k where "s \<noteq> []" "hex_digits4 4 (tl s) = Some k" "string_scan (drop k (tl s)) (pos + 2 + k) = Inr p" "c = CHR 0x5C" "hd s = CHR ''u''"
    by (auto simp: string_scan.simps(2) Let_def split: if_splits option.splits)
  then show ?case
  proof cases
    case 2
    then show ?thesis using "2.IH"(3) [of p] step [of 0] by (auto simp: NUL_def)
  next
    case 3
    then have "pos + 2 \<le> p \<and> p < pos + 2 + length (tl s) \<and> tl s ! (p - (pos + 2)) = CHR 0x22"
      using "2.IH"(1) [OF _ _ _ refl, of p] by (simp add: NUL_def)
    then show ?thesis using step [of 1] 3(1) by (cases s) (auto simp: drop_Suc)
  next
    case 4
    then have ih: "pos + 2 + k \<le> p \<and> p < pos + 2 + k + length (drop k (tl s)) \<and> drop k (tl s) ! (p - (pos + 2 + k)) = CHR 0x22"
      using "2.IH"(2) [OF _ _ _ refl _ _ 4(2), of p] by (simp add: NUL_def)
    have k: "pos + Suc (Suc k) = pos + 2 + k" by simp
    have "Suc k \<le> length s" using hex_digits4_le [OF 4(2)] 4(1) by (cases s) auto
    then show ?thesis using step [of "Suc k"] ih unfolding k drop_Suc by blast
  qed auto
qed

section \<open>The parser\<close>

definition at_end :: "string \<Rightarrow> nat \<Rightarrow> bool" where
  "at_end js pos \<longleftrightarrow> length js \<le> pos \<or> js ! pos = NUL"

text \<open>
  One step of the loop, at a character \<open>c\<close>: the position behind it, the superior token, the
  tokens and the number of parts found, or an error.
\<close>

definition open_token :: "nat \<Rightarrow> char \<Rightarrow> nat \<Rightarrow> int \<Rightarrow> jsmntok list \<Rightarrow> (int + nat \<times> int \<times> jsmntok list) result" where
  "open_token num c pos super toks =
     (case jsmn_alloc_token num toks (if c = CHR 0x7B then JSMN_OBJECT else JSMN_ARRAY) (int pos) (-1) of
        None \<Rightarrow> Ok (Inl JSMN_ERROR_NOMEM)
      | Some toks' \<Rightarrow> rbind (count_part super toks') (\<lambda>toks''.
          Ok (Inr (Suc pos, int (length toks'') - 1, toks''))))"

definition close_token :: "char \<Rightarrow> nat \<Rightarrow> jsmntok list \<Rightarrow> (int + nat \<times> int \<times> jsmntok list) result" where
  "close_token c pos toks =
     (case last_index tok_open toks of
        None \<Rightarrow> Ok (Inl JSMN_ERROR_INVAL)
      | Some i \<Rightarrow>
          if tk_type (toks ! i) \<noteq> (if c = CHR ''}'' then JSMN_OBJECT else JSMN_ARRAY) then Ok (Inl JSMN_ERROR_INVAL)
          else let toks' = toks[i := (toks ! i)\<lparr>tk_end := int pos + 1\<rparr>]
               in Ok (Inr (Suc pos,
                    (case last_index tok_open (take (Suc i) toks') of None \<Rightarrow> -1 | Some j \<Rightarrow> int j), toks')))"

definition comma_token :: "nat \<Rightarrow> int \<Rightarrow> jsmntok list \<Rightarrow> (int + nat \<times> int \<times> jsmntok list) result" where
  "comma_token pos super toks =
     rbind (token_at toks super) (\<lambda>t.
       Ok (Inr (Suc pos,
         (if tk_type t \<in> {JSMN_ARRAY, JSMN_OBJECT} then super
          else case last_index (\<lambda>t. tk_type t \<in> {JSMN_ARRAY, JSMN_OBJECT} \<and> tok_open t) toks of
            Some j \<Rightarrow> int j
          | None \<Rightarrow> super), toks)))"

definition part_token :: "(int + nat \<times> jsmntok list) \<Rightarrow> int \<Rightarrow> (int + nat \<times> int \<times> jsmntok list) result" where
  "part_token parsed super =
     (case parsed of
        Inl r \<Rightarrow> Ok (Inl r)
      | Inr (p, toks') \<Rightarrow> rbind (count_part super toks') (\<lambda>toks''. Ok (Inr (p, super, toks''))))"

definition jsmn_step :: "string \<Rightarrow> nat \<Rightarrow> nat \<Rightarrow> int \<Rightarrow> jsmntok list \<Rightarrow> (int + nat \<times> int \<times> jsmntok list) result" where
  "jsmn_step js num pos super toks =
     (let c = js ! pos in
      if c = CHR 0x7B \<or> c = CHR ''['' then open_token num c pos super toks
      else if c = CHR ''}'' \<or> c = CHR '']'' then close_token c pos toks
      else if c = CHR 0x22 then part_token (jsmn_parse_string js num pos toks) super
      else if c \<in> {CHR 0x09, CHR 0x0D, nl, CHR '' ''} then Ok (Inr (Suc pos, super, toks))
      else if c = CHR '':'' then Ok (Inr (Suc pos, int (length toks) - 1, toks))
      else if c = CHR '','' then comma_token pos super toks
      else part_token (jsmn_parse_primitive js num pos toks) super)"

text \<open>Every step moves on.\<close>

lemma primitive_scan_moves:
  assumes "primitive_scan (c # s) pos = Some p" "c \<noteq> NUL" "\<not> json_delim c"
  shows "pos < p"
proof -
  have "primitive_scan s (Suc pos) = Some p" using assms by (auto split: if_splits)
  from primitive_scan_ge [OF this] show ?thesis by simp
qed

lemma jsmn_step_moves:
  assumes "jsmn_step js num pos super toks = Ok (Inr (pos', super', toks'))" "\<not> at_end js pos"
  shows "pos < pos' \<and> pos' \<le> length js"
proof -
  have pos: "pos < length js" "js ! pos \<noteq> NUL" using assms(2) by (simp_all add: at_end_def)
  then obtain s where s: "drop pos js = js ! pos # s" using Cons_nth_drop_Suc [OF pos(1)] by metis
  have str: "pos < p \<and> p \<le> length js" if "jsmn_parse_string js num pos toks = Inr (p, t)" for p t
  proof -
    from that obtain q where "string_scan (drop (Suc pos) js) (Suc pos) = Inr q" "p = Suc q"
      by (auto simp: jsmn_parse_string_def split: sum.splits option.splits)
    with string_scan_ge [of "drop (Suc pos) js" "Suc pos" q] pos(1) show ?thesis by auto
  qed
  have prim: "pos < p \<and> p \<le> length js" if "jsmn_parse_primitive js num pos toks = Inr (p, t)" "\<not> json_delim (js ! pos)" for p t
  proof -
    from that have "primitive_scan (drop pos js) pos = Some p"
      by (auto simp: jsmn_parse_primitive_def split: option.splits)
    moreover from primitive_scan_ge [OF this] have "p \<le> length js" using pos(1) by simp
    ultimately show ?thesis using primitive_scan_moves [of "js ! pos" s pos p] that(2) pos s by simp
  qed
  show ?thesis
    using assms(1) pos str prim
    by (auto simp: jsmn_step_def open_token_def close_token_def comma_token_def part_token_def Let_def rbind_Ok_iff json_delim_def
        split: if_splits option.splits sum.splits prod.splits)
qed

function jsmn_loop :: "string \<Rightarrow> nat \<Rightarrow> nat \<Rightarrow> int \<Rightarrow> jsmntok list \<Rightarrow> (int \<times> jsmntok list) result" where
  "jsmn_loop js num pos super toks =
     (if at_end js pos then Ok (if list_ex tok_open toks then JSMN_ERROR_PART else int (length toks), toks)
      else case jsmn_step js num pos super toks of
        Ok (Inl r) \<Rightarrow> Ok (r, toks)
      | Ok (Inr (pos', super', toks')) \<Rightarrow> jsmn_loop js num pos' super' toks'
      | Exit n \<Rightarrow> Exit n
      | Undef \<Rightarrow> Undef)"
  by pat_completeness auto
termination
  by (relation "measure (\<lambda>(js, num, pos, super, toks). length js - pos)")
     (auto dest!: jsmn_step_moves simp: at_end_def)

declare jsmn_loop.simps [simp del]

text \<open>
  \<^verbatim>\<open>jsmn_parse\<close> of a fresh parser over an array of \<open>num\<close> tokens. Every token counts once, so
  the count is the number of tokens.
\<close>

definition jsmn_parse :: "string \<Rightarrow> nat \<Rightarrow> (int \<times> jsmntok list) result" where
  "jsmn_parse js num = jsmn_loop js num 0 (-1) []"

section \<open>Well-formed tokens\<close>

text \<open>
  Where a token stands in the text. While it is open only its start is known.
\<close>

definition tok_ok :: "string \<Rightarrow> nat \<Rightarrow> jsmntok \<Rightarrow> bool" where
  "tok_ok js pos t \<longleftrightarrow> 0 \<le> tk_start t \<and> tk_start t \<le> int pos \<and>
     (case tk_type t of
        JSMN_STRING \<Rightarrow> 0 < tk_start t \<and> tk_start t \<le> tk_end t \<and> tk_end t < int pos \<and>
          js ! nat (tk_start t - 1) = CHR 0x22 \<and> js ! nat (tk_end t) = CHR 0x22
      | JSMN_PRIMITIVE \<Rightarrow> tk_start t < tk_end t \<and> tk_end t \<le> int pos
      | JSMN_OBJECT \<Rightarrow> js ! nat (tk_start t) = CHR 0x7B \<and> tk_start t < int pos \<and>
          (tk_end t = -1 \<or> tk_start t + 1 < tk_end t \<and> tk_end t \<le> int pos \<and> js ! nat (tk_end t - 1) = CHR ''}'')
      | JSMN_ARRAY \<Rightarrow> js ! nat (tk_start t) = CHR ''['' \<and> tk_start t < int pos \<and>
          (tk_end t = -1 \<or> tk_start t + 1 < tk_end t \<and> tk_end t \<le> int pos \<and> js ! nat (tk_end t - 1) = CHR '']''))"

definition parser_inv :: "string \<Rightarrow> nat \<Rightarrow> nat \<Rightarrow> int \<Rightarrow> jsmntok list \<Rightarrow> bool" where
  "parser_inv js num pos super toks \<longleftrightarrow> pos \<le> length js \<and> length toks \<le> num \<and>
     list_all (tok_ok js pos) toks \<and> -1 \<le> super \<and> super < int (length toks)"

lemma tok_ok_mono: "tok_ok js pos t \<Longrightarrow> pos \<le> pos' \<Longrightarrow> tok_ok js pos' t"
  by (auto simp: tok_ok_def split: jsmntype.splits)

lemma tok_ok_size [simp]: "tok_ok js pos (t\<lparr>tk_size := n\<rparr>) = tok_ok js pos t"
  by (simp add: tok_ok_def split: jsmntype.split)

lemma last_index_Some: "last_index P xs = Some i \<Longrightarrow> i < length xs \<and> P (xs ! i)"
  by (induction xs arbitrary: i) (auto split: option.splits if_splits)

lemma count_part_ok:
  assumes "super < int (length toks)" "-1 \<le> super" "list_all (tok_ok js pos) toks"
  shows "\<exists>toks'. count_part super toks = Ok toks' \<and> length toks' = length toks \<and> list_all (tok_ok js pos) toks'"
proof (cases "super = -1")
  case False
  with assms have "nat super < length toks" by simp
  with assms False show ?thesis
    by (auto simp: count_part_def token_at_def list_all_length nth_list_update)
qed (use assms in \<open>simp add: count_part_def\<close>)

text \<open>
  One step keeps the invariant, and the only memory it reads outside the tokens is at a comma
  without a superior token.
\<close>

definition stray_comma :: "string \<Rightarrow> nat \<Rightarrow> int \<Rightarrow> bool" where
  "stray_comma js pos super \<longleftrightarrow> js ! pos = CHR '','' \<and> super = -1"

lemma alloc_ok:
  "jsmn_alloc_token num toks ty a b = Some toks' \<Longrightarrow> list_all (tok_ok js pos) toks \<Longrightarrow>
   tok_ok js pos \<lparr>tk_type = ty, tk_start = a, tk_end = b, tk_size = 0\<rparr> \<Longrightarrow>
   list_all (tok_ok js pos) toks' \<and> length toks' = Suc (length toks) \<and> length toks' \<le> num"
  by (auto simp: jsmn_alloc_token_def split: if_splits)

definition step_ok :: "string \<Rightarrow> nat \<Rightarrow> (int + nat \<times> int \<times> jsmntok list) result \<Rightarrow> bool" where
  "step_ok js num r \<longleftrightarrow> (\<exists>x. r = Ok x \<and> (case x of Inl n \<Rightarrow> n < 0
     | Inr (pos, super, toks) \<Rightarrow> parser_inv js num pos super toks))"

lemmas error_codes = JSMN_ERROR_NOMEM_def JSMN_ERROR_INVAL_def JSMN_ERROR_PART_def

lemma step_ok_error [simp]: "n < 0 \<Longrightarrow> step_ok js num (Ok (Inl n))"
  by (simp add: step_ok_def)

lemma part_token_ok:
  assumes "-1 \<le> super" "super < int (length toks)"
    and "case parsed of Inl n \<Rightarrow> n < 0
      | Inr (p, toks') \<Rightarrow> list_all (tok_ok js p) toks' \<and> length toks' = Suc (length toks) \<and> length toks' \<le> num \<and> p \<le> length js"
  shows "step_ok js num (part_token parsed super)"
proof (cases parsed)
  case (Inr pt)
  obtain p toks' where pt: "pt = (p, toks')" by fastforce
  with Inr assms(3) have t: "list_all (tok_ok js p) toks'" "length toks' = Suc (length toks)" "length toks' \<le> num" "p \<le> length js"
    by simp_all
  obtain toks'' where "count_part super toks' = Ok toks''" "length toks'' = length toks'" "list_all (tok_ok js p) toks''"
    using count_part_ok [of super toks' js p] assms(1,2) t(1,2) by auto
  with Inr pt t assms(1,2) show ?thesis by (simp add: part_token_def step_ok_def parser_inv_def)
qed (use assms in \<open>simp add: part_token_def\<close>)

lemma string_token_ok:
  assumes "parser_inv js num pos super toks" "\<not> at_end js pos" "js ! pos = CHR 0x22"
  shows "step_ok js num (part_token (jsmn_parse_string js num pos toks) super)"
proof (rule part_token_ok [of super toks])
  have pos: "pos < length js" using assms(2) by (simp add: at_end_def)
  have err: "string_scan s q = Inl n \<Longrightarrow> n < 0" for s q n
    by (induction s q rule: string_scan.induct)
      (auto simp: string_scan.simps Let_def error_codes split: if_splits option.splits)
  show "case jsmn_parse_string js num pos toks of Inl n \<Rightarrow> n < 0
      | Inr (p, toks') \<Rightarrow> list_all (tok_ok js p) toks' \<and> length toks' = Suc (length toks) \<and> length toks' \<le> num \<and> p \<le> length js"
  proof (cases "string_scan (drop (Suc pos) js) (Suc pos)")
    case (Inl n)
    with err show ?thesis by (auto simp: jsmn_parse_string_def)
  next
    case (Inr p)
    from string_scan_ge [OF this] pos have p: "Suc pos \<le> p" "p < length js" "js ! p = CHR 0x22" by auto
    then have "tok_ok js (Suc p) \<lparr>tk_type = JSMN_STRING, tk_start = int pos + 1, tk_end = int p, tk_size = 0\<rparr>"
      using assms(3) by (simp add: tok_ok_def)
    moreover have "list_all (tok_ok js (Suc p)) toks"
      using assms(1) p(1) by (auto simp: parser_inv_def list_all_iff intro: tok_ok_mono)
    ultimately show ?thesis
      using Inr p(2) alloc_ok [of num toks JSMN_STRING "int pos + 1" "int p" _ js "Suc p"]
      by (auto simp: jsmn_parse_string_def error_codes split: option.split)
  qed
qed (use assms(1) in \<open>simp_all add: parser_inv_def\<close>)

lemma primitive_token_ok:
  assumes "parser_inv js num pos super toks" "\<not> at_end js pos" "\<not> json_delim (js ! pos)"
  shows "step_ok js num (part_token (jsmn_parse_primitive js num pos toks) super)"
proof (rule part_token_ok [of super toks])
  have pos: "pos < length js" "js ! pos \<noteq> NUL" using assms(2) by (simp_all add: at_end_def)
  show "case jsmn_parse_primitive js num pos toks of Inl n \<Rightarrow> n < 0
      | Inr (p, toks') \<Rightarrow> list_all (tok_ok js p) toks' \<and> length toks' = Suc (length toks) \<and> length toks' \<le> num \<and> p \<le> length js"
  proof (cases "primitive_scan (drop pos js) pos")
    case None
    then show ?thesis by (simp add: jsmn_parse_primitive_def error_codes)
  next
    case (Some p)
    have "primitive_scan (js ! pos # drop (Suc pos) js) pos = Some p" using Some pos(1) by (simp add: Cons_nth_drop_Suc)
    from primitive_scan_moves [OF this pos(2) assms(3)] have p: "pos < p" "p \<le> length js"
      using primitive_scan_ge [OF Some] pos(1) by simp_all
    then have "tok_ok js p \<lparr>tk_type = JSMN_PRIMITIVE, tk_start = int pos, tk_end = int p, tk_size = 0\<rparr>"
      by (simp add: tok_ok_def)
    moreover have "list_all (tok_ok js p) toks"
      using assms(1) p(1) by (auto simp: parser_inv_def list_all_iff intro: tok_ok_mono)
    ultimately show ?thesis
      using Some p(2) alloc_ok [of num toks JSMN_PRIMITIVE "int pos" "int p" _ js p]
      by (auto simp: jsmn_parse_primitive_def error_codes split: option.split)
  qed
qed (use assms(1) in \<open>simp_all add: parser_inv_def\<close>)

lemma open_token_ok:
  assumes "parser_inv js num pos super toks" "\<not> at_end js pos" "js ! pos = c" "c = CHR 0x7B \<or> c = CHR ''[''"
  shows "step_ok js num (open_token num c pos super toks)"
proof -
  let ?ty = "if c = CHR 0x7B then JSMN_OBJECT else JSMN_ARRAY"
  have pos: "pos < length js" using assms(2) by (simp add: at_end_def)
  show ?thesis
  proof (cases "jsmn_alloc_token num toks ?ty (int pos) (-1)")
    case None
    then show ?thesis by (simp add: open_token_def error_codes)
  next
    case (Some toks')
    have "tok_ok js (Suc pos) \<lparr>tk_type = ?ty, tk_start = int pos, tk_end = -1, tk_size = 0\<rparr>"
      using assms(3,4) by (auto simp: tok_ok_def)
    moreover have "list_all (tok_ok js (Suc pos)) toks"
      using assms(1) by (auto simp: parser_inv_def list_all_iff intro: tok_ok_mono)
    ultimately have t: "list_all (tok_ok js (Suc pos)) toks'" "length toks' = Suc (length toks)" "length toks' \<le> num"
      using alloc_ok [OF Some, of js "Suc pos"] by auto
    obtain toks'' where "count_part super toks' = Ok toks''" "length toks'' = length toks'" "list_all (tok_ok js (Suc pos)) toks''"
      using count_part_ok [of super toks' js "Suc pos"] assms(1) t(1,2) by (auto simp: parser_inv_def)
    with Some t pos show ?thesis by (simp add: open_token_def step_ok_def parser_inv_def)
  qed
qed

lemma close_token_ok:
  assumes "parser_inv js num pos super toks" "\<not> at_end js pos" "js ! pos = c" "c = CHR ''}'' \<or> c = CHR '']''"
  shows "step_ok js num (close_token c pos toks)"
proof -
  have pos: "pos < length js" using assms(2) by (simp add: at_end_def)
  show ?thesis
  proof (cases "last_index tok_open toks")
    case None
    then show ?thesis by (simp add: close_token_def error_codes)
  next
    case (Some i)
    then have i: "i < length toks" "tok_open (toks ! i)" using last_index_Some by auto
    let ?t = "(toks ! i)\<lparr>tk_end := int pos + 1\<rparr>"
    let ?toks = "toks[i := ?t]"
    show ?thesis
    proof (cases "tk_type (toks ! i) = (if c = CHR ''}'' then JSMN_OBJECT else JSMN_ARRAY)")
      case False
      with Some show ?thesis by (simp add: close_token_def error_codes)
    next
      case True
      have "tok_ok js pos (toks ! i)" using assms(1) i(1) by (simp add: parser_inv_def list_all_length)
      then have "tok_ok js (Suc pos) ?t"
        using True assms(3,4) by (auto simp: tok_ok_def split: if_splits)
      moreover have "list_all (tok_ok js (Suc pos)) toks"
        using assms(1) by (auto simp: parser_inv_def list_all_iff intro: tok_ok_mono)
      ultimately have "list_all (tok_ok js (Suc pos)) ?toks" using i(1) by (simp add: list_all_length nth_list_update)
      moreover have "j < length toks" if "last_index tok_open (take (Suc i) ?toks) = Some j" for j
        using last_index_Some [OF that] i(1) by simp
      ultimately have "parser_inv js num (Suc pos)
          (case last_index tok_open (take (Suc i) ?toks) of None \<Rightarrow> -1 | Some j \<Rightarrow> int j) ?toks"
        using assms(1) pos by (auto simp: parser_inv_def split: option.split)
      with Some True show ?thesis by (simp add: close_token_def step_ok_def Let_def)
    qed
  qed
qed

lemma comma_token_ok:
  assumes "parser_inv js num pos super toks" "\<not> at_end js pos" "super \<noteq> -1"
  shows "step_ok js num (comma_token pos super toks)"
proof -
  have pos: "pos < length js" using assms(2) by (simp add: at_end_def)
  have "list_all (tok_ok js (Suc pos)) toks"
    using assms(1) by (auto simp: parser_inv_def list_all_iff intro: tok_ok_mono)
  then show ?thesis
    using assms(1,3) pos last_index_Some
    by (auto simp: comma_token_def token_at_def step_ok_def parser_inv_def split: option.split)
qed

lemma jsmn_step_ok:
  assumes "parser_inv js num pos super toks" "\<not> at_end js pos" "\<not> stray_comma js pos super"
  shows "step_ok js num (jsmn_step js num pos super toks)"
proof -
  have pos: "pos < length js" using assms(2) by (simp add: at_end_def)
  have "list_all (tok_ok js (Suc pos)) toks"
    using assms(1) by (auto simp: parser_inv_def list_all_iff intro: tok_ok_mono)
  then have skip: "step_ok js num (Ok (Inr (Suc pos, super', toks)))" if "-1 \<le> super'" "super' < int (length toks)" for super'
    using assms(1) pos that by (simp add: step_ok_def parser_inv_def)
  show ?thesis
    using assms open_token_ok [OF assms(1,2) refl] close_token_ok [OF assms(1,2) refl] string_token_ok [OF assms(1,2)]
      comma_token_ok [OF assms(1,2)] primitive_token_ok [OF assms(1,2)]
    by (auto simp: jsmn_step_def Let_def stray_comma_def json_delim_def parser_inv_def intro!: skip)
qed

section \<open>What the parser guarantees\<close>

text \<open>The states the parser passes through.\<close>

inductive jsmn_reach :: "string \<Rightarrow> nat \<Rightarrow> nat \<Rightarrow> int \<Rightarrow> jsmntok list \<Rightarrow> bool" for js :: string and num :: nat where
  init: "jsmn_reach js num 0 (-1) []"
| move: "jsmn_reach js num pos super toks \<Longrightarrow> \<not> at_end js pos \<Longrightarrow>
    jsmn_step js num pos super toks = Ok (Inr (pos', super', toks')) \<Longrightarrow> jsmn_reach js num pos' super' toks'"

lemma reach_loop: "jsmn_reach js num pos super toks \<Longrightarrow> jsmn_parse js num = jsmn_loop js num pos super toks"
  by (induction rule: jsmn_reach.induct) (simp add: jsmn_parse_def, simp add: jsmn_loop.simps)

lemma loop_outcome:
  assumes "jsmn_reach js num pos super toks" "parser_inv js num pos super toks"
  shows "(\<exists>pos toks. jsmn_reach js num pos (-1) toks \<and> \<not> at_end js pos \<and> js ! pos = CHR '','' \<and> jsmn_loop js num pos (-1) toks = Undef) \<and>
      jsmn_loop js num pos super toks = Undef \<or>
    (\<exists>r toks'. jsmn_loop js num pos super toks = Ok (r, toks') \<and>
      (r < 0 \<or> r = int (length toks') \<and> length toks' \<le> num \<and> list_all (\<lambda>t. tok_ok js (length js) t \<and> \<not> tok_open t) toks'))"
  using assms
proof (induction js num pos super toks rule: jsmn_loop.induct)
  case (1 js num pos super toks)
  show ?case
  proof (cases "at_end js pos")
    case True
    have "list_all (\<lambda>t. tok_ok js (length js) t \<and> \<not> tok_open t) toks" if "\<not> list_ex tok_open toks"
      using "1.prems"(2) that by (auto simp: parser_inv_def list_all_iff list_ex_iff intro: tok_ok_mono)
    with True "1.prems"(2) show ?thesis
      by (simp add: jsmn_loop.simps [of js num pos] parser_inv_def error_codes)
  next
    case False
    show ?thesis
    proof (cases "stray_comma js pos super")
      case True
      then have "jsmn_loop js num pos super toks = Undef"
        using False by (simp add: jsmn_loop.simps [of js num pos] jsmn_step_def comma_token_def token_at_def stray_comma_def Let_def nl_def)
      with True False "1.prems"(1) show ?thesis by (auto simp: stray_comma_def)
    next
      case nostray: False
      obtain x where x: "jsmn_step js num pos super toks = Ok x"
        "case x of Inl n \<Rightarrow> n < 0 | Inr (pos, super, toks) \<Rightarrow> parser_inv js num pos super toks"
        using jsmn_step_ok [OF "1.prems"(2) False nostray] unfolding step_ok_def by blast
      show ?thesis
      proof (cases x)
        case (Inl n)
        with x False show ?thesis by (simp add: jsmn_loop.simps [of js num pos])
      next
        case (Inr y)
        obtain pos' super' toks' where y: "y = (pos', super', toks')" by (cases y)
        have "jsmn_loop js num pos super toks = jsmn_loop js num pos' super' toks'"
          using False x(1) Inr y by (simp add: jsmn_loop.simps [of js num pos])
        moreover have "jsmn_reach js num pos' super' toks'"
          using jsmn_reach.move [OF "1.prems"(1) False] x(1) Inr y by simp
        ultimately show ?thesis
          using "1.IH" [OF False x(1) Inr y [symmetric] refl] x(2) Inr y by simp
      qed
    qed
  qed
qed

text \<open>Without a superior token nothing is open.\<close>

lemma last_index_None: "last_index P xs = None \<longleftrightarrow> \<not> list_ex P xs"
  by (induction xs) (auto split: option.splits)

lemma last_index_last: "last_index P xs = Some i \<Longrightarrow> \<not> list_ex P (drop (Suc i) xs)"
proof (induction xs arbitrary: i)
  case (Cons x xs)
  then show ?case by (auto simp: last_index_None split: option.splits if_splits)
qed simp

lemma count_part_open: "count_part super toks = Ok toks' \<Longrightarrow> super \<noteq> -1 \<or> toks' = toks"
  by (auto simp: count_part_def)

lemma step_closed:
  assumes "jsmn_step js num pos super toks = Ok (Inr (pos', super', toks'))"
    and "super = -1 \<Longrightarrow> \<not> list_ex tok_open toks" "super' = -1"
  shows "\<not> list_ex tok_open toks'"
proof -
  have alloc: "jsmn_alloc_token num t ty a b = Some t' \<Longrightarrow> \<not> list_ex tok_open t \<Longrightarrow> b \<noteq> -1 \<Longrightarrow> \<not> list_ex tok_open t'" for t ty a b t'
    by (auto simp: jsmn_alloc_token_def tok_open_def split: if_splits)
  have part: "\<not> list_ex tok_open toks'" if "part_token parsed super = Ok (Inr (pos', super', toks'))"
    "\<And>p t. parsed = Inr (p, t) \<Longrightarrow> super = -1 \<Longrightarrow> \<not> list_ex tok_open t" for parsed
    using that assms(3) count_part_open by (fastforce simp: part_token_def rbind_Ok_iff split: sum.splits prod.splits)
  have str: "\<not> list_ex tok_open t" if "jsmn_parse_string js num pos toks = Inr (p, t)" "super = -1" for p t
    using that assms(2) alloc [of toks JSMN_STRING "int pos + 1" _ t]
    by (auto simp: jsmn_parse_string_def split: sum.splits option.splits)
  have prim: "\<not> list_ex tok_open t" if "jsmn_parse_primitive js num pos toks = Inr (p, t)" "super = -1" for p t
    using that assms(2) alloc [of toks JSMN_PRIMITIVE "int pos" _ t]
    by (auto simp: jsmn_parse_primitive_def split: option.splits)
  have close: "\<not> list_ex tok_open toks'" if "close_token c pos toks = Ok (Inr (pos', super', toks'))" for c
  proof -
    from that assms(3) obtain i where i: "last_index tok_open toks = Some i"
      "toks' = toks[i := (toks ! i)\<lparr>tk_end := int pos + 1\<rparr>]" "last_index tok_open (take (Suc i) toks') = None"
      by (auto simp: close_token_def Let_def split: option.splits if_splits)
    then have "\<not> list_ex tok_open (take (Suc i) toks')" "\<not> list_ex tok_open (drop (Suc i) toks')"
      using last_index_last [OF i(1)] by (simp_all add: last_index_None)
    then show ?thesis by (metis append_take_drop_id list_ex_append)
  qed
  show ?thesis
    using assms part [OF _ str] part [OF _ prim] close
    by (auto simp: jsmn_step_def Let_def open_token_def comma_token_def token_at_def rbind_Ok_iff
        split: if_splits option.splits)
qed

lemma reach_closed: "jsmn_reach js num pos super toks \<Longrightarrow> super = -1 \<Longrightarrow> \<not> list_ex tok_open toks"
proof (induction rule: jsmn_reach.induct)
  case (move pos super toks pos' super' toks')
  then show ?case using step_closed by blast
qed simp

section \<open>Texts of objects\<close>

text \<open>
  Objects as a server prints them: fields of text in quotes, of bare words and numbers, and
  lists of texts.
\<close>

datatype jval = JText string | JWord string | JList "string list"

definition quoted :: "string \<Rightarrow> string" where
  "quoted s = CHR 0x22 # s @ [CHR 0x22]"

fun json_list :: "string list \<Rightarrow> string" where
  "json_list [] = []"
| "json_list [s] = quoted s"
| "json_list (s # t # ss) = quoted s @ CHR '','' # json_list (t # ss)"

fun json_value :: "jval \<Rightarrow> string" where
  "json_value (JText s) = quoted s"
| "json_value (JWord s) = s"
| "json_value (JList ss) = ''['' @ json_list ss @ '']''"

fun json_fields :: "(string \<times> jval) list \<Rightarrow> string" where
  "json_fields [] = []"
| "json_fields [(k, v)] = quoted k @ CHR '':'' # json_value v"
| "json_fields ((k, v) # f # fs) = quoted k @ CHR '':'' # json_value v @ CHR '','' # json_fields (f # fs)"

definition json_object :: "(string \<times> jval) list \<Rightarrow> string" where
  "json_object fs = CHR 0x7B # json_fields fs @ ''}''"

definition plain_text :: "string \<Rightarrow> bool" where
  "plain_text s \<longleftrightarrow> NUL \<notin> set s \<and> CHR 0x22 \<notin> set s \<and> CHR 0x5C \<notin> set s"

definition plain_word :: "string \<Rightarrow> bool" where
  "plain_word s \<longleftrightarrow> s \<noteq> [] \<and> hd s \<notin> {CHR 0x7B, CHR ''['', CHR 0x22} \<and>
     list_all (\<lambda>c. 32 < cc c \<and> cc c < 127 \<and> \<not> json_delim c) s"

fun plain_value :: "jval \<Rightarrow> bool" where
  "plain_value (JText s) = plain_text s"
| "plain_value (JWord s) = plain_word s"
| "plain_value (JList ss) = list_all plain_text ss"

fun value_tokens :: "jval \<Rightarrow> nat" where
  "value_tokens (JList ss) = 1 + length ss"
| "value_tokens v = 1"

definition object_tokens :: "(string \<times> jval) list \<Rightarrow> nat" where
  "object_tokens fs = 1 + (\<Sum>(k, v) \<leftarrow> fs. 1 + value_tokens v)"

text \<open>The tokens of such a text.\<close>

definition spells :: "string \<Rightarrow> jsmntok \<Rightarrow> jsmntype \<Rightarrow> string \<Rightarrow> bool" where
  "spells js t ty s \<longleftrightarrow> tk_type t = ty \<and> 0 \<le> tk_start t \<and> tk_end t = tk_start t + int (length s) \<and>
     take (length s) (drop (nat (tk_start t)) js) = s"

fun value_match :: "string \<Rightarrow> jval \<Rightarrow> jsmntok list \<Rightarrow> bool" where
  "value_match js (JText s) ts = (\<exists>t. ts = [t] \<and> spells js t JSMN_STRING s)"
| "value_match js (JWord s) ts = (\<exists>t. ts = [t] \<and> spells js t JSMN_PRIMITIVE s)"
| "value_match js (JList ss) ts = (\<exists>a items. ts = a # items \<and> tk_type a = JSMN_ARRAY \<and> tk_size a = length ss \<and>
     list_all2 (\<lambda>t s. spells js t JSMN_STRING s) items ss)"

fun fields_match :: "string \<Rightarrow> (string \<times> jval) list \<Rightarrow> jsmntok list \<Rightarrow> bool" where
  "fields_match js [] ts = (ts = [])"
| "fields_match js ((k, v) # fs) ts = (\<exists>t vs rest. ts = t # vs @ rest \<and> spells js t JSMN_STRING k \<and>
     value_match js v vs \<and> fields_match js fs rest)"

text \<open>Single steps, at a place where the rest of the text is known.\<close>

lemma at_char: "drop pos js = c # r \<Longrightarrow> pos < length js \<and> js ! pos = c \<and> drop (Suc pos) js = r"
  by (metis Cons_nth_drop_Suc drop_all leI list.inject list.distinct(1))

lemma drop_at: "drop pos js = s @ r \<Longrightarrow> drop (pos + length s) js = r"
  by (metis add.commute append_eq_conv_conj drop_drop)

lemma loop_step:
  assumes "drop pos js = c # r" "c \<noteq> NUL" "jsmn_step js num pos super toks = Ok (Inr (pos', super', toks'))"
  shows "jsmn_loop js num pos super toks = jsmn_loop js num pos' super' toks'"
  using at_char [OF assms(1)] assms(2,3) by (simp add: jsmn_loop.simps [of js num pos] at_end_def)

lemma string_scan_plain: "plain_text s \<Longrightarrow> string_scan (s @ CHR 0x22 # r) pos = Inr (pos + length s)"
  by (induction s arbitrary: pos) (auto simp: string_scan.simps plain_text_def NUL_def)

lemma loop_string:
  assumes "drop pos js = quoted s @ r" "plain_text s" "length toks < num" "-1 < super" "super < int (length toks)"
  defines "t \<equiv> \<lparr>tk_type = JSMN_STRING, tk_start = int pos + 1, tk_end = int pos + 1 + int (length s), tk_size = 0\<rparr>"
  shows "jsmn_loop js num pos super toks = jsmn_loop js num (pos + length (quoted s)) super
      (toks[nat super := (toks ! nat super)\<lparr>tk_size := tk_size (toks ! nat super) + 1\<rparr>] @ [t])"
    "spells js t JSMN_STRING s" "drop (pos + length (quoted s)) js = r"
proof -
  have d: "drop pos js = CHR 0x22 # s @ CHR 0x22 # r" using assms(1) by (simp add: quoted_def)
  note c = at_char [OF d]
  have "string_scan (drop (Suc pos) js) (Suc pos) = Inr (Suc pos + length s)"
    using c string_scan_plain [OF assms(2)] by simp
  then have p: "jsmn_parse_string js num pos toks = Inr (Suc (Suc pos + length s), toks @ [t])"
    using assms(3) by (simp add: jsmn_parse_string_def jsmn_alloc_token_def t_def)
  have "nat super < length toks" using assms(4,5) by simp
  then show "jsmn_loop js num pos super toks = jsmn_loop js num (pos + length (quoted s)) super
      (toks[nat super := (toks ! nat super)\<lparr>tk_size := tk_size (toks ! nat super) + 1\<rparr>] @ [t])"
    using c p assms(4,5)
    by (intro loop_step [OF d])
      (simp_all add: NUL_def jsmn_step_def part_token_def count_part_def token_at_def nth_append list_update_append1 quoted_def)
  have "nat (int pos + 1) = Suc pos" by simp
  then show "spells js t JSMN_STRING s" using c by (simp add: spells_def t_def)
  show "drop (pos + length (quoted s)) js = r" by (rule drop_at [OF assms(1)])
qed

lemma primitive_scan_word:
  "list_all (\<lambda>c. 32 < cc c \<and> cc c < 127 \<and> \<not> json_delim c) s \<Longrightarrow> json_delim d \<Longrightarrow>
   primitive_scan (s @ d # r) pos = Some (pos + length s)"
  by (induction s arbitrary: pos) (auto simp: NUL_def cc_def)

lemma loop_word:
  assumes "drop pos js = s @ d # r" "plain_word s" "json_delim d" "length toks < num" "-1 < super" "super < int (length toks)"
  defines "t \<equiv> \<lparr>tk_type = JSMN_PRIMITIVE, tk_start = int pos, tk_end = int pos + int (length s), tk_size = 0\<rparr>"
  shows "jsmn_loop js num pos super toks = jsmn_loop js num (pos + length s) super
      (toks[nat super := (toks ! nat super)\<lparr>tk_size := tk_size (toks ! nat super) + 1\<rparr>] @ [t])"
    "spells js t JSMN_PRIMITIVE s" "drop (pos + length s) js = d # r"
proof -
  obtain c s' where s: "s = c # s'" "c \<notin> {CHR 0x7B, CHR ''['', CHR 0x22}" "\<not> json_delim c" "32 < cc c"
    "list_all (\<lambda>c. 32 < cc c \<and> cc c < 127 \<and> \<not> json_delim c) s"
    using assms(2) by (cases s) (auto simp: plain_word_def)
  have d: "drop pos js = c # s' @ d # r" using assms(1) s(1) by simp
  note a = at_char [OF d]
  have "c \<noteq> NUL" using s(4) by (auto simp: NUL_def cc_def)
  have "primitive_scan (drop pos js) pos = Some (pos + length s)"
    using primitive_scan_word [OF s(5) assms(3)] assms(1) by simp
  then have p: "jsmn_parse_primitive js num pos toks = Inr (pos + length s, toks @ [t])"
    using assms(4) by (simp add: jsmn_parse_primitive_def jsmn_alloc_token_def t_def)
  have "nat super < length toks" using assms(5,6) by simp
  then show "jsmn_loop js num pos super toks = jsmn_loop js num (pos + length s) super
      (toks[nat super := (toks ! nat super)\<lparr>tk_size := tk_size (toks ! nat super) + 1\<rparr>] @ [t])"
    using a p assms(5,6) s(2,3)
    by (intro loop_step [OF d \<open>c \<noteq> NUL\<close>])
      (simp add: jsmn_step_def json_delim_def part_token_def count_part_def token_at_def nth_append list_update_append1)
  show "spells js t JSMN_PRIMITIVE s" using assms(1) by (simp add: spells_def t_def)
  show "drop (pos + length s) js = d # r" by (rule drop_at [OF assms(1)])
qed

lemma loop_colon:
  "drop pos js = CHR '':'' # r \<Longrightarrow>
   jsmn_loop js num pos super toks = jsmn_loop js num (Suc pos) (int (length toks) - 1) toks \<and> drop (Suc pos) js = r"
  using at_char [of pos js "CHR '':''" r] loop_step [of pos js "CHR '':''" r num super toks "Suc pos" "int (length toks) - 1" toks]
  by (simp add: NUL_def jsmn_step_def nl_def)

lemma loop_comma:
  assumes "drop pos js = CHR '','' # r" "token_at toks super = Ok t"
    "tk_type t \<in> {JSMN_ARRAY, JSMN_OBJECT} \<and> super' = super \<or>
     tk_type t \<notin> {JSMN_ARRAY, JSMN_OBJECT} \<and>
       last_index (\<lambda>t. tk_type t \<in> {JSMN_ARRAY, JSMN_OBJECT} \<and> tok_open t) toks = Some (nat super') \<and> 0 \<le> super'"
  shows "jsmn_loop js num pos super toks = jsmn_loop js num (Suc pos) super' toks" "drop (Suc pos) js = r"
proof -
  have "comma_token pos super toks = Ok (Inr (Suc pos, super', toks))"
    using assms(2,3) by (auto simp: comma_token_def)
  then show "jsmn_loop js num pos super toks = jsmn_loop js num (Suc pos) super' toks"
    using at_char [OF assms(1)] by (intro loop_step [OF assms(1)]) (simp_all add: NUL_def jsmn_step_def nl_def)
qed (use at_char [OF assms(1)] in simp)

lemma loop_open:
  assumes "drop pos js = CHR ''['' # r" "length toks < num" "-1 < super" "super < int (length toks)"
  shows "jsmn_loop js num pos super toks = jsmn_loop js num (Suc pos) (int (length toks))
      (toks[nat super := (toks ! nat super)\<lparr>tk_size := tk_size (toks ! nat super) + 1\<rparr>] @
        [\<lparr>tk_type = JSMN_ARRAY, tk_start = int pos, tk_end = -1, tk_size = 0\<rparr>])" "drop (Suc pos) js = r"
proof -
  have "nat super < length toks" using assms(3,4) by simp
  then show "jsmn_loop js num pos super toks = jsmn_loop js num (Suc pos) (int (length toks))
      (toks[nat super := (toks ! nat super)\<lparr>tk_size := tk_size (toks ! nat super) + 1\<rparr>] @
        [\<lparr>tk_type = JSMN_ARRAY, tk_start = int pos, tk_end = -1, tk_size = 0\<rparr>])"
    using at_char [OF assms(1)] assms(2-4)
    by (intro loop_step [OF assms(1)])
      (simp_all add: NUL_def jsmn_step_def open_token_def jsmn_alloc_token_def count_part_def token_at_def nth_append list_update_append1)
qed (use at_char [OF assms(1)] in simp)

lemma loop_close:
  assumes "drop pos js = c # r" "c = CHR ''}'' \<or> c = CHR '']''" "last_index tok_open toks = Some i"
    "tk_type (toks ! i) = (if c = CHR ''}'' then JSMN_OBJECT else JSMN_ARRAY)"
  shows "jsmn_loop js num pos super toks = jsmn_loop js num (Suc pos)
      (case last_index tok_open (take (Suc i) (toks[i := (toks ! i)\<lparr>tk_end := int pos + 1\<rparr>])) of None \<Rightarrow> -1 | Some j \<Rightarrow> int j)
      (toks[i := (toks ! i)\<lparr>tk_end := int pos + 1\<rparr>])" "drop (Suc pos) js = r"
proof -
  show "jsmn_loop js num pos super toks = jsmn_loop js num (Suc pos)
      (case last_index tok_open (take (Suc i) (toks[i := (toks ! i)\<lparr>tk_end := int pos + 1\<rparr>])) of None \<Rightarrow> -1 | Some j \<Rightarrow> int j)
      (toks[i := (toks ! i)\<lparr>tk_end := int pos + 1\<rparr>])"
    using at_char [OF assms(1)] assms(2-4)
    by (intro loop_step [OF assms(1)]) (auto simp: NUL_def jsmn_step_def close_token_def Let_def)
qed (use at_char [OF assms(1)] in simp)

lemma last_index_append:
  "last_index P (xs @ ys) = (case last_index P ys of Some j \<Rightarrow> Some (length xs + j) | None \<Rightarrow> last_index P xs)"
  by (induction xs) (auto split: option.splits)

definition all_closed :: "jsmntok list \<Rightarrow> bool" where
  "all_closed toks \<longleftrightarrow> \<not> list_ex tok_open toks"

lemma all_closed_simps [simp]:
  "all_closed []" "all_closed (t # ts) \<longleftrightarrow> \<not> tok_open t \<and> all_closed ts" "all_closed (ts @ us) \<longleftrightarrow> all_closed ts \<and> all_closed us"
  "tok_open (t\<lparr>tk_size := n\<rparr>) = tok_open t"
  by (auto simp: all_closed_def tok_open_def)

lemma all_closed_last [simp]: "all_closed ts \<Longrightarrow> last_index tok_open ts = None"
  by (simp add: all_closed_def last_index_None)

lemma all_closed_last2 [simp]: "all_closed ts \<Longrightarrow> last_index (\<lambda>t. Q t \<and> tok_open t) ts = None"
  by (auto simp: all_closed_def last_index_None list_ex_iff)

lemma list_parse:
  "drop pos js = json_list ss @ r \<Longrightarrow> list_all plain_text ss \<Longrightarrow> tk_type a = JSMN_ARRAY \<Longrightarrow>
   length base + 1 + length items + length ss \<le> num \<Longrightarrow> base \<noteq> [] \<Longrightarrow>
   \<exists>items'. jsmn_loop js num pos (int (length base)) (base @ a # items) =
       jsmn_loop js num (pos + length (json_list ss)) (int (length base))
         (base @ a\<lparr>tk_size := tk_size a + length ss\<rparr> # items @ items') \<and>
     list_all2 (\<lambda>t s. spells js t JSMN_STRING s) items' ss \<and> all_closed items'"
proof (induction ss arbitrary: pos a items rule: json_list.induct)
  case 1
  then show ?case by simp
next
  case (2 s)
  let ?t = "\<lparr>tk_type = JSMN_STRING, tk_start = int pos + 1, tk_end = int pos + 1 + int (length s), tk_size = 0\<rparr>"
  have "drop pos js = quoted s @ r" using 2 by simp
  note st = loop_string [OF this, of "base @ a # items" num "int (length base)"]
  have "jsmn_loop js num pos (int (length base)) (base @ a # items) =
      jsmn_loop js num (pos + length (quoted s)) (int (length base)) (base @ a\<lparr>tk_size := tk_size a + 1\<rparr> # items @ [?t])"
    using st(1) 2 by (simp add: list_update_append nth_append)
  moreover have "spells js ?t JSMN_STRING s" using st(2) 2 by simp
  ultimately show ?case by (intro exI [of _ "[?t]"]) (simp add: tok_open_def)
next
  case (3 s t ss)
  let ?t = "\<lparr>tk_type = JSMN_STRING, tk_start = int pos + 1, tk_end = int pos + 1 + int (length s), tk_size = 0\<rparr>"
  have "drop pos js = quoted s @ CHR '','' # json_list (t # ss) @ r" using 3 by simp
  note st = loop_string [OF this, of "base @ a # items" num "int (length base)"]
  let ?a = "a\<lparr>tk_size := tk_size a + 1\<rparr>"
  have l: "jsmn_loop js num pos (int (length base)) (base @ a # items) =
      jsmn_loop js num (pos + length (quoted s)) (int (length base)) (base @ ?a # items @ [?t])"
    using st(1) 3 by (simp add: list_update_append nth_append)
  have sp: "spells js ?t JSMN_STRING s" and d: "drop (pos + length (quoted s)) js = CHR '','' # json_list (t # ss) @ r"
    using st(2,3) 3 by simp_all
  have "token_at (base @ ?a # items @ [?t]) (int (length base)) = Ok ?a" by (simp add: token_at_def nth_append)
  note c = loop_comma [OF d this, where super' = "int (length base)"]
  obtain items' where i: "jsmn_loop js num (Suc (pos + length (quoted s))) (int (length base)) (base @ ?a # (items @ [?t])) =
       jsmn_loop js num (Suc (pos + length (quoted s)) + length (json_list (t # ss))) (int (length base))
         (base @ ?a\<lparr>tk_size := tk_size ?a + length (t # ss)\<rparr> # (items @ [?t]) @ items')"
    "list_all2 (\<lambda>t s. spells js t JSMN_STRING s) items' (t # ss)" "all_closed items'"
    using "3.IH" [of "Suc (pos + length (quoted s))" ?a "items @ [?t]"] c(2) 3 by auto
  have "jsmn_loop js num pos (int (length base)) (base @ a # items) =
       jsmn_loop js num (pos + length (json_list (s # t # ss))) (int (length base))
         (base @ a\<lparr>tk_size := tk_size a + length (s # t # ss)\<rparr> # items @ (?t # items'))"
    using l c(1) [of num] i(1) 3 by (simp add: add.assoc)
  with sp i show ?case by (intro exI [of _ "?t # items'"]) (simp add: tok_open_def)
qed

lemma value_parse:
  assumes "drop pos js = json_value v @ d # r" "plain_value v" "json_delim d"
    and "length ts + 2 + value_tokens v \<le> num" "tok_open t0" "tk_type t0 = JSMN_OBJECT" "all_closed (ts @ [k])"
    and "super = int (length ts) + 1"
  shows "\<exists>vs super' k'. jsmn_loop js num pos super (t0 # ts @ [k]) = jsmn_loop js num (pos + length (json_value v)) super' (t0 # ts @ k' # vs) \<and>
    k' = k\<lparr>tk_size := tk_size k + 1\<rparr> \<and> value_match js v vs \<and> all_closed vs \<and> super' \<in> {0, super}"
proof (cases v)
  case (JText s)
  let ?t = "\<lparr>tk_type = JSMN_STRING, tk_start = int pos + 1, tk_end = int pos + 1 + int (length s), tk_size = 0\<rparr>"
  have "drop pos js = quoted s @ d # r" using assms(1) JText by simp
  note st = loop_string [OF this, of "t0 # ts @ [k]" num super]
  have "jsmn_loop js num pos super (t0 # ts @ [k]) =
      jsmn_loop js num (pos + length (quoted s)) super (t0 # ts @ k\<lparr>tk_size := tk_size k + 1\<rparr> # [?t])"
    using st(1) assms JText by (simp add: nat_add_distrib list_update_append nth_append)
  moreover have "spells js ?t JSMN_STRING s" using st(2) assms JText by simp
  ultimately show ?thesis using JText by (intro exI [of _ "[?t]"] exI [of _ super]) (simp add: tok_open_def)
next
  case (JWord s)
  let ?t = "\<lparr>tk_type = JSMN_PRIMITIVE, tk_start = int pos, tk_end = int pos + int (length s), tk_size = 0\<rparr>"
  have "drop pos js = s @ d # r" using assms(1) JWord by simp
  note st = loop_word [OF this, of "t0 # ts @ [k]" num super]
  have "jsmn_loop js num pos super (t0 # ts @ [k]) =
      jsmn_loop js num (pos + length s) super (t0 # ts @ k\<lparr>tk_size := tk_size k + 1\<rparr> # [?t])"
    using st(1) assms JWord by (simp add: nat_add_distrib list_update_append nth_append)
  moreover have "spells js ?t JSMN_PRIMITIVE s" using st(2) assms JWord by simp
  ultimately show ?thesis using JWord by (intro exI [of _ "[?t]"] exI [of _ super]) (simp add: tok_open_def)
next
  case (JList ss)
  let ?a = "\<lparr>tk_type = JSMN_ARRAY, tk_start = int pos, tk_end = -1, tk_size = 0\<rparr>"
  let ?k = "k\<lparr>tk_size := tk_size k + 1\<rparr>" and ?base = "t0 # ts @ [k\<lparr>tk_size := tk_size k + 1\<rparr>]"
  have "drop pos js = CHR ''['' # json_list ss @ CHR '']'' # d # r" using assms(1) JList by simp
  note op = loop_open [OF this, of "t0 # ts @ [k]" num super]
  have 1: "jsmn_loop js num pos super (t0 # ts @ [k]) = jsmn_loop js num (Suc pos) (int (length ?base)) (?base @ ?a # [])"
    using op(1) assms JList by (simp add: nat_add_distrib list_update_append nth_append)
  have d1: "drop (Suc pos) js = json_list ss @ CHR '']'' # d # r" using op(2) assms JList by simp
  obtain items where 2: "jsmn_loop js num (Suc pos) (int (length ?base)) (?base @ ?a # []) =
       jsmn_loop js num (Suc pos + length (json_list ss)) (int (length ?base)) (?base @ ?a\<lparr>tk_size := length ss\<rparr> # items)"
    "list_all2 (\<lambda>t s. spells js t JSMN_STRING s) items ss" "all_closed items"
    using list_parse [OF d1, of ?a ?base "[]" num] assms(2,4) JList by auto
  have d2: "drop (Suc pos + length (json_list ss)) js = CHR '']'' # d # r" by (rule drop_at [OF d1])
  let ?toks = "?base @ ?a\<lparr>tk_size := length ss\<rparr> # items" and ?a' = "?a\<lparr>tk_size := length ss, tk_end := int (Suc pos + length (json_list ss)) + 1\<rparr>"
  have li: "last_index tok_open ?toks = Some (length ?base)"
    using 2(3) by (simp add: last_index_append tok_open_def)
  have "tk_type (?toks ! length ?base) = JSMN_ARRAY" by (simp only: nth_append_length) simp
  then have ty: "tk_type (?toks ! length ?base) = (if CHR '']'' = CHR ''}'' then JSMN_OBJECT else JSMN_ARRAY)" by simp
  have upd: "?toks[length ?base := (?toks ! length ?base)\<lparr>tk_end := int (Suc pos + length (json_list ss)) + 1\<rparr>] = ?base @ ?a' # items"
    by (simp only: nth_append_length list_update_length jsmntok.simps)
  have "take (Suc (length ?base)) (?base @ ?a' # items) = ?base @ [?a']" by simp
  moreover have "last_index tok_open (?base @ [?a']) = Some 0"
    using assms(5,7) by (simp add: last_index_append tok_open_def)
  ultimately have "jsmn_loop js num (Suc pos + length (json_list ss)) (int (length ?base)) ?toks =
      jsmn_loop js num (Suc (Suc pos + length (json_list ss))) 0 (?base @ ?a' # items)"
    using loop_close(1) [OF d2 _ li ty, of num "int (length ?base)"] unfolding upd by simp
  with 1 2 have "jsmn_loop js num pos super (t0 # ts @ [k]) =
      jsmn_loop js num (pos + length (json_value v)) 0 (t0 # ts @ ?k # ?a' # items)"
    using JList by simp
  moreover have "value_match js v (?a' # items)" using 2(2) JList by simp
  ultimately show ?thesis using 2(3) by (intro exI [of _ "?a' # items"] exI [of _ 0]) (simp add: tok_open_def)
qed

lemma field_parse:
  assumes "drop pos js = quoted k @ CHR '':'' # json_value v @ d # r" "plain_text k" "plain_value v" "json_delim d"
    and "length ts + 2 + value_tokens v \<le> num" "tok_open t0" "tk_type t0 = JSMN_OBJECT" "all_closed ts"
  shows "\<exists>t0' new super' pos'. jsmn_loop js num pos 0 (t0 # ts) = jsmn_loop js num pos' super' (t0' # ts @ new) \<and>
    drop pos' js = d # r \<and> t0' = t0\<lparr>tk_size := tk_size t0 + 1\<rparr> \<and>
    (\<exists>t vs. new = t # vs \<and> spells js t JSMN_STRING k \<and> value_match js v vs) \<and> all_closed new \<and>
    super' \<in> {0, int (length ts) + 1}"
proof -
  let ?tk = "\<lparr>tk_type = JSMN_STRING, tk_start = int pos + 1, tk_end = int pos + 1 + int (length k), tk_size = 0\<rparr>"
  let ?u0 = "t0\<lparr>tk_size := tk_size t0 + 1\<rparr>"
  have "length (t0 # ts) < num" using assms(5) by simp
  note st = loop_string [OF assms(1,2) this, of 0]
  note co = loop_colon [OF st(3), of num 0 "?u0 # ts @ [?tk]"]
  have 1: "jsmn_loop js num pos 0 (t0 # ts) = jsmn_loop js num (Suc (pos + length (quoted k))) (int (length ts) + 1) (?u0 # ts @ [?tk])"
    using st(1) co by (simp add: add.commute)
  have d: "drop (Suc (pos + length (quoted k))) js = json_value v @ d # r" using co by simp
  have "tok_open ?u0" "tk_type ?u0 = JSMN_OBJECT" "all_closed (ts @ [?tk])"
    using assms(6-8) by (simp_all add: tok_open_def)
  from value_parse [OF d assms(3,4,5) this refl] obtain vs super' k' where v:
    "jsmn_loop js num (Suc (pos + length (quoted k))) (int (length ts) + 1) (?u0 # ts @ [?tk]) =
       jsmn_loop js num (Suc (pos + length (quoted k)) + length (json_value v)) super' (?u0 # ts @ k' # vs)"
    "k' = ?tk\<lparr>tk_size := tk_size ?tk + 1\<rparr>" "value_match js v vs" "all_closed vs" "super' \<in> {0, int (length ts) + 1}"
    by blast
  have "spells js k' JSMN_STRING k" using st(2) v(2) by (simp add: spells_def)
  moreover have "all_closed (k' # vs)" using v(2,4) by (simp add: tok_open_def)
  moreover have "drop (Suc (pos + length (quoted k)) + length (json_value v)) js = d # r" by (rule drop_at [OF d])
  ultimately show ?thesis using 1 v(1,3,5) by (intro exI [of _ "?u0"] exI [of _ "k' # vs"] exI [of _ super']) auto
qed

text \<open>After a field the object is the superior token again.\<close>

lemma comma_field:
  assumes "drop pos js = CHR '','' # r" "tok_open t0" "tk_type t0 = JSMN_OBJECT" "all_closed ts" "all_closed (t # vs)"
    "tk_type t = JSMN_STRING" "super \<in> {0, int (length ts) + 1}"
  shows "jsmn_loop js num pos super (t0 # ts @ t # vs) = jsmn_loop js num (Suc pos) 0 (t0 # ts @ t # vs)" "drop (Suc pos) js = r"
proof -
  let ?toks = "t0 # ts @ t # vs"
  have "last_index (\<lambda>t. tk_type t \<in> {JSMN_ARRAY, JSMN_OBJECT} \<and> tok_open t) ?toks = Some (nat 0)"
    using assms(2-5) by (simp add: last_index_append)
  moreover have "token_at ?toks super = Ok (if super = 0 then t0 else t)"
    using assms(7) by (auto simp: token_at_def nat_add_distrib nth_append)
  moreover have "(if super = 0 then t0 else t) = t0 \<and> super = 0 \<or> (if super = 0 then t0 else t) = t" by simp
  ultimately show "jsmn_loop js num pos super ?toks = jsmn_loop js num (Suc pos) 0 ?toks"
    using loop_comma(1) [OF assms(1), of ?toks super "if super = 0 then t0 else t" 0 num] assms(3,6) by auto
qed (use at_char [OF assms(1)] in simp)

lemma fields_parse:
  "drop pos js = json_fields fs @ ''}'' \<Longrightarrow> list_all (\<lambda>(k, v). plain_text k \<and> plain_value v) fs \<Longrightarrow>
   length ts + 1 + (\<Sum>(k, v) \<leftarrow> fs. 1 + value_tokens v) \<le> num \<Longrightarrow> tok_open t0 \<Longrightarrow> tk_type t0 = JSMN_OBJECT \<Longrightarrow> all_closed ts \<Longrightarrow>
   \<exists>t0' new super' pos'. jsmn_loop js num pos 0 (t0 # ts) = jsmn_loop js num pos' super' (t0' # ts @ new) \<and>
    drop pos' js = ''}'' \<and> t0' = t0\<lparr>tk_size := tk_size t0 + length fs\<rparr> \<and> fields_match js fs new \<and> all_closed new"
proof (induction fs arbitrary: pos ts t0 rule: json_fields.induct)
  case 1
  then show ?case by (intro exI [of _ t0] exI [of _ "[]"] exI [of _ 0] exI [of _ pos]) simp
next
  case (2 k v)
  have "json_delim CHR ''}''" by (simp add: json_delim_def)
  with field_parse [of pos js k v "CHR ''}''" "[]" ts num t0] 2 obtain t0' new super' pos' where
    "jsmn_loop js num pos 0 (t0 # ts) = jsmn_loop js num pos' super' (t0' # ts @ new)"
    "drop pos' js = ''}''" "t0' = t0\<lparr>tk_size := tk_size t0 + 1\<rparr>" "\<exists>t vs. new = t # vs \<and> spells js t JSMN_STRING k \<and> value_match js v vs"
    "all_closed new"
    by auto
  then show ?case by (intro exI [of _ t0'] exI [of _ new] exI [of _ super'] exI [of _ pos']) auto
next
  case (3 k v f fs)
  have "json_delim CHR '',''" by (simp add: json_delim_def)
  with field_parse [of pos js k v "CHR '',''" "json_fields (f # fs) @ ''}''" ts num t0] "3.prems" obtain t0' new super' pos' where n:
    "jsmn_loop js num pos 0 (t0 # ts) = jsmn_loop js num pos' super' (t0' # ts @ new)"
    "drop pos' js = CHR '','' # json_fields (f # fs) @ ''}''" "t0' = t0\<lparr>tk_size := tk_size t0 + 1\<rparr>"
    "\<exists>t vs. new = t # vs \<and> spells js t JSMN_STRING k \<and> value_match js v vs" "all_closed new" "super' \<in> {0, int (length ts) + 1}"
    by auto
  obtain t vs where t: "new = t # vs" "spells js t JSMN_STRING k" "value_match js v vs" using n(4) by blast
  have o: "tok_open t0'" "tk_type t0' = JSMN_OBJECT" using n(3) "3.prems"(4,5) by simp_all
  have "tk_type t = JSMN_STRING" using t(2) by (simp add: spells_def)
  note c = comma_field [OF n(2) o "3.prems"(6) n(5) [unfolded t(1)] this n(6)]
  have len: "length (ts @ new) + 1 + (\<Sum>(k, v) \<leftarrow> f # fs. 1 + value_tokens v) \<le> num"
  proof -
    have "length vs = value_tokens v" using t(3) by (cases v) (auto dest: list_all2_lengthD)
    then show ?thesis using "3.prems"(3) t(1) by simp
  qed
  have "all_closed (ts @ new)" "list_all (\<lambda>(k, v). plain_text k \<and> plain_value v) (f # fs)"
    using "3.prems"(2,6) n(5) by simp_all
  from "3.IH" [OF c(2) this(2) len o this(1)] obtain t0'' new' super'' pos'' where m:
    "jsmn_loop js num (Suc pos') 0 (t0' # ts @ new) = jsmn_loop js num pos'' super'' (t0'' # (ts @ new) @ new')"
    "drop pos'' js = ''}''" "t0'' = t0'\<lparr>tk_size := tk_size t0' + length (f # fs)\<rparr>" "fields_match js (f # fs) new'" "all_closed new'"
    by auto
  have "jsmn_loop js num pos 0 (t0 # ts) = jsmn_loop js num pos'' super'' (t0'' # ts @ new @ new')"
    using n(1) c(1) [of num] m(1) t(1) by simp
  moreover have "fields_match js ((k, v) # f # fs) (new @ new')" using t m(4) by auto
  ultimately show ?case
    using m(2,3,5) n(3,5) by (intro exI [of _ t0''] exI [of _ "new @ new'"] exI [of _ super''] exI [of _ pos'']) simp
qed

lemma object_parse:
  assumes "list_all (\<lambda>(k, v). plain_text k \<and> plain_value v) fs" "object_tokens fs \<le> num"
  shows "\<exists>t0 toks. jsmn_parse (json_object fs) num = Ok (int (object_tokens fs), t0 # toks) \<and> tk_type t0 = JSMN_OBJECT \<and>
    fields_match (json_object fs) fs toks \<and> length toks + 1 = object_tokens fs"
proof -
  let ?js = "json_object fs"
  let ?u = "\<lparr>tk_type = JSMN_OBJECT, tk_start = 0, tk_end = -1, tk_size = 0\<rparr>"
  have d: "drop 0 ?js = CHR 0x7B # json_fields fs @ ''}''" by (simp add: json_object_def)
  have num: "0 < num" using assms(2) by (simp add: object_tokens_def)
  have 1: "jsmn_parse ?js num = jsmn_loop ?js num (Suc 0) 0 [?u]"
    unfolding jsmn_parse_def using num at_char [OF d]
    by (intro loop_step [OF d]) (simp_all add: NUL_def jsmn_step_def open_token_def jsmn_alloc_token_def count_part_def)
  have d1: "drop (Suc 0) ?js = json_fields fs @ ''}''" using at_char [OF d] by simp
  have "length [] + 1 + (\<Sum>(k, v) \<leftarrow> fs. 1 + value_tokens v) \<le> num" using assms(2) by (simp add: object_tokens_def)
  moreover have "tok_open ?u" "tk_type ?u = JSMN_OBJECT" by (simp_all add: tok_open_def)
  ultimately obtain t0' new super' pos' where 2:
    "jsmn_loop ?js num (Suc 0) 0 [?u] = jsmn_loop ?js num pos' super' (t0' # new)"
    "drop pos' ?js = ''}''" "t0' = ?u\<lparr>tk_size := length fs\<rparr>" "fields_match ?js fs new" "all_closed new"
    using fields_parse [OF d1 assms(1), of "[]" num ?u] by auto
  have li: "last_index tok_open (t0' # new) = Some 0" using 2(3,5) by (simp add: tok_open_def)
  let ?w = "t0'\<lparr>tk_end := int pos' + 1\<rparr>"
  have "jsmn_loop ?js num pos' super' (t0' # new) = jsmn_loop ?js num (Suc pos') (-1) (?w # new)"
    using loop_close(1) [of pos' ?js "CHR ''}''" "[]" "t0' # new" 0 num super'] 2(2,3) li
    by (simp add: tok_open_def)
  also have "\<dots> = Ok (int (length (?w # new)), ?w # new)"
  proof -
    have "at_end ?js (Suc pos')" using at_char [OF 2(2)] by (simp add: at_end_def)
    moreover have "\<not> list_ex tok_open (?w # new)" using 2(3,5) by (simp add: tok_open_def all_closed_def)
    ultimately show ?thesis by (simp add: jsmn_loop.simps [of _ _ "Suc pos'"])
  qed
  finally have "jsmn_parse ?js num = Ok (int (length (?w # new)), ?w # new)" using 1 2(1) by simp
  moreover have "length ts = (\<Sum>(k, v) \<leftarrow> fs. 1 + value_tokens v)" if "fields_match js fs ts" for js ts
    using that
  proof (induction js fs ts rule: fields_match.induct)
    case (2 js k v fs ts)
    then obtain t vs rest where *: "ts = t # vs @ rest" "value_match js v vs" "fields_match js fs rest" by auto
    have "length vs = value_tokens v" using *(2) by (cases v) (auto dest: list_all2_lengthD)
    with * 2(1) [of rest] show ?case by simp
  qed simp
  from this [OF 2(4)] have "length new + 1 = object_tokens fs" by (simp add: object_tokens_def)
  ultimately show ?thesis using 2(3,4) by (intro exI [of _ ?w] exI [of _ new]) simp
qed

lemma jsmn_parse_no_exit: "jsmn_parse js num \<noteq> Exit k"
proof -
  have inv: "parser_inv js num 0 (-1) []" by (simp add: parser_inv_def)
  show ?thesis using loop_outcome [OF jsmn_reach.init inv, folded jsmn_parse_def] by auto
qed

section \<open>Properties\<close>

text \<open>
  C8. The tokens of any text: the parser always ends. When it succeeds it returns the number
  of tokens, which is within the array, and every token is closed and lies within the text: a
  string between its two quotes, an object or array from its opening to its closing bracket, a
  primitive as at least one character. It reads outside its tokens exactly when it meets a
  comma while it has no superior token, and whenever it has none no object or array is open. (A
  comma after a colon outside every object, as in \<^verbatim>\<open>1:2,\<close>, has the token before
  the colon as its superior one.)
\<close>

theorem jsmn_parse_tokens:
  "(jsmn_parse js num = Undef \<longleftrightarrow> (\<exists>pos toks. jsmn_reach js num pos (-1) toks \<and> \<not> at_end js pos \<and> js ! pos = CHR '','')) \<and>
   \<not> (jsmn_reach js num pos (-1) toks \<and> list_ex tok_open toks) \<and>
   (case jsmn_parse js num of
      Ok (r, toks) \<Rightarrow> r < 0 \<or> r = int (length toks) \<and> length toks \<le> num \<and>
        list_all (\<lambda>t. tok_ok js (length js) t \<and> \<not> tok_open t) toks
    | Undef \<Rightarrow> True
    | Exit n \<Rightarrow> False)"
proof (intro conjI)
  have inv: "parser_inv js num 0 (-1) []" by (simp add: parser_inv_def)
  note outcome = loop_outcome [OF jsmn_reach.init inv, folded jsmn_parse_def]
  have "jsmn_parse js num = Undef" if "jsmn_reach js num pos (-1) toks" "\<not> at_end js pos" "js ! pos = CHR '',''" for pos toks
    using reach_loop [OF that(1)] that(2,3)
    by (simp add: jsmn_loop.simps [of js num pos] jsmn_step_def comma_token_def token_at_def Let_def nl_def)
  with outcome show "jsmn_parse js num = Undef \<longleftrightarrow> (\<exists>pos toks. jsmn_reach js num pos (-1) toks \<and> \<not> at_end js pos \<and> js ! pos = CHR '','')"
    by auto
  show "\<not> (jsmn_reach js num pos (-1) toks \<and> list_ex tok_open toks)" using reach_closed by blast
  from outcome show "case jsmn_parse js num of
      Ok (r, toks) \<Rightarrow> r < 0 \<or> r = int (length toks) \<and> length toks \<le> num \<and>
        list_all (\<lambda>t. tok_ok js (length js) t \<and> \<not> tok_open t) toks
    | Undef \<Rightarrow> True | Exit n \<Rightarrow> False" by auto
qed

end
