(* ===== verification/Config.thy ===== *)
theory Config
  imports CString
begin

text \<open>
  The configuration of the gateway (\<^verbatim>\<open>src/conf.h\<close>, \<^verbatim>\<open>src/conf.c\<close>): the record
  \<^verbatim>\<open>s_config\<close>, its defaults, the firewall rulesets, the list of free IP addresses and
  the small setters. A \<^verbatim>\<open>char *\<close> that may be NULL is a \<open>string option\<close>.
\<close>

section \<open>Data\<close>

datatype t_firewall_target = TARGET_DROP | TARGET_REJECT | TARGET_ACCEPT | TARGET_LOG | TARGET_ULOG

record t_firewall_rule =
  r_target :: t_firewall_target
  r_protocol :: "string option"
  r_port :: "string option"
  r_mask :: "string option"

record t_firewall_ruleset =
  rs_name :: string
  rs_policy :: "string option"
  rs_rules :: "t_firewall_rule list"

text \<open>
  Three path fields start out pointing at string literals and are passed to
  \<^verbatim>\<open>free()\<close> later, so the model keeps where the characters live: freeing anything
  that \<^verbatim>\<open>malloc\<close> did not return is undefined.
\<close>

datatype cptr = Literal string | Malloced string

fun cptr_str :: "cptr \<Rightarrow> string" where
  "cptr_str (Literal s) = s"
| "cptr_str (Malloced s) = s"

fun c_free :: "cptr \<Rightarrow> unit result" where
  "c_free (Malloced s) = Ok ()"
| "c_free (Literal s) = Undef"

definition MAC_ALLOW :: int where "MAC_ALLOW = 0"
definition MAC_BLOCK :: int where "MAC_BLOCK = 1"

record s_config =
  cf_configfile :: string
  cf_ndsctl_sock :: string
  cf_internal_sock :: string
  cf_daemon :: int
  cf_debuglevel :: int
  cf_maxclients :: int
  cf_ext_interface :: "string option"
  cf_gw_name :: string
  cf_gw_interface :: "string option"
  cf_gw_iprange :: string
  cf_gw_address :: "string option"
  cf_gw_mac :: "string option"
  cf_gw_port :: "32 word"
  cf_remote_auth_action :: "string option"
  cf_enable_preauth :: int
  cf_bin_voucher :: "string option"
  cf_force_voucher :: int
  cf_webroot :: string
  cf_splashpage :: string
  cf_infoskelpage :: string
  cf_imagesdir :: string
  cf_pagesdir :: string
  cf_redirectURL :: "string option"
  cf_authdir :: string
  cf_denydir :: string
  cf_passwordauth :: int
  cf_usernameauth :: int
  cf_username :: "string option"
  cf_password :: "string option"
  cf_passwordattempts :: int
  cf_clienttimeout :: int
  cf_clientforceout :: int
  cf_checkinterval :: int
  cf_authenticate_immediately :: int
  cf_set_mss :: int
  cf_mss_value :: int
  cf_traffic_control :: int
  cf_download_limit :: int
  cf_upload_limit :: int
  cf_download_imq :: int
  cf_upload_imq :: int
  cf_log_syslog :: int
  cf_syslog_facility :: int
  cf_decongest_httpd_threads :: int
  cf_httpd_thread_threshold :: int
  cf_httpd_thread_delay_ms :: int
  cf_macmechanism :: int
  cf_rulesets :: "t_firewall_ruleset list"
  cf_trustedmaclist :: "string list"
  cf_blockedmaclist :: "string list"
  cf_allowedmaclist :: "string list"
  cf_FW_MARK_AUTHENTICATED :: "32 word"
  cf_FW_MARK_BLOCKED :: "32 word"
  cf_FW_MARK_TRUSTED :: "32 word"
  cf_auth_server :: "string option"
  cf_auth_port :: "32 word"
  cf_auth_path :: cptr
  cf_config_path :: cptr
  cf_net_traffic_path :: cptr
  cf_token_verify_path :: string
  cf_free_ip_list :: "string list"
  cf_uid :: int

section \<open>Firewall rulesets\<close>

definition get_ruleset :: "string \<Rightarrow> s_config \<Rightarrow> t_firewall_ruleset option" where
  "get_ruleset name c = List.find (\<lambda>rs. rs_name rs = name) (cf_rulesets c)"

definition get_ruleset_list :: "string \<Rightarrow> s_config \<Rightarrow> t_firewall_rule list" where
  "get_ruleset_list name c = (case get_ruleset name c of None \<Rightarrow> [] | Some rs \<Rightarrow> rs_rules rs)"

definition is_empty_ruleset :: "string \<Rightarrow> s_config \<Rightarrow> bool" where
  "is_empty_ruleset name c \<longleftrightarrow> get_ruleset_list name c = []"

definition get_empty_ruleset_policy :: "string \<Rightarrow> s_config \<Rightarrow> string option" where
  "get_empty_ruleset_policy name c =
     (case get_ruleset name c of None \<Rightarrow> None | Some rs \<Rightarrow> rs_policy rs)"

text \<open>
  The code changes a ruleset through the pointer \<^verbatim>\<open>get_ruleset\<close> returned, that is the
  first ruleset of that name.
\<close>

definition upd_ruleset ::
    "string \<Rightarrow> (t_firewall_ruleset \<Rightarrow> t_firewall_ruleset) \<Rightarrow> s_config \<Rightarrow> s_config" where
  "upd_ruleset name f c =
     c\<lparr>cf_rulesets := update_first (\<lambda>rs. rs_name rs = name) f (cf_rulesets c)\<rparr>"

definition add_ruleset :: "string \<Rightarrow> s_config \<Rightarrow> s_config" where
  "add_ruleset name c =
     (case get_ruleset name c of
        Some rs \<Rightarrow> c
      | None \<Rightarrow> c\<lparr>cf_rulesets := \<lparr>rs_name = name, rs_policy = None, rs_rules = []\<rparr> # cf_rulesets c\<rparr>)"

definition set_ruleset_policy :: "string \<Rightarrow> string \<Rightarrow> s_config \<Rightarrow> s_config" where
  "set_ruleset_policy name p c = upd_ruleset name (\<lambda>rs. rs\<lparr>rs_policy := Some p\<rparr>) c"

section \<open>Defaults\<close>

definition add_default_ruleset :: "string \<Rightarrow> string \<Rightarrow> s_config \<Rightarrow> s_config" where
  "add_default_ruleset name p c = set_ruleset_policy name p (add_ruleset name c)"

definition config_defaults :: s_config where
  "config_defaults = \<lparr>
     cf_configfile = ''/etc/wificat/wificat.conf'',
     cf_ndsctl_sock = ''/tmp/ndsctl.sock'',
     cf_internal_sock = ''/tmp/ndsctl.sock'',
     cf_daemon = -1,
     cf_debuglevel = 5,
     cf_maxclients = 20,
     cf_ext_interface = None,
     cf_gw_name = ''wificat'',
     cf_gw_interface = None,
     cf_gw_iprange = ''0.0.0.0/0'',
     cf_gw_address = None,
     cf_gw_mac = None,
     cf_gw_port = 2050,
     cf_remote_auth_action = Some ''yes'',
     cf_enable_preauth = 0,
     cf_bin_voucher = None,
     cf_force_voucher = 0,
     cf_webroot = ''/etc/wificat/htdocs'',
     cf_splashpage = ''wificat.html'',
     cf_infoskelpage = ''infoskel.html'',
     cf_imagesdir = ''images'',
     cf_pagesdir = ''pages'',
     cf_redirectURL = None,
     cf_authdir = ''wificat_auth'',
     cf_denydir = ''wificat_deny'',
     cf_passwordauth = 0,
     cf_usernameauth = 0,
     cf_username = None,
     cf_password = None,
     cf_passwordattempts = 5,
     cf_clienttimeout = 10,
     cf_clientforceout = 360,
     cf_checkinterval = 60,
     cf_authenticate_immediately = 0,
     cf_set_mss = 1,
     cf_mss_value = 0,
     cf_traffic_control = 0,
     cf_download_limit = 0,
     cf_upload_limit = 0,
     cf_download_imq = 0,
     cf_upload_imq = 1,
     cf_log_syslog = 0,
     cf_syslog_facility = 24,
     cf_decongest_httpd_threads = 0,
     cf_httpd_thread_threshold = 3,
     cf_httpd_thread_delay_ms = 200,
     cf_macmechanism = MAC_BLOCK,
     cf_rulesets = [],
     cf_trustedmaclist = [],
     cf_blockedmaclist = [],
     cf_allowedmaclist = [],
     cf_FW_MARK_AUTHENTICATED = 0x400,
     cf_FW_MARK_BLOCKED = 0x100,
     cf_FW_MARK_TRUSTED = 0x200,
     cf_auth_server = Some ''manage.yiroy.com'',
     cf_auth_port = 80,
     cf_auth_path = Literal ''/wificat/auth/'',
     cf_config_path = Literal ''/wificat/config/'',
     cf_net_traffic_path = Literal ''/wificat/nettraffic/'',
     cf_token_verify_path = ''/wificat/tokenverify/'',
     cf_free_ip_list = [],
     cf_uid = 0\<rparr>"

text \<open>\<^verbatim>\<open>config_init\<close>: the defaults and the five rulesets, each with its empty-ruleset
  policy.\<close>

definition config_init :: s_config where
  "config_init =
     add_default_ruleset ''preauthenticated-users'' ''REJECT''
    (add_default_ruleset ''authenticated-users'' ''RETURN''
    (add_default_ruleset ''users-to-router'' ''REJECT''
    (add_default_ruleset ''trusted-users-to-router'' ''ACCEPT''
    (add_default_ruleset ''trusted-users'' ''ACCEPT'' config_defaults))))"

definition config_init_override :: "s_config \<Rightarrow> s_config" where
  "config_init_override c = (if cf_daemon c = -1 then c\<lparr>cf_daemon := 1\<rparr> else c)"

section \<open>Setters and validation\<close>

definition set_log_level :: "int \<Rightarrow> s_config \<Rightarrow> int \<times> s_config" where
  "set_log_level level c = (0, c\<lparr>cf_debuglevel := level\<rparr>)"

definition set_password :: "string option \<Rightarrow> s_config \<Rightarrow> int \<times> s_config" where
  "set_password s c = (case s of Some p \<Rightarrow> (0, c\<lparr>cf_password := Some p\<rparr>) | None \<Rightarrow> (1, c))"

definition set_username :: "string option \<Rightarrow> s_config \<Rightarrow> int \<times> s_config" where
  "set_username s c = (case s of Some p \<Rightarrow> (0, c\<lparr>cf_username := Some p\<rparr>) | None \<Rightarrow> (1, c))"

text \<open>\<^verbatim>\<open>config_notnull\<close> sets the flag \<^verbatim>\<open>missing_parms\<close>.\<close>

definition config_notnull :: "string option \<Rightarrow> bool \<Rightarrow> bool" where
  "config_notnull parm missing = (if parm = None then True else missing)"

definition config_validate :: "s_config \<Rightarrow> unit result" where
  "config_validate c =
     (let missing = config_notnull (cf_auth_server c) (config_notnull (cf_gw_interface c) False)
      in if missing then Exit (-1) else Ok ())"

section \<open>Free IP addresses\<close>

definition check_ip_format :: "string \<Rightarrow> bool" where
  "check_ip_format s =
     (case fst (scanf [SUns, SLit CHR ''.'', SUns, SLit CHR ''.'', SUns, SLit CHR ''.'', SUns] s) of
        [VNum a1, VNum a2, VNum a3, VNum a4] \<Rightarrow>
          (word_of_int a1 :: 32 word) < 256 \<and> (word_of_int a2 :: 32 word) < 256 \<and>
          (word_of_int a3 :: 32 word) < 256 \<and> (word_of_int a4 :: 32 word) < 256
      | _ \<Rightarrow> False)"

definition add_to_free_ip_list :: "string \<Rightarrow> s_config \<Rightarrow> int \<times> s_config" where
  "add_to_free_ip_list possibleip c =
     (if \<not> check_ip_format possibleip then (-1, c)
      else let ip = take 15 possibleip in
        if ip \<in> set (cf_free_ip_list c) then (1, c)
        else (0, c\<lparr>cf_free_ip_list := ip # cf_free_ip_list c\<rparr>))"

text \<open>\<^verbatim>\<open>inet_ntoa\<close> of an address, most significant byte first.\<close>

definition inet_ntoa :: "32 word \<Rightarrow> string" where
  "inet_ntoa a = (let n = unat a in
     udec (n div 16777216) @ ''.'' @ udec (n div 65536 mod 256) @ ''.'' @
     udec (n div 256 mod 256) @ ''.'' @ udec (n mod 256))"

text \<open>
  \<^verbatim>\<open>gethostbyname\<close> is a parameter: the addresses a name resolves to, or \<open>None\<close>.
\<close>

fun add_free_addrs :: "32 word list \<Rightarrow> s_config \<Rightarrow> s_config" where
  "add_free_addrs [] c = c"
| "add_free_addrs (a # as) c = add_free_addrs as (snd (add_to_free_ip_list (inet_ntoa a) c))"

definition add_to_free_domain_list ::
    "(string \<Rightarrow> 32 word list option) \<Rightarrow> string \<Rightarrow> s_config \<Rightarrow> int \<times> s_config" where
  "add_to_free_domain_list ghbn domain c =
     (case ghbn domain of
        None \<Rightarrow> (0, c)
      | Some as \<Rightarrow> (int (length as), add_free_addrs as c))"

text \<open>
  \<^verbatim>\<open>free_ip_init\<close> puts one accepting TCP rule per free address in front of the rules of
  the ruleset of clients that are not authenticated yet.
\<close>

definition free_ip_rule :: "string \<Rightarrow> t_firewall_rule" where
  "free_ip_rule ip = \<lparr>r_target = TARGET_ACCEPT, r_protocol = Some ''tcp'', r_port = None,
     r_mask = Some ip\<rparr>"

definition free_ip_init :: "s_config \<Rightarrow> s_config result" where
  "free_ip_init c =
     (case get_ruleset ''preauthenticated-users'' c of
        None \<Rightarrow> Exit (-1)
      | Some rs \<Rightarrow> Ok (foldl (\<lambda>c ip. upd_ruleset ''preauthenticated-users''
            (\<lambda>rs. rs\<lparr>rs_rules := free_ip_rule ip # rs_rules rs\<rparr>) c) c (cf_free_ip_list c)))"

section \<open>Lemmas on rulesets\<close>

lemma get_ruleset_upd_same:
  assumes "\<And>rs. rs_name (f rs) = rs_name rs"
  shows "get_ruleset n (upd_ruleset n f c) = map_option f (get_ruleset n c)"
  using assms by (simp add: get_ruleset_def upd_ruleset_def find_update_first)

lemma get_ruleset_upd_other:
  assumes "\<And>rs. rs_name (f rs) = rs_name rs" "m \<noteq> n"
  shows "get_ruleset m (upd_ruleset n f c) = get_ruleset m c"
  unfolding get_ruleset_def upd_ruleset_def
  using assms by (simp, intro find_update_first_other) auto

lemma upd_ruleset_absent: "get_ruleset n c = None \<Longrightarrow> upd_ruleset n f c = c"
  by (auto simp: get_ruleset_def upd_ruleset_def find_None_iff update_first_id)

lemma get_ruleset_name: "get_ruleset n c = Some rs \<Longrightarrow> rs_name rs = n"
  by (auto simp: get_ruleset_def dest: find_Some_mem)

definition ruleset_names :: "s_config \<Rightarrow> string list" where
  "ruleset_names c = map rs_name (cf_rulesets c)"

lemma ruleset_names_upd [simp]:
  "(\<And>rs. rs_name (f rs) = rs_name rs) \<Longrightarrow> ruleset_names (upd_ruleset n f c) = ruleset_names c"
  by (simp add: ruleset_names_def upd_ruleset_def map_update_first)

lemma get_ruleset_None_iff: "get_ruleset n c = None \<longleftrightarrow> n \<notin> set (ruleset_names c)"
  by (auto simp: get_ruleset_def ruleset_names_def find_None_iff)

lemma add_ruleset_names:
  "ruleset_names (add_ruleset n c) =
     (if n \<in> set (ruleset_names c) then ruleset_names c else n # ruleset_names c)"
  using get_ruleset_None_iff [of n c]
  by (auto simp: add_ruleset_def ruleset_names_def split: option.splits)

lemma distinct_add_ruleset:
  "distinct (ruleset_names c) \<Longrightarrow> distinct (ruleset_names (add_ruleset n c))"
  by (simp add: add_ruleset_names)

lemma get_ruleset_add: "get_ruleset n (add_ruleset n c) \<noteq> None"
  by (simp add: get_ruleset_None_iff add_ruleset_names)

lemma upd_ruleset_frame [frame_simps]:
  "cf_free_ip_list (upd_ruleset n f c) = cf_free_ip_list c"
  "cf_FW_MARK_AUTHENTICATED (upd_ruleset n f c) = cf_FW_MARK_AUTHENTICATED c"
  "cf_FW_MARK_BLOCKED (upd_ruleset n f c) = cf_FW_MARK_BLOCKED c"
  "cf_FW_MARK_TRUSTED (upd_ruleset n f c) = cf_FW_MARK_TRUSTED c"
  by (simp_all add: upd_ruleset_def)

lemma ruleset_names_config_init:
  "ruleset_names config_init = [''preauthenticated-users'', ''authenticated-users'',
     ''users-to-router'', ''trusted-users-to-router'', ''trusted-users'']"
  by (simp add: config_init_def add_default_ruleset_def set_ruleset_policy_def
      add_ruleset_names)
     (simp add: ruleset_names_def config_defaults_def)

lemma update_first_update_first:
  "(\<And>x. P x \<Longrightarrow> P (f x)) \<Longrightarrow> update_first P g (update_first P f xs) = update_first P (g \<circ> f) xs"
  by (induction xs) auto

lemma upd_ruleset_upd:
  "(\<And>rs. rs_name (f rs) = rs_name rs) \<Longrightarrow>
   upd_ruleset n g (upd_ruleset n f c) = upd_ruleset n (\<lambda>rs. g (f rs)) c"
  by (simp add: upd_ruleset_def update_first_update_first comp_def)

lemma update_first_ident: "update_first P (\<lambda>x. x) xs = xs"
  by (induction xs) auto

lemma upd_ruleset_id: "upd_ruleset n (\<lambda>rs. rs) c = c"
  by (simp add: upd_ruleset_def update_first_ident)

section \<open>Lemmas on free addresses\<close>

lemma free_ip_fold:
  "get_ruleset n c = Some rs \<Longrightarrow>
   get_ruleset n (foldl (\<lambda>c ip. upd_ruleset n
      (\<lambda>rs. rs\<lparr>rs_rules := free_ip_rule ip # rs_rules rs\<rparr>) c) c ips) =
   Some (rs\<lparr>rs_rules := map free_ip_rule (rev ips) @ rs_rules rs\<rparr>)"
proof (induction ips arbitrary: c rs)
  case (Cons ip ips)
  let ?f = "\<lambda>rs. rs\<lparr>rs_rules := free_ip_rule ip # rs_rules rs\<rparr>"
  have "get_ruleset n (upd_ruleset n ?f c) = Some (?f rs)"
    using Cons.prems by (simp add: get_ruleset_upd_same)
  from Cons.IH [OF this] show ?case by simp
qed simp

lemma free_ip_fold_other:
  "m \<noteq> n \<Longrightarrow> get_ruleset m (foldl (\<lambda>c ip. upd_ruleset n
      (\<lambda>rs. rs\<lparr>rs_rules := free_ip_rule ip # rs_rules rs\<rparr>) c) c ips) = get_ruleset m c"
  by (induction ips arbitrary: c) (simp_all add: get_ruleset_upd_other)

lemma check_ip_dotted:
  assumes "a1 < 256" "a2 < 256" "a3 < 256" "a4 < 256"
  shows "check_ip_format (udec a1 @ ''.'' @ udec a2 @ ''.'' @ udec a3 @ ''.'' @ udec a4)"
proof -
  have small: "(word_of_int (int k) :: 32 word) < 256" if "k < 256" for k
    using that by (simp add: word_less_nat_alt unat_of_nat)
  have dot: "\<not> isdigit CHR ''.''" by (simp add: isdigit_def cc_def)
  have last: "scanf [SUns] (udec a4) = ([VNum (int a4)], [], False)"
    using scanf_SUns_udec [of "[]" "[]" a4] by (simp add: scanf.simps)
  show ?thesis
    using assms by (simp add: check_ip_format_def scanf_SUns_udec scanf.simps(3) dot last small del: of_int_of_nat_eq)
qed

lemma inet_ntoa_format: "check_ip_format (inet_ntoa a)"
proof -
  have "unat a div 16777216 < 256"
    using unsigned_less [of a, where ?'a = nat] by (simp add: less_mult_imp_div_less)
  then show ?thesis
    using check_ip_dotted [of "unat a div 16777216" "unat a div 65536 mod 256"
      "unat a div 256 mod 256" "unat a mod 256"]
    by (simp add: inet_ntoa_def Let_def)
qed

lemma length_inet_ntoa: "length (inet_ntoa a) \<le> 15"
proof -
  have l: "length (udec k) \<le> 3" if "k < 256" for k
    using that by (intro length_udec_le) auto
  have "unat a div 16777216 < 256"
    using unsigned_less [of a, where ?'a = nat] by (simp add: less_mult_imp_div_less)
  from l [OF this] l [of "unat a div 65536 mod 256"] l [of "unat a div 256 mod 256"]
    l [of "unat a mod 256"]
  show ?thesis by (simp add: inet_ntoa_def Let_def)
qed

text \<open>The free list holds valid addresses of at most 15 characters, none twice.\<close>

definition free_ip_inv :: "s_config \<Rightarrow> bool" where
  "free_ip_inv c \<longleftrightarrow> distinct (cf_free_ip_list c) \<and> (\<forall>ip \<in> set (cf_free_ip_list c). length ip \<le> 15)"

lemma add_to_free_ip_list_inv:
  "free_ip_inv c \<Longrightarrow> free_ip_inv (snd (add_to_free_ip_list ip c))"
  by (auto simp: free_ip_inv_def add_to_free_ip_list_def Let_def)

lemma add_free_addrs_inv: "free_ip_inv c \<Longrightarrow> free_ip_inv (add_free_addrs as c)"
  by (induction as arbitrary: c) (auto intro: add_to_free_ip_list_inv)

lemma add_to_free_ip_list_mono:
  "set (cf_free_ip_list c) \<subseteq> set (cf_free_ip_list (snd (add_to_free_ip_list ip c)))"
  by (auto simp: add_to_free_ip_list_def Let_def)

lemma add_free_addrs_mono: "set (cf_free_ip_list c) \<subseteq> set (cf_free_ip_list (add_free_addrs as c))"
proof (induction as arbitrary: c)
  case (Cons a as)
  show ?case
    using add_to_free_ip_list_mono [of c "inet_ntoa a"]
      Cons.IH [of "snd (add_to_free_ip_list (inet_ntoa a) c)"] by simp
qed simp

lemma add_inet_ntoa_mem:
  "inet_ntoa a \<in> set (cf_free_ip_list (snd (add_to_free_ip_list (inet_ntoa a) c)))"
  using inet_ntoa_format [of a] length_inet_ntoa [of a]
  by (simp add: add_to_free_ip_list_def Let_def)

lemma add_free_addrs_mem:
  "a \<in> set as \<Longrightarrow> inet_ntoa a \<in> set (cf_free_ip_list (add_free_addrs as c))"
proof (induction as arbitrary: c)
  case (Cons b as)
  show ?case
  proof (cases "a = b")
    case True
    then show ?thesis
      using add_free_addrs_mono [of "snd (add_to_free_ip_list (inet_ntoa b) c)" as]
        add_inet_ntoa_mem [of b c] by auto
  next
    case False
    with Cons show ?thesis by simp
  qed
qed simp

section \<open>Properties\<close>

text \<open>
  Free addresses reach the firewall rules: \<^verbatim>\<open>free_ip_init\<close> puts one accepting TCP
  rule per free address in front of the rules for clients that are not authenticated, the
  address added last first in the list and last among the new rules, and changes no other
  ruleset; without that ruleset the program ends.
\<close>

theorem free_ip_init_spec:
  "free_ip_init c =
     (case get_ruleset ''preauthenticated-users'' c of
        None \<Rightarrow> Exit (-1)
      | Some rs \<Rightarrow> Ok (upd_ruleset ''preauthenticated-users''
          (\<lambda>rs. rs\<lparr>rs_rules := map free_ip_rule (rev (cf_free_ip_list c)) @ rs_rules rs\<rparr>) c))"
proof (cases "get_ruleset ''preauthenticated-users'' c")
  case (Some rs)
  have "foldl (\<lambda>c ip. upd_ruleset n (\<lambda>rs. rs\<lparr>rs_rules := free_ip_rule ip # rs_rules rs\<rparr>) c) c ips =
      upd_ruleset n (\<lambda>rs. rs\<lparr>rs_rules := map free_ip_rule (rev ips) @ rs_rules rs\<rparr>) c" for n ips
    by (induction ips arbitrary: c) (simp_all add: upd_ruleset_upd upd_ruleset_id)
  with Some show ?thesis by (simp add: free_ip_init_def)
qed (simp add: free_ip_init_def)

text \<open>
  Free domains: every address a resolvable domain name has is on the list of free
  addresses afterwards, in dotted form, nothing is lost, no address is listed twice and
  none is longer than the 15 characters the code's buffer holds; a name that does not
  resolve changes nothing.
\<close>

theorem add_to_free_domain_list_spec:
  assumes "free_ip_inv c" "ghbn domain = Some as"
  shows "fst (add_to_free_domain_list ghbn domain c) = int (length as) \<and>
    set (cf_free_ip_list c) \<union> inet_ntoa ` set as \<subseteq>
      set (cf_free_ip_list (snd (add_to_free_domain_list ghbn domain c))) \<and>
    free_ip_inv (snd (add_to_free_domain_list ghbn domain c))"
  using assms add_free_addrs_mono [of c as] add_free_addrs_mem [of _ as c] add_free_addrs_inv [of c as]
  by (auto simp: add_to_free_domain_list_def)

lemma add_to_free_domain_list_spec_witness:
  "let ghbn = (\<lambda>d. if d = ''wifi.example'' then Some [0x0A000001, 0x0A000002] else None);
       c' = snd (add_to_free_domain_list ghbn ''wifi.example'' config_defaults)
   in inet_ntoa 0x0A000001 = ''10.0.0.1'' \<and> ''10.0.0.1'' \<in> set (cf_free_ip_list c') \<and>
      inet_ntoa 0x0A000002 \<in> set (cf_free_ip_list c') \<and> free_ip_inv c'"
proof -
  let ?g = "\<lambda>d. if d = ''wifi.example'' then Some [0x0A000001, 0x0A000002 :: 32 word] else None"
  have inv: "free_ip_inv config_defaults" by (simp add: free_ip_inv_def config_defaults_def)
  have a: "inet_ntoa 0x0A000001 = ''10.0.0.1''"
    by (simp add: inet_ntoa_def Let_def udec_step udec_small char_of_def bit_0)
  show ?thesis
    using add_to_free_domain_list_spec [OF inv, of ?g "''wifi.example''"]
    by (simp add: Let_def a)
qed

end
