(* ===== verification/MacLists.thy ===== *)
theory MacLists
  imports Config
begin

text \<open>
  The trusted, blocked and allowed MAC lists of the configuration (\<^verbatim>\<open>src/conf.c\<close>,
  \<^verbatim>\<open>check_mac_format\<close> to \<^verbatim>\<open>parse_allowed_mac_list\<close>). The three families of operations
  share one contract, the locale \<open>mac_list\<close>, interpreted on each of them.
\<close>

section \<open>MAC addresses\<close>

definition macchar :: "char \<Rightarrow> bool" where
  "macchar c \<longleftrightarrow> isxdigit c \<or> c = CHR '':''"

definition check_mac_format :: "string \<Rightarrow> bool" where
  "check_mac_format s =
     (scan_rc (scanf [SSet 2 isxdigit, SLit CHR '':'', SSet 2 isxdigit, SLit CHR '':'',
        SSet 2 isxdigit, SLit CHR '':'', SSet 2 isxdigit, SLit CHR '':'',
        SSet 2 isxdigit, SLit CHR '':'', SSet 2 isxdigit] s) = 6)"

text \<open>\<^verbatim>\<open>sscanf(possiblemac, "%17[A-Fa-f0-9:]", mac)\<close>, called only after the check.\<close>

definition scan_mac :: "string \<Rightarrow> string" where
  "scan_mac s = (case fst (scanf [SSet 17 macchar] s) of VStr w # _ \<Rightarrow> w | _ \<Rightarrow> [])"

definition on_mac_list :: "string \<Rightarrow> string list \<Rightarrow> bool" where
  "on_mac_list mac l \<longleftrightarrow> list_ex (\<lambda>m. strcasecmp_eq m mac) l"

text \<open>The search that unlinks its first hit: the loop of the three remove functions.\<close>

fun unlink_mac :: "string \<Rightarrow> string list \<Rightarrow> string list option" where
  "unlink_mac mac [] = None"
| "unlink_mac mac (m # l) =
     (if strcasecmp_eq m mac then Some l else map_option ((#) m) (unlink_mac mac l))"

section \<open>The operations\<close>

definition add_to_trusted_mac_list :: "string \<Rightarrow> s_config \<Rightarrow> int \<times> s_config" where
  "add_to_trusted_mac_list s c =
     (if \<not> check_mac_format s then (-1, c)
      else let mac = scan_mac s in
        if on_mac_list mac (cf_trustedmaclist c) then (1, c)
        else (0, c\<lparr>cf_trustedmaclist := mac # cf_trustedmaclist c\<rparr>))"

definition remove_from_trusted_mac_list :: "string \<Rightarrow> s_config \<Rightarrow> int \<times> s_config" where
  "remove_from_trusted_mac_list s c =
     (if \<not> check_mac_format s then (-1, c)
      else let mac = scan_mac s in
        if cf_trustedmaclist c = [] then (-1, c)
        else case unlink_mac mac (cf_trustedmaclist c) of
            Some l \<Rightarrow> (0, c\<lparr>cf_trustedmaclist := l\<rparr>)
          | None \<Rightarrow> (-1, c))"

definition add_to_blocked_mac_list :: "string \<Rightarrow> s_config \<Rightarrow> int \<times> s_config" where
  "add_to_blocked_mac_list s c =
     (if \<not> check_mac_format s then (-1, c)
      else if MAC_BLOCK \<noteq> cf_macmechanism c then (-1, c)
      else let mac = scan_mac s in
        if on_mac_list mac (cf_blockedmaclist c) then (1, c)
        else (0, c\<lparr>cf_blockedmaclist := mac # cf_blockedmaclist c\<rparr>))"

definition remove_from_blocked_mac_list :: "string \<Rightarrow> s_config \<Rightarrow> int \<times> s_config" where
  "remove_from_blocked_mac_list s c =
     (if \<not> check_mac_format s then (-1, c)
      else if MAC_BLOCK \<noteq> cf_macmechanism c then (-1, c)
      else let mac = scan_mac s in
        if cf_blockedmaclist c = [] then (-1, c)
        else case unlink_mac mac (cf_blockedmaclist c) of
            Some l \<Rightarrow> (0, c\<lparr>cf_blockedmaclist := l\<rparr>)
          | None \<Rightarrow> (-1, c))"

definition add_to_allowed_mac_list :: "string \<Rightarrow> s_config \<Rightarrow> int \<times> s_config" where
  "add_to_allowed_mac_list s c =
     (if \<not> check_mac_format s then (-1, c)
      else if MAC_ALLOW \<noteq> cf_macmechanism c then (-1, c)
      else let mac = scan_mac s in
        if on_mac_list mac (cf_allowedmaclist c) then (1, c)
        else (0, c\<lparr>cf_allowedmaclist := mac # cf_allowedmaclist c\<rparr>))"

definition remove_from_allowed_mac_list :: "string \<Rightarrow> s_config \<Rightarrow> int \<times> s_config" where
  "remove_from_allowed_mac_list s c =
     (if \<not> check_mac_format s then (-1, c)
      else if MAC_ALLOW \<noteq> cf_macmechanism c then (-1, c)
      else let mac = scan_mac s in
        if cf_allowedmaclist c = [] then (-1, c)
        else case unlink_mac mac (cf_allowedmaclist c) of
            Some l \<Rightarrow> (0, c\<lparr>cf_allowedmaclist := l\<rparr>)
          | None \<Rightarrow> (-1, c))"

text \<open>The fields between the delimiters of \<^verbatim>\<open>strsep(&p, ", \\t")\<close>, empty ones skipped.\<close>

definition mac_delim :: "char \<Rightarrow> bool" where
  "mac_delim c \<longleftrightarrow> c = CHR '','' \<or> c = CHR '' '' \<or> c = CHR 0x09"

fun add_macs :: "(string \<Rightarrow> 'c \<Rightarrow> int \<times> 'c) \<Rightarrow> string list \<Rightarrow> 'c \<Rightarrow> 'c" where
  "add_macs add [] c = c"
| "add_macs add (w # ws) c =
     (if length w > 0 then add_macs add ws (snd (add w c)) else add_macs add ws c)"

definition parse_trusted_mac_list :: "string \<Rightarrow> s_config \<Rightarrow> s_config" where
  "parse_trusted_mac_list s c = add_macs add_to_trusted_mac_list (strsep_all mac_delim s) c"

definition parse_blocked_mac_list :: "string \<Rightarrow> s_config \<Rightarrow> s_config" where
  "parse_blocked_mac_list s c = add_macs add_to_blocked_mac_list (strsep_all mac_delim s) c"

definition parse_allowed_mac_list :: "string \<Rightarrow> s_config \<Rightarrow> s_config" where
  "parse_allowed_mac_list s c = add_macs add_to_allowed_mac_list (strsep_all mac_delim s) c"

section \<open>Lemmas on the lists\<close>

definition wf_mac :: "string \<Rightarrow> bool" where
  "wf_mac m \<longleftrightarrow> m \<noteq> [] \<and> length m \<le> 17 \<and> (\<forall>c \<in> set m. macchar c)"

text \<open>Every entry is well formed and no two are equal up to case.\<close>

definition mac_list_inv :: "string list \<Rightarrow> bool" where
  "mac_list_inv l \<longleftrightarrow> (\<forall>m \<in> set l. wf_mac m) \<and> distinct (map (map tolower) l)"

lemma mac_list_inv_Nil [simp]: "mac_list_inv []"
  by (simp add: mac_list_inv_def)

lemma on_mac_list_iff: "on_mac_list mac l \<longleftrightarrow> map tolower mac \<in> map tolower ` set l"
  by (auto simp: on_mac_list_def list_ex_iff strcasecmp_eq_def image_iff) (metis)+

lemma mac_list_inv_Cons:
  "mac_list_inv (m # l) \<longleftrightarrow> wf_mac m \<and> \<not> on_mac_list m l \<and> mac_list_inv l"
  by (auto simp: mac_list_inv_def on_mac_list_iff)

lemma unlink_mac_None: "unlink_mac mac l = None \<longleftrightarrow> \<not> on_mac_list mac l"
  by (induction l) (auto simp: on_mac_list_def)

lemma unlink_mac_Some:
  "unlink_mac mac l = Some l' \<Longrightarrow> l' = remove_first (\<lambda>m. strcasecmp_eq m mac) l"
  by (induction l arbitrary: l') (auto split: if_splits)

lemma mac_list_inv_remove: "mac_list_inv l \<Longrightarrow> mac_list_inv (remove_first P l)"
proof (induction l)
  case (Cons m l)
  have "\<not> on_mac_list m (remove_first P l)" if "\<not> on_mac_list m l"
    using that set_remove_first_subset [of P l] by (auto simp: on_mac_list_iff)
  with Cons show ?case by (auto simp: mac_list_inv_Cons)
qed simp

lemma on_mac_list_removed:
  assumes "mac_list_inv l"
  shows "\<not> on_mac_list mac (remove_first (\<lambda>m. strcasecmp_eq m mac) l)"
  using assms
proof (induction l)
  case (Cons m l)
  show ?case
  proof (cases "strcasecmp_eq m mac")
    case True
    then have "on_mac_list mac l = on_mac_list m l"
      by (simp add: on_mac_list_iff strcasecmp_eq_def)
    with True Cons.prems show ?thesis by (simp add: mac_list_inv_Cons)
  next
    case False
    with Cons show ?thesis by (simp add: mac_list_inv_Cons on_mac_list_def)
  qed
qed (simp add: on_mac_list_def)

lemma scanf_SSet_hd:
  "scan_rc (scanf (SSet n P # ds) s) = k \<Longrightarrow> 1 \<le> k \<Longrightarrow> takeWhile P (take n s) \<noteq> []"
  by (auto simp: scan_rc_def scanf.simps Let_def split: if_splits)

lemma scan_mac_wf: "check_mac_format s \<Longrightarrow> wf_mac (scan_mac s)"
proof -
  assume "check_mac_format s"
  then have "takeWhile isxdigit (take 2 s) \<noteq> []"
    unfolding check_mac_format_def
    by (rule scanf_SSet_hd) simp
  then obtain c s' where s: "s = c # s'" and c: "isxdigit c"
    by (cases s) (auto split: if_splits)
  let ?w = "takeWhile macchar (take 17 s)"
  have w: "scan_mac s = ?w"
    using s c by (simp add: scan_mac_def scanf.simps macchar_def)
  have "?w \<noteq> []" using s c by (simp add: macchar_def)
  moreover have "length ?w \<le> 17"
    by (rule order_trans [OF length_takeWhile_le]) simp
  moreover have "\<forall>c \<in> set ?w. macchar c"
    by (rule takeWhile_all)
  ultimately show ?thesis unfolding w wf_mac_def by blast
qed

section \<open>The contract\<close>

text \<open>
  What the clients of a MAC list rely on: an addition or removal that reports success
  changed the list in the promised way, any other result changed nothing, and no
  operation changes whether the list is in use.
\<close>

locale mac_list =
  fixes enabled :: "'c \<Rightarrow> bool"
    and macs :: "'c \<Rightarrow> string list"
    and add :: "string \<Rightarrow> 'c \<Rightarrow> int \<times> 'c"
    and remove :: "string \<Rightarrow> 'c \<Rightarrow> int \<times> 'c"
  assumes add_ok: "add s c = (0, c') \<Longrightarrow>
      check_mac_format s \<and> enabled c \<and> \<not> on_mac_list (scan_mac s) (macs c) \<and>
      macs c' = scan_mac s # macs c"
    and add_new: "check_mac_format s \<Longrightarrow> enabled c \<Longrightarrow> \<not> on_mac_list (scan_mac s) (macs c) \<Longrightarrow>
      fst (add s c) = 0"
    and add_dup: "fst (add s c) = 1 \<longleftrightarrow>
      check_mac_format s \<and> enabled c \<and> on_mac_list (scan_mac s) (macs c)"
    and add_rejected: "fst (add s c) \<noteq> 0 \<Longrightarrow> snd (add s c) = c"
    and add_enabled: "enabled (snd (add s c)) = enabled c"
    and remove_ok: "remove s c = (0, c') \<Longrightarrow>
      check_mac_format s \<and> enabled c \<and> on_mac_list (scan_mac s) (macs c) \<and>
      macs c' = remove_first (\<lambda>m. strcasecmp_eq m (scan_mac s)) (macs c)"
    and remove_found: "check_mac_format s \<Longrightarrow> enabled c \<Longrightarrow> on_mac_list (scan_mac s) (macs c) \<Longrightarrow>
      fst (remove s c) = 0"
    and remove_rejected: "fst (remove s c) \<noteq> 0 \<Longrightarrow> snd (remove s c) = c"
    and remove_enabled: "enabled (snd (remove s c)) = enabled c"
begin

lemma add_cases:
  obtains (added) "fst (add s c) = 0" "macs (snd (add s c)) = scan_mac s # macs c"
      "check_mac_format s" "\<not> on_mac_list (scan_mac s) (macs c)"
  | (unchanged) "fst (add s c) \<noteq> 0" "snd (add s c) = c"
proof (cases "fst (add s c) = 0")
  case True
  then have "add s c = (0, snd (add s c))" by (simp add: prod_eq_iff)
  with add_ok [of s c "snd (add s c)"] True that(1) show ?thesis by blast
next
  case False
  with add_rejected [of s c] that(2) show ?thesis by blast
qed

lemma add_inv: "mac_list_inv (macs c) \<Longrightarrow> mac_list_inv (macs (snd (add s c)))"
  by (cases rule: add_cases [of s c]) (auto simp: mac_list_inv_Cons scan_mac_wf)

lemma remove_inv: "mac_list_inv (macs c) \<Longrightarrow> mac_list_inv (macs (snd (remove s c)))"
proof (cases "fst (remove s c) = 0")
  case True
  assume "mac_list_inv (macs c)"
  with remove_ok [of s c "snd (remove s c)"] True show ?thesis
    by (simp add: prod_eq_iff mac_list_inv_remove)
qed (simp add: remove_rejected)

lemma add_macs_inv: "mac_list_inv (macs c) \<Longrightarrow> mac_list_inv (macs (add_macs add ws c))"
  by (induction ws arbitrary: c) (auto intro: add_inv)

lemma add_twice:
  assumes "add s c = (0, c')"
  shows "add s c' = (1, c')"
proof -
  from assms have a: "check_mac_format s" "enabled c" "macs c' = scan_mac s # macs c"
    using add_ok by blast+
  from assms a(2) have "enabled c'" using add_enabled [of s c] by simp
  with a have "fst (add s c') = 1"
    unfolding add_dup by (simp add: on_mac_list_def)
  with add_rejected [of s c'] show ?thesis by (simp add: prod_eq_iff)
qed

lemma add_remove:
  assumes "add s c = (0, c')"
  shows "fst (remove s c') = 0 \<and> macs (snd (remove s c')) = macs c"
proof -
  from assms have a: "check_mac_format s" "enabled c" "macs c' = scan_mac s # macs c"
    using add_ok by blast+
  from assms a(2) have "enabled c'" using add_enabled [of s c] by simp
  with a have r: "fst (remove s c') = 0"
    by (intro remove_found) (simp_all add: on_mac_list_def)
  with remove_ok [of s c' "snd (remove s c')"] a(3) show ?thesis
    by (simp add: prod_eq_iff)
qed

lemma remove_then_gone:
  assumes "mac_list_inv (macs c)" "remove s c = (0, c')"
  shows "\<not> on_mac_list (scan_mac s) (macs c') \<and> fst (remove s c') \<noteq> 0"
proof -
  from remove_ok [OF assms(2)] assms(1)
  have gone: "\<not> on_mac_list (scan_mac s) (macs c')" by (simp add: on_mac_list_removed)
  then show ?thesis using remove_ok [of s c' "snd (remove s c')"] by (auto simp: prod_eq_iff)
qed

lemma add_macs_enabled: "enabled (add_macs add ws c) = enabled c"
  by (induction ws arbitrary: c) (auto simp: add_enabled)

text \<open>Loading a list never loses an entry, and every usable field ends up on it.\<close>

lemma add_keeps: "on_mac_list m (macs c) \<Longrightarrow> on_mac_list m (macs (snd (add s c)))"
  by (cases rule: add_cases [of s c]) (auto simp: on_mac_list_def)

lemma add_macs_keeps: "on_mac_list m (macs c) \<Longrightarrow> on_mac_list m (macs (add_macs add ws c))"
  by (induction ws arbitrary: c) (auto intro: add_keeps)

lemma add_present:
  assumes "check_mac_format s" "enabled c"
  shows "on_mac_list (scan_mac s) (macs (snd (add s c)))"
proof (cases rule: add_cases [of s c])
  case added
  then show ?thesis by (simp add: on_mac_list_def)
next
  case unchanged
  with assms add_new [of s c] show ?thesis by auto
qed

lemma add_macs_present:
  "enabled c \<Longrightarrow> w \<in> set ws \<Longrightarrow> w \<noteq> [] \<Longrightarrow> check_mac_format w \<Longrightarrow>
   on_mac_list (scan_mac w) (macs (add_macs add ws c))"
proof (induction ws arbitrary: c)
  case (Cons v ws)
  show ?case
  proof (cases "w = v")
    case True
    with Cons.prems add_present [of w c]
    show ?thesis by (auto intro: add_macs_keeps)
  next
    case False
    with Cons show ?thesis by (simp add: add_enabled)
  qed
qed simp

end

section \<open>The three lists\<close>

lemma unlink_mac_found:
  "on_mac_list mac l \<Longrightarrow> unlink_mac mac l = Some (remove_first (\<lambda>m. strcasecmp_eq m mac) l)"
  using unlink_mac_None unlink_mac_Some by (metis option.exhaust)

lemma on_mac_list_Nil [simp]: "\<not> on_mac_list mac []"
  by (simp add: on_mac_list_def)

text \<open>The shape the six operations share, over any state that has such a list.\<close>

definition mac_add :: "('c \<Rightarrow> bool) \<Rightarrow> ('c \<Rightarrow> string list) \<Rightarrow> (string list \<Rightarrow> 'c \<Rightarrow> 'c) \<Rightarrow>
    string \<Rightarrow> 'c \<Rightarrow> int \<times> 'c" where
  "mac_add en get put s c =
     (if \<not> check_mac_format s \<or> \<not> en c then (-1, c)
      else if on_mac_list (scan_mac s) (get c) then (1, c)
      else (0, put (scan_mac s # get c) c))"

definition mac_remove :: "('c \<Rightarrow> bool) \<Rightarrow> ('c \<Rightarrow> string list) \<Rightarrow> (string list \<Rightarrow> 'c \<Rightarrow> 'c) \<Rightarrow>
    string \<Rightarrow> 'c \<Rightarrow> int \<times> 'c" where
  "mac_remove en get put s c =
     (if check_mac_format s \<and> en c \<and> on_mac_list (scan_mac s) (get c)
      then (0, put (remove_first (\<lambda>m. strcasecmp_eq m (scan_mac s)) (get c)) c)
      else (-1, c))"

lemma mac_list_shape:
  assumes "\<And>l c. get (put l c) = l" "\<And>l c. en (put l c) = en c"
  shows "mac_list en get (mac_add en get put) (mac_remove en get put)"
  using assms by unfold_locales (auto simp: mac_add_def mac_remove_def split: if_splits)

lemmas mac_shape_defs = mac_add_def mac_remove_def Let_def

lemma trusted_shape:
  "add_to_trusted_mac_list = mac_add (\<lambda>c. True) cf_trustedmaclist (\<lambda>l. cf_trustedmaclist_update (\<lambda>_. l))"
  "remove_from_trusted_mac_list =
     mac_remove (\<lambda>c. True) cf_trustedmaclist (\<lambda>l. cf_trustedmaclist_update (\<lambda>_. l))"
  by (intro ext, simp add: mac_shape_defs add_to_trusted_mac_list_def)
     (intro ext, simp add: mac_shape_defs remove_from_trusted_mac_list_def unlink_mac_found
        unlink_mac_None [THEN iffD2] split: option.split)

lemma blocked_shape:
  "add_to_blocked_mac_list = mac_add (\<lambda>c. cf_macmechanism c = MAC_BLOCK) cf_blockedmaclist
     (\<lambda>l. cf_blockedmaclist_update (\<lambda>_. l))"
  "remove_from_blocked_mac_list = mac_remove (\<lambda>c. cf_macmechanism c = MAC_BLOCK) cf_blockedmaclist
     (\<lambda>l. cf_blockedmaclist_update (\<lambda>_. l))"
  by (intro ext, simp add: mac_shape_defs add_to_blocked_mac_list_def eq_commute)
     (intro ext, simp add: mac_shape_defs remove_from_blocked_mac_list_def unlink_mac_found
        unlink_mac_None [THEN iffD2] eq_commute split: option.split)

lemma allowed_shape:
  "add_to_allowed_mac_list = mac_add (\<lambda>c. cf_macmechanism c = MAC_ALLOW) cf_allowedmaclist
     (\<lambda>l. cf_allowedmaclist_update (\<lambda>_. l))"
  "remove_from_allowed_mac_list = mac_remove (\<lambda>c. cf_macmechanism c = MAC_ALLOW) cf_allowedmaclist
     (\<lambda>l. cf_allowedmaclist_update (\<lambda>_. l))"
  by (intro ext, simp add: mac_shape_defs add_to_allowed_mac_list_def eq_commute)
     (intro ext, simp add: mac_shape_defs remove_from_allowed_mac_list_def unlink_mac_found
        unlink_mac_None [THEN iffD2] eq_commute split: option.split)

interpretation trusted: mac_list "\<lambda>c. True" cf_trustedmaclist
    add_to_trusted_mac_list remove_from_trusted_mac_list
  unfolding trusted_shape by (rule mac_list_shape) simp_all

interpretation blocked: mac_list "\<lambda>c. cf_macmechanism c = MAC_BLOCK" cf_blockedmaclist
    add_to_blocked_mac_list remove_from_blocked_mac_list
  unfolding blocked_shape by (rule mac_list_shape) simp_all

interpretation allowed: mac_list "\<lambda>c. cf_macmechanism c = MAC_ALLOW" cf_allowedmaclist
    add_to_allowed_mac_list remove_from_allowed_mac_list
  unfolding allowed_shape by (rule mac_list_shape) simp_all

text \<open>All three lists together, and the loads of the configuration file.\<close>

definition mac_lists_inv :: "s_config \<Rightarrow> bool" where
  "mac_lists_inv c \<longleftrightarrow> mac_list_inv (cf_trustedmaclist c) \<and> mac_list_inv (cf_blockedmaclist c) \<and>
     mac_list_inv (cf_allowedmaclist c)"

text \<open>Each operation writes one field of the configuration only: every observation that a
  write of that field leaves alone is left alone by the operation and by loading a list.\<close>

lemma mac_add_frame: "(\<And>l c. g (put l c) = g c) \<Longrightarrow> g (snd (mac_add en get put s c)) = g c"
  by (simp add: mac_add_def)

lemma mac_remove_frame: "(\<And>l c. g (put l c) = g c) \<Longrightarrow> g (snd (mac_remove en get put s c)) = g c"
  by (simp add: mac_remove_def)

lemma add_macs_frame: "(\<And>s c. g (snd (add s c)) = g c) \<Longrightarrow> g (add_macs add ws c) = g c"
  by (induction ws arbitrary: c) simp_all

lemma parse_mac_lists_frame [frame_simps]:
  "(\<And>l c. g (cf_trustedmaclist_update (\<lambda>_. l) c) = g c) \<Longrightarrow> g (parse_trusted_mac_list s c) = g c"
  "(\<And>l c. g (cf_blockedmaclist_update (\<lambda>_. l) c) = g c) \<Longrightarrow> g (parse_blocked_mac_list s c) = g c"
  "(\<And>l c. g (cf_allowedmaclist_update (\<lambda>_. l) c) = g c) \<Longrightarrow> g (parse_allowed_mac_list s c) = g c"
  unfolding parse_trusted_mac_list_def parse_blocked_mac_list_def parse_allowed_mac_list_def
    trusted_shape blocked_shape allowed_shape
  by (intro add_macs_frame mac_add_frame; assumption)+

lemma parse_mac_lists_inv:
  assumes "mac_lists_inv c"
  shows "mac_lists_inv (parse_trusted_mac_list s c)"
    and "mac_lists_inv (parse_blocked_mac_list s c)"
    and "mac_lists_inv (parse_allowed_mac_list s c)"
proof -
  let ?ws = "strsep_all mac_delim s"
  from assms trusted.add_macs_inv [of c ?ws]
  show "mac_lists_inv (parse_trusted_mac_list s c)"
    by (simp add: mac_lists_inv_def parse_mac_lists_frame(1) [where g = cf_blockedmaclist]
        parse_mac_lists_frame(1) [where g = cf_allowedmaclist])
      (simp add: parse_trusted_mac_list_def)
  from assms blocked.add_macs_inv [of c ?ws]
  show "mac_lists_inv (parse_blocked_mac_list s c)"
    by (simp add: mac_lists_inv_def parse_mac_lists_frame(2) [where g = cf_trustedmaclist]
        parse_mac_lists_frame(2) [where g = cf_allowedmaclist])
      (simp add: parse_blocked_mac_list_def)
  from assms allowed.add_macs_inv [of c ?ws]
  show "mac_lists_inv (parse_allowed_mac_list s c)"
    by (simp add: mac_lists_inv_def parse_mac_lists_frame(3) [where g = cf_blockedmaclist]
        parse_mac_lists_frame(3) [where g = cf_trustedmaclist])
      (simp add: parse_allowed_mac_list_def)
qed

section \<open>Properties\<close>

lemma sample_mac: "check_mac_format ''00:1a:22:33:44:5F''" "scan_mac ''00:1a:22:33:44:5F'' = ''00:1a:22:33:44:5F''"
  by (simp_all add: check_mac_format_def scan_mac_def scanf.simps isxdigit_def isdigit_def macchar_def
      cc_def scan_rc_def)

lemma mac_add_then:
  assumes "\<And>l c. get (put l c) = l" "\<And>l c. en (put l c) = en c" "\<And>l l' c. put l (put l' c) = put l c"
    and "\<And>c. put (get c) c = c" and add: "mac_add en get put s c = (0, c')"
  shows "mac_add en get put s c' = (1, c') \<and> mac_remove en get put s c' = (0, c)"
proof -
  from add have a: "check_mac_format s" "en c" "\<not> on_mac_list (scan_mac s) (get c)"
    "c' = put (scan_mac s # get c) c"
    by (auto simp: mac_add_def split: if_splits)
  then have "on_mac_list (scan_mac s) (get c')" by (simp add: assms(1) on_mac_list_def)
  with a show ?thesis by (simp add: mac_add_def mac_remove_def assms(1-4))
qed

text \<open>
  C29. The trusted, blocked and allowed MAC lists: after an addition that reports success,
  adding the address again reports that it is there and changes nothing, and removing it
  succeeds and gives back exactly the configuration before the addition.
\<close>

theorem mac_add_remove:
  assumes "(add, remove) \<in> {(add_to_trusted_mac_list, remove_from_trusted_mac_list),
      (add_to_blocked_mac_list, remove_from_blocked_mac_list),
      (add_to_allowed_mac_list, remove_from_allowed_mac_list)}"
    and "add s c = (0, c')"
  shows "add s c' = (1, c') \<and> remove s c' = (0, c)"
  using assms unfolding trusted_shape blocked_shape allowed_shape
  by (elim insertE emptyE; clarify; intro mac_add_then) simp_all

lemma mac_add_remove_witness:
  "let c = config_defaults\<lparr>cf_blockedmaclist := [''00:1A:22:33:44:55'']\<rparr>;
       c' = c\<lparr>cf_blockedmaclist := [''00:1a:22:33:44:5F'', ''00:1A:22:33:44:55'']\<rparr>
   in add_to_blocked_mac_list ''00:1a:22:33:44:5F'' c = (0, c') \<and>
      add_to_blocked_mac_list ''00:1a:22:33:44:5F'' c' = (1, c') \<and>
      remove_from_blocked_mac_list ''00:1a:22:33:44:5F'' c' = (0, c)"
proof -
  let ?c = "config_defaults\<lparr>cf_blockedmaclist := [''00:1A:22:33:44:55'']\<rparr>"
  let ?c' = "?c\<lparr>cf_blockedmaclist := [''00:1a:22:33:44:5F'', ''00:1A:22:33:44:55'']\<rparr>"
  have add: "add_to_blocked_mac_list ''00:1a:22:33:44:5F'' ?c = (0, ?c')"
    by (simp add: add_to_blocked_mac_list_def sample_mac on_mac_list_def strcasecmp_eq_def tolower_def
        cc_def char_of_def bit_0 config_defaults_def MAC_BLOCK_def)
  show ?thesis
    using mac_add_remove [of add_to_blocked_mac_list remove_from_blocked_mac_list, OF _ add] add
    by (simp add: Let_def)
qed

text \<open>
  Loading a list of addresses separated by commas, blanks and tabs: every field that
  is a MAC address is on the trusted list afterwards, what was on it stays, and the list
  keeps its invariant (well formed, no address twice up to case).
\<close>

theorem parse_trusted_mac_list_spec:
  assumes "mac_list_inv (cf_trustedmaclist c)" "w \<in> set (strsep_all mac_delim s)" "w \<noteq> []"
    "check_mac_format w" "on_mac_list m (cf_trustedmaclist c)"
  shows "on_mac_list (scan_mac w) (cf_trustedmaclist (parse_trusted_mac_list s c)) \<and>
    on_mac_list m (cf_trustedmaclist (parse_trusted_mac_list s c)) \<and>
    mac_list_inv (cf_trustedmaclist (parse_trusted_mac_list s c))"
  unfolding parse_trusted_mac_list_def
  using assms by (simp add: trusted.add_macs_present trusted.add_macs_keeps trusted.add_macs_inv)

lemma parse_trusted_mac_list_spec_witness:
  "let c = config_defaults\<lparr>cf_trustedmaclist := [''00:1A:22:33:44:55'']\<rparr>; s = ''x, 00:1a:22:33:44:5F''
   in on_mac_list ''00:1a:22:33:44:5f'' (cf_trustedmaclist (parse_trusted_mac_list s c)) \<and>
      on_mac_list ''00:1a:22:33:44:55'' (cf_trustedmaclist (parse_trusted_mac_list s c)) \<and>
      mac_list_inv (cf_trustedmaclist (parse_trusted_mac_list s c))"
proof -
  let ?c = "config_defaults\<lparr>cf_trustedmaclist := [''00:1A:22:33:44:55'']\<rparr>"
  let ?s = "''x, 00:1a:22:33:44:5F''"
  have "mac_list_inv (cf_trustedmaclist ?c)"
    by (simp add: mac_list_inv_def wf_mac_def macchar_def isxdigit_def isdigit_def cc_def)
  moreover have "''00:1a:22:33:44:5F'' \<in> set (strsep_all mac_delim ?s)"
    by (simp add: mac_delim_def)
  moreover have "on_mac_list ''00:1a:22:33:44:55'' (cf_trustedmaclist ?c)"
    by (simp add: on_mac_list_def strcasecmp_eq_def tolower_def cc_def char_of_def bit_0)
  ultimately have "on_mac_list (scan_mac ''00:1a:22:33:44:5F'') (cf_trustedmaclist (parse_trusted_mac_list ?s ?c)) \<and>
      on_mac_list ''00:1a:22:33:44:55'' (cf_trustedmaclist (parse_trusted_mac_list ?s ?c)) \<and>
      mac_list_inv (cf_trustedmaclist (parse_trusted_mac_list ?s ?c))"
    by (intro parse_trusted_mac_list_spec) (simp_all add: sample_mac)
  then show ?thesis
    by (simp add: sample_mac on_mac_list_def strcasecmp_eq_def tolower_def cc_def char_of_def bit_0 Let_def)
qed

end
