(* ===== verification/CenterServer.thy ===== *)
theory CenterServer
  imports CString
begin

text \<open>
  Requests to the authentication server (\<^verbatim>\<open>src/centerserver.c\<close>): resolving its name,
  connecting with retries, sending a GET request and reading the response. The network is a
  parameter: what the \<open>n\<close>-th lookup of a name gives, whether the \<open>n\<close>-th attempt finds a socket
  and connects it to an address and a port of 16 bits, and what the \<open>n\<close>-th read of the response
  gives, \<open>None\<close> for an error or a timeout and the empty string at the end of the stream.
\<close>

record net =
  n_dns :: "nat \<Rightarrow> string \<Rightarrow> string option"
  n_socket :: "nat \<Rightarrow> bool"
  n_connect :: "nat \<Rightarrow> string \<Rightarrow> int \<Rightarrow> bool"
  n_read :: "nat \<Rightarrow> nat \<Rightarrow> string option"

section \<open>Resolving\<close>

definition popular_servers :: "string list" where
  "popular_servers = [''www.baidu.com'', ''www.qq.com'']"

text \<open>The first popular server that can be resolved; the number of lookups is returned too.\<close>

fun try_popular :: "(nat \<Rightarrow> string \<Rightarrow> string option) \<Rightarrow> nat \<Rightarrow> string list \<Rightarrow> bool \<times> nat" where
  "try_popular dns n [] = (False, n)"
| "try_popular dns n (s # ss) = (if dns n s \<noteq> None then (True, Suc n) else try_popular dns (Suc n) ss)"

text \<open>
  As long as a popular server can be resolved the lookup of the server itself is repeated.
\<close>

partial_function (option) resolve_loop ::
    "(nat \<Rightarrow> string \<Rightarrow> string option) \<Rightarrow> nat \<Rightarrow> string \<Rightarrow> string option option" where
  "resolve_loop dns n hostname =
     (case dns n hostname of
        Some ip \<Rightarrow> Some (Some (take 16 ip))
      | None \<Rightarrow> (case try_popular dns (Suc n) popular_servers of (found, n') \<Rightarrow>
          if found then resolve_loop dns n' hostname else Some None))"

definition resolve_host :: "net \<Rightarrow> string \<Rightarrow> string option option" where
  "resolve_host e hostname = resolve_loop (n_dns e) 0 hostname"

section \<open>Connecting\<close>

fun connect_attempts :: "(nat \<Rightarrow> bool) \<Rightarrow> nat \<Rightarrow> nat \<Rightarrow> bool" where
  "connect_attempts connect level 0 = False"
| "connect_attempts connect level (Suc k) = (connect level \<or> connect_attempts connect (Suc level) k)"

definition connect_once :: "net \<Rightarrow> nat \<Rightarrow> string \<Rightarrow> int \<Rightarrow> bool" where
  "connect_once e n ip port \<longleftrightarrow> n_socket e n \<and> n_connect e n ip (port mod 2 ^ 16)"

definition connect_auth_server :: "net \<Rightarrow> string \<Rightarrow> int \<Rightarrow> bool" where
  "connect_auth_server e ip port = connect_attempts (\<lambda>n. connect_once e n ip port) 1 5"

section \<open>Requests\<close>

definition crlf :: string where
  "crlf = [CHR 0x0D, CHR 0x0A]"

definition get_request :: "string \<Rightarrow> string \<Rightarrow> string \<Rightarrow> string \<Rightarrow> nat \<Rightarrow> string" where
  "get_request path query version ip buf_len =
     snprintf_s (buf_len - 1) (''GET '' @ path @ query @ '' HTTP/1.0'' @ crlf @ ''User-Agent: WiFiCat '' @ version @ crlf @
       ''Host: '' @ ip @ crlf @ crlf)"

text \<open>A read gives at most as many bytes as it was asked for.\<close>

function read_response :: "(nat \<Rightarrow> nat \<Rightarrow> string option) \<Rightarrow> nat \<Rightarrow> nat \<Rightarrow> string \<Rightarrow> string option" where
  "read_response rd n buf_len acc =
     (let room = buf_len - (length acc + 1) in
      case rd n room of
        None \<Rightarrow> None
      | Some s \<Rightarrow> let t = take room s in
          if t = [] then Some acc else read_response rd (Suc n) buf_len (acc @ t))"
  by pat_completeness auto
termination
proof (relation "measure (\<lambda>(rd, n, buf_len, acc). buf_len - length acc)", goal_cases)
  case (2 rd n buf_len acc room s t)
  then have "0 < length t" "length t \<le> room" "room = buf_len - (length acc + 1)" by simp_all
  then have "buf_len - (length acc + length t) < buf_len - length acc" by linarith
  then show ?case by simp
qed simp

declare read_response.simps [simp del]

text \<open>The C string in the buffer after a successful request; \<open>None\<close> is the result \<open>-1\<close>.\<close>

definition http_get_request ::
    "net \<Rightarrow> string \<Rightarrow> int \<Rightarrow> string \<Rightarrow> string \<Rightarrow> string \<Rightarrow> nat \<Rightarrow> string option" where
  "http_get_request e ip port path query version buf_len =
     (if \<not> connect_auth_server e ip port then None
      else map_option c_string (read_response (n_read e) 0 buf_len []))"

text \<open>What goes out: the request, when a connection was made.\<close>

definition http_get_sent ::
    "net \<Rightarrow> string \<Rightarrow> int \<Rightarrow> string \<Rightarrow> string \<Rightarrow> string \<Rightarrow> nat \<Rightarrow> string option" where
  "http_get_sent e ip port path query version buf_len =
     (if connect_auth_server e ip port then Some (get_request path query version ip buf_len) else None)"

section \<open>Lemmas\<close>

lemma read_response_bound:
  "read_response rd n buf_len acc = Some r \<Longrightarrow> length acc < buf_len \<Longrightarrow> length r < buf_len"
proof (induction rd n buf_len acc rule: read_response.induct)
  case (1 rd n buf_len acc)
  let ?room = "buf_len - (length acc + 1)"
  show ?case
  proof (cases "rd n ?room")
    case None
    with "1.prems" show ?thesis by (simp add: read_response.simps [of rd n])
  next
    case (Some s)
    show ?thesis
    proof (cases "take ?room s = []")
      case True
      with Some "1.prems" show ?thesis by (simp add: read_response.simps [of rd n] Let_def)
    next
      case False
      with Some "1.prems" have "read_response rd (Suc n) buf_len (acc @ take ?room s) = Some r"
        by (simp add: read_response.simps [of rd n] Let_def)
      moreover have "length (acc @ take ?room s) < buf_len" using "1.prems"(2) by simp
      ultimately show ?thesis using "1.IH" [OF refl Some refl False] by simp
    qed
  qed
qed

text \<open>A name that never resolves while a popular one does keeps the loop going.\<close>

lemma resolve_loop_stuck:
  assumes "\<And>n. dns n hostname = None" "\<And>n. dns n ''www.baidu.com'' \<noteq> None"
  shows "resolve_loop dns n hostname = None"
proof (cases "resolve_loop dns n hostname")
  case (Some r)
  have "\<not> ((\<forall>n. dns n hostname = None) \<and> (\<forall>n. dns n ''www.baidu.com'' \<noteq> None))"
  proof (rule resolve_loop.raw_induct [where P = "\<lambda>dns n hostname r.
      \<not> ((\<forall>n. dns n hostname = None) \<and> (\<forall>n. dns n ''www.baidu.com'' \<noteq> None))", OF _ Some], goal_cases)
    case (1 f dns n hostname r)
    show ?case
    proof
      assume a: "(\<forall>n. dns n hostname = None) \<and> (\<forall>n. dns n ''www.baidu.com'' \<noteq> None)"
      then have "f dns (Suc (Suc n)) hostname = Some r"
        using 1(2) by (simp add: popular_servers_def split: option.splits)
      from 1(1) [OF this] a show False by blast
    qed
  qed
  with assms show ?thesis by blast
qed

end
