(* ===== verification/ServerConfig.thy ===== *)
theory ServerConfig
  imports Jsmn MacLists CenterServer
begin

text \<open>
  The part of the configuration the authentication server sends (\<^verbatim>\<open>src/conf.c\<close>,
  \<^verbatim>\<open>config_from_server\<close>): the request, the JSON object in the body of the response and the
  loop over its keys. Numbers and list items pass through a buffer of 128 bytes that is only
  partly cleared; bytes of it that were never written are \<open>None\<close>.
\<close>

section \<open>Tokens and buffers\<close>

definition jsoneq :: "string \<Rightarrow> jsmntok \<Rightarrow> string \<Rightarrow> bool" where
  "jsoneq js t s \<longleftrightarrow> tk_type t = JSMN_STRING \<and> int (length s) = tk_end t - tk_start t \<and>
     strncmp_eq (drop (nat (tk_start t)) js) s (nat (tk_end t - tk_start t))"

text \<open>What \<^verbatim>\<open>strncpy(p, json + tok.start, len)\<close> copies; \<open>len\<close> becomes a \<^verbatim>\<open>size_t\<close>.\<close>

definition tok_text :: "string \<Rightarrow> jsmntok \<Rightarrow> string result" where
  "tok_text js t = (if tk_start t < 0 \<or> tk_end t < tk_start t then Undef
     else Ok (take (nat (tk_end t - tk_start t)) (drop (nat (tk_start t)) js)))"

type_synonym buffer = "char option list"

definition tmp_clear :: "nat \<Rightarrow> buffer \<Rightarrow> buffer" where
  "tmp_clear n b = replicate n (Some NUL) @ drop n b"

definition tmp_copy :: "string \<Rightarrow> buffer \<Rightarrow> buffer result" where
  "tmp_copy s b = (if length b < length s then Undef else Ok (map Some s @ drop (length s) b))"

fun tmp_string :: "buffer \<Rightarrow> string result" where
  "tmp_string [] = Undef"
| "tmp_string (None # b) = Undef"
| "tmp_string (Some c # b) = (if c = NUL then Ok [] else rbind (tmp_string b) (\<lambda>s. Ok (c # s)))"

text \<open>\<^verbatim>\<open>atoi\<close> reads up to the first byte that cannot belong to the number.\<close>

definition tmp_atoi :: "buffer \<Rightarrow> int result" where
  "tmp_atoi b = (let s = map the (takeWhile (\<lambda>x. x \<noteq> None) b) in
     if dropWhile isdigit (snd (scan_sign (skip_ws s))) = [] then Undef else Ok (atoi s))"

section \<open>Keys\<close>

text \<open>
  One pass through the loop body at the token \<open>i\<close>: \<open>None\<close> when it returns \<open>-4\<close>, else by
  how much it moves \<open>i\<close> on besides the loop's own increment.
\<close>

type_synonym key_state = "nat option \<times> s_config \<times> buffer"

definition set_text ::
    "string \<Rightarrow> jsmntok list \<Rightarrow> nat \<Rightarrow> (string \<Rightarrow> s_config) \<Rightarrow> buffer \<Rightarrow> key_state result" where
  "set_text js toks i put b =
     rbind (token_at toks (int i + 1)) (\<lambda>t. rbind (tok_text js t) (\<lambda>s. Ok (Some 1, put s, b)))"

definition set_number ::
    "string \<Rightarrow> jsmntok list \<Rightarrow> nat \<Rightarrow> (int \<Rightarrow> s_config) \<Rightarrow> buffer \<Rightarrow> key_state result" where
  "set_number js toks i put b =
     rbind (token_at toks (int i + 1)) (\<lambda>t. rbind (tok_text js t) (\<lambda>s.
     rbind (tmp_copy s (tmp_clear 32 b)) (\<lambda>b1. rbind (tmp_atoi b1) (\<lambda>n. Ok (Some 1, put n, b1)))))"

fun add_items ::
    "(string \<Rightarrow> s_config \<Rightarrow> int \<times> s_config) \<Rightarrow> nat \<Rightarrow> string \<Rightarrow> jsmntok list \<Rightarrow> nat \<Rightarrow> nat \<Rightarrow>
     s_config \<Rightarrow> buffer \<Rightarrow> (s_config \<times> buffer) result" where
  "add_items add clear js toks k 0 c b = Ok (c, b)"
| "add_items add clear js toks k (Suc n) c b =
     rbind (token_at toks (int k)) (\<lambda>t. rbind (tok_text js t) (\<lambda>s.
     rbind (tmp_copy s (tmp_clear clear b)) (\<lambda>b1. rbind (tmp_string b1) (\<lambda>item.
       add_items add clear js toks (Suc k) n (snd (add item c)) b1))))"

definition set_list ::
    "(string \<Rightarrow> s_config \<Rightarrow> int \<times> s_config) \<Rightarrow> nat \<Rightarrow> string \<Rightarrow> jsmntok list \<Rightarrow> nat \<Rightarrow> s_config \<Rightarrow> buffer \<Rightarrow>
     key_state result" where
  "set_list add clear js toks i c b =
     rbind (token_at toks (int i + 1)) (\<lambda>a.
       if tk_type a \<noteq> JSMN_ARRAY then Ok (None, c, b)
       else rbind (add_items add clear js toks (i + 2) (tk_size a) c b) (\<lambda>(c1, b1).
         Ok (Some (tk_size a + 1), c1, b1)))"

definition config_key ::
    "(string \<Rightarrow> 32 word list option) \<Rightarrow> string \<Rightarrow> jsmntok list \<Rightarrow> nat \<Rightarrow> s_config \<Rightarrow> buffer \<Rightarrow> key_state result" where
  "config_key ghbn js toks i c b =
     (let is = jsoneq js (toks ! i) in
      if is ''authPath'' then
        rbind (c_free (cf_auth_path c)) (\<lambda>_. set_text js toks i (\<lambda>s. c\<lparr>cf_auth_path := Malloced s\<rparr>) b)
      else if is ''configPath'' then
        rbind (c_free (cf_config_path c)) (\<lambda>_. set_text js toks i (\<lambda>s. c\<lparr>cf_config_path := Malloced s\<rparr>) b)
      else if is ''netTrafficPath'' then
        rbind (c_free (cf_net_traffic_path c)) (\<lambda>_. set_text js toks i (\<lambda>s. c\<lparr>cf_net_traffic_path := Malloced s\<rparr>) b)
      else if is ''gatewayName'' then set_text js toks i (\<lambda>s. c\<lparr>cf_gw_name := s\<rparr>) b
      else if is ''redirectURL'' then set_text js toks i (\<lambda>s. c\<lparr>cf_redirectURL := Some s\<rparr>) b
      else if is ''maxClients'' then set_number js toks i (\<lambda>n. c\<lparr>cf_maxclients := n\<rparr>) b
      else if is ''clientIdleTimeout'' then set_number js toks i (\<lambda>n. c\<lparr>cf_clienttimeout := n\<rparr>) b
      else if is ''clientForceTimeout'' then set_number js toks i (\<lambda>n. c\<lparr>cf_clientforceout := n\<rparr>) b
      else if is ''trafficControl'' then set_number js toks i (\<lambda>n. c\<lparr>cf_traffic_control := n\<rparr>) b
      else if is ''downloadLimit'' then set_number js toks i (\<lambda>n. c\<lparr>cf_download_limit := n\<rparr>) b
      else if is ''uploadLimit'' then set_number js toks i (\<lambda>n. c\<lparr>cf_upload_limit := n\<rparr>) b
      else if is ''freeIPList'' then set_list add_to_free_ip_list 32 js toks i c b
      else if is ''freeDomainList'' then set_list (add_to_free_domain_list ghbn) 128 js toks i c b
      else if is ''blockedMACList'' then set_list add_to_blocked_mac_list 32 js toks i c b
      else if is ''trustedMACList'' then set_list add_to_trusted_mac_list 32 js toks i c b
      else Ok (None, c, b))"

function config_keys ::
    "(string \<Rightarrow> 32 word list option) \<Rightarrow> string \<Rightarrow> jsmntok list \<Rightarrow> nat \<Rightarrow> s_config \<Rightarrow> buffer \<Rightarrow> (int \<times> s_config) result" where
  "config_keys ghbn js toks i c b =
     (if length toks \<le> i then Ok (1, c)
      else rbind (config_key ghbn js toks i c b) (\<lambda>(more, c1, b1).
        case more of None \<Rightarrow> Ok (-4, c1) | Some k \<Rightarrow> config_keys ghbn js toks (i + k + 1) c1 b1))"
  by pat_completeness auto
termination
  by (relation "measure (\<lambda>(ghbn, js, toks, i, c, b). length toks - i)") auto

declare config_keys.simps [simp del]

section \<open>The request\<close>

text \<open>The 256 tokens and the 128 bytes are on the stack; the bytes start indeterminate.\<close>

definition config_from_json ::
    "(string \<Rightarrow> 32 word list option) \<Rightarrow> string \<Rightarrow> s_config \<Rightarrow> (int \<times> s_config) result" where
  "config_from_json ghbn js c =
     rbind (jsmn_parse js 256) (\<lambda>(res, toks).
       if res < 0 then Ok (-4, c)
       else if res < 1 \<or> tk_type (toks ! 0) \<noteq> JSMN_OBJECT then Ok (-4, c)
       else config_keys ghbn js toks 1 c (replicate 128 None))"

text \<open>
  The server's name must be configured; a lookup that is repeated for ever has no result.
\<close>

definition config_query :: "s_config \<Rightarrow> string" where
  "config_query c = snprintf_s 32 (''?uid='' @ fmt_d (cf_uid c))"

definition config_from_server ::
    "net \<Rightarrow> (string \<Rightarrow> 32 word list option) \<Rightarrow> string \<Rightarrow> s_config \<Rightarrow> (int \<times> s_config) result" where
  "config_from_server n ghbn version c =
     rbind (of_opt (cf_auth_server c)) (\<lambda>server.
     rbind (of_opt (resolve_host n server)) (\<lambda>res.
       case res of
         None \<Rightarrow> Ok (-1, c)
       | Some ip \<Rightarrow>
           (case http_get_request n (take 15 ip) (sint (cf_auth_port c)) (cptr_str (cf_config_path c))
                 (config_query c) version 8192 of
              None \<Rightarrow> Ok (-2, c)
            | Some buf \<Rightarrow> (case strstr buf (crlf @ crlf) of
                None \<Rightarrow> Ok (-3, c)
              | Some json \<Rightarrow> config_from_json ghbn (drop 4 json) c))))"

section \<open>What the settings mean\<close>

text \<open>
  The abstract side: a table of settings, and the configuration after a list of fields. A key
  that is in none of the tables, or a list key whose value is not a list, ends it with \<open>-4\<close>,
  the settings before it staying in force.
\<close>

definition text_settings :: "(string \<times> (string \<Rightarrow> s_config \<Rightarrow> s_config)) list" where
  "text_settings =
     [(''authPath'', \<lambda>s c. c\<lparr>cf_auth_path := Malloced s\<rparr>),
      (''configPath'', \<lambda>s c. c\<lparr>cf_config_path := Malloced s\<rparr>),
      (''netTrafficPath'', \<lambda>s c. c\<lparr>cf_net_traffic_path := Malloced s\<rparr>),
      (''gatewayName'', \<lambda>s c. c\<lparr>cf_gw_name := s\<rparr>),
      (''redirectURL'', \<lambda>s c. c\<lparr>cf_redirectURL := Some s\<rparr>)]"

definition number_settings :: "(string \<times> (int \<Rightarrow> s_config \<Rightarrow> s_config)) list" where
  "number_settings =
     [(''maxClients'', \<lambda>n c. c\<lparr>cf_maxclients := n\<rparr>),
      (''clientIdleTimeout'', \<lambda>n c. c\<lparr>cf_clienttimeout := n\<rparr>),
      (''clientForceTimeout'', \<lambda>n c. c\<lparr>cf_clientforceout := n\<rparr>),
      (''trafficControl'', \<lambda>n c. c\<lparr>cf_traffic_control := n\<rparr>),
      (''downloadLimit'', \<lambda>n c. c\<lparr>cf_download_limit := n\<rparr>),
      (''uploadLimit'', \<lambda>n c. c\<lparr>cf_upload_limit := n\<rparr>)]"

definition list_settings ::
    "(string \<Rightarrow> 32 word list option) \<Rightarrow> (string \<times> (string \<Rightarrow> s_config \<Rightarrow> int \<times> s_config)) list" where
  "list_settings ghbn =
     [(''freeIPList'', add_to_free_ip_list), (''freeDomainList'', add_to_free_domain_list ghbn),
      (''blockedMACList'', add_to_blocked_mac_list), (''trustedMACList'', add_to_trusted_mac_list)]"

fun jtext :: "jval \<Rightarrow> string" where
  "jtext (JText s) = s"
| "jtext (JWord s) = s"
| "jtext (JList ss) = []"

fun jitems :: "jval \<Rightarrow> string list option" where
  "jitems (JList ss) = Some ss"
| "jitems v = None"

definition add_all :: "(string \<Rightarrow> s_config \<Rightarrow> int \<times> s_config) \<Rightarrow> string list \<Rightarrow> s_config \<Rightarrow> s_config" where
  "add_all add ss c = foldl (\<lambda>c s. snd (add s c)) c ss"

definition server_setting ::
    "(string \<Rightarrow> 32 word list option) \<Rightarrow> string \<Rightarrow> jval \<Rightarrow> s_config \<Rightarrow> s_config option" where
  "server_setting ghbn k v c =
     (case map_of text_settings k of Some put \<Rightarrow> Some (put (jtext v) c)
      | None \<Rightarrow> case map_of number_settings k of Some put \<Rightarrow> Some (put (atoi (jtext v)) c)
      | None \<Rightarrow> case map_of (list_settings ghbn) k of Some add \<Rightarrow> map_option (\<lambda>ss. add_all add ss c) (jitems v)
      | None \<Rightarrow> None)"

text \<open>
  The paths of the defaults are string literals. Giving a path a new value frees the old one,
  which is undefined while it is still the literal.
\<close>

definition still_literal :: "string \<Rightarrow> s_config \<Rightarrow> bool" where
  "still_literal k c \<longleftrightarrow>
     (k = ''authPath'' \<and> cf_auth_path c = Literal (cptr_str (cf_auth_path c))) \<or>
     (k = ''configPath'' \<and> cf_config_path c = Literal (cptr_str (cf_config_path c))) \<or>
     (k = ''netTrafficPath'' \<and> cf_net_traffic_path c = Literal (cptr_str (cf_net_traffic_path c)))"

fun server_settings ::
    "(string \<Rightarrow> 32 word list option) \<Rightarrow> (string \<times> jval) list \<Rightarrow> s_config \<Rightarrow> (int \<times> s_config) result" where
  "server_settings ghbn [] c = Ok (1, c)"
| "server_settings ghbn ((k, v) # fs) c = (if still_literal k c then Undef
   else case server_setting ghbn k v c of
     None \<Rightarrow> Ok (-4, c)
   | Some c1 \<Rightarrow> server_settings ghbn fs c1)"

text \<open>
  The values the code is made for: no list for a text or a number, and numbers and items that
  leave the cleared part of the buffer its terminator.
\<close>

definition good_value :: "string \<Rightarrow> jval \<Rightarrow> bool" where
  "good_value k v \<longleftrightarrow>
     (if k \<in> fst ` set text_settings then jitems v = None
      else if k \<in> fst ` set number_settings then jitems v = None \<and> length (jtext v) < 32
      else case jitems v of None \<Rightarrow> True
        | Some ss \<Rightarrow> list_all (\<lambda>s. length s < (if k = ''freeDomainList'' then 128 else 32)) ss)"

section \<open>Lemmas on tokens and the buffer\<close>

lemma spells_jsoneq:
  assumes "spells js t JSMN_STRING k"
  shows "jsoneq js t s \<longleftrightarrow> s = k"
proof -
  have e: "tk_type t = JSMN_STRING" "tk_end t - tk_start t = int (length k)" "take (length k) (drop (nat (tk_start t)) js) = k"
    using assms by (simp_all add: spells_def)
  show ?thesis unfolding jsoneq_def strncmp_eq_def e nat_int using e(1) by auto
qed

lemma spells_text: "spells js t ty s \<Longrightarrow> tok_text js t = Ok s"
  by (simp add: spells_def tok_text_def)

lemma token_at_drop: "drop k toks = t # r \<Longrightarrow> token_at toks (int k) = Ok t"
  by (metis Cons_nth_drop_Suc drop_all leI list.inject list.distinct(1) nat_int of_nat_0_le_iff token_at_def)

lemma dropWhile_stop: "\<not> P y \<Longrightarrow> dropWhile P (xs @ y # ys) = dropWhile P xs @ y # ys"
  by (induction xs) auto

lemma takeWhile_stop: "\<not> P y \<Longrightarrow> takeWhile P (xs @ y # ys) = takeWhile P xs"
  by (induction xs) auto

lemma NUL_classes [simp]: "\<not> isspace NUL" "\<not> isdigit NUL"
  by (simp_all add: isspace_def isdigit_def NUL_def cc_def)

lemma scan_sign_stop: "scan_sign (s @ NUL # r) = (fst (scan_sign s), snd (scan_sign s) @ NUL # r)"
  by (cases s) (auto simp: scan_sign_def NUL_def)

lemma atoi_stop: "atoi (s @ NUL # r) = atoi s"
  by (simp add: atoi_def skip_ws_def scan_dec_def dropWhile_stop takeWhile_stop scan_sign_stop split_beta Let_def)

lemma tmp_string_stop: "NUL \<notin> set s \<Longrightarrow> tmp_string (map Some s @ Some NUL # r) = Ok s"
  by (induction s) auto

lemma tmp_atoi_stop: "tmp_atoi (map Some s @ Some NUL # r) = Ok (atoi s)"
proof -
  let ?u = "map the (takeWhile (\<lambda>x. x \<noteq> None) r)"
  have *: "map the (takeWhile (\<lambda>x. x \<noteq> None) (map Some s @ Some NUL # r)) = s @ NUL # ?u"
    by (induction s) auto
  show ?thesis
    unfolding tmp_atoi_def * by (simp add: skip_ws_def dropWhile_stop scan_sign_stop atoi_stop Let_def)
qed

text \<open>A text shorter than the cleared part is read back from the buffer.\<close>

lemma tmp_text:
  assumes "length s < n" "n \<le> length b" "NUL \<notin> set s"
  obtains b1 where "tmp_copy s (tmp_clear n b) = Ok b1" "length b1 = length b"
    "tmp_string b1 = Ok s" "tmp_atoi b1 = Ok (atoi s)"
proof -
  obtain m where n: "n = length s + Suc m" using assms(1) by (metis add_Suc_right less_iff_Suc_add)
  let ?r = "replicate m (Some NUL) @ drop n b"
  have "tmp_clear n b = replicate (length s) (Some NUL) @ Some NUL # ?r"
    unfolding tmp_clear_def n replicate_add by simp
  moreover have "\<not> length (tmp_clear n b) < length s" using assms(2) n by (simp add: tmp_clear_def)
  ultimately have "tmp_copy s (tmp_clear n b) = Ok (map Some s @ Some NUL # ?r)"
    by (simp add: tmp_copy_def)
  moreover have "length (map Some s @ Some NUL # ?r) = length b" using assms(2) n by simp
  ultimately show thesis using that tmp_string_stop [OF assms(3)] tmp_atoi_stop by blast
qed

lemma plain_text_NUL: "plain_text s \<Longrightarrow> NUL \<notin> set s"
  by (simp add: plain_text_def)

lemma plain_word_NUL: "plain_word s \<Longrightarrow> NUL \<notin> set s"
  by (auto simp: plain_word_def list_all_iff NUL_def cc_def)

section \<open>Lemmas on one setting\<close>

lemma spelled_token:
  assumes "drop i toks = t # u # r"
  shows "toks ! i = t" "token_at toks (int i + 1) = Ok u"
proof -
  have d: "drop (Suc i) toks = u # r" "i < length toks" "toks ! i = t"
    using assms by (metis Cons_nth_drop_Suc drop_all leI list.inject list.distinct(1))+
  show "toks ! i = t" by (rule d(3))
  have "int i + 1 = int (Suc i)" by simp
  then show "token_at toks (int i + 1) = Ok u" using token_at_drop [OF d(1)] by (simp only:)
qed

lemma add_items_spelled:
  "drop k toks = items @ r \<Longrightarrow> list_all2 (\<lambda>t s. spells js t JSMN_STRING s) items ss \<Longrightarrow>
   list_all (\<lambda>s. length s < n \<and> NUL \<notin> set s) ss \<Longrightarrow> n \<le> length b \<Longrightarrow>
   \<exists>b1. add_items add n js toks k (length ss) c b = Ok (add_all add ss c, b1) \<and> length b1 = length b"
proof (induction ss arbitrary: k items c b)
  case Nil
  then show ?case by (simp add: add_all_def)
next
  case (Cons s ss)
  then obtain t items' where i: "items = t # items'" "spells js t JSMN_STRING s"
    "list_all2 (\<lambda>t s. spells js t JSMN_STRING s) items' ss"
    by (auto simp: list_all2_Cons2)
  have d: "drop k toks = t # items' @ r" using Cons.prems(1) i(1) by simp
  obtain b1 where b1: "tmp_copy s (tmp_clear n b) = Ok b1" "length b1 = length b" "tmp_string b1 = Ok s"
    using tmp_text [of s n b] Cons.prems(3,4) by auto
  have "drop (Suc k) toks = items' @ r" using d by (metis drop_Suc list.sel(3) tl_drop)
  then obtain b2 where
    "add_items add n js toks (Suc k) (length ss) (snd (add s c)) b1 = Ok (add_all add ss (snd (add s c)), b2)" "length b2 = length b"
    using Cons.IH [of "Suc k" items' b1 "snd (add s c)"] i(3) Cons.prems(3,4) b1(2) by auto
  then show ?case
    using token_at_drop [OF d] spells_text [OF i(2)] b1(1,3) by (simp add: add_all_def)
qed

lemma atomic_match:
  assumes "value_match js v vs" "jitems v = None"
  obtains t where "vs = [t]" "tok_text js t = Ok (jtext v)" "tk_type t \<noteq> JSMN_ARRAY"
proof (cases v)
  case (JText s)
  with assms(1) obtain t where "vs = [t]" "spells js t JSMN_STRING s" by auto
  then show thesis using that [of t] spells_text JText by (simp add: spells_def)
next
  case (JWord s)
  with assms(1) obtain t where "vs = [t]" "spells js t JSMN_PRIMITIVE s" by auto
  then show thesis using that [of t] spells_text JWord by (simp add: spells_def)
qed (use assms(2) in simp)

lemma jtext_NUL: "plain_value v \<Longrightarrow> NUL \<notin> set (jtext v)"
  by (cases v) (auto dest: plain_text_NUL plain_word_NUL)

lemma set_text_spelled:
  assumes "drop i toks = t # vs @ r" "value_match js v vs" "jitems v = None"
  shows "set_text js toks i put b = Ok (Some (length vs), put (jtext v), b)"
proof -
  obtain u where u: "vs = [u]" "tok_text js u = Ok (jtext v)" using atomic_match [OF assms(2,3)] by metis
  then have "drop i toks = t # u # r" using assms(1) by simp
  from spelled_token [OF this] u show ?thesis by (simp add: set_text_def)
qed

lemma set_number_spelled:
  assumes "drop i toks = t # vs @ r" "value_match js v vs" "jitems v = None" "length (jtext v) < 32" "32 \<le> length b" "plain_value v"
  obtains b1 where "\<And>put. set_number js toks i put b = Ok (Some (length vs), put (atoi (jtext v)), b1)" "length b1 = length b"
proof -
  obtain u where u: "vs = [u]" "tok_text js u = Ok (jtext v)" using atomic_match [OF assms(2,3)] by metis
  then have "drop i toks = t # u # r" using assms(1) by simp
  note s = spelled_token [OF this]
  obtain b1 where "tmp_copy (jtext v) (tmp_clear 32 b) = Ok b1" "length b1 = length b" "tmp_atoi b1 = Ok (atoi (jtext v))"
    using tmp_text [OF assms(4,5) jtext_NUL [OF assms(6)]] by metis
  then show thesis using that [of b1] s u by (simp add: set_number_def)
qed

lemma set_list_spelled:
  assumes "drop i toks = t # vs @ r" "value_match js v vs" "plain_value v" "n \<le> length b"
    and "jitems v = None \<or> list_all (\<lambda>s. length s < n) (the (jitems v))"
  shows "\<exists>b1. length b1 = length b \<and> set_list add n js toks i c b =
    Ok (case jitems v of None \<Rightarrow> (None, c, b) | Some ss \<Rightarrow> (Some (length vs), add_all add ss c, b1))"
proof (cases "jitems v")
  case None
  obtain u where u: "vs = [u]" "tk_type u \<noteq> JSMN_ARRAY" using atomic_match [OF assms(2) None] by metis
  then have "drop i toks = t # u # r" using assms(1) by simp
  from spelled_token [OF this] u None show ?thesis by (intro exI [of _ b]) (simp add: set_list_def)
next
  case (Some ss)
  then have v: "v = JList ss" by (cases v) auto
  then obtain a items where a: "vs = a # items" "tk_type a = JSMN_ARRAY" "tk_size a = length ss"
    "list_all2 (\<lambda>t s. spells js t JSMN_STRING s) items ss"
    using assms(2) by auto
  then have d: "drop i toks = t # a # items @ r" using assms(1) by simp
  note s = spelled_token [OF d]
  have d2: "drop (i + 2) toks = items @ r" using d by (metis add.commute drop0 drop_Suc_Cons drop_drop numeral_2_eq_2)
  have "list_all (\<lambda>s. length s < n \<and> NUL \<notin> set s) ss"
    using assms(3,5) v plain_text_NUL by (auto simp: list_all_iff)
  from add_items_spelled [OF d2 a(4) this assms(4)] obtain b1 where
    "add_items add n js toks (i + 2) (length ss) c b = Ok (add_all add ss c, b1)" "length b1 = length b" by metis
  moreover have "length vs = length ss + 1" using a(1) list_all2_lengthD [OF a(4)] by simp
  ultimately show ?thesis using s a(2,3) Some by (intro exI [of _ b1]) (simp add: set_list_def)
qed


lemma setting_known:
  obtains (a_text) put where "map_of text_settings k = Some put" "k \<in> fst ` set text_settings"
  | (a_number) put where "map_of text_settings k = None" "map_of number_settings k = Some put"
      "k \<notin> fst ` set text_settings" "k \<in> fst ` set number_settings"
  | (no_scalar) "map_of text_settings k = None" "map_of number_settings k = None"
      "k \<notin> fst ` set text_settings" "k \<notin> fst ` set number_settings"
  by (metis map_of_eq_None_iff not_None_eq)

lemma freed_path: "c_free p = (if p = Literal (cptr_str p) then Undef else Ok ())"
  by (cases p) simp_all

lemma key_text:
  assumes "spells js (toks ! i) JSMN_STRING k" "map_of text_settings k = Some put"
  shows "config_key ghbn js toks i c b = (if still_literal k c then Undef else set_text js toks i (\<lambda>s. put s c) b)"
  using assms by (auto simp: text_settings_def config_key_def spells_jsoneq still_literal_def freed_path split: if_splits)

lemma literal_is_text: "still_literal k c \<Longrightarrow> \<exists>put. map_of text_settings k = Some put"
  by (auto simp: still_literal_def text_settings_def)

lemma key_number:
  assumes "spells js (toks ! i) JSMN_STRING k" "map_of number_settings k = Some put"
  shows "config_key ghbn js toks i c b = set_number js toks i (\<lambda>n. put n c) b"
  using assms by (auto simp: number_settings_def config_key_def spells_jsoneq split: if_splits)

lemma key_list:
  assumes "spells js (toks ! i) JSMN_STRING k" "map_of (list_settings ghbn) k = Some add"
  shows "config_key ghbn js toks i c b = set_list add (if k = ''freeDomainList'' then 128 else 32) js toks i c b"
  using assms by (auto simp: list_settings_def config_key_def spells_jsoneq split: if_splits)

lemma key_unknown:
  assumes "spells js (toks ! i) JSMN_STRING k" "map_of text_settings k = None" "map_of number_settings k = None"
    "map_of (list_settings ghbn) k = None"
  shows "config_key ghbn js toks i c b = Ok (None, c, b)"
  using assms
  by (simp add: text_settings_def number_settings_def list_settings_def config_key_def spells_jsoneq split: if_splits)

lemma config_key_setting:
  assumes "drop i toks = t # vs @ r" "spells js t JSMN_STRING k" "value_match js v vs" "plain_value v" "good_value k v"
    and "length b = 128"
  obtains b1 where "length b1 = 128" "config_key ghbn js toks i c b = (if still_literal k c then Undef else
    Ok (case server_setting ghbn k v c of None \<Rightarrow> (None, c, b) | Some c1 \<Rightarrow> (Some (length vs), c1, b1)))"
proof -
  have "toks ! i = t" using assms(1) by (metis Cons_nth_drop_Suc drop_all leI list.inject list.distinct(1))
  then have k: "spells js (toks ! i) JSMN_STRING k" using assms(2) by simp
  show thesis
  proof (cases rule: setting_known [of k])
    case (a_text put)
    then have "jitems v = None" using assms(5) by (simp add: good_value_def)
    then show ?thesis
      using key_text [OF k a_text(1)] set_text_spelled [OF assms(1,3)] that assms(6) a_text
      by (simp add: server_setting_def)
  next
    case (a_number put)
    then have nl: "\<not> still_literal k c" using literal_is_text by fastforce
    from a_number have "jitems v = None" "length (jtext v) < 32" using assms(5) by (simp_all add: good_value_def)
    from set_number_spelled [OF assms(1,3) this _ assms(4), of b] obtain b1 where
      "\<And>put. set_number js toks i put b = Ok (Some (length vs), put (atoi (jtext v)), b1)" "length b1 = length b"
      using assms(6) by auto
    then show ?thesis using key_number [OF k a_number(2)] that a_number assms(6) nl by (simp add: server_setting_def)
  next
    case no_scalar
    then have nl: "\<not> still_literal k c" using literal_is_text by fastforce
    let ?n = "if k = ''freeDomainList'' then 128 else 32"
    have n: "?n \<le> length b" using assms(6) by simp
    have g: "jitems v = None \<or> list_all (\<lambda>s. length s < ?n) (the (jitems v))"
      using no_scalar assms(5) by (cases "jitems v") (simp_all add: good_value_def)
    show ?thesis
    proof (cases "map_of (list_settings ghbn) k")
      case None
      then show ?thesis using key_unknown [OF k no_scalar(1,2) None] that assms(6) no_scalar nl by (simp add: server_setting_def)
    next
      case (Some add)
      obtain b1 where b1: "length b1 = length b" "set_list add ?n js toks i c b =
        Ok (case jitems v of None \<Rightarrow> (None, c, b) | Some ss \<Rightarrow> (Some (length vs), add_all add ss c, b1))"
        using set_list_spelled [OF assms(1,3,4) n g, of add c] by (elim exE conjE) (rule that)
      have "server_setting ghbn k v c = map_option (\<lambda>ss. add_all add ss c) (jitems v)"
        using no_scalar Some by (simp add: server_setting_def)
      then show ?thesis using key_list [OF k Some] that [of b1] b1 assms(6) nl by (cases "jitems v") simp_all
    qed
  qed
qed

section \<open>What the server cannot change\<close>

text \<open>The configuration with the settings of the server blanked out.\<close>

definition local_part :: "s_config \<Rightarrow> s_config" where
  "local_part c = c\<lparr>cf_auth_path := Literal [], cf_config_path := Literal [], cf_net_traffic_path := Literal [],
     cf_gw_name := [], cf_redirectURL := None, cf_maxclients := 0, cf_clienttimeout := 0, cf_clientforceout := 0,
     cf_traffic_control := 0, cf_download_limit := 0, cf_upload_limit := 0, cf_free_ip_list := [],
     cf_blockedmaclist := [], cf_trustedmaclist := []\<rparr>"

text \<open>What every step of the loop keeps.\<close>

definition lists_ok :: "s_config \<Rightarrow> bool" where
  "lists_ok c \<longleftrightarrow> distinct (cf_free_ip_list c) \<and> mac_list_inv (cf_blockedmaclist c) \<and> mac_list_inv (cf_trustedmaclist c)"

definition server_kept :: "s_config \<Rightarrow> s_config \<Rightarrow> bool" where
  "server_kept c c1 \<longleftrightarrow> local_part c1 = local_part c \<and>
     (distinct (cf_free_ip_list c) \<longrightarrow> distinct (cf_free_ip_list c1)) \<and>
     (mac_list_inv (cf_blockedmaclist c) \<longrightarrow> mac_list_inv (cf_blockedmaclist c1)) \<and>
     (mac_list_inv (cf_trustedmaclist c) \<longrightarrow> mac_list_inv (cf_trustedmaclist c1))"

lemma server_kept_refl [simp]: "server_kept c c"
  by (simp add: server_kept_def)

lemma server_kept_trans: "server_kept c c1 \<Longrightarrow> server_kept c1 c2 \<Longrightarrow> server_kept c c2"
  by (simp add: server_kept_def)

lemmas server_kept_defs = server_kept_def local_part_def lists_ok_def

lemma add_free_ip_kept: "server_kept c (snd (add_to_free_ip_list s c))"
  by (auto simp: server_kept_defs add_to_free_ip_list_def Let_def)

lemma add_free_addrs_kept: "server_kept c (add_free_addrs as c)"
  by (induction as arbitrary: c) (auto intro: server_kept_trans [OF add_free_ip_kept])

lemma add_free_domain_kept: "server_kept c (snd (add_to_free_domain_list ghbn s c))"
  by (auto simp: add_to_free_domain_list_def add_free_addrs_kept split: option.splits)

lemma add_trusted_kept: "server_kept c (snd (add_to_trusted_mac_list s c))"
  by (auto simp: server_kept_defs add_to_trusted_mac_list_def Let_def mac_list_inv_Cons scan_mac_wf)

lemma add_blocked_kept: "server_kept c (snd (add_to_blocked_mac_list s c))"
  by (auto simp: server_kept_defs add_to_blocked_mac_list_def Let_def mac_list_inv_Cons scan_mac_wf)

lemmas server_adds_kept = add_free_ip_kept add_free_domain_kept add_trusted_kept add_blocked_kept

lemma add_items_kept:
  assumes "\<And>s c. server_kept c (snd (add s c))"
  shows "add_items add n js toks k m c b = Ok (c1, b1) \<Longrightarrow> server_kept c c1"
proof (induction m arbitrary: k c b)
  case (Suc m)
  then obtain s b2 where "add_items add n js toks (Suc k) m (snd (add s c)) b2 = Ok (c1, b1)"
    by (auto simp: rbind_Ok_iff)
  from server_kept_trans [OF assms Suc.IH [OF this]] show ?case .
qed simp

lemma set_list_kept:
  assumes "\<And>s c. server_kept c (snd (add s c))" "set_list add n js toks i c b = Ok (m, c1, b1)"
  shows "server_kept c c1"
proof -
  obtain a :: jsmntok where a: "(if tk_type a \<noteq> JSMN_ARRAY then Ok (None, c, b)
     else rbind (add_items add n js toks (i + 2) (tk_size a) c b) (\<lambda>(c1, b1). Ok (Some (tk_size a + 1), c1, b1))) = Ok (m, c1, b1)"
    using assms(2) unfolding set_list_def rbind_Ok_iff by (elim exE conjE) (rule that)
  show ?thesis
  proof (cases "tk_type a = JSMN_ARRAY")
    case True
    with a have "add_items add n js toks (i + 2) (tk_size a) c b = Ok (c1, b1)" by (auto simp: rbind_Ok_iff)
    from add_items_kept [OF assms(1) this] show ?thesis .
  qed (use a in simp)
qed

lemma set_text_kept:
  "set_text js toks i put b = Ok (m, c1, b1) \<Longrightarrow> (\<And>s. server_kept c (put s)) \<Longrightarrow> server_kept c c1"
  by (auto simp: set_text_def rbind_Ok_iff)

lemma set_number_kept:
  "set_number js toks i put b = Ok (m, c1, b1) \<Longrightarrow> (\<And>s. server_kept c (put s)) \<Longrightarrow> server_kept c c1"
  by (auto simp: set_number_def rbind_Ok_iff)

lemma setter_kept:
  "server_kept c (c\<lparr>cf_auth_path := Malloced s\<rparr>)" "server_kept c (c\<lparr>cf_config_path := Malloced s\<rparr>)"
  "server_kept c (c\<lparr>cf_net_traffic_path := Malloced s\<rparr>)" "server_kept c (c\<lparr>cf_gw_name := s\<rparr>)"
  "server_kept c (c\<lparr>cf_redirectURL := Some s\<rparr>)" "server_kept c (c\<lparr>cf_maxclients := n\<rparr>)"
  "server_kept c (c\<lparr>cf_clienttimeout := n\<rparr>)" "server_kept c (c\<lparr>cf_clientforceout := n\<rparr>)"
  "server_kept c (c\<lparr>cf_traffic_control := n\<rparr>)" "server_kept c (c\<lparr>cf_download_limit := n\<rparr>)"
  "server_kept c (c\<lparr>cf_upload_limit := n\<rparr>)"
  by (auto simp: server_kept_defs)

lemma config_key_kept:
  assumes "config_key ghbn js toks i c b = Ok (m, c1, b1)"
  shows "server_kept c c1"
  using assms unfolding config_key_def Let_def
  by (auto simp: rbind_Ok_iff split: if_splits
      elim!: set_text_kept set_number_kept intro: setter_kept dest!: set_list_kept [rotated] intro!: server_adds_kept)

lemma config_keys_kept:
  "config_keys ghbn js toks i c b = Ok (r, c1) \<Longrightarrow> server_kept c c1 \<and> r \<in> {1, -4}"
proof (induction ghbn js toks i c b rule: config_keys.induct)
  case (1 ghbn js toks i c b)
  show ?case
  proof (cases "length toks \<le> i")
    case True
    with "1.prems" show ?thesis by (simp add: config_keys.simps [of _ _ _ i])
  next
    case False
    with "1.prems" obtain m c2 b2 where k: "config_key ghbn js toks i c b = Ok (m, c2, b2)"
      "(case m of None \<Rightarrow> Ok (-4, c2) | Some k \<Rightarrow> config_keys ghbn js toks (i + k + 1) c2 b2) = Ok (r, c1)"
      by (auto simp: config_keys.simps [of _ _ _ i] rbind_Ok_iff)
    note kept = config_key_kept [OF k(1)]
    show ?thesis
    proof (cases m)
      case (Some j)
      with k(2) have "config_keys ghbn js toks (i + j + 1) c2 b2 = Ok (r, c1)" by simp
      from "1.IH" [OF False k(1) refl refl Some this] server_kept_trans [OF kept] show ?thesis by blast
    qed (use k(2) kept in auto)
  qed
qed

lemma server_setting_kept: "server_setting ghbn k v c = Some c1 \<Longrightarrow> server_kept c c1"
proof -
  have all: "server_kept c (add_all add ss c)" if "\<And>s c. server_kept c (snd (add s c))" for add ss c
    unfolding add_all_def using that by (induction ss arbitrary: c) (auto intro: server_kept_trans)
  assume "server_setting ghbn k v c = Some c1"
  then show ?thesis
    by (auto simp: server_setting_def text_settings_def number_settings_def list_settings_def
        intro: setter_kept all server_adds_kept split: option.splits if_splits)
qed

section \<open>The whole object\<close>

lemma config_keys_settings:
  "fields_match js fs (drop i toks) \<Longrightarrow> list_all (\<lambda>(k, v). plain_value v \<and> good_value k v) fs \<Longrightarrow>
   length b = 128 \<Longrightarrow> config_keys ghbn js toks i c b = server_settings ghbn fs c"
proof (induction fs arbitrary: i c b)
  case Nil
  then show ?case by (simp add: config_keys.simps [of _ _ _ i])
next
  case (Cons f fs)
  obtain k v where f: "f = (k, v)" by (cases f)
  obtain t vs r where m: "drop i toks = t # vs @ r" "spells js t JSMN_STRING k" "value_match js v vs" "fields_match js fs r"
    using Cons.prems(1) f by auto
  have g: "plain_value v" "good_value k v" using Cons.prems(2) f by simp_all
  obtain b1 where b1: "length b1 = 128" "config_key ghbn js toks i c b =
    (if still_literal k c then Undef else
    Ok (case server_setting ghbn k v c of None \<Rightarrow> (None, c, b) | Some c1 \<Rightarrow> (Some (length vs), c1, b1)))"
    by (rule config_key_setting [OF m(1-3) g Cons.prems(3)])
  have i: "\<not> length toks \<le> i" using m(1) by auto
  show ?case
  proof (cases "server_setting ghbn k v c")
    case None
    with i b1 f show ?thesis by (simp add: config_keys.simps [of _ _ _ i])
  next
    case (Some c1)
    have "drop (i + length vs + 1) toks = drop (length (t # vs)) (drop i toks)" by (simp add: add.commute)
    also have "\<dots> = r" unfolding m(1) by simp
    finally have "fields_match js fs (drop (i + length vs + 1) toks)" using m(4) by simp
    then have "config_keys ghbn js toks (i + length vs + 1) c1 b1 = server_settings ghbn fs c1"
      using Cons.IH Cons.prems(2) b1(1) by simp
    with i b1 f Some show ?thesis by (simp add: config_keys.simps [of _ _ _ i])
  qed
qed

lemma config_from_json_settings:
  assumes "list_all (\<lambda>(k, v). plain_text k \<and> plain_value v \<and> good_value k v) fs" "object_tokens fs \<le> 256"
  shows "config_from_json ghbn (json_object fs) c = server_settings ghbn fs c"
proof -
  have "list_all (\<lambda>(k, v). plain_text k \<and> plain_value v) fs" "list_all (\<lambda>(k, v). plain_value v \<and> good_value k v) fs"
    using assms(1) by (auto simp: list_all_iff)
  moreover obtain t0 toks where p: "jsmn_parse (json_object fs) 256 = Ok (int (object_tokens fs), t0 # toks)"
    "tk_type t0 = JSMN_OBJECT" "fields_match (json_object fs) fs toks"
    using object_parse [OF calculation(1) assms(2)] by blast
  moreover have "config_keys ghbn (json_object fs) (t0 # toks) 1 c (replicate 128 None) = server_settings ghbn fs c"
    using p(3) calculation(2) by (intro config_keys_settings) simp_all
  moreover have "1 \<le> object_tokens fs" by (simp add: object_tokens_def)
  ultimately show ?thesis by (simp add: config_from_json_def)
qed


section \<open>Any response\<close>

lemma config_from_json_kept: "config_from_json ghbn js c = Ok (r, c1) \<Longrightarrow> server_kept c c1 \<and> r \<in> {1, -4}"
  by (auto simp: config_from_json_def rbind_Ok_iff split: if_splits dest: config_keys_kept)

lemma config_from_server_cases:
  assumes "config_from_server n ghbn version c = Ok (r, c1)"
  shows "r \<in> {-1, -2, -3} \<and> c1 = c \<or> (\<exists>js. config_from_json ghbn js c = Ok (r, c1))"
  using assms by (auto simp: config_from_server_def rbind_Ok_iff split: option.splits)

lemma config_from_server_kept: "config_from_server n ghbn version c = Ok (r, c1) \<Longrightarrow> server_kept c c1"
  by (drule config_from_server_cases) (auto dest: config_from_json_kept)

section \<open>Examples\<close>

text \<open>A server that answers every request with one response.\<close>

definition answering :: "string \<Rightarrow> net" where
  "answering response = \<lparr>n_dns = \<lambda>n name. Some ''10.1.1.1'', n_socket = \<lambda>n. True, n_connect = \<lambda>n ip port. True,
     n_read = \<lambda>n room. Some (if n = 0 then response else [])\<rparr>"

lemma answering_request:
  assumes "length response < buf_len" "NUL \<notin> set response"
  shows "resolve_host (answering response) server = Some (Some ''10.1.1.1'')"
    "http_get_request (answering response) ip port p q v buf_len = Some response"
proof -
  show "resolve_host (answering response) server = Some (Some ''10.1.1.1'')"
    by (simp add: resolve_host_def resolve_loop.simps [of _ 0] answering_def)
  have 1: "read_response (n_read (answering response)) (Suc n) buf_len acc = Some acc" for n acc
    by (simp add: read_response.simps [of _ "Suc n"] answering_def)
  have "read_response (n_read (answering response)) 0 buf_len [] = Some response"
  proof (cases "response = []")
    case False
    then have "0 < length response" by simp
    with assms(1) have "\<not> buf_len \<le> Suc 0" by linarith
    moreover have "take (buf_len - 1) response = response" using assms(1) by simp
    ultimately show ?thesis
      using False 1 [of 0 response] by (subst read_response.simps) (simp add: answering_def Let_def)
  qed (simp add: read_response.simps [of _ 0] answering_def)
  moreover have "connect_auth_server (answering response) ip port"
    by (simp add: connect_auth_server_def connect_once_def answering_def eval_nat_numeral)
  moreover have "c_string response = response"
    using assms(2) unfolding c_string_def takeWhile_eq_all_conv by auto
  ultimately show "http_get_request (answering response) ip port p q v buf_len = Some response"
    by (simp add: http_get_request_def)
qed

definition sample_settings :: "(string \<times> jval) list" where
  "sample_settings =
     [(''gatewayName'', JText ''cafe''), (''maxClients'', JWord ''50''),
      (''blockedMACList'', JList [''00:1a:22:33:44:5F'']), (''colour'', JText ''red''), (''uploadLimit'', JWord ''64'')]"

definition sample_response :: string where
  "sample_response = ''HTTP/1.0 200 OK'' @ crlf @ crlf @ json_object sample_settings"

lemma sample_fields:
  "list_all (\<lambda>(k, v). plain_text k \<and> plain_value v \<and> good_value k v) sample_settings"
  by (simp add: sample_settings_def plain_text_def plain_word_def json_delim_def good_value_def text_settings_def number_settings_def NUL_def nl_def cc_def)

lemma sample_response_facts:
  "length sample_response < 8192" "NUL \<notin> set sample_response"
  "strstr sample_response (crlf @ crlf) = Some (crlf @ crlf @ json_object sample_settings)"
proof -
  show "length sample_response < 8192"
    by (simp add: sample_response_def sample_settings_def json_object_def quoted_def crlf_def)
  show "NUL \<notin> set sample_response"
    by (simp add: sample_response_def sample_settings_def json_object_def quoted_def crlf_def NUL_def)
  show "strstr sample_response (crlf @ crlf) = Some (crlf @ crlf @ json_object sample_settings)"
    by (simp add: sample_response_def crlf_def strstr_eval)
qed

lemma sample_settings_result:
  "server_settings (\<lambda>d. None) sample_settings config_defaults =
     Ok (-4, config_defaults\<lparr>cf_gw_name := ''cafe'', cf_maxclients := 50, cf_blockedmaclist := [''00:1a:22:33:44:5F'']\<rparr>)"
proof -
  have "atoi ''50'' = 50"
    by (simp add: atoi_def scan_dec_def scan_sign_def skip_ws_def isspace_def isdigit_def decval_def cc_def s32_def)
  then show ?thesis
    by (simp add: sample_settings_def server_setting_def text_settings_def number_settings_def list_settings_def add_all_def
        add_to_blocked_mac_list_def sample_mac config_defaults_def on_mac_list_def still_literal_def)
qed

lemma sample_config_changed:
  "config_from_server (answering sample_response) (\<lambda>d. None) ''1.0'' config_defaults =
     Ok (-4, config_defaults\<lparr>cf_gw_name := ''cafe'', cf_maxclients := 50, cf_blockedmaclist := [''00:1a:22:33:44:5F'']\<rparr>)"
proof -
  have "drop 4 (crlf @ crlf @ json_object sample_settings) = json_object sample_settings" by (simp add: crlf_def)
  moreover have "object_tokens sample_settings \<le> 256" by (simp add: sample_settings_def object_tokens_def)
  from config_from_json_settings [OF sample_fields this]
  have "config_from_json (\<lambda>d. None) (json_object sample_settings) config_defaults =
     server_settings (\<lambda>d. None) sample_settings config_defaults" .
  ultimately show ?thesis
    unfolding config_from_server_def answering_request [OF sample_response_facts(1,2)] sample_response_facts(3)
    by (simp add: config_defaults_def [THEN arg_cong, of cf_auth_server] sample_response_facts(3)
        answering_request [OF sample_response_facts(1,2)] sample_settings_result)
qed

section \<open>Nothing exits\<close>

lemma rbind_Exit_iff: "rbind r f = Exit k \<longleftrightarrow> r = Exit k \<or> (\<exists>x. r = Ok x \<and> f x = Exit k)"
  by (cases r) auto

lemma of_opt_no_exit [simp]: "of_opt x \<noteq> Exit k"
  by (cases x) simp_all

lemma parts_no_exit [simp]:
  "token_at toks j \<noteq> Exit k" "tok_text js t \<noteq> Exit k" "tmp_copy s b \<noteq> Exit k" "tmp_atoi b \<noteq> Exit k" "c_free p \<noteq> Exit k"
  by (cases p; simp add: token_at_def tok_text_def tmp_copy_def tmp_atoi_def Let_def)+

lemma tmp_string_no_exit [simp]: "tmp_string b \<noteq> Exit k"
  by (induction b rule: tmp_string.induct) (auto simp: rbind_Exit_iff)

lemma add_items_no_exit [simp]: "add_items add n js toks j m c b \<noteq> Exit k"
  by (induction m arbitrary: j c b) (simp_all add: rbind_Exit_iff)

lemma setters_no_exit [simp]:
  "set_text js toks i put b \<noteq> Exit k" "set_number js toks i put' b \<noteq> Exit k" "set_list add n js toks i c b \<noteq> Exit k"
  by (auto simp: set_text_def set_number_def set_list_def rbind_Exit_iff split: if_splits)

lemma config_key_no_exit: "config_key ghbn js toks i c b \<noteq> Exit k"
  by (simp add: config_key_def Let_def rbind_Exit_iff)

lemma config_keys_no_exit: "config_keys ghbn js toks i c b \<noteq> Exit k"
proof (induction ghbn js toks i c b rule: config_keys.induct)
  case (1 ghbn js toks i c b)
  then show ?case
    using config_key_no_exit [of ghbn js toks i c b k]
    by (cases "config_key ghbn js toks i c b") (auto simp: config_keys.simps [of _ _ _ i] split: option.splits)
qed

lemma config_from_server_no_exit: "config_from_server n ghbn version c \<noteq> Exit k"
proof -
  have j: "config_from_json ghbn js c \<noteq> Exit k" for js
    using config_keys_no_exit [of ghbn js] jsmn_parse_no_exit [of js]
    by (auto simp: config_from_json_def rbind_Exit_iff split: if_splits)
  show ?thesis by (auto simp: config_from_server_def rbind_Exit_iff j split: option.splits)
qed

section \<open>Properties\<close>

text \<open>
  C6. A response of the authentication server is put into force as written: when its body is a
  JSON object of plain keys and values that leave the code's buffers room, of at most 256 tokens,
  then reading the configuration gives exactly the settings of its fields in their order, up to
  the first key that is not known or list key without a list. A key for one of the three paths
  that is still the literal of the defaults, which is so at the first reading, is undefined
  behaviour, since the code frees the literal; the settings say so at that key.
\<close>

theorem server_settings_applied:
  assumes "cf_auth_server c = Some server" "resolve_host n server = Some (Some ip)"
    and "http_get_request n (take 15 ip) (sint (cf_auth_port c)) (cptr_str (cf_config_path c)) (config_query c) version 8192 = Some buf"
    and "strstr buf (crlf @ crlf) = Some (crlf @ crlf @ json_object fs)"
    and "list_all (\<lambda>(k, v). plain_text k \<and> plain_value v \<and> good_value k v) fs"
    and "object_tokens fs \<le> 256"
  shows "config_from_server n ghbn version c = server_settings ghbn fs c"
proof -
  have "drop 4 (crlf @ crlf @ json_object fs) = json_object fs" by (simp add: crlf_def)
  with assms(1-4) config_from_json_settings [OF assms(5-6), of ghbn] show ?thesis
    by (simp add: config_from_server_def)
qed

lemma server_settings_applied_witness:
  "config_from_server (answering sample_response) (\<lambda>d. None) ''1.0'' config_defaults =
      Ok (-4, config_defaults\<lparr>cf_gw_name := ''cafe'', cf_maxclients := 50, cf_blockedmaclist := [''00:1a:22:33:44:5F'']\<rparr>)"
proof -
  have "config_from_server (answering sample_response) (\<lambda>d. None) ''1.0'' config_defaults = server_settings (\<lambda>d. None) sample_settings config_defaults"
    by (rule server_settings_applied [OF _ answering_request [OF sample_response_facts(1,2)] sample_response_facts(3) sample_fields])
      (simp_all add: config_defaults_def sample_settings_def object_tokens_def)
  then show ?thesis unfolding sample_settings_result .
qed

text \<open>
  C7. What a response, however malformed, can do to the configuration. It never ends the
  daemon. Unless reading it is undefined behaviour (the literal of a path freed, a number or
  list item of more than 128 characters or without a terminator, a token past the end), the
  result is 1 or one of the four errors, a failed lookup, request or header leaves the
  configuration as it was, and otherwise only the fourteen settings of the server can differ;
  the free addresses stay distinct and the MAC lists well formed without duplicates.
\<close>

theorem server_config_confined:
  "case config_from_server n ghbn version c of
     Ok (r, c1) \<Rightarrow> r \<in> {1, -1, -2, -3, -4} \<and> local_part c1 = local_part c \<and>
       \<not> (r \<in> {-1, -2, -3} \<and> c1 \<noteq> c) \<and> \<not> (lists_ok c \<and> \<not> lists_ok c1)
   | Exit k \<Rightarrow> False
   | Undef \<Rightarrow> True"
proof (cases "config_from_server n ghbn version c")
  case (Ok rc)
  obtain r c1 where rc: "rc = (r, c1)" by (cases rc)
  with Ok have run: "config_from_server n ghbn version c = Ok (r, c1)" by simp
  from config_from_server_cases [OF run] config_from_server_kept [OF run] show ?thesis
    unfolding run by (auto simp: server_kept_def lists_ok_def dest: config_from_json_kept)
qed (simp_all add: config_from_server_no_exit)

text \<open>A response that changes three settings before the key that ends it.\<close>

lemma server_config_confined_witness:
  "\<exists>c1. config_from_server (answering sample_response) (\<lambda>d. None) ''1.0'' config_defaults = Ok (-4, c1) \<and>
     cf_maxclients c1 = 50 \<and> local_part c1 = local_part config_defaults"
  using server_config_confined [where n = "answering sample_response" and ghbn = "\<lambda>d. None" and version = "''1.0''" and c = config_defaults]
  unfolding sample_config_changed by simp

text \<open>
  With the paths the configuration starts with, the first path the server sends makes the code
  free a string literal.
\<close>

lemma default_path_freed:
  "config_from_json ghbn (json_object [(''authPath'', JText p)]) config_defaults = Undef" if "plain_text p"
proof -
  have "list_all (\<lambda>(k, v). plain_text k \<and> plain_value v) [(''authPath'', JText p)]"
    using that by (simp add: plain_text_def NUL_def)
  moreover have "object_tokens [(''authPath'', JText p)] = 3" by (simp add: object_tokens_def)
  ultimately obtain t0 toks where p: "jsmn_parse (json_object [(''authPath'', JText p)]) 256 = Ok (3, t0 # toks)"
    "tk_type t0 = JSMN_OBJECT" "fields_match (json_object [(''authPath'', JText p)]) [(''authPath'', JText p)] toks"
    using object_parse [of "[(''authPath'', JText p)]" 256] by auto
  then obtain t vs where t: "toks = t # vs" "spells (json_object [(''authPath'', JText p)]) t JSMN_STRING ''authPath''" by auto
  then have "config_key ghbn (json_object [(''authPath'', JText p)]) (t0 # toks) 1 config_defaults b = Undef" for b
    by (simp add: config_key_def spells_jsoneq config_defaults_def)
  with p t(1) show ?thesis by (simp add: config_from_json_def config_keys.simps [of _ _ _ "Suc 0"])
qed


end
