(* ===== verification/HttpdText.thy ===== *)
theory HttpdText
  imports CString "HOL-Library.Sublist"
begin

text \<open>
  The text processing of the embedded web server (\<^verbatim>\<open>libhttpd/protocol.c\<close>): the escaping
  of strings in URLs and its inverse, and the cleaning of request paths. What the C code does
  in place is a function of the string here; the writing position never overtakes the
  reading position in these loops, so that every character is read before it is overwritten.
\<close>

unbundle bit_operations_syntax

section \<open>Escaping\<close>

definition URL_XALPHAS :: nat where
  "URL_XALPHAS = 1"

definition URL_XPALPHAS :: nat where
  "URL_XPALPHAS = 2"

text \<open>Six rows of sixteen characters, from the blank on.\<close>

definition isAcceptable :: "nat list" where
  "isAcceptable =
     [0,7,7,0,7,0,7,7,7,7,7,6,7,7,7,4,
      7,7,7,7,7,7,7,7,7,7,0,0,0,0,0,0,
      7,7,7,7,7,7,7,7,7,7,7,7,7,7,7,7,
      7,7,7,7,7,7,7,7,7,7,7,0,0,0,0,7,
      0,7,7,7,7,7,7,7,7,7,7,7,7,7,7,7,
      7,7,7,7,7,7,7,7,7,7,7,0,0,0,0,0]"

definition ACCEPTABLE :: "nat \<Rightarrow> char \<Rightarrow> bool" where
  "ACCEPTABLE m a \<longleftrightarrow> a \<noteq> CHR ''&'' \<and> 32 \<le> cc a \<and> cc a < 128 \<and>
     isAcceptable ! (cc a - 32) AND m \<noteq> 0"

definition hex_digits :: string where
  "hex_digits = ''0123456789ABCDEF''"

fun httpd_escape :: "string \<Rightarrow> string" where
  "httpd_escape [] = []"
| "httpd_escape (a # p) =
     (if ACCEPTABLE URL_XPALPHAS a then a # httpd_escape p
      else CHR ''%'' # hex_digits ! (cc a div 16) # hex_digits ! (cc a mod 16) # httpd_escape p)"

text \<open>The size of the buffer the result is written to, its terminator included.\<close>

definition escape_room :: "string \<Rightarrow> nat" where
  "escape_room str = length str + 2 * length (filter (\<lambda>a. \<not> ACCEPTABLE URL_XPALPHAS a) str) + 1"

definition httpdUrlEncode :: "string \<Rightarrow> string" where
  "httpdUrlEncode str = map (\<lambda>c. if c = CHR '' '' then CHR ''+'' else c) (httpd_escape str)"

section \<open>Unescaping\<close>

text \<open>In the arithmetic of \<^verbatim>\<open>char\<close>, modulo 256.\<close>

definition httpd_from_hex :: "char \<Rightarrow> nat" where
  "httpd_from_hex c =
     (if 48 \<le> cc c \<and> cc c \<le> 57 then cc c - 48
      else if 65 \<le> cc c \<and> cc c \<le> 70 then cc c - 65 + 10
      else (cc c + 256 - 97 + 10) mod 256)"

text \<open>
  In place over the string \<open>str\<close>, with \<open>q\<close> characters written so far. A percent sign at the
  very end leaves the character that stands at that place of the buffer.
\<close>

fun unescape_loop :: "string \<Rightarrow> nat \<Rightarrow> string \<Rightarrow> string" where
  "unescape_loop str q [] = []"
| "unescape_loop str q (c # p) =
     (if c = CHR ''%'' then
        (case p of
           [] \<Rightarrow> [str ! q]
         | [h] \<Rightarrow> [char_of (httpd_from_hex h * 16 mod 256)]
         | h # l # p' \<Rightarrow> char_of ((httpd_from_hex h * 16 + httpd_from_hex l) mod 256) # unescape_loop str (Suc q) p')
      else if c = CHR ''+'' then CHR '' '' # unescape_loop str (Suc q) p
      else c # unescape_loop str (Suc q) p)"

definition httpd_unescape :: "string option \<Rightarrow> string" where
  "httpd_unescape str = (case str of None \<Rightarrow> [] | Some s \<Rightarrow> unescape_loop s 0 s)"

section \<open>Request paths\<close>

fun merge_slashes :: "string \<Rightarrow> string" where
  "merge_slashes (a # b # s) =
     (if a = CHR ''/'' \<and> b = CHR ''/'' then merge_slashes (b # s) else a # merge_slashes (b # s))"
| "merge_slashes s = s"

fun drop_dots :: "string \<Rightarrow> string" where
  "drop_dots (a # b # c # s) =
     (if a = CHR ''/'' \<and> b = CHR ''.'' \<and> c = CHR ''/'' then drop_dots (c # s)
      else a # drop_dots (b # c # s))"
| "drop_dots s = s"

text \<open>
  The last pass removes \<^verbatim>\<open>/../\<close> and the path element before it: \<open>out\<close> is what has been
  written, \<open>last\<close> the place of the slash written last.
\<close>

definition dotdot :: string where
  "dotdot = ''/../''"

fun drop_dotdots :: "string \<Rightarrow> string \<Rightarrow> nat \<Rightarrow> string" where
  "drop_dotdots [] out lst = out"
| "drop_dotdots (c # frm) out lst =
     (if take 4 (c # frm) = dotdot then drop_dotdots (drop 2 frm) (take lst out) lst
      else drop_dotdots frm (out @ [c]) (if c = CHR ''/'' then length out else lst))"

definition httpd_sanitiseUrl :: "string \<Rightarrow> string" where
  "httpd_sanitiseUrl url = drop_dotdots (drop_dots (merge_slashes url)) [] 0"

section \<open>Lemmas\<close>

lemma hex_digit: "n < 16 \<Longrightarrow> httpd_from_hex (hex_digits ! n) = n"
proof -
  assume "n < 16"
  then have "n \<in> set [0..<16]" by simp
  then show ?thesis by (simp add: upt_rec hex_digits_def httpd_from_hex_def cc_def) auto
qed

lemma high_digit: "cc a div 16 < 16"
  by (rule less_mult_imp_div_less) simp

lemma not_acceptable: "\<not> ACCEPTABLE URL_XPALPHAS CHR ''%''" "\<not> ACCEPTABLE URL_XPALPHAS CHR '' ''"
  by (simp_all add: ACCEPTABLE_def URL_XPALPHAS_def isAcceptable_def cc_def)

lemma escape_no_blank: "CHR '' '' \<notin> set (httpd_escape str)"
proof (induction str)
  case (Cons a p)
  have "hex_digits ! n \<noteq> CHR '' ''" if "n < 16" for n
    using hex_digit [OF that] that by (auto simp: httpd_from_hex_def cc_def split: if_splits)
  then have "hex_digits ! (cc a div 16) \<noteq> CHR '' ''" "hex_digits ! (cc a mod 16) \<noteq> CHR '' ''"
    using high_digit by simp_all
  with Cons not_acceptable(2) show ?case by auto
qed simp

lemma url_encode_escape: "httpdUrlEncode str = httpd_escape str"
  unfolding httpdUrlEncode_def by (rule map_idI) (use escape_no_blank in auto)

lemma unescape_escape:
  "unescape_loop orig q (httpd_escape str) = map (\<lambda>c. if c = CHR ''+'' then CHR '' '' else c) str"
proof (induction str arbitrary: q)
  case (Cons a p)
  show ?case
  proof (cases "ACCEPTABLE URL_XPALPHAS a")
    case True
    then have "a \<noteq> CHR ''%''" using not_acceptable(1) by metis
    with True Cons show ?thesis by simp
  next
    case False
    have "ACCEPTABLE URL_XPALPHAS CHR ''+''"
      by (simp add: ACCEPTABLE_def URL_XPALPHAS_def isAcceptable_def cc_def)
    with False have "a \<noteq> CHR ''+''" by metis
    moreover have "httpd_from_hex (hex_digits ! (cc a div 16)) = cc a div 16"
      by (rule hex_digit [OF high_digit])
    ultimately show ?thesis using False Cons by (simp add: hex_digit)
  qed
qed simp

lemma length_escape: "Suc (length (httpd_escape str)) = escape_room str"
  by (induction str) (auto simp: escape_room_def)

text \<open>
  The last pass never completes a forbidden sequence: none is in the output, none lies across
  the border between output and input, and cutting the output at the last slash leaves it so.
\<close>

definition border :: "string \<Rightarrow> string \<Rightarrow> bool" where
  "border out frm \<longleftrightarrow>
     \<not> (suffix ''/'' out \<and> prefix ''../'' frm) \<and> \<not> (suffix ''/.'' out \<and> prefix ''./'' frm) \<and>
     \<not> (suffix ''/..'' out \<and> prefix ''/'' frm)"

definition slash_at :: "string \<Rightarrow> string \<Rightarrow> nat \<Rightarrow> bool" where
  "slash_at out frm lst \<longleftrightarrow> lst = 0 \<or> lst < length out \<and> out ! lst = CHR ''/'' \<or>
     lst = length out \<and> prefix ''/'' frm \<and> \<not> suffix ''/..'' out"

lemma sublist_snoc: "sublist (xs @ [x]) (out @ [c]) \<longleftrightarrow> sublist (xs @ [x]) out \<or> suffix xs out \<and> x = c"
proof
  assume "sublist (xs @ [x]) (out @ [c])"
  then obtain p t where p: "out @ [c] = p @ (xs @ [x]) @ t" by (auto simp: sublist_def)
  show "sublist (xs @ [x]) out \<or> suffix xs out \<and> x = c"
  proof (cases t rule: rev_cases)
    case Nil
    with p show ?thesis by (auto simp: suffix_def)
  next
    case (snoc t' d)
    with p have "out = p @ (xs @ [x]) @ t'" by simp
    then show ?thesis unfolding sublist_def by blast
  qed
next
  assume "sublist (xs @ [x]) out \<or> suffix xs out \<and> x = c"
  then show "sublist (xs @ [x]) (out @ [c])"
  proof
    assume "sublist (xs @ [x]) out"
    then obtain p t where "out @ [c] = p @ (xs @ [x]) @ (t @ [c])" by (auto simp: sublist_def)
    then show ?thesis unfolding sublist_def by blast
  next
    assume "suffix xs out \<and> x = c"
    then obtain p where "out @ [c] = p @ (xs @ [x]) @ []" by (auto simp: suffix_def)
    then show ?thesis unfolding sublist_def by blast
  qed
qed

lemma dotdot_snoc: "sublist dotdot (out @ [c]) \<longleftrightarrow> sublist dotdot out \<or> suffix ''/..'' out \<and> c = CHR ''/''"
  using sublist_snoc [of "''/..''" "CHR ''/''" out c] by (auto simp: dotdot_def)

lemma suffix_snoc2: "suffix (xs @ [x]) (out @ [c]) \<longleftrightarrow> suffix xs out \<and> x = c"
  by (auto simp: suffix_def)

lemma border_snoc:
  assumes "border out (c # frm)" "take 4 (c # frm) \<noteq> dotdot"
  shows "border (out @ [c]) frm"
proof -
  have s: "suffix ''/'' (out @ [c]) \<longleftrightarrow> c = CHR ''/''" "suffix ''/.'' (out @ [c]) \<longleftrightarrow> suffix ''/'' out \<and> c = CHR ''.''"
    "suffix ''/..'' (out @ [c]) \<longleftrightarrow> suffix ''/.'' out \<and> c = CHR ''.''"
    using suffix_snoc2 [of "[]" "CHR ''/''" out c] suffix_snoc2 [of "''/''" "CHR ''.''" out c]
      suffix_snoc2 [of "''/.''" "CHR ''.''" out c] by auto
  have "prefix ''../'' frm \<Longrightarrow> c = CHR ''/'' \<Longrightarrow> take 4 (c # frm) = dotdot"
    by (auto simp: prefix_def dotdot_def)
  with assms show ?thesis by (auto simp: border_def s prefix_def)
qed

lemma slash_cut:
  assumes "slash_at out frm lst" "\<not> sublist dotdot out"
  shows "\<not> suffix ''/..'' (take lst out)"
proof
  assume s: "suffix ''/..'' (take lst out)"
  consider "lst = 0" | "lst < length out" "out ! lst = CHR ''/''" | "lst = length out" "\<not> suffix ''/..'' out"
    using assms(1) by (auto simp: slash_at_def)
  then show False
  proof cases
    case 2
    then have "sublist dotdot (take (Suc lst) out)" using s by (simp add: take_Suc_conv_app_nth dotdot_snoc)
    with assms(2) show False using sublist_order.order_trans sublist_take by blast
  qed (use s in auto)
qed

lemma drop_dotdots_clean:
  assumes "\<not> sublist dotdot out" "border out frm" "slash_at out frm lst"
  shows "\<not> sublist dotdot (drop_dotdots frm out lst)"
  using assms
proof (induction frm out lst rule: drop_dotdots.induct)
  case (1 out lst)
  then show ?case by simp
next
  case (2 c frm out lst)
  show ?case
  proof (cases "take 4 (c # frm) = dotdot")
    case True
    then obtain r where r: "drop 2 frm = CHR ''/'' # r" by (cases frm; cases "tl frm"; cases "tl (tl frm)") (auto simp: dotdot_def)
    have cut: "\<not> suffix ''/..'' (take lst out)" by (rule slash_cut [OF 2(5,3)])
    have "\<not> sublist dotdot (take lst out)" using 2(3) sublist_order.order_trans sublist_take by blast
    moreover have "border (take lst out) (drop 2 frm)" using cut by (simp add: border_def r prefix_def)
    moreover have "slash_at (take lst out) (drop 2 frm) lst"
      using 2(5) cut by (auto simp: slash_at_def r prefix_def)
    ultimately show ?thesis using 2(1) True by simp
  next
    case False
    have "\<not> sublist dotdot (out @ [c])" using 2(3,4) by (auto simp: dotdot_snoc border_def prefix_def)
    moreover have "slash_at (out @ [c]) frm (if c = CHR ''/'' then length out else lst)"
      using 2(5) by (auto simp: slash_at_def nth_append prefix_def)
    ultimately show ?thesis using 2(2) False border_snoc [OF 2(4) False] by simp
  qed
qed

text \<open>Paths that have none of the three sequences pass unchanged.\<close>

lemma merge_slashes_id: "\<not> sublist ''//'' s \<Longrightarrow> merge_slashes s = s"
  by (induction s rule: merge_slashes.induct) (auto simp: sublist_Cons_right prefix_def)

lemma drop_dots_id: "\<not> sublist ''/./'' s \<Longrightarrow> drop_dots s = s"
  by (induction s rule: drop_dots.induct) (auto simp: sublist_Cons_right prefix_def)

lemma take4_dotdot: "take 4 s = dotdot \<Longrightarrow> sublist dotdot s"
  by (metis append_take_drop_id prefix_def prefix_imp_sublist)

lemma drop_dotdots_id: "\<not> sublist dotdot frm \<Longrightarrow> drop_dotdots frm out lst = out @ frm"
proof (induction frm arbitrary: out lst)
  case (Cons c frm)
  then show ?case using take4_dotdot [of "c # frm"] by (auto simp: sublist_Cons_right)
qed simp

section \<open>Properties\<close>

text \<open>
  C36. Escaping any string for a URL and unescaping it gives the string back, except that
  every plus sign comes back as a blank: the encoder does not escape it and the decoder
  takes it for a blank. The escaped text fills the buffer computed for it exactly.
\<close>

theorem url_roundtrip:
  "httpd_unescape (Some (httpdUrlEncode str)) = map (\<lambda>c. if c = CHR ''+'' then CHR '' '' else c) str \<and>
   length (httpdUrlEncode str) + 1 = escape_room str"
  by (simp add: url_encode_escape httpd_unescape_def unescape_escape length_escape)

text \<open>
  C37. No request path gets through the cleaning with a step up in it: the result never
  contains the sequence of a slash, two dots and a slash; and a path without that sequence,
  without double slashes and without single dots passes unchanged.
\<close>

theorem sanitised_path:
  "\<not> sublist ''/../'' (httpd_sanitiseUrl url) \<and>
   (\<not> sublist ''//'' url \<longrightarrow> \<not> sublist ''/./'' url \<longrightarrow> \<not> sublist ''/../'' url \<longrightarrow> httpd_sanitiseUrl url = url)"
proof
  show "\<not> sublist ''/../'' (httpd_sanitiseUrl url)"
    using drop_dotdots_clean [of "[]" _ 0]
    by (simp add: httpd_sanitiseUrl_def border_def slash_at_def dotdot_def)
  show "\<not> sublist ''//'' url \<longrightarrow> \<not> sublist ''/./'' url \<longrightarrow> \<not> sublist ''/../'' url \<longrightarrow> httpd_sanitiseUrl url = url"
    using drop_dotdots_id [of url "[]" 0] by (auto simp: httpd_sanitiseUrl_def merge_slashes_id drop_dots_id dotdot_def)
qed

lemma sanitised_path_witness:
  "httpd_sanitiseUrl ''/img/a.b'' = ''/img/a.b'' \<and> \<not> sublist ''/../'' (httpd_sanitiseUrl ''/a//./../../b'')"
proof -
  have "\<not> sublist ''//'' ''/img/a.b''" "\<not> sublist ''/./'' ''/img/a.b''" "\<not> sublist ''/../'' ''/img/a.b''"
    by (simp_all add: sublist_Cons_right)
  with sanitised_path [of "''/img/a.b''"] sanitised_path [of "''/a//./../../b''"] show ?thesis by blast
qed

end
