(* ===== verification/HttpdAuth.thy ===== *)
theory HttpdAuth
  imports HttpdText
begin

unbundle bit_operations_syntax

text \<open>
  The credentials of an Authorization header (\<^verbatim>\<open>_httpd_decode\<close> in \<^verbatim>\<open>libhttpd/protocol.c\<close> and
  its use in \<^verbatim>\<open>httpdReadRequest\<close>): base-64 decoding into a buffer of a given size, and the user
  and password in it.
\<close>

section \<open>Decoding\<close>

text \<open>
  \<^verbatim>\<open>pr2six\<close>: the six bits of a character, 64 for one that has none. The bytes a line can hold
  are below 128, so the index is not negative.
\<close>

definition pr2six :: "char \<Rightarrow> nat" where
  "pr2six c =
     (let n = cc c in
      if 65 \<le> n \<and> n \<le> 90 then n - 65
      else if 97 \<le> n \<and> n \<le> 122 then n - 71
      else if 48 \<le> n \<and> n \<le> 57 then n + 4
      else if n = 43 then 62 else if n = 47 then 63 else 64)"

definition DECODE_MAXVAL :: nat where
  "DECODE_MAXVAL = 63"

text \<open>
  \<^verbatim>\<open>DEC(bufin[k])\<close>. Behind the terminator the buffer holds what an earlier line left there, or
  nothing.
\<close>

definition six_at :: "string \<Rightarrow> nat \<Rightarrow> nat option" where
  "six_at s k = (if k < length s then Some (pr2six (s ! k)) else if k = length s then Some (pr2six NUL) else None)"

fun join_bits :: "nat \<Rightarrow> nat \<Rightarrow> nat option \<Rightarrow> nat option \<Rightarrow> char option" where
  "join_bits l r (Some a) (Some b) = Some (char_of (push_bit l a OR drop_bit r b))"
| "join_bits l r _ _ = None"

definition decode_quad :: "string \<Rightarrow> char option list" where
  "decode_quad s =
     [join_bits 2 4 (six_at s 0) (six_at s 1), join_bits 4 2 (six_at s 1) (six_at s 2), join_bits 6 0 (six_at s 2) (six_at s 3)]"

text \<open>The loop; \<open>third\<close> is \<^verbatim>\<open>bufin[-2]\<close> when it ends.\<close>

function decode_loop :: "string \<Rightarrow> int \<Rightarrow> nat option \<Rightarrow> char option list \<Rightarrow> int \<times> nat option \<times> char option list" where
  "decode_loop bufin nprbytes third bufout =
     (if nprbytes > 0 then decode_loop (drop 4 bufin) (nprbytes - 4) (six_at bufin 2) (bufout @ decode_quad bufin)
      else (nprbytes, third, bufout))"
  by pat_completeness auto
termination
  by (relation "measure (\<lambda>(bufin, nprbytes, third, bufout). nat nprbytes)") auto

declare decode_loop.simps [simp del]

text \<open>
  The number of bytes is rounded up to groups of three, and cut by what the last group lacks only
  after the bytes have been written; the terminator goes behind them.
\<close>

definition httpd_decode :: "string \<Rightarrow> nat \<Rightarrow> string result" where
  "httpd_decode bufcoded outbufsize =
     (let buf = dropWhile isblank bufcoded;
          n0 = length (takeWhile (\<lambda>c. pr2six c \<le> DECODE_MAXVAL) buf);
          nbytes = (n0 + 3) div 4 * 3;
          nprbytes = (if nbytes > outbufsize then outbufsize * 4 div 3 else n0)
      in case decode_loop buf (int nprbytes) None [] of (n, third, bufout) \<Rightarrow>
        if outbufsize < length bufout then Undef
        else rbind (if n mod 4 = 0 then Ok nbytes
            else rbind (of_opt third) (\<lambda>v. Ok (if v > DECODE_MAXVAL then nbytes - 2 else nbytes - 1))) (\<lambda>m.
          if outbufsize \<le> m \<or> length bufout < m \<or> list_ex (\<lambda>c. c = None) (take m bufout) then Undef
          else Ok (map the (take m bufout))))"

definition HTTP_MAX_AUTH :: nat where
  "HTTP_MAX_AUTH = 128"

text \<open>
  What a header line says of the credentials: nothing, or the length, the user and the password,
  the last only with a colon in front of it.
\<close>

definition auth_header :: "string \<Rightarrow> (nat \<times> string \<times> string option) option result" where
  "auth_header buf =
     (if \<not> strncasecmp_eq buf ''Authorization: '' 15 \<or> \<not> strncmp_eq (drop 15 buf) ''Basic '' 6 then Ok None
      else rbind (httpd_decode (drop 21 buf) 100) (\<lambda>bytes.
        let authBuf = c_string bytes; user = takeWhile (\<lambda>c. c \<noteq> CHR '':'') authBuf
        in Ok (Some (length authBuf, take (HTTP_MAX_AUTH - 1) user,
             if CHR '':'' \<in> set authBuf then Some (take (HTTP_MAX_AUTH - 1) (drop (Suc (length user)) authBuf)) else None))))"

section \<open>Encoding\<close>

text \<open>What a browser sends: groups of three bytes as four characters, the last one padded.\<close>

definition six2pr :: "nat \<Rightarrow> char" where
  "six2pr n =
     (if n < 26 then char_of (n + 65) else if n < 52 then char_of (n + 71) else if n < 62 then char_of (n - 4)
      else if n = 62 then CHR ''+'' else CHR ''/'')"

fun b64_encode :: "string \<Rightarrow> string" where
  "b64_encode [] = []"
| "b64_encode [a] = [six2pr (cc a div 4), six2pr (cc a mod 4 * 16), CHR ''='', CHR ''='']"
| "b64_encode [a, b] = [six2pr (cc a div 4), six2pr (cc a mod 4 * 16 + cc b div 16), six2pr (cc b mod 16 * 4), CHR ''='']"
| "b64_encode (a # b # c # s) =
     [six2pr (cc a div 4), six2pr (cc a mod 4 * 16 + cc b div 16), six2pr (cc b mod 16 * 4 + cc c div 64), six2pr (cc c mod 64)]
     @ b64_encode s"

section \<open>Lemmas\<close>

lemma pr2six_six2pr: "n < 64 \<Longrightarrow> pr2six (six2pr n) = n"
proof -
  have cs: "cc (CHR ''+'') = 43" "cc (CHR ''/'') = 47" by (simp_all add: cc_def)
  assume "n < 64"
  then consider "n < 26" | "26 \<le> n" "n < 52" | "52 \<le> n" "n < 62" | "n = 62" | "n = 63" by linarith
  then show ?thesis by cases (auto simp: six2pr_def pr2six_def Let_def cc_char_of cs)
qed

lemma sixes_not_blank: "pr2six c \<le> DECODE_MAXVAL \<Longrightarrow> \<not> isblank c"
  by (auto simp: pr2six_def isblank_def DECODE_MAXVAL_def Let_def)

lemma or_low_bits: "b < 2 ^ n \<Longrightarrow> push_bit n a OR b = push_bit n a + (b :: nat)"
proof -
  assume "b < 2 ^ n"
  then have b: "take_bit n b = b" by (simp add: take_bit_nat_eq_self)
  have "bit b k \<Longrightarrow> k < n" for k by (subst (asm) b [symmetric]) (simp add: bit_take_bit_iff)
  then show ?thesis by (subst disjunctive_add_eq_or) (auto simp: bit_eq_iff bit_simps simp flip: not_less)
qed

text \<open>The three bytes of a group back from its four characters.\<close>

lemma join_first: "y < 16 \<Longrightarrow> join_bits 2 4 (Some (cc a div 4)) (Some (cc a mod 4 * 16 + y)) = Some a"
proof -
  assume "y < 16"
  then have "drop_bit 4 (cc a mod 4 * 16 + y) = cc a mod 4" by (simp add: drop_bit_eq_div)
  then have "push_bit 2 (cc a div 4) OR drop_bit 4 (cc a mod 4 * 16 + y) = cc a"
    using or_low_bits [of "cc a mod 4" 2 "cc a div 4"] by (simp add: push_bit_eq_mult)
  then show ?thesis by (simp add: cc_def)
qed

lemma char_of_above: "char_of (x * 256 + cc c) = c"
proof -
  have "char_of ((x * 256 + cc c) mod 256) = char_of (cc c mod 256)" by simp
  then show ?thesis unfolding char_of_mod_256 by (simp add: cc_def)
qed

lemma join_second: "y < 4 \<Longrightarrow> join_bits 4 2 (Some (x * 16 + cc b div 16)) (Some (cc b mod 16 * 4 + y)) = Some b"
proof -
  assume "y < 4"
  then have "drop_bit 2 (cc b mod 16 * 4 + y) = cc b mod 16" by (simp add: drop_bit_eq_div)
  then have "push_bit 4 (x * 16 + cc b div 16) OR drop_bit 2 (cc b mod 16 * 4 + y) = x * 256 + cc b"
    using or_low_bits [of "cc b mod 16" 4 "x * 16 + cc b div 16"] by (simp add: push_bit_eq_mult)
  moreover have "char_of (x * 256 + cc b) = b" by (rule char_of_above)
  ultimately show ?thesis by simp
qed

lemma join_third: "join_bits 6 0 (Some (x * 4 + cc c div 64)) (Some (cc c mod 64)) = Some c"
proof -
  have "push_bit 6 (x * 4 + cc c div 64) OR drop_bit 0 (cc c mod 64) = x * 256 + cc c"
    using or_low_bits [of "cc c mod 64" 6 "x * 4 + cc c div 64"] by (simp add: push_bit_eq_mult)
  moreover have "char_of (x * 256 + cc c) = c" by (rule char_of_above)
  ultimately show ?thesis by simp
qed

text \<open>How many of the characters of an encoding carry bits, and that they are in front.\<close>

definition sixes :: "string \<Rightarrow> nat" where
  "sixes s = (length s * 4 + 2) div 3"

lemma sixes_step: "sixes (a # b # c # s) = sixes s + 4"
  by (simp add: sixes_def)

lemma encode_values:
  "cc a div 4 < 64" "cc a mod 4 * 16 + cc b div 16 < 64" "cc a mod 4 * 16 < 64" "cc b mod 16 * 4 + cc c div 64 < 64"
  "cc b mod 16 * 4 < 64" "cc c mod 64 < 64" "cc b div 16 < 16" "cc c div 64 < 4"
proof -
  have c: "cc x < 256" for x by (simp add: cc_def)
  show "cc a div 4 < 64" "cc b div 16 < 16" "cc c div 64 < 4" using c by (simp_all add: less_mult_imp_div_less)
  then show "cc a mod 4 * 16 + cc b div 16 < 64" "cc b mod 16 * 4 + cc c div 64 < 64"
    using mod_less_divisor [of 4 "cc a"] mod_less_divisor [of 16 "cc b"] by linarith+
  show "cc a mod 4 * 16 < 64" "cc b mod 16 * 4 < 64" "cc c mod 64 < 64"
    using mod_less_divisor [of 4 "cc a"] mod_less_divisor [of 16 "cc b"] by simp_all
qed

lemmas encode_sixes = encode_values(1-6) [THEN pr2six_six2pr]

lemma pr2six_pad: "pr2six (CHR ''='') = 64"
  by (simp add: pr2six_def cc_def)

lemma up_to_maxval: "v \<le> DECODE_MAXVAL \<longleftrightarrow> v < 64"
  by (auto simp: DECODE_MAXVAL_def)

lemma take_sixes: "length (takeWhile (\<lambda>c. pr2six c \<le> DECODE_MAXVAL) (b64_encode s)) = sixes s"
proof (induction s rule: b64_encode.induct)
  case (4 a b c s)
  then show ?case using encode_values by (simp add: encode_sixes up_to_maxval sixes_step)
next
  case (2 a)
  then show ?case using encode_values by (simp add: encode_sixes up_to_maxval sixes_def pr2six_pad)
next
  case (3 a b)
  then show ?case using encode_values by (simp add: encode_sixes up_to_maxval sixes_def pr2six_pad)
qed (simp add: sixes_def)

lemma encode_not_blank: "dropWhile isblank (b64_encode s) = b64_encode s"
proof -
  have "\<not> isblank (six2pr n)" if "n < 64" for n
    using sixes_not_blank [of "six2pr n"] pr2six_six2pr [OF that] that by (simp add: DECODE_MAXVAL_def)
  from this [OF encode_values(1)] show ?thesis by (cases s rule: b64_encode.cases) simp_all
qed

text \<open>
  The loop over an encoding gives the bytes back; the last group leaves one or two more, and what
  the code looks at to tell which.
\<close>

definition tail_ok :: "string \<Rightarrow> int \<Rightarrow> nat option \<Rightarrow> char option list \<Rightarrow> bool" where
  "tail_ok s n third junk \<longleftrightarrow>
     (if length s mod 3 = 0 then n = 0 \<and> junk = []
      else if length s mod 3 = 1 then n = -2 \<and> third = Some 64 \<and> length junk = 2
      else n = -1 \<and> (\<exists>v \<le> DECODE_MAXVAL. third = Some v) \<and> length junk = 1)"

lemma decode_encode:
  "\<exists>n third' junk. decode_loop (b64_encode s) (int (sixes s)) third out = (n, third', out @ map Some s @ junk) \<and>
     tail_ok s n third' junk"
proof (induction s arbitrary: third out rule: b64_encode.induct)
  case 1
  show ?case by (simp add: decode_loop.simps [of _ 0] sixes_def tail_ok_def)
next
  case (2 a)
  have q: "decode_quad (b64_encode [a]) = [Some a, join_bits 4 2 (Some (cc a mod 4 * 16)) (Some 64), join_bits 6 0 (Some 64) (Some 64)]"
    using join_first [of 0 a] encode_values by (simp add: decode_quad_def six_at_def encode_sixes pr2six_pad)
  have "decode_loop (b64_encode [a]) 2 third out = (-2, Some 64, out @ decode_quad (b64_encode [a]))"
    by (simp add: decode_loop.simps [of _ 2] decode_loop.simps [of _ "-2"] six_at_def pr2six_pad)
  then show ?case unfolding q by (simp add: sixes_def tail_ok_def)
next
  case (3 a b)
  have q: "decode_quad (b64_encode [a, b]) = [Some a, Some b, join_bits 6 0 (Some (cc b mod 16 * 4)) (Some 64)]"
    using join_first [of "cc b div 16" a] join_second [of 0 "cc a mod 4" b] encode_values
    by (simp add: decode_quad_def six_at_def encode_sixes pr2six_pad)
  have "decode_loop (b64_encode [a, b]) 3 third out = (-1, Some (cc b mod 16 * 4), out @ decode_quad (b64_encode [a, b]))"
    by (simp add: decode_loop.simps [of _ 3] decode_loop.simps [of _ "-1"] six_at_def encode_sixes)
  then show ?case unfolding q using encode_values(5) [of b] by (simp add: sixes_def tail_ok_def DECODE_MAXVAL_def)
next
  case (4 a b c s)
  have q: "decode_quad (b64_encode (a # b # c # s)) = [Some a, Some b, Some c]"
    using join_first [of "cc b div 16" a] join_second [of "cc c div 64" "cc a mod 4" b] join_third [of "cc b mod 16" c]
      encode_values by (simp add: decode_quad_def six_at_def encode_sixes)
  have "decode_loop (b64_encode (a # b # c # s)) (int (sixes (a # b # c # s))) third out =
      decode_loop (b64_encode s) (int (sixes s)) (six_at (b64_encode (a # b # c # s)) 2) (out @ [Some a, Some b, Some c])"
    using q by (subst decode_loop.simps) (simp add: sixes_step)
  moreover have "tail_ok (a # b # c # s) = tail_ok s" by (rule ext)+ (simp add: tail_ok_def mod_Suc)
  ultimately show ?case using 4 [of "six_at (b64_encode (a # b # c # s)) 2" "out @ [Some a, Some b, Some c]"] by simp
qed

lemma decode_loop_length:
  "length (snd (snd (decode_loop s n third out))) = length out + 3 * nat ((n + 3) div 4)"
proof (induction s n third out rule: decode_loop.induct)
  case (1 s n third out)
  show ?case
  proof (cases "n > 0")
    case True
    then have "nat ((n + 3) div 4) = Suc (nat ((n - 4 + 3) div 4))" by linarith
    with True 1 show ?thesis by (simp add: decode_loop.simps [of s n] decode_quad_def)
  next
    case False
    then have "nat ((n + 3) div 4) = 0" by linarith
    with False show ?thesis by (simp add: decode_loop.simps [of s n])
  qed
qed

text \<open>Up to 99 bytes come back as they were; more are written behind the end of the buffer.\<close>

lemma decode_encoded: "httpd_decode (b64_encode s) 100 = (if length s \<le> 99 then Ok s else Undef)"
proof -
  have nb: "(sixes s + 3) div 4 * 3 = (length s + 2) div 3 * 3" by (simp add: sixes_def)
  obtain n third junk where d: "decode_loop (b64_encode s) (int (sixes s)) None [] = (n, third, map Some s @ junk)"
    and t: "tail_ok s n third junk" using decode_encode [of s None "[]"] by auto
  show ?thesis
  proof (cases "length s \<le> 99")
    case False
    then have "100 < (length s + 2) div 3 * 3" by presburger
    moreover obtain n' third' out where l: "decode_loop (b64_encode s) 133 None [] = (n', third', out)" by (cases "decode_loop (b64_encode s) 133 None []")
    moreover have "length out = 102" using decode_loop_length [of "b64_encode s" 133 None "[]"] l by simp
    ultimately show ?thesis using False by (simp add: httpd_decode_def Let_def encode_not_blank take_sixes nb)
  next
    case True
    then have "\<not> 100 < (length s + 2) div 3 * 3" by presburger
    then have run: "httpd_decode (b64_encode s) 100 = (if 100 < length s + length junk then Undef
        else rbind (if n mod 4 = 0 then Ok ((length s + 2) div 3 * 3)
          else rbind (of_opt third) (\<lambda>v. Ok (if v > DECODE_MAXVAL then (length s + 2) div 3 * 3 - 2 else (length s + 2) div 3 * 3 - 1))) (\<lambda>m.
        if 100 \<le> m \<or> length s + length junk < m \<or> list_ex (\<lambda>c. c = None) (take m (map Some s @ junk)) then Undef
        else Ok (map the (take m (map Some s @ junk)))))"
      unfolding httpd_decode_def Let_def encode_not_blank take_sixes nb by (simp add: d)
    have e: "\<not> list_ex (\<lambda>c. c = None) (map Some s)" "map the (map Some s) = s" by (simp_all add: list_ex_iff comp_def)
    consider "length s mod 3 = 0" | "length s mod 3 = 1" | "length s mod 3 = 2" by linarith
    then show ?thesis
    proof cases
      case 1
      then have "(length s + 2) div 3 * 3 = length s" by presburger
      with 1 t True e show ?thesis unfolding run by (simp add: tail_ok_def)
    next
      case 2
      then have "(length s + 2) div 3 * 3 - 2 = length s" by presburger
      moreover have "length s \<le> 97" using 2 True by presburger
      ultimately show ?thesis using 2 t e unfolding run by (simp add: tail_ok_def DECODE_MAXVAL_def)
    next
      case 3
      then have "(length s + 2) div 3 * 3 - 1 = length s" by presburger
      moreover have "length s \<le> 98" using 3 True by presburger
      ultimately show ?thesis using 3 t e unfolding run by (auto simp: tail_ok_def)
    qed
  qed
qed

section \<open>Properties\<close>

text \<open>
  C39. The credentials a browser sends are the ones the server keeps: the base-64 encoding of a user
  without a colon, a colon and a password in an Authorization header is read back as that user and
  that password when the three have at most 99 bytes together; with more the code writes behind
  the end of its buffer.
\<close>

theorem credentials_roundtrip:
  assumes "CHR '':'' \<notin> set user" "NUL \<notin> set user" "NUL \<notin> set password"
  shows "auth_header (''Authorization: Basic '' @ b64_encode (user @ '':'' @ password)) =
    (if length user + length password + 1 \<le> 99
     then Ok (Some (length user + length password + 1, user, Some password)) else Undef)"
proof -
  let ?s = "user @ '':'' @ password"
  have w: "takeWhile (\<lambda>c. c \<noteq> CHR '':'') ?s = user" using assms(1) by (subst takeWhile_append2) auto
  have z: "c_string ?s = ?s" unfolding c_string_def takeWhile_eq_all_conv using assms(2,3) by (auto simp: NUL_def)
  have a: "auth_header (''Authorization: Basic '' @ e) = rbind (httpd_decode e 100) (\<lambda>bytes.
      let authBuf = c_string bytes; u = takeWhile (\<lambda>c. c \<noteq> CHR '':'') authBuf
      in Ok (Some (length authBuf, take (HTTP_MAX_AUTH - 1) u,
           if CHR '':'' \<in> set authBuf then Some (take (HTTP_MAX_AUTH - 1) (drop (Suc (length u)) authBuf)) else None)))" for e
    by (simp add: auth_header_def strncasecmp_eq_def strncmp_eq_def)
  show ?thesis
  proof (cases "length ?s \<le> 99")
    case True
    then have "take (HTTP_MAX_AUTH - 1) user = user" "take (HTTP_MAX_AUTH - 1) password = password"
      by (simp_all add: HTTP_MAX_AUTH_def)
    with True show ?thesis unfolding a decode_encoded by (simp add: w [simplified] z [simplified])
  next
    case False
    then show ?thesis unfolding a decode_encoded by simp
  qed
qed

lemma credentials_roundtrip_witness:
  "auth_header (''Authorization: Basic '' @ b64_encode ''admin:secret'') = Ok (Some (12, ''admin'', Some ''secret''))"
proof -
  have "CHR '':'' \<notin> set ''admin''" "NUL \<notin> set ''admin''" "NUL \<notin> set ''secret''" by (simp_all add: NUL_def)
  from credentials_roundtrip [OF this] show ?thesis by simp
qed

end
