(* ===== verification/HttpdDate.thy ===== *)
theory HttpdDate
  imports CString
begin

text \<open>
  Times as the embedded web server prints them (\<^verbatim>\<open>_httpd_formatTimeString\<close> in
  \<^verbatim>\<open>libhttpd/protocol.c\<close>) and compares them: as texts. The functions \<^verbatim>\<open>gmtime\<close> and \<^verbatim>\<open>strftime\<close> of
  the C library are written out, and the text is shown to stand for one second only.
\<close>

section \<open>The calendar\<close>

definition HTTP_TIME_STRING_LEN :: nat where
  "HTTP_TIME_STRING_LEN = 40"

definition year_days :: "nat \<Rightarrow> nat" where
  "year_days y = (if y mod 4 = 0 \<and> (y mod 100 \<noteq> 0 \<or> y mod 400 = 0) then 366 else 365)"

definition month_days :: "nat \<Rightarrow> nat list" where
  "month_days y = [31, year_days y - 337, 31, 30, 31, 30, 31, 31, 30, 31, 30, 31]"

text \<open>The year a number of days after the start of the year \<open>y\<close>, and the days that are left.\<close>

function gm_year :: "nat \<Rightarrow> nat \<Rightarrow> nat \<times> nat" where
  "gm_year y d = (if year_days y \<le> d then gm_year (Suc y) (d - year_days y) else (y, d))"
  by pat_completeness auto
termination
  by (relation "measure snd") (auto simp: year_days_def)

declare gm_year.simps [simp del]

fun gm_month :: "nat list \<Rightarrow> nat \<Rightarrow> nat \<times> nat" where
  "gm_month [] d = (0, d)"
| "gm_month (m # ms) d = (if d < m then (0, d) else case gm_month ms (d - m) of (i, r) \<Rightarrow> (Suc i, r))"

record tm =
  tm_sec :: nat
  tm_min :: nat
  tm_hour :: nat
  tm_mday :: nat
  tm_mon :: nat
  tm_year :: nat
  tm_wday :: nat

text \<open>
  The calendar repeats after 400 years, 146097 days, whose number of weeks is whole: counting from
  1570 covers the times before 1970 that fit in 32 bits.
\<close>

definition gmtime :: "int \<Rightarrow> tm" where
  "gmtime t =
     (let d = nat (t div 86400 + 146097); s = nat (t mod 86400) in
      case gm_year 1570 d of (y, r) \<Rightarrow> case gm_month (month_days y) r of (m, k) \<Rightarrow>
        \<lparr>tm_sec = s mod 60, tm_min = s div 60 mod 60, tm_hour = s div 3600, tm_mday = Suc k, tm_mon = m, tm_year = y,
         tm_wday = (4 + d) mod 7\<rparr>)"

definition two_digits :: "nat \<Rightarrow> string" where
  "two_digits n = [char_of (48 + n div 10), char_of (48 + n mod 10)]"

definition day_names :: "string list" where
  "day_names = [''Sun'', ''Mon'', ''Tue'', ''Wed'', ''Thu'', ''Fri'', ''Sat'']"

definition month_names :: "string list" where
  "month_names = [''Jan'', ''Feb'', ''Mar'', ''Apr'', ''May'', ''Jun'', ''Jul'', ''Aug'', ''Sep'', ''Oct'', ''Nov'', ''Dec'']"

definition strftime :: "tm \<Rightarrow> string" where
  "strftime t = day_names ! tm_wday t @ '', '' @ two_digits (tm_mday t) @ '' '' @ month_names ! tm_mon t @ '' '' @
     udec (tm_year t) @ '' '' @ two_digits (tm_hour t) @ '':'' @ two_digits (tm_min t) @ '':'' @ two_digits (tm_sec t) @ '' GMT''"

text \<open>The time 0 stands for the time of the call, which is \<open>now\<close>.\<close>

definition httpd_formatTimeString :: "int \<Rightarrow> int \<Rightarrow> string" where
  "httpd_formatTimeString now clock = strftime (gmtime (if clock = 0 then now else clock))"

section \<open>Lemmas\<close>

lemma gm_year_spec:
  "gm_year y d = (y', r) \<Longrightarrow> y \<le> y' \<and> r < year_days y' \<and> d = sum year_days {y..<y'} + r"
proof (induction y d rule: gm_year.induct)
  case (1 y d)
  show ?case
  proof (cases "year_days y \<le> d")
    case True
    with "1.prems" have "gm_year (Suc y) (d - year_days y) = (y', r)" by (simp add: gm_year.simps [of y d])
    from "1.IH" [OF True this] True show ?thesis by (auto simp: sum.atLeast_Suc_lessThan)
  next
    case False
    with "1.prems" show ?thesis by (auto simp: gm_year.simps [of y d])
  qed
qed

lemma gm_month_spec:
  "gm_month ms d = (i, r) \<Longrightarrow> d < sum_list ms \<Longrightarrow> i < length ms \<and> r < ms ! i \<and> d = sum_list (take i ms) + r"
proof (induction ms arbitrary: d i)
  case (Cons m ms)
  show ?case
  proof (cases "d < m")
    case False
    obtain j where j: "gm_month ms (d - m) = (j, r)" "i = Suc j"
      using Cons.prems(1) False by (cases "gm_month ms (d - m)") auto
    have "d - m < sum_list ms" using Cons.prems(2) False by simp
    from Cons.IH [OF j(1) this] j(2) False show ?thesis by auto
  qed (use Cons.prems in auto)
qed simp

lemma year_days_cases: "year_days y = 365 \<or> year_days y = 366"
  by (simp add: year_days_def)

lemma sum_month_days: "sum_list (month_days y) = year_days y"
  using year_days_cases [of y] by (auto simp: month_days_def)

lemma month_days_le: "i < 12 \<Longrightarrow> month_days y ! i \<le> 31"
  using year_days_cases [of y] by (auto simp: month_days_def less_Suc_eq numeral_eq_Suc)

text \<open>The seconds a broken-down time stands for.\<close>

definition tm_time :: "tm \<Rightarrow> int" where
  "tm_time t = 86400 * (int (sum year_days {1570..<tm_year t} + sum_list (take (tm_mon t) (month_days (tm_year t))) + tm_mday t) - 146098)
     + int (3600 * tm_hour t + 60 * tm_min t + tm_sec t)"

definition tm_ok :: "tm \<Rightarrow> bool" where
  "tm_ok t \<longleftrightarrow> tm_sec t < 60 \<and> tm_min t < 60 \<and> tm_hour t < 24 \<and> 0 < tm_mday t \<and> tm_mday t \<le> 31 \<and> tm_mon t < 12 \<and>
     1570 \<le> tm_year t \<and> tm_wday t < 7"

lemma clock_sum: "3600 * (s div 3600) + 60 * (s div 60 mod 60) + s mod 60 = s" for s :: nat
proof -
  have "s div 3600 = s div 60 div 60" by (simp flip: div_mult2_eq)
  moreover have "60 * (s div 60 div 60) + s div 60 mod 60 = s div 60" "60 * (s div 60) + s mod 60 = s" by simp_all
  ultimately show ?thesis by linarith
qed

lemma gmtime_inverse:
  assumes "- 146097 * 86400 \<le> t"
  shows "tm_time (gmtime t) = t \<and> tm_ok (gmtime t)"
proof -
  let ?d = "nat (t div 86400 + 146097)" and ?s = "nat (t mod 86400)"
  obtain y r where y: "gm_year 1570 ?d = (y, r)" by (cases "gm_year 1570 ?d")
  obtain m k where m: "gm_month (month_days y) r = (m, k)" by (cases "gm_month (month_days y) r")
  note ys = gm_year_spec [OF y]
  then have ms: "m < 12 \<and> k < month_days y ! m \<and> r = sum_list (take m (month_days y)) + k"
    using gm_month_spec [OF m] by (simp add: sum_month_days) (simp add: month_days_def)
  have "- 146097 \<le> t div 86400" using zdiv_mono1 [OF assms, of 86400] by simp
  then have d: "int ?d = t div 86400 + 146097" by simp
  have s: "int ?s = t mod 86400" "?s < 86400" by simp_all
  note hms = clock_sum [of ?s]
  have dd: "sum year_days {1570..<y} + sum_list (take m (month_days y)) + Suc k = ?d + 1" using ys ms by simp
  have "tm_time (gmtime t) = 86400 * (int (?d + 1) - 146098) + int ?s"
    unfolding tm_time_def gmtime_def Let_def y m prod.case tm.simps dd hms by simp
  also have "\<dots> = 86400 * (t div 86400) + t mod 86400" using d s(1) by simp
  finally have "tm_time (gmtime t) = t" by simp
  moreover have "tm_ok (gmtime t)"
    using ys ms s(2) month_days_le [of m y] unfolding tm_ok_def gmtime_def Let_def y m prod.case tm.simps by auto
  ultimately show ?thesis by simp
qed

lemma sum_years_ge: "365 * (y' - y) \<le> sum year_days {y..<y'}"
proof -
  have "(\<Sum>k\<in>{y..<y'}. 365) \<le> sum year_days {y..<y'}"
    by (rule sum_mono) (simp add: year_days_def)
  then show ?thesis by simp
qed

lemma year_range:
  assumes "in_s32 t"
  shows "1570 \<le> tm_year (gmtime t) \<and> tm_year (gmtime t) < 2100"
proof -
  let ?d = "nat (t div 86400 + 146097)"
  obtain y r where y: "gm_year 1570 ?d = (y, r)" by (cases "gm_year 1570 ?d")
  have "t div 86400 \<le> 2147483648 div 86400" by (rule zdiv_mono1) (use assms in \<open>simp_all add: in_s32_def\<close>)
  then have "?d \<le> 170952" by simp
  moreover have "1570 \<le> y \<and> 365 * (y - 1570) \<le> ?d"
    using gm_year_spec [OF y] sum_years_ge [of y 1570] by linarith
  ultimately have "1570 \<le> y \<and> y < 2100" by linarith
  then show ?thesis by (simp add: gmtime_def Let_def y split: prod.split)
qed

lemma length_udec_year: "1000 \<le> n \<Longrightarrow> n < 10000 \<Longrightarrow> length (udec n) = 4"
  by (simp add: udec_step udec_small)

lemma length_two_digits [simp]: "length (two_digits n) = 2"
  by (simp add: two_digits_def)

lemma two_digits_inj: "m < 100 \<Longrightarrow> n < 100 \<Longrightarrow> two_digits m = two_digits n \<longleftrightarrow> m = n"
proof -
  have v: "k < 100 \<Longrightarrow> map cc (two_digits k) = [48 + k div 10, 48 + k mod 10]" for k
    by (simp add: two_digits_def)
  assume "m < 100" "n < 100"
  from v [OF this(1)] v [OF this(2)] show ?thesis by (metis div_mult_mod_eq add_left_cancel list.inject)
qed

lemma names_shape:
  "i < 7 \<Longrightarrow> length (day_names ! i) = 3" "i < 12 \<Longrightarrow> length (month_names ! i) = 3"
  "i < 12 \<Longrightarrow> j < 12 \<Longrightarrow> month_names ! i = month_names ! j \<longleftrightarrow> i = j"
proof -
  have "list_all (\<lambda>n. length n = 3) day_names" "list_all (\<lambda>n. length n = 3) month_names" "distinct month_names"
    "length day_names = 7" "length month_names = 12"
    by (simp_all add: day_names_def month_names_def)
  then show "i < 7 \<Longrightarrow> length (day_names ! i) = 3" "i < 12 \<Longrightarrow> length (month_names ! i) = 3"
    "i < 12 \<Longrightarrow> j < 12 \<Longrightarrow> month_names ! i = month_names ! j \<longleftrightarrow> i = j"
    by (simp_all add: list_all_length nth_eq_iff_index_eq)
qed

definition tm_printable :: "tm \<Rightarrow> bool" where
  "tm_printable t \<longleftrightarrow> tm_ok t \<and> 1000 \<le> tm_year t \<and> tm_year t < 10000"

lemma length_strftime: "tm_printable t \<Longrightarrow> length (strftime t) = 29"
  by (simp add: tm_printable_def tm_ok_def strftime_def names_shape length_udec_year)

text \<open>The text says all of a time but its day of the week, which follows from the others.\<close>

lemma strftime_inj:
  assumes "tm_printable a" "tm_printable b" "strftime a = strftime b"
  shows "tm_time a = tm_time b"
proof -
  have "two_digits (tm_mday a) = two_digits (tm_mday b)" "month_names ! tm_mon a = month_names ! tm_mon b"
    "udec (tm_year a) = udec (tm_year b)" "two_digits (tm_hour a) = two_digits (tm_hour b)"
    "two_digits (tm_min a) = two_digits (tm_min b)" "two_digits (tm_sec a) = two_digits (tm_sec b)"
    using assms by (simp_all add: tm_printable_def tm_ok_def strftime_def names_shape length_udec_year)
  then have "tm_mday a = tm_mday b \<and> tm_mon a = tm_mon b \<and> tm_year a = tm_year b \<and> tm_hour a = tm_hour b \<and>
      tm_min a = tm_min b \<and> tm_sec a = tm_sec b"
    using assms(1,2) by (simp add: tm_printable_def tm_ok_def names_shape two_digits_inj)
  then show ?thesis by (simp add: tm_time_def)
qed

lemma printable_time: "in_s32 t \<Longrightarrow> tm_printable (gmtime t) \<and> tm_time (gmtime t) = t"
  using gmtime_inverse [of t] year_range [of t] by (simp add: tm_printable_def in_s32_def)

lemma format_inj:
  assumes "in_s32 s" "in_s32 t"
  shows "strftime (gmtime s) = strftime (gmtime t) \<longleftrightarrow> s = t"
  using printable_time [OF assms(1)] printable_time [OF assms(2)] strftime_inj [of "gmtime s" "gmtime t"] by auto

lemma format_example: "httpd_formatTimeString 0 1400000000 = ''Tue, 13 May 2014 16:53:20 GMT''"
  by (simp add: httpd_formatTimeString_def gmtime_def gm_year.simps year_days_def month_days_def strftime_def two_digits_def
      day_names_def month_names_def udec_step udec_small)
    code_simp

end
