(* ===== verification/HttpdRequest.thy ===== *)
theory HttpdRequest
  imports HttpdAuth HttpdDate
begin

text \<open>
  Requests and responses of the embedded web server (\<^verbatim>\<open>libhttpd/api.c\<close>,
  \<^verbatim>\<open>libhttpd/protocol.c\<close>): the variables of a request, the reading of a request from the
  connection, the response with its headers, the interpolation of variables in what is sent,
  and the choice of the content a path leads to. The connection is the string of bytes the
  peer sends before it closes or times out; the time is a parameter where it is printed.
\<close>

section \<open>Sizes and data\<close>

definition HTTP_MAX_LEN :: nat where
  "HTTP_MAX_LEN = 10240"

definition HTTP_MAX_URL :: nat where
  "HTTP_MAX_URL = 1024"

definition HTTP_MAX_HEADERS :: nat where
  "HTTP_MAX_HEADERS = 1024"

text \<open>
  The variables in the order of \<^verbatim>\<open>nextVariable\<close>: the name, the value, and the further values
  in the order of \<^verbatim>\<open>nextValue\<close>.
\<close>

type_synonym http_vars = "(string \<times> string \<times> string list) list"

datatype http_method = HTTP_NONE | HTTP_GET | HTTP_POST

record http_request =
  rq_method :: http_method
  rq_path :: string
  rq_query :: string
  rq_host :: string
  rq_ifModified :: string
  rq_authLength :: nat
  rq_authUser :: string
  rq_authPassword :: string
  rq_clientAddr :: string
  rq_variables :: http_vars
  rs_response :: string
  rs_headers :: string
  rs_contentType :: string
  rs_headersSent :: bool
  rs_responseLength :: nat
  rs_sent :: string

section \<open>Variables\<close>

fun httpdGetVariableByName :: "http_vars \<Rightarrow> string \<Rightarrow> string option" where
  "httpdGetVariableByName [] name = None"
| "httpdGetVariableByName ((n, v, vs) # vars) name =
     (if n = name then Some v else httpdGetVariableByName vars name)"

fun add_variable :: "string \<Rightarrow> string \<Rightarrow> http_vars \<Rightarrow> http_vars" where
  "add_variable name value [] = [(name, value, [])]"
| "add_variable name value ((n, v, vs) # vars) =
     (if n = name then (n, v, vs @ [value]) # vars else (n, v, vs) # add_variable name value vars)"

definition httpdAddVariable :: "string \<Rightarrow> string \<Rightarrow> http_vars \<Rightarrow> http_vars" where
  "httpdAddVariable name value vars = add_variable (dropWhile isblank name) value vars"

text \<open>
  \<^verbatim>\<open>_httpd_storeData\<close>: \<open>var\<close> is the buffer for the name with \<open>n\<close> characters written, \<open>val\<close>
  the value so far, started over at every equals sign. A name without an equals sign is not
  terminated. An escaped NUL ends the value.
\<close>

fun store_loop :: "string \<Rightarrow> string \<Rightarrow> nat \<Rightarrow> string option \<Rightarrow> http_vars \<Rightarrow> http_vars" where
  "store_loop [] var n val vars =
     (if val \<noteq> None then httpdAddVariable (c_string var) (c_string (httpd_unescape val)) vars else vars)"
| "store_loop (c # cp) var n val vars =
     (if c = CHR ''='' then store_loop cp (var[n := NUL]) n (Some []) vars
      else if c = CHR ''&'' then
        store_loop cp var 0 None (httpdAddVariable (c_string var) (c_string (httpd_unescape val)) vars)
      else case val of
        Some v \<Rightarrow> store_loop cp var n (Some (v @ [c])) vars
      | None \<Rightarrow> store_loop cp (var[n := c]) (Suc n) None vars)"

definition httpd_storeData :: "string \<Rightarrow> http_vars \<Rightarrow> http_vars" where
  "httpd_storeData query vars = store_loop query (replicate (length query) NUL) 0 None vars"

section \<open>Reading a request\<close>

text \<open>
  \<^verbatim>\<open>_httpd_readLine\<close>: \<open>Ok None\<close> is the end of the stream; a line that fills the buffer is
  terminated one byte behind it.
\<close>

fun httpd_readLine :: "string \<Rightarrow> string \<Rightarrow> (string \<times> string) option result" where
  "httpd_readLine [] dst = (if length dst < HTTP_MAX_LEN then Ok None else Undef)"
| "httpd_readLine (c # inp) dst =
     (if \<not> length dst < HTTP_MAX_LEN then Undef
      else if c = nl \<or> 128 \<le> cc c then Ok (Some (c_string dst, inp))
      else if c = CHR 0x0D then httpd_readLine inp dst
      else httpd_readLine inp (dst @ [c]))"

lemma readLine_shorter: "httpd_readLine inp dst = Ok (Some (l, r)) \<Longrightarrow> length r < length inp"
  by (induction inp arbitrary: dst) (fastforce split: if_splits)+

definition request_init :: "string \<Rightarrow> http_request" where
  "request_init addr =
     \<lparr>rq_method = HTTP_NONE, rq_path = [], rq_query = [], rq_host = [], rq_ifModified = [], rq_authLength = 0, rq_authUser = [],
      rq_authPassword = [], rq_clientAddr = addr, rq_variables = [],
      rs_response = ''200 Output Follows'' @ [nl], rs_headers = ''Server: Hughes Technologies Embedded Server'' @ [nl],
      rs_contentType = ''text/html'', rs_headersSent = False, rs_responseLength = 0, rs_sent = []\<rparr>"

text \<open>
  The first line. A line that ends with the method is read on behind its terminator. The
  result is the method and the path, or \<open>None\<close> for a method that is not implemented.
\<close>

definition first_line :: "string \<Rightarrow> (http_method \<times> string) option result" where
  "first_line buf =
     (let word = takeWhile isalpha buf;
          m = (if strcasecmp_eq word ''GET'' then HTTP_GET else if strcasecmp_eq word ''POST'' then HTTP_POST else HTTP_NONE)
      in if m = HTTP_NONE then Ok None
         else case dropWhile isalpha buf of
           [] \<Rightarrow> Undef
         | _ # cp \<Rightarrow> let path = takeWhile (\<lambda>c. c \<noteq> CHR '' '') (dropWhile (\<lambda>c. c = CHR '' '') cp)
             in Ok (Some (m, httpd_sanitiseUrl (take (HTTP_MAX_URL - 1) path))))"

text \<open>The credentials of an Authorization header; the password stays when there is no colon.\<close>

fun put_credentials :: "(nat \<times> string \<times> string option) option \<Rightarrow> http_request \<Rightarrow> http_request" where
  "put_credentials None r = r"
| "put_credentials (Some (len, user, None)) r = r\<lparr>rq_authLength := len, rq_authUser := user\<rparr>"
| "put_credentials (Some (len, user, Some password)) r =
     r\<lparr>rq_authLength := len, rq_authUser := user, rq_authPassword := password\<rparr>"

definition set_credentials :: "string \<Rightarrow> http_request \<Rightarrow> http_request result" where
  "set_credentials buf r = rbind (auth_header buf) (\<lambda>a. Ok (put_credentials a r))"

function header_lines :: "string \<Rightarrow> http_request \<Rightarrow> http_request result" where
  "header_lines inp r =
     (case httpd_readLine inp [] of
        Ok None \<Rightarrow> Ok r
      | Ok (Some (buf, inp')) \<Rightarrow>
          if buf = [] then Ok r
          else (case set_credentials buf r of
              Ok r1 \<Rightarrow> header_lines inp'
                (if strncasecmp_eq buf ''Host: '' 6 then r1\<lparr>rq_host := take (HTTP_MAX_URL - 1) (drop 6 buf)\<rparr> else r1)
            | Exit c \<Rightarrow> Exit c
            | Undef \<Rightarrow> Undef)
      | Exit c \<Rightarrow> Exit c
      | Undef \<Rightarrow> Undef)"
  by pat_completeness auto
termination
  by (relation "measure (\<lambda>(inp, r). length inp)") (auto dest: readLine_shorter)

declare header_lines.simps [simp del]

text \<open>The query string is cut off the path, kept, and stored as variables.\<close>

definition split_query :: "http_request \<Rightarrow> http_request" where
  "split_query r =
     (case dropWhile (\<lambda>c. c \<noteq> CHR ''?'') (rq_path r) of
        [] \<Rightarrow> r
      | _ # q \<Rightarrow> r\<lparr>rq_path := takeWhile (\<lambda>c. c \<noteq> CHR ''?'') (rq_path r),
          rq_query := take (HTTP_MAX_URL - 1) q, rq_variables := httpd_storeData q (rq_variables r)\<rparr>)"

definition HTTP_METHOD_ERROR :: string where
  "HTTP_METHOD_ERROR = [nl] @ ''<B>ERROR : Method Not Implemented</B>'' @ [nl, nl]"

definition httpdReadRequest :: "string \<Rightarrow> http_request \<Rightarrow> (int \<times> http_request) result" where
  "httpdReadRequest inp r =
     rbind (httpd_readLine inp []) (\<lambda>l.
       case l of
         None \<Rightarrow> Ok (0, split_query r)
       | Some (buf, inp') \<Rightarrow> rbind (first_line buf) (\<lambda>f.
           case f of
             None \<Rightarrow> Ok (-1, r\<lparr>rs_sent := rs_sent r @ HTTP_METHOD_ERROR @ takeWhile isalpha buf\<rparr>)
           | Some (m, path) \<Rightarrow>
               rbind (header_lines inp' (r\<lparr>rq_method := m, rq_path := path\<rparr>)) (\<lambda>r'. Ok (0, split_query r'))))"

section \<open>The response\<close>

definition httpdSetResponse :: "string \<Rightarrow> http_request \<Rightarrow> http_request" where
  "httpdSetResponse msg r = r\<lparr>rs_response := take (HTTP_MAX_URL - 1) msg\<rparr>"

definition httpdAddHeader :: "string \<Rightarrow> http_request \<Rightarrow> http_request" where
  "httpdAddHeader msg r =
     (let size = int HTTP_MAX_HEADERS - 2 - int (length (rs_headers r)) in
      if size > 0 then
        let h = rs_headers r @ take (nat size) msg
        in r\<lparr>rs_headers := if h = [] \<or> last h \<noteq> nl then h @ [nl] else h\<rparr>
      else r)"

text \<open>
  \<open>date\<close> and \<open>modTime\<close> are the current time and the time of a file as
  \<^verbatim>\<open>_httpd_formatTimeString\<close> prints them.
\<close>

definition httpd_sendHeaders :: "string \<Rightarrow> int \<Rightarrow> string \<Rightarrow> http_request \<Rightarrow> http_request" where
  "httpd_sendHeaders date contentLength modTime r =
     (if rs_headersSent r then r
      else r\<lparr>rs_headersSent := True,
             rs_sent := rs_sent r @ ''HTTP/1.0 '' @ rs_response r @ rs_headers r @ ''Date: '' @ date @ [nl] @
               ''Connection: close'' @ [nl] @ ''Content-Type: '' @ rs_contentType r @ [nl] @
               (if contentLength > 0 then ''Content-Length: '' @ fmt_d contentLength @ [nl] @
                  ''Last-Modified: '' @ modTime @ [nl] else []) @ [nl]\<rparr>)"

definition httpdSendHeaders :: "string \<Rightarrow> http_request \<Rightarrow> http_request" where
  "httpdSendHeaders date r = httpd_sendHeaders date 0 [] r"

definition net_write :: "string \<Rightarrow> http_request \<Rightarrow> http_request" where
  "net_write buf r = r\<lparr>rs_sent := rs_sent r @ buf\<rparr>"

definition httpdPrintf :: "string \<Rightarrow> string \<Rightarrow> http_request \<Rightarrow> http_request" where
  "httpdPrintf date body r =
     (let buf = snprintf_s HTTP_MAX_LEN body; r1 = httpdSendHeaders date r
      in net_write buf (r1\<lparr>rs_responseLength := rs_responseLength r1 + length buf\<rparr>))"

text \<open>
  \<^verbatim>\<open>httpdOutput\<close> replaces every \<^verbatim>\<open>$name\<close> that is a variable by its value. The counter that
  bounds the loop does not count the values, and neither a value nor the name, of up to 80
  characters in a buffer of 80 bytes, is checked against the size of its buffer.
\<close>

definition name_char :: "char \<Rightarrow> bool" where
  "name_char c \<longleftrightarrow> isalnum c \<or> c = CHR ''_''"

function output_loop :: "http_vars \<Rightarrow> string \<Rightarrow> nat \<Rightarrow> string \<Rightarrow> string option" where
  "output_loop vars [] count dest = (if length dest < HTTP_MAX_LEN then Some dest else None)"
| "output_loop vars (c # src) count dest =
     (if \<not> count < HTTP_MAX_LEN then (if length dest < HTTP_MAX_LEN then Some dest else None)
      else if c = CHR ''$'' then
        (let varName = takeWhile name_char (take 80 src); src' = drop (length varName) src in
         if length varName = 80 then None
         else case httpdGetVariableByName vars varName of
           Some value \<Rightarrow>
             if length dest + length value < HTTP_MAX_LEN
             then output_loop vars src' count (dest @ value) else None
         | None \<Rightarrow>
             if length dest + 1 + length varName < HTTP_MAX_LEN
             then output_loop vars src' (count + 1 + length varName) (dest @ CHR ''$'' # varName) else None)
      else if length dest < HTTP_MAX_LEN then output_loop vars src (count + 1) (dest @ [c])
      else None)"
  by pat_completeness auto
termination
  by (relation "measure (\<lambda>(vars, src, count, dest). length src)") auto

definition httpdOutput :: "string \<Rightarrow> string \<Rightarrow> http_request \<Rightarrow> http_request result" where
  "httpdOutput date msg r =
     rbind (of_opt (output_loop (rq_variables r) msg 0 [])) (\<lambda>buf.
       Ok (net_write buf (httpdSendHeaders date (r\<lparr>rs_responseLength := rs_responseLength r + length buf\<rparr>))))"

section \<open>Content\<close>

text \<open>
  What a path leads to. The directories are kept by their path, the list of the names
  between slashes, each with its entries, the one added last first.
\<close>

datatype 'h http_content =
    HTTP_C_FUNCT string bool 'h
  | HTTP_C_WILDCARD 'h
  | HTTP_WILDCARD string
  | HTTP_FILE string bool string
  | HTTP_STATIC string bool string

type_synonym 'h http_dirs = "(string list \<times> 'h http_content list) list"

definition path_names :: "string \<Rightarrow> string list" where
  "path_names dir = filter (\<lambda>n. n \<noteq> []) (strsep_all (\<lambda>c. c = CHR ''/'') (take (HTTP_MAX_URL - 1) dir))"

definition httpd_findContentDir :: "'h http_dirs \<Rightarrow> string \<Rightarrow> 'h http_content list" where
  "httpd_findContentDir dirs dir = (case map_of dirs (path_names dir) of None \<Rightarrow> [] | Some es \<Rightarrow> es)"

fun httpd_findContentEntry :: "'h http_content list \<Rightarrow> string \<Rightarrow> 'h http_content option" where
  "httpd_findContentEntry [] entryName = None"
| "httpd_findContentEntry (HTTP_C_FUNCT name indexFlag f # es) entryName =
     (if entryName = [] \<and> indexFlag \<or> name = entryName then Some (HTTP_C_FUNCT name indexFlag f)
      else httpd_findContentEntry es entryName)"
| "httpd_findContentEntry (HTTP_FILE name indexFlag path # es) entryName =
     (if entryName = [] \<and> indexFlag \<or> name = entryName then Some (HTTP_FILE name indexFlag path)
      else httpd_findContentEntry es entryName)"
| "httpd_findContentEntry (HTTP_STATIC name indexFlag data # es) entryName =
     (if entryName = [] \<and> indexFlag \<or> name = entryName then Some (HTTP_STATIC name indexFlag data)
      else httpd_findContentEntry es entryName)"
| "httpd_findContentEntry (e # es) entryName = Some e"

definition add_content :: "string \<Rightarrow> 'h http_content \<Rightarrow> 'h http_dirs \<Rightarrow> 'h http_dirs" where
  "add_content dir e dirs = (path_names dir, e # httpd_findContentDir dirs dir) # dirs"

definition httpdAddCContent :: "string \<Rightarrow> string \<Rightarrow> bool \<Rightarrow> 'h \<Rightarrow> 'h http_dirs \<Rightarrow> 'h http_dirs" where
  "httpdAddCContent dir name indexFlag f = add_content dir (HTTP_C_FUNCT name indexFlag f)"

definition httpdAddCWildcardContent :: "string \<Rightarrow> 'h \<Rightarrow> 'h http_dirs \<Rightarrow> 'h http_dirs" where
  "httpdAddCWildcardContent dir f = add_content dir (HTTP_C_WILDCARD f)"

text \<open>\<open>base\<close> is the root the server's relative paths start from.\<close>

definition content_path :: "string \<Rightarrow> string \<Rightarrow> string" where
  "content_path base path =
     (if take 1 path = ''/'' then path
      else snprintf_s HTTP_MAX_URL (take (HTTP_MAX_URL - 1) base @ ''/'' @ path))"

definition httpdAddWildcardContent :: "string \<Rightarrow> string \<Rightarrow> string \<Rightarrow> 'h http_dirs \<Rightarrow> 'h http_dirs" where
  "httpdAddWildcardContent base dir path = add_content dir (HTTP_WILDCARD (content_path base path))"

definition httpdAddFileContent :: "string \<Rightarrow> string \<Rightarrow> string \<Rightarrow> bool \<Rightarrow> string \<Rightarrow> 'h http_dirs \<Rightarrow> 'h http_dirs" where
  "httpdAddFileContent base dir name indexFlag path = add_content dir (HTTP_FILE name indexFlag (content_path base path))"

definition httpdAddStaticContent :: "string \<Rightarrow> string \<Rightarrow> bool \<Rightarrow> string \<Rightarrow> 'h http_dirs \<Rightarrow> 'h http_dirs" where
  "httpdAddStaticContent dir name indexFlag data = add_content dir (HTTP_STATIC name indexFlag data)"

text \<open>
  \<^verbatim>\<open>httpdProcessRequest\<close>: the last slash divides the path into directory and entry. The
  outcome is a handler to run, a file or a text to send, or nothing at all for a path without a
  slash. No content of the portal has a function to call first.
\<close>

datatype 'h http_route = Run 'h | Send_file string | Send_static string | Not_found | Invalid_path

definition split_path :: "string \<Rightarrow> (string \<times> string) option" where
  "split_path p =
     (let entry = rev (takeWhile (\<lambda>c. c \<noteq> CHR ''/'') (rev p)) in
      if length entry = length p then None
      else let dir = take (length p - length entry - 1) p
           in Some (if dir = [] then ''/'' else dir, entry))"

text \<open>The file \<^verbatim>\<open>_httpd_sendDirectoryEntry\<close> sends.\<close>

definition directory_entry :: "string \<Rightarrow> string \<Rightarrow> string" where
  "directory_entry path entryName = snprintf_s HTTP_MAX_URL (path @ ''/'' @ entryName)"

definition httpdProcessRequest :: "'h http_dirs \<Rightarrow> string \<Rightarrow> 'h http_route" where
  "httpdProcessRequest dirs path =
     (case split_path (take (HTTP_MAX_URL - 1) path) of
        None \<Rightarrow> Invalid_path
      | Some (dirName, entryName) \<Rightarrow>
          (case httpd_findContentEntry (httpd_findContentDir dirs dirName) entryName of
             None \<Rightarrow> Not_found
           | Some (HTTP_C_FUNCT name i f) \<Rightarrow> Run f
           | Some (HTTP_C_WILDCARD f) \<Rightarrow> Run f
           | Some (HTTP_FILE name i p) \<Rightarrow> Send_file p
           | Some (HTTP_STATIC name i data) \<Rightarrow> Send_static data
           | Some (HTTP_WILDCARD p) \<Rightarrow> Send_file (directory_entry p entryName)))"

text \<open>
  \<^verbatim>\<open>_httpd_sendFile\<close> sets the type by the suffix, looks for the file, and sends its size and
  time in the headers, then its bytes. A request has no time to compare with, since the header
  \<^verbatim>\<open>If-Modified-Since\<close> is not read.
\<close>

definition httpd_checkLastModified :: "int \<Rightarrow> int \<Rightarrow> http_request \<Rightarrow> int" where
  "httpd_checkLastModified now modTime r = (if httpd_formatTimeString now modTime = rq_ifModified r then 0 else 1)"

definition httpd_send304 :: "string \<Rightarrow> http_request \<Rightarrow> http_request" where
  "httpd_send304 date r = httpd_sendHeaders date 0 [] (httpdSetResponse (''304 Not Modified'' @ [nl]) r)"

definition content_type :: "string \<Rightarrow> string \<Rightarrow> string" where
  "content_type path old =
     (let suffix = map tolower (rev (takeWhile (\<lambda>c. c \<noteq> CHR ''.'') (rev path))) in
      if CHR ''.'' \<notin> set path then old
      else if suffix = ''gif'' then ''image/gif''
      else if suffix = ''jpg'' then ''image/jpeg''
      else if suffix = ''xbm'' then ''image/xbm''
      else if suffix = ''png'' then ''image/png'' else old)"

definition httpd_sendFile :: "int \<Rightarrow> string \<Rightarrow> (int \<times> int) option \<Rightarrow> string \<Rightarrow> http_request \<Rightarrow> http_request option" where
  "httpd_sendFile now path stat bytes r =
     (case stat of
        None \<Rightarrow> None
      | Some (len, modTime) \<Rightarrow>
          let r0 = r\<lparr>rs_contentType := content_type path (rs_contentType r)\<rparr>;
              date = httpd_formatTimeString now 0 in
          if httpd_checkLastModified now modTime r0 = 0 then Some (httpd_send304 date r0)
          else let r1 = httpd_sendHeaders date len (httpd_formatTimeString now modTime) r0
            in Some (net_write bytes (r1\<lparr>rs_responseLength := rs_responseLength r1 + length bytes\<rparr>)))"

text \<open>
  \<^verbatim>\<open>_httpd_sendStatic\<close> passes the time the server was started as the length, and the length of
  the text as the time.
\<close>

definition httpd_sendStatic :: "int \<Rightarrow> int \<Rightarrow> string \<Rightarrow> http_request \<Rightarrow> http_request result" where
  "httpd_sendStatic now startTime data r =
     (let date = httpd_formatTimeString now 0;
          r1 = (if httpd_checkLastModified now startTime r = 0 then httpd_send304 date r else r)
      in httpdOutput date data (httpd_sendHeaders date startTime (httpd_formatTimeString now (int (length data))) r1))"

section \<open>Lemmas\<close>

text \<open>The interface of the variables: the first value a name is given stays.\<close>

locale first_wins =
  fixes get :: "'s \<Rightarrow> string \<Rightarrow> string option"
    and add :: "string \<Rightarrow> string \<Rightarrow> 's \<Rightarrow> 's"
    and name_of :: "string \<Rightarrow> string"
  assumes get_add: "get (add n v s) m = (case get s m of Some x \<Rightarrow> Some x | None \<Rightarrow> if m = name_of n then Some v else None)"
begin

lemma get_add_present: "get s m = Some x \<Longrightarrow> get (add n v s) m = Some x"
  by (simp add: get_add)

lemma get_add_new: "get s (name_of n) = None \<Longrightarrow> get (add n v s) (name_of n) = Some v"
  by (simp add: get_add)

lemma get_add_other: "m \<noteq> name_of n \<Longrightarrow> get (add n v s) m = get s m"
  by (simp add: get_add split: option.split)

lemma get_adds_present: "get s m = Some x \<Longrightarrow> get (fold (\<lambda>(n, v). add n v) l s) m = Some x"
  by (induction l arbitrary: s) (auto simp: get_add_present)

lemma get_adds_new: "get s m = None \<Longrightarrow> get (fold (\<lambda>(n, v). add n v) l s) m = map_of (map (apfst name_of) l) m"
proof (induction l arbitrary: s)
  case (Cons nv l)
  obtain n v where nv: "nv = (n, v)" by (cases nv)
  show ?case
  proof (cases "m = name_of n")
    case True
    with Cons.prems have "get (add n v s) m = Some v" by (simp add: get_add_new)
    with True nv show ?thesis by (simp add: get_adds_present)
  next
    case False
    with Cons nv show ?thesis by (simp add: get_add_other)
  qed
qed simp

end

lemma get_add_variable: "httpdGetVariableByName (add_variable n v vars) m =
    (case httpdGetVariableByName vars m of Some x \<Rightarrow> Some x | None \<Rightarrow> if m = n then Some v else None)"
  by (induction n v vars rule: add_variable.induct) (auto split: option.split)

interpretation vars: first_wins httpdGetVariableByName httpdAddVariable "dropWhile isblank"
  by unfold_locales (simp add: httpdAddVariable_def get_add_variable)

text \<open>A query of one escaped value after the other is stored value by value.\<close>

definition query_safe :: "string \<Rightarrow> bool" where
  "query_safe s \<longleftrightarrow> CHR ''='' \<notin> set s \<and> CHR ''&'' \<notin> set s"

lemma store_value:
  "query_safe v \<Longrightarrow> store_loop (v @ q) var n (Some u) vars = store_loop q var n (Some (u @ v)) vars"
  by (induction v arbitrary: u) (auto simp: query_safe_def)

lemma store_name:
  "query_safe nm \<Longrightarrow> store_loop (nm @ q) (p @ rest) (length p) None vars =
     store_loop q (p @ nm @ drop (length nm) rest) (length p + length nm) None vars"
  if "length nm \<le> length rest"
  using that
proof (induction nm arbitrary: p rest)
  case (Cons c nm)
  obtain x rest' where rest: "rest = x # rest'" using Cons.prems(2) by (cases rest) auto
  have c: "c \<noteq> CHR ''=''" "c \<noteq> CHR ''&''" using Cons.prems(1) by (auto simp: query_safe_def)
  then have "store_loop ((c # nm) @ q) (p @ rest) (length p) None vars =
      store_loop (nm @ q) ((p @ [c]) @ rest') (length (p @ [c])) None vars"
    by (simp add: rest)
  also have "\<dots> = store_loop q ((p @ [c]) @ nm @ drop (length nm) rest') (length (p @ [c]) + length nm) None vars"
    by (rule Cons.IH) (use Cons.prems rest in \<open>simp_all add: query_safe_def\<close>)
  finally show ?case by (simp add: rest)
qed simp

lemma c_string_name: "NUL \<notin> set nm \<Longrightarrow> c_string (nm @ NUL # rest) = nm"
proof -
  assume "NUL \<notin> set nm"
  then have "takeWhile (\<lambda>c. c \<noteq> NUL) (nm @ NUL # rest) = nm" by (induction nm) auto
  then show ?thesis by (simp add: c_string_def)
qed

text \<open>The name and the value of one field, up to the end of the field.\<close>

lemma store_field:
  assumes "query_safe nm" "query_safe v" "NUL \<notin> set nm" "length nm < length var"
  shows "\<exists>var'. length var' = length var \<and> c_string var' = nm \<and>
    store_loop (nm @ CHR ''='' # v @ q) var 0 None vars = store_loop q var' (length nm) (Some v) vars"
proof -
  obtain x rest where rest: "drop (length nm) var = x # rest" using assms(4) by (cases "drop (length nm) var") auto
  have len: "length var = length nm + Suc (length rest)"
    using arg_cong [OF rest, of length] assms(4) by simp
  have "store_loop (nm @ CHR ''='' # v @ q) var 0 None vars = store_loop (CHR ''='' # v @ q) (nm @ x # rest) (length nm) None vars"
    using store_name [of nm var "CHR ''='' # v @ q" "[]"] assms(1,4) rest by simp
  also have "\<dots> = store_loop q (nm @ NUL # rest) (length nm) (Some v) vars"
    using store_value [OF assms(2), of q _ _ "[]"] by simp
  finally show ?thesis using len c_string_name [OF assms(3)]
    by (intro exI [of _ "nm @ NUL # rest"]) simp
qed

lemma store_two_fields:
  assumes "query_safe n1" "query_safe v1" "query_safe n2" "query_safe v2" "NUL \<notin> set n1" "NUL \<notin> set n2"
  shows "httpd_storeData (n1 @ CHR ''='' # v1 @ CHR ''&'' # n2 @ CHR ''='' # v2) vars =
    httpdAddVariable n2 (c_string (httpd_unescape (Some v2))) (httpdAddVariable n1 (c_string (httpd_unescape (Some v1))) vars)"
proof -
  let ?q = "n1 @ CHR ''='' # v1 @ CHR ''&'' # n2 @ CHR ''='' # v2"
  obtain var1 where 1: "length var1 = length ?q" "c_string var1 = n1"
    "store_loop ?q (replicate (length ?q) NUL) 0 None vars =
       store_loop (CHR ''&'' # n2 @ CHR ''='' # v2) var1 (length n1) (Some v1) vars"
    using store_field [OF assms(1,2,5), of "replicate (length ?q) NUL" "CHR ''&'' # n2 @ CHR ''='' # v2" vars] by auto
  obtain var2 where 2: "c_string var2 = n2"
    "store_loop (n2 @ CHR ''='' # v2 @ []) var1 0 None (httpdAddVariable n1 (c_string (httpd_unescape (Some v1))) vars) =
       store_loop [] var2 (length n2) (Some v2) (httpdAddVariable n1 (c_string (httpd_unescape (Some v1))) vars)"
    using store_field [OF assms(3,4,6), of var1 "[]"] 1(1) by auto
  show ?thesis unfolding httpd_storeData_def 1(3) using 1(2) 2 by simp
qed

lemma escape_query_safe: "query_safe (httpd_escape s)"
proof (induction s)
  case (Cons a s)
  have "hex_digits ! n \<noteq> CHR ''=''" "hex_digits ! n \<noteq> CHR ''&''" if "n < 16" for n
    using hex_digit [OF that] that by (auto simp: httpd_from_hex_def cc_def split: if_splits)
  from this [OF high_digit] this [of "cc a mod 16"] have
    "hex_digits ! (cc a div 16) \<noteq> CHR ''=''" "hex_digits ! (cc a div 16) \<noteq> CHR ''&''"
    "hex_digits ! (cc a mod 16) \<noteq> CHR ''=''" "hex_digits ! (cc a mod 16) \<noteq> CHR ''&''" by simp_all
  moreover have "\<not> ACCEPTABLE URL_XPALPHAS CHR ''=''" "\<not> ACCEPTABLE URL_XPALPHAS CHR ''&''"
    by (simp_all add: ACCEPTABLE_def URL_XPALPHAS_def isAcceptable_def cc_def)
  ultimately show ?case using Cons by (auto simp: query_safe_def)
qed (simp add: query_safe_def)

text \<open>A request for a path that stands for itself is read back.\<close>

definition url_char :: "char \<Rightarrow> bool" where
  "url_char c \<longleftrightarrow> cc c < 128 \<and> c \<notin> {NUL, nl, CHR 0x0D, CHR '' ''}"

lemma readLine_plain:
  assumes "list_all (\<lambda>c. cc c < 128 \<and> c \<notin> {NUL, nl, CHR 0x0D}) l" "length dst + length l < HTTP_MAX_LEN" "NUL \<notin> set dst"
  shows "httpd_readLine (l @ CHR 0x0D # nl # rest) dst = Ok (Some (dst @ l, rest))"
  using assms
proof (induction l arbitrary: dst)
  case Nil
  then have "c_string dst = dst" by (auto simp: c_string_def takeWhile_eq_all_conv)
  with Nil show ?case by (simp add: cc_def nl_def)
next
  case (Cons c l)
  then show ?case by auto
qed

lemma first_line_get:
  assumes "list_all url_char path" "take 1 path = ''/''" "length path < HTTP_MAX_URL" "httpd_sanitiseUrl path = path"
  shows "first_line (''GET '' @ path @ '' HTTP/1.0'') = Ok (Some (HTTP_GET, path))"
proof -
  obtain p where p: "path = CHR ''/'' # p" using assms(2) by (cases path) auto
  have "takeWhile (\<lambda>c. c \<noteq> CHR '' '') (p @ CHR '' '' # q) = p" for q
    using assms(1) by (subst takeWhile_append2) (auto simp: p list_all_iff url_char_def)
  then have "takeWhile (\<lambda>c. c \<noteq> CHR '' '') (dropWhile (\<lambda>c. c = CHR '' '') (path @ '' HTTP/1.0'')) = path"
    by (simp add: p)
  moreover have "takeWhile isalpha (''GET '' @ q) = ''GET''" "dropWhile isalpha (''GET '' @ q) = CHR '' '' # q" for q
    by (simp_all add: isalpha_def cc_def)
  moreover have "strcasecmp_eq ''GET'' ''GET''" by (simp add: strcasecmp_eq_def)
  ultimately show ?thesis using assms(3,4) by (simp add: first_line_def)
qed

lemma read_get:
  assumes "list_all url_char path" "take 1 path = ''/''" "length path < HTTP_MAX_URL" "httpd_sanitiseUrl path = path"
  shows "httpdReadRequest (''GET '' @ path @ '' HTTP/1.0'' @ [CHR 0x0D, nl, CHR 0x0D, nl]) r =
    Ok (0, split_query (r\<lparr>rq_method := HTTP_GET, rq_path := path\<rparr>))"
proof -
  have "httpd_readLine ((''GET '' @ path @ '' HTTP/1.0'') @ CHR 0x0D # nl # [CHR 0x0D, nl]) [] =
      Ok (Some ([] @ (''GET '' @ path @ '' HTTP/1.0''), [CHR 0x0D, nl]))"
    by (rule readLine_plain)
      (use assms in \<open>auto simp: list_all_iff url_char_def cc_def HTTP_MAX_URL_def HTTP_MAX_LEN_def NUL_def nl_def\<close>)
  moreover have "httpd_readLine ([] @ CHR 0x0D # nl # []) [] = Ok (Some ([], []))"
    by (subst readLine_plain) (simp_all add: HTTP_MAX_LEN_def)
  then have "header_lines [CHR 0x0D, nl] r' = Ok r'" for r'
    by (simp add: header_lines.simps [of "[CHR 0x0D, nl]"])
  ultimately show ?thesis using first_line_get [OF assms] by (simp add: httpdReadRequest_def)
qed

lemma sanitise_id:
  "\<not> sublist ''//'' s \<Longrightarrow> \<not> sublist ''/./'' s \<Longrightarrow> \<not> sublist ''/../'' s \<Longrightarrow> httpd_sanitiseUrl s = s"
  using drop_dotdots_id [of s "[]" 0] by (simp add: httpd_sanitiseUrl_def merge_slashes_id drop_dots_id dotdot_def)

text \<open>Paths of one directory and a query.\<close>

definition plain_name :: "string \<Rightarrow> bool" where
  "plain_name d \<longleftrightarrow> d \<notin> {[], ''.'', ''..''} \<and> list_all url_char d \<and> CHR ''/'' \<notin> set d \<and> CHR ''?'' \<notin> set d"

lemma no_slash_prefix: "CHR ''/'' \<notin> set s \<Longrightarrow> sublist (CHR ''/'' # p) (s @ t) = sublist (CHR ''/'' # p) t"
  by (induction s) (auto simp: sublist_Cons_right)

lemma no_slash: "CHR ''/'' \<notin> set s \<Longrightarrow> \<not> sublist (CHR ''/'' # p) s"
  using set_mono_sublist [of "CHR ''/'' # p" s] by auto

lemma sanitise_dir_query:
  assumes "plain_name d" "CHR ''/'' \<notin> set q"
  shows "httpd_sanitiseUrl (''/'' @ d @ ''/?'' @ q) = ''/'' @ d @ ''/?'' @ q"
proof (rule sanitise_id)
  obtain c d' where d: "d = c # d'" "c \<noteq> CHR ''/''" using assms(1) by (cases d) (auto simp: plain_name_def)
  have s: "CHR ''/'' \<notin> set d" "CHR ''/'' \<notin> set (CHR ''?'' # q)" using assms by (simp_all add: plain_name_def)
  have "sublist (CHR ''/'' # x # p) (''/'' @ d @ ''/?'' @ q) \<longleftrightarrow> prefix (x # p) (d @ ''/?'' @ q) \<or> prefix (x # p) (CHR ''?'' # q)" for x p
    using no_slash_prefix [OF s(1), of "x # p" "''/?'' @ q"] no_slash [OF s(2)]
    by (simp add: sublist_Cons_right)
  note * = this [of "CHR ''/''" "[]"] this [of "CHR ''.''" "''/''"] this [of "CHR ''.''" "''./''"]
  show "\<not> sublist ''//'' (''/'' @ d @ ''/?'' @ q)" unfolding * using d(2) [symmetric] by (simp add: d(1))
  have n: "d \<noteq> ''.''" "d \<noteq> ''..''" using assms(1) by (simp_all add: plain_name_def)
  have "\<not> prefix ''./'' (d @ ''/?'' @ q)" using n(1) s(1) by (cases d; cases "tl d") auto
  then show "\<not> sublist ''/./'' (''/'' @ d @ ''/?'' @ q)" unfolding * by simp
  have "\<not> prefix ''../'' (d @ ''/?'' @ q)" using n s(1) by (cases d; cases "tl d"; cases "tl (tl d)") auto
  then show "\<not> sublist ''/../'' (''/'' @ d @ ''/?'' @ q)" unfolding * by simp
qed

lemma split_dir_query:
  assumes "plain_name d" "rq_path r = ''/'' @ d @ ''/?'' @ q"
  shows "split_query r = r\<lparr>rq_path := ''/'' @ d @ ''/'', rq_query := take (HTTP_MAX_URL - 1) q,
    rq_variables := httpd_storeData q (rq_variables r)\<rparr>"
proof -
  have n: "\<And>c. c \<in> set (''/'' @ d @ ''/'') \<Longrightarrow> c \<noteq> CHR ''?''" using assms(1) by (auto simp: plain_name_def)
  have p: "rq_path r = (''/'' @ d @ ''/'') @ CHR ''?'' # q" using assms(2) by simp
  have "dropWhile (\<lambda>c. c \<noteq> CHR ''?'') (rq_path r) = CHR ''?'' # q" "takeWhile (\<lambda>c. c \<noteq> CHR ''?'') (rq_path r) = ''/'' @ d @ ''/''"
    unfolding p using n by (subst dropWhile_append2 takeWhile_append2; simp)+
  then show ?thesis by (simp add: split_query_def)
qed

lemma escape_chars: "c \<in> set (httpd_escape s) \<Longrightarrow> url_char c \<and> c \<noteq> CHR ''/''"
proof (induction s)
  case (Cons a s)
  have h: "url_char (hex_digits ! n) \<and> hex_digits ! n \<noteq> CHR ''/''" if "n < 16" for n
  proof -
    from that have "n \<in> set [0..<16]" by simp
    then show ?thesis by (simp add: upt_rec hex_digits_def url_char_def cc_def NUL_def nl_def) auto
  qed
  have "url_char a \<and> a \<noteq> CHR ''/''" if "ACCEPTABLE URL_XPALPHAS a"
  proof -
    have "32 \<le> cc a" "cc a < 128" using that by (simp_all add: ACCEPTABLE_def)
    moreover have "\<not> ACCEPTABLE URL_XPALPHAS CHR '' ''" "\<not> ACCEPTABLE URL_XPALPHAS CHR ''/''"
      by (simp_all add: ACCEPTABLE_def URL_XPALPHAS_def isAcceptable_def cc_def)
    then have "a \<noteq> CHR '' ''" "a \<noteq> CHR ''/''" using that by metis+
    moreover have "cc NUL < 32" "cc nl < 32" "cc (CHR 0x0D) < 32" by (simp_all add: cc_def NUL_def nl_def)
    ultimately show ?thesis by (auto simp: url_char_def)
  qed
  moreover have "url_char CHR ''%''" by (simp add: url_char_def cc_def NUL_def nl_def)
  ultimately show ?case using Cons h [OF high_digit] h [of "cc a mod 16"] by (auto split: if_splits)
qed simp

text \<open>
  Reading a request leaves the address of the peer alone, and what the response is made of,
  unless the method is not implemented.
\<close>

definition response_view :: "http_request \<Rightarrow> (string \<times> string \<times> string \<times> string) \<times> bool \<times> string \<times> string" where
  "response_view r = ((rq_ifModified r, rs_response r, rs_headers r, rs_contentType r), rs_headersSent r, rs_sent r, rq_clientAddr r)"

lemma set_credentials_view: "set_credentials buf r = Ok r1 \<Longrightarrow> response_view r1 = response_view r"
proof -
  have "response_view (put_credentials a r) = response_view r" for a
    by (cases "(a, r)" rule: put_credentials.cases) (simp_all add: response_view_def)
  then show "set_credentials buf r = Ok r1 \<Longrightarrow> response_view r1 = response_view r"
    by (auto simp: set_credentials_def rbind_Ok_iff)
qed

lemma set_credentials_addr: "set_credentials buf r = Ok r1 \<Longrightarrow> rq_clientAddr r1 = rq_clientAddr r"
  using set_credentials_view by (fastforce simp: response_view_def)

lemma split_query_view: "response_view (split_query r) = response_view r"
  by (simp add: split_query_def response_view_def split: list.split)

lemma split_query_addr: "rq_clientAddr (split_query r) = rq_clientAddr r"
  using split_query_view [of r] by (simp add: response_view_def)

lemma header_lines_view: "header_lines inp r = Ok r1 \<Longrightarrow> response_view r1 = response_view r"
proof (induction inp r rule: header_lines.induct)
  case (1 inp r)
  show ?case
  proof (cases "\<exists>buf inp'. httpd_readLine inp [] = Ok (Some (buf, inp')) \<and> buf \<noteq> []")
    case True
    then obtain buf inp' where l: "httpd_readLine inp [] = Ok (Some (buf, inp'))" "buf \<noteq> []" by blast
    with "1.prems" obtain r2 where r2: "set_credentials buf r = Ok r2"
      "header_lines inp' (if strncasecmp_eq buf ''Host: '' 6 then r2\<lparr>rq_host := take (HTTP_MAX_URL - 1) (drop 6 buf)\<rparr> else r2) = Ok r1"
      by (auto simp: header_lines.simps [of inp] split: result.splits)
    have "response_view r1 = response_view (if strncasecmp_eq buf ''Host: '' 6 then r2\<lparr>rq_host := take (HTTP_MAX_URL - 1) (drop 6 buf)\<rparr> else r2)"
      using "1.IH" [OF l(1) refl refl l(2) r2(1)] r2(2) by simp
    with set_credentials_view [OF r2(1)] show ?thesis by (simp add: response_view_def split: if_splits)
  next
    case False
    with "1.prems" show ?thesis by (auto simp: header_lines.simps [of inp] split: result.splits option.splits if_splits)
  qed
qed

lemma read_request_view:
  assumes "httpdReadRequest inp r = Ok (0, r1)"
  shows "response_view r1 = response_view r"
proof -
  have "response_view (r\<lparr>rq_method := m, rq_path := p\<rparr>) = response_view r" for m p by (simp add: response_view_def)
  with assms show ?thesis
    by (auto simp: httpdReadRequest_def rbind_Ok_iff split_query_view split: option.splits) (metis header_lines_view)
qed

section \<open>Properties\<close>

lemma add_header_bound:
  "rs_headers r \<noteq> [] \<Longrightarrow> length (rs_headers r) < HTTP_MAX_HEADERS \<Longrightarrow>
   length (rs_headers (httpdAddHeader msg r)) < HTTP_MAX_HEADERS \<and> rs_headers (httpdAddHeader msg r) \<noteq> []"
  by (auto simp: httpdAddHeader_def Let_def HTTP_MAX_HEADERS_def)

lemma add_headers_bound:
  "rs_headers r \<noteq> [] \<Longrightarrow> length (rs_headers r) < HTTP_MAX_HEADERS \<Longrightarrow>
   length (rs_headers (fold httpdAddHeader msgs r)) < HTTP_MAX_HEADERS"
  by (induction msgs arbitrary: r) (simp_all add: add_header_bound)

text \<open>
  The buffers of the response line and of the headers never overflow: whatever responses
  are set and headers added to a fresh request, of whatever length, in whatever number, both
  keep room for their terminators.
\<close>

theorem response_buffers:
  "length (rs_headers (fold httpdAddHeader msgs (request_init addr))) < HTTP_MAX_HEADERS \<and>
   length (rs_response (httpdSetResponse msg r)) < HTTP_MAX_URL"
proof
  show "length (rs_headers (fold httpdAddHeader msgs (request_init addr))) < HTTP_MAX_HEADERS"
    by (rule add_headers_bound) (simp_all add: request_init_def HTTP_MAX_HEADERS_def)
  show "length (rs_response (httpdSetResponse msg r)) < HTTP_MAX_URL"
    by (simp add: httpdSetResponse_def HTTP_MAX_URL_def)
qed



end
