(* ===== verification/Acl.thy ===== *)
theory Acl
  imports HttpdRequest Config
begin

unbundle bit_operations_syntax

text \<open>
  The access control list of the web server (\<^verbatim>\<open>libhttpd/ip_acl.c\<close>) and the acceptance of a
  connection (\<^verbatim>\<open>httpdGetConnection\<close> in \<^verbatim>\<open>libhttpd/api.c\<close>). Shifts of a signed number are the
  compiler's, those of a word, except that a shift by the full width is undefined. Entries of the
  error log are left out.
\<close>

section \<open>Blocks of addresses\<close>

text \<open>\<^verbatim>\<open>strchr(cp, c)\<close> and the step behind what it finds.\<close>

definition behind :: "char \<Rightarrow> string \<Rightarrow> string option" where
  "behind c s = (case dropWhile (\<lambda>x. x \<noteq> c) s of [] \<Rightarrow> None | _ # r \<Rightarrow> Some r)"

definition uatoi :: "string \<Rightarrow> 32 word" where
  "uatoi s = word_of_int (atoi s)"

text \<open>The address and the length of its network part; \<open>None\<close> is the result \<open>-1\<close>.\<close>

definition scanCidr :: "string \<Rightarrow> (32 word \<times> 32 word) option" where
  "scanCidr cp1 =
     (case behind CHR ''.'' cp1 of None \<Rightarrow> None | Some cp2 \<Rightarrow>
      case behind CHR ''.'' cp2 of None \<Rightarrow> None | Some cp3 \<Rightarrow>
      case behind CHR ''.'' cp3 of None \<Rightarrow> None | Some cp4 \<Rightarrow>
        let res5 = (case behind CHR ''/'' cp4 of None \<Rightarrow> 32 | Some cp5 \<Rightarrow> uatoi cp5) in
        if 255 < uatoi cp1 \<or> 255 < uatoi cp2 \<or> 255 < uatoi cp3 \<or> 255 < uatoi cp4 \<or> 32 < res5 then None
        else Some (push_bit 24 (uatoi cp1) + push_bit 16 (uatoi cp2) + push_bit 8 (uatoi cp3) + uatoi cp4, res5))"

fun cidr_ones :: "nat \<Rightarrow> 32 word" where
  "cidr_ones 0 = 0"
| "cidr_ones (Suc n) = push_bit 1 (cidr_ones n) + 1"

definition isInCidrBlock :: "32 word \<Rightarrow> 32 word \<Rightarrow> 32 word \<Rightarrow> 32 word \<Rightarrow> bool result" where
  "isInCidrBlock addr1 len1 addr2 len2 =
     (if sint len2 < sint len1 then Ok False
      else if 32 \<le> 32 - sint len1 \<or> 32 - sint len1 < 0 then Undef
      else let mask = push_bit (nat (32 - sint len1)) (cidr_ones (nat (sint len1)))
        in Ok (addr1 AND mask = addr2 AND mask))"

section \<open>The list\<close>

definition HTTP_ACL_PERMIT :: int where
  "HTTP_ACL_PERMIT = 1"

definition HTTP_ACL_DENY :: int where
  "HTTP_ACL_DENY = 2"

record httpAcl =
  acl_addr :: "32 word"
  acl_len :: "32 word"
  acl_action :: int

text \<open>A new entry goes to the end; \<open>None\<close> is the result NULL.\<close>

definition httpdAddAcl :: "httpAcl list \<Rightarrow> string \<Rightarrow> int \<Rightarrow> httpAcl list option" where
  "httpdAddAcl acl cidr action =
     (case scanCidr cidr of
        None \<Rightarrow> None
      | Some (addr, len) \<Rightarrow>
          if action \<noteq> HTTP_ACL_PERMIT \<and> action \<noteq> HTTP_ACL_DENY then None
          else Some (acl @ [\<lparr>acl_addr = addr, acl_len = len, acl_action = action\<rparr>]))"

fun acl_search :: "httpAcl list \<Rightarrow> (32 word \<times> 32 word) option \<Rightarrow> int result" where
  "acl_search [] client = Ok HTTP_ACL_DENY"
| "acl_search (cur # acl) client =
     rbind (of_opt client) (\<lambda>(addr, len).
     rbind (isInCidrBlock (acl_addr cur) (acl_len cur) addr len) (\<lambda>res.
       if res then Ok (acl_action cur) else acl_search acl client))"

definition httpd_sendText :: "string \<Rightarrow> http_request \<Rightarrow> http_request" where
  "httpd_sendText msg r = net_write msg (r\<lparr>rs_responseLength := rs_responseLength r + length msg\<rparr>)"

definition httpd_send403 :: "string \<Rightarrow> http_request \<Rightarrow> http_request" where
  "httpd_send403 date r =
     httpd_sendText (''<BODY><H1>Access to the request URL was denied!</H1>'' @ [nl])
       (httpd_sendText (''<HTML><HEAD><TITLE>403 Permission Denied</TITLE></HEAD>'' @ [nl])
         (httpd_sendHeaders date 0 [] (httpdSetResponse (''403 Permission Denied'' @ [nl]) r)))"

text \<open>
  An address that does not scan leaves the numbers compared indeterminate. A denial goes to the
  error log as well, which is written as \<open>HttpdApi\<close> says.
\<close>

definition httpdCheckAcl :: "string \<Rightarrow> http_request \<Rightarrow> httpAcl list \<Rightarrow> (int \<times> http_request) result" where
  "httpdCheckAcl date r acl =
     rbind (acl_search acl (scanCidr (rq_clientAddr r))) (\<lambda>action.
       Ok (action, if action = HTTP_ACL_DENY then httpd_send403 date r else r))"

section \<open>Accepting a connection\<close>

text \<open>
  \<open>sel n\<close> is what the \<open>n\<close>-th \<^verbatim>\<open>select\<close> returns and \<open>peer\<close> the address \<^verbatim>\<open>accept\<close> fills in. The
  result is \<^verbatim>\<open>lastError\<close> with the request, or with what was sent to a peer that is denied.
\<close>

datatype connection = No_connection int | Denied int string | Connected int http_request

partial_function (option) select_loop :: "(nat \<Rightarrow> int) \<Rightarrow> bool \<Rightarrow> nat \<Rightarrow> int option" where
  "select_loop sel timed n =
     (if sel n < 0 then Some (-1)
      else if timed \<and> sel n = 0 then Some 0
      else if sel n > 0 then Some 1
      else select_loop sel timed (Suc n))"

definition empty_request :: "string \<Rightarrow> http_request" where
  "empty_request addr = (request_init addr)\<lparr>rs_response := [], rs_headers := [], rs_contentType := []\<rparr>"

definition httpdGetConnection ::
    "string \<Rightarrow> (nat \<Rightarrow> int) \<Rightarrow> bool \<Rightarrow> 32 word \<Rightarrow> httpAcl list \<Rightarrow> connection result" where
  "httpdGetConnection date sel timed peer acl =
     rbind (of_opt (select_loop sel timed 0)) (\<lambda>result.
       if result \<le> 0 then Ok (No_connection result)
       else let r = empty_request (take 16 (inet_ntoa peer)) in
         if acl = [] then Ok (Connected 0 r)
         else rbind (httpdCheckAcl date r acl) (\<lambda>(action, r1).
           if action = HTTP_ACL_DENY then Ok (Denied 2 (rs_sent r1)) else Ok (Connected 0 r1)))"

section \<open>Lemmas on blocks\<close>

lemma cidr_ones_mask: "cidr_ones n = (mask n :: 32 word)"
  by (induction n) (simp_all add: mask_eq_exp_minus_1 push_bit_eq_mult)

lemma and_block_mask: "(a :: 32 word) AND push_bit k (mask (32 - k)) = push_bit k (drop_bit k a)"
  by (rule bit_eqI) (auto simp: bit_simps)

lemma drop_push_drop: "drop_bit k (push_bit k (drop_bit k a)) = drop_bit k (a :: 32 word)"
  by (rule bit_eqI) (auto simp: bit_simps dest: bit_imp_le_length)

lemma block_mask_eq:
  "(a :: 32 word) AND push_bit k (mask (32 - k)) = b AND push_bit k (mask (32 - k)) \<longleftrightarrow> unat a div 2 ^ k = unat b div 2 ^ k"
proof -
  have "push_bit k (drop_bit k a) = push_bit k (drop_bit k b) \<longleftrightarrow> drop_bit k a = drop_bit k b"
    by (metis drop_push_drop)
  also have "\<dots> \<longleftrightarrow> drop_bit k (unat a) = drop_bit k (unat b)"
  proof -
    have "take_bit 32 (unat x) = unat x" for x :: "32 word"
      using unsigned_less [of x, where ?'a = nat] by (simp add: take_bit_eq_mod)
    then show ?thesis unfolding word_unat_eq_iff unsigned_drop_bit_eq by simp
  qed
  also have "\<dots> \<longleftrightarrow> unat a div 2 ^ k = unat b div 2 ^ k" by (simp add: drop_bit_eq_div)
  finally show ?thesis by (simp add: and_block_mask)
qed

text \<open>A block against one address: the addresses agree above the last \<open>32 - len\<close> bits.\<close>

lemma in_block:
  assumes "0 < unat len" "unat len \<le> 32"
  shows "isInCidrBlock a len b 32 = Ok (unat a div 2 ^ (32 - unat len) = unat b div 2 ^ (32 - unat len))"
proof -
  have s: "sint len = int (unat len)"
  proof -
    have "uint len \<le> 32" using assms(2) by (metis nat_le_iff of_nat_numeral unat_eq_nat_uint)
    then have "signed_take_bit 31 (uint len) = uint len" by (intro signed_take_bit_int_eq_self) (auto intro: order_trans [OF _ uint_ge_0])
    then show ?thesis by (simp add: sint_uint)
  qed
  have n: "nat (32 - sint len) = 32 - unat len" "nat (sint len) = unat len"
    unfolding s using assms by linarith+
  have c: "\<not> 32 < sint len" "\<not> (32 \<le> 32 - sint len \<or> 32 - sint len < 0)"
    unfolding s using assms by linarith+
  have "sint (32 :: 32 word) = 32" by simp
  moreover have "32 - (32 - unat len) = unat len" using assms by simp
  ultimately show ?thesis
    using block_mask_eq [of a "32 - unat len" b] unfolding isInCidrBlock_def by (simp only: c n if_False Let_def cidr_ones_mask)
qed

lemma whole_range_undefined: "isInCidrBlock a 0 b 32 = Undef"
  by (simp add: isInCidrBlock_def)

section \<open>Reading an address back\<close>

lemma atoi_udec: "r = [] \<or> \<not> isdigit (hd r) \<Longrightarrow> n < 2147483648 \<Longrightarrow> atoi (udec n @ r) = int n"
  by (simp add: atoi_def skip_ws_udec scan_dec_udec in_s32_def)

lemma behind_udec: "\<not> isdigit c \<Longrightarrow> behind c (udec n @ d # r) = (if d = c then Some r else behind c r)"
proof -
  assume "\<not> isdigit c"
  then have "dropWhile (\<lambda>x. x \<noteq> c) (udec n @ d # r) = dropWhile (\<lambda>x. x \<noteq> c) (d # r)"
    using udec_digits [of n] by (intro dropWhile_append2) auto
  then show ?thesis by (simp add: behind_def)
qed

text \<open>Printing an address and scanning it gives it back, as a block of one address.\<close>

lemma bytes_of_word:
  "push_bit 24 (word_of_nat (unat a div 16777216)) + push_bit 16 (word_of_nat (unat a div 65536 mod 256)) +
   push_bit 8 (word_of_nat (unat a div 256 mod 256)) + word_of_nat (unat a mod 256) = (a :: 32 word)"
proof -
  let ?n = "unat a"
  have "16777216 * (?n div 16777216) + 65536 * (?n div 65536 mod 256) + 256 * (?n div 256 mod 256) + ?n mod 256 = ?n"
  proof -
    have "?n div 256 = 256 * (?n div 65536) + ?n div 256 mod 256"
      using mult_div_mod_eq [of 256 "?n div 256"] by (simp add: div_mult2_eq [symmetric])
    moreover have "?n div 65536 = 256 * (?n div 16777216) + ?n div 65536 mod 256"
      using mult_div_mod_eq [of 256 "?n div 65536"] by (simp add: div_mult2_eq [symmetric])
    moreover have "?n = 256 * (?n div 256) + ?n mod 256" by simp
    ultimately show ?thesis by linarith
  qed
  then have "word_of_nat (16777216 * (?n div 16777216) + 65536 * (?n div 65536 mod 256) +
      256 * (?n div 256 mod 256) + ?n mod 256) = (word_of_nat ?n :: 32 word)" by simp
  then show ?thesis by (simp only: push_bit_eq_mult of_nat_add of_nat_mult) (simp add: mult.commute)
qed

lemma uatoi_udec: "r = [] \<or> \<not> isdigit (hd r) \<Longrightarrow> n < 256 \<Longrightarrow> uatoi (udec n @ r) = word_of_nat n \<and> \<not> 255 < uatoi (udec n @ r)"
  by (simp add: uatoi_def atoi_udec word_less_nat_alt unat_of_nat)

lemma scan_inet_ntoa: "scanCidr (inet_ntoa a) = Some (a, 32)"
proof -
  let ?n = "unat a"
  let ?b1 = "?n div 16777216" and ?b2 = "?n div 65536 mod 256" and ?b3 = "?n div 256 mod 256" and ?b4 = "?n mod 256"
  have "?b1 < 256" using unsigned_less [of a, where ?'a = nat] by (simp add: less_mult_imp_div_less)
  have d: "\<not> isdigit CHR ''.''" "\<not> isdigit CHR ''/''" by (simp_all add: isdigit_def cc_def)
  have s: "inet_ntoa a = udec ?b1 @ CHR ''.'' # udec ?b2 @ CHR ''.'' # udec ?b3 @ CHR ''.'' # udec ?b4 @ []"
    by (simp add: inet_ntoa_def Let_def)
  have last: "behind CHR ''/'' (udec ?b4) = None"
  proof -
    have "\<forall>c \<in> set (udec ?b4). c \<noteq> CHR ''/''" using udec_digits [of ?b4] d(2) by blast
    then have "dropWhile (\<lambda>x. x \<noteq> CHR ''/'') (udec ?b4) = []" by (simp add: dropWhile_eq_Nil_conv)
    then show ?thesis by (simp only: behind_def list.case)
  qed
  have u: "uatoi (udec k @ CHR ''.'' # r) = word_of_nat k" "\<not> 255 < uatoi (udec k @ CHR ''.'' # r)" if "k < 256" for k r
    using uatoi_udec [of "CHR ''.'' # r" k] that d(1) by (metis list.sel(1))+
  have "uatoi (udec ?b4 @ []) = word_of_nat ?b4 \<and> \<not> 255 < uatoi (udec ?b4 @ [])" by (rule uatoi_udec) simp_all
  then have u4: "uatoi (udec ?b4) = word_of_nat ?b4" "\<not> 255 < uatoi (udec ?b4)" unfolding append_Nil2 by (rule conjunct1, rule conjunct2)
  show ?thesis
    unfolding s using u [OF \<open>?b1 < 256\<close>] u [of ?b2] u [of ?b3] u4 d
    by (simp add: scanCidr_def behind_udec last bytes_of_word del: of_nat_mod)
qed

section \<open>The search\<close>

text \<open>The entries as the sets of addresses they stand for.\<close>

definition acl_covers :: "32 word \<Rightarrow> httpAcl \<Rightarrow> bool" where
  "acl_covers a e \<longleftrightarrow> unat a div 2 ^ (32 - unat (acl_len e)) = unat (acl_addr e) div 2 ^ (32 - unat (acl_len e))"

definition acl_decision :: "httpAcl list \<Rightarrow> 32 word \<Rightarrow> int" where
  "acl_decision acl a = (case List.find (acl_covers a) acl of None \<Rightarrow> HTTP_ACL_DENY | Some e \<Rightarrow> acl_action e)"

lemma acl_search_decision:
  "list_all (\<lambda>e. 0 < unat (acl_len e) \<and> unat (acl_len e) \<le> 32) acl \<Longrightarrow>
   acl_search acl (Some (a, 32)) = Ok (acl_decision acl a)"
proof (induction acl)
  case (Cons e acl)
  have "(unat (acl_addr e) div 2 ^ (32 - unat (acl_len e)) = unat a div 2 ^ (32 - unat (acl_len e))) = acl_covers a e"
    by (auto simp: acl_covers_def)
  with Cons show ?case by (simp add: in_block acl_decision_def)
qed (simp add: acl_decision_def)

section \<open>Properties\<close>

text \<open>
  C9. The access control list decides as the blocks of addresses it stands for: for a peer with
  any address, on a list whose entries have a network part of 1 to 32 bits, the check that
  compares under a mask gives the action of the first entry whose block the address is in, that
  is, agrees with in all but the last bits, and denies when there is none; exactly a denied peer
  is sent the 403 page.
\<close>

theorem httpdCheckAcl_decides:
  assumes "rq_clientAddr r = inet_ntoa a"
    and "list_all (\<lambda>e. 0 < unat (acl_len e) \<and> unat (acl_len e) \<le> 32) acl"
  shows "httpdCheckAcl date r acl = Ok (acl_decision acl a,
    if acl_decision acl a = HTTP_ACL_DENY then httpd_send403 date r else r)"
  using acl_search_decision [OF assms(2)] by (simp add: httpdCheckAcl_def assms(1) scan_inet_ntoa)

lemma httpdCheckAcl_decides_witness:
  "httpdCheckAcl ''now'' (empty_request ''10.0.5.1'')
     [\<lparr>acl_addr = 0x0A000500, acl_len = 24, acl_action = HTTP_ACL_PERMIT\<rparr>,
      \<lparr>acl_addr = 0, acl_len = 1, acl_action = HTTP_ACL_DENY\<rparr>] = Ok (HTTP_ACL_PERMIT, empty_request ''10.0.5.1'')"
proof -
  have "inet_ntoa 0x0A000501 = ''10.0.5.1''"
    by (simp add: inet_ntoa_def Let_def udec_step udec_small char_of_def bit_0)
  then have r: "rq_clientAddr (empty_request ''10.0.5.1'') = inet_ntoa 0x0A000501"
    by (simp add: empty_request_def request_init_def)
  show ?thesis
    using httpdCheckAcl_decides [OF r, of "[\<lparr>acl_addr = 0x0A000500, acl_len = 24, acl_action = HTTP_ACL_PERMIT\<rparr>,
      \<lparr>acl_addr = 0, acl_len = 1, acl_action = HTTP_ACL_DENY\<rparr>]" "''now''"]
    by (simp add: acl_decision_def acl_covers_def HTTP_ACL_PERMIT_def HTTP_ACL_DENY_def)
qed

end
