(* ===== verification/ClientList.thy ===== *)
theory ClientList
  imports Config
begin

text \<open>
  The list of clients (\<^verbatim>\<open>src/client_list.h\<close>, \<^verbatim>\<open>src/client_list.c\<close>): a singly linked
  list of heap cells, the counter of its cells, and the array that gives every client the
  slot its traffic-control classes are numbered with. The pointers are modelled: a cell
  that is not allocated, a slot outside the array or a loop that never ends is \<open>Undef\<close>.
  The second half shows that the pointer operations refine operations on plain lists.
\<close>

section \<open>Cells and the heap\<close>

type_synonym addr = nat

record t_client =
  c_next :: "addr option"
  c_ip :: string
  c_mac :: string
  c_token :: "string option"
  c_fw_connection_state :: "32 word"
  c_added_time :: int
  c_incoming :: "64 word"
  c_outgoing :: "64 word"
  c_incoming_history :: "64 word"
  c_outgoing_history :: "64 word"
  c_last_updated :: int
  c_attempts :: int
  c_download_limit :: int
  c_upload_limit :: int
  c_idx :: nat

type_synonym heap = "t_client option list"

definition hget :: "heap \<Rightarrow> addr \<Rightarrow> t_client option" where
  "hget h a = (if a < length h then h ! a else None)"

definition hput :: "heap \<Rightarrow> addr \<Rightarrow> t_client option \<Rightarrow> heap" where
  "hput h a v = (if a < length h then h[a := v] else h @ replicate (a - length h) None @ [v])"

text \<open>\<^verbatim>\<open>malloc\<close>: the first address not in use, so freed cells are used again.\<close>

definition halloc :: "heap \<Rightarrow> addr" where
  "halloc h = first_index (\<lambda>x. x = None) h"

lemma hget_hput [simp]: "hget (hput h a v) b = (if b = a then v else hget h b)"
  by (auto simp: hget_def hput_def nth_append nth_list_update)

lemma hget_halloc [simp]: "hget h (halloc h) = None"
  using first_index_holds [of "\<lambda>x. x = None" h] by (simp add: hget_def halloc_def)

record clist =
  cl_heap :: heap
  cl_first :: "addr option"
  cl_count :: int
  cl_arr :: "addr option list"
  cl_last_time :: int

definition FW_MARK_PREAUTHENTICATED :: "32 word" where
  "FW_MARK_PREAUTHENTICATED = 0"

section \<open>The operations\<close>

definition get_client_list_length :: "clist \<Rightarrow> int" where
  "get_client_list_length s = cl_count s"

definition client_get_first_client :: "clist \<Rightarrow> addr option" where
  "client_get_first_client s = cl_first s"

definition client_list_init :: "int \<Rightarrow> clist \<Rightarrow> clist" where
  "client_list_init maxclients s =
     s\<lparr>cl_first := None, cl_count := 0, cl_arr := replicate (nat maxclients) None\<rparr>"

text \<open>The walk to the end of the list: the last cell, if there is one.\<close>

partial_function (option) walk_end :: "heap \<Rightarrow> addr option \<Rightarrow> addr option \<Rightarrow> addr option option" where
  "walk_end h prev p =
     (case p of
        None \<Rightarrow> Some prev
      | Some a \<Rightarrow> (case hget h a of None \<Rightarrow> None | Some c \<Rightarrow> walk_end h (Some a) (c_next c)))"

text \<open>The first free slot among the first \<open>maxclients\<close>; reading beyond the array is undefined.\<close>

fun free_slot :: "nat \<Rightarrow> addr option list \<Rightarrow> nat option" where
  "free_slot 0 arr = Some 0"
| "free_slot (Suc n) [] = None"
| "free_slot (Suc n) (x # arr) = (if x = None then Some 0 else map_option Suc (free_slot n arr))"

definition new_client :: "string \<Rightarrow> string \<Rightarrow> string option \<Rightarrow> int \<Rightarrow> nat \<Rightarrow> t_client" where
  "new_client ip mac token now i = \<lparr>
     c_next = None, c_ip = ip, c_mac = mac, c_token = token,
     c_fw_connection_state = FW_MARK_PREAUTHENTICATED, c_added_time = now,
     c_incoming = 0, c_outgoing = 0, c_incoming_history = 0, c_outgoing_history = 0,
     c_last_updated = now, c_attempts = 0, c_download_limit = 0, c_upload_limit = 0, c_idx = i\<rparr>"

definition client_list_append ::
    "int \<Rightarrow> string \<Rightarrow> string \<Rightarrow> string option \<Rightarrow> int \<Rightarrow> clist \<Rightarrow> (addr option \<times> clist) result" where
  "client_list_append maxclients ip mac token now s =
     (if maxclients \<le> cl_count s then Ok (None, s)
      else rbind (of_opt (walk_end (cl_heap s) None (cl_first s))) (\<lambda>prev.
        rbind (of_opt (free_slot (nat maxclients) (cl_arr s))) (\<lambda>i.
          if length (cl_arr s) \<le> i then Undef
          else let a = halloc (cl_heap s);
                   h = hput (cl_heap s) a (Some (new_client ip mac token now i));
                   s' = s\<lparr>cl_heap := h, cl_arr := (cl_arr s)[i := Some a],
                          cl_count := cl_count s + 1, cl_last_time := now\<rparr>
               in case prev of
                    None \<Rightarrow> Ok (Some a, s'\<lparr>cl_first := Some a\<rparr>)
                  | Some q \<Rightarrow> (case hget h q of
                        None \<Rightarrow> Undef
                      | Some qc \<Rightarrow> Ok (Some a, s'\<lparr>cl_heap := hput h q (Some (qc\<lparr>c_next := Some a\<rparr>))\<rparr>)))))"

text \<open>The search loop; a test that reads a null pointer is \<open>None\<close>.\<close>

partial_function (option) find_loop ::
    "heap \<Rightarrow> (t_client \<Rightarrow> bool option) \<Rightarrow> addr option \<Rightarrow> addr option option" where
  "find_loop h P p =
     (case p of
        None \<Rightarrow> Some None
      | Some a \<Rightarrow> (case hget h a of
            None \<Rightarrow> None
          | Some c \<Rightarrow> (case P c of
                None \<Rightarrow> None
              | Some b \<Rightarrow> if b then Some (Some a) else find_loop h P (c_next c))))"

definition client_list_find :: "string \<Rightarrow> string \<Rightarrow> clist \<Rightarrow> addr option result" where
  "client_list_find ip mac s =
     of_opt (find_loop (cl_heap s) (\<lambda>c. Some (c_ip c = ip \<and> c_mac c = mac)) (cl_first s))"

definition client_list_find_by_ip :: "string \<Rightarrow> clist \<Rightarrow> addr option result" where
  "client_list_find_by_ip ip s =
     of_opt (find_loop (cl_heap s) (\<lambda>c. Some (c_ip c = ip)) (cl_first s))"

definition client_list_find_by_mac :: "string \<Rightarrow> clist \<Rightarrow> addr option result" where
  "client_list_find_by_mac mac s =
     of_opt (find_loop (cl_heap s) (\<lambda>c. Some (c_mac c = mac)) (cl_first s))"

definition client_list_find_by_token :: "string \<Rightarrow> clist \<Rightarrow> addr option result" where
  "client_list_find_by_token token s =
     of_opt (find_loop (cl_heap s) (\<lambda>c. map_option (\<lambda>t. t = token) (c_token c)) (cl_first s))"

text \<open>Eight hexadecimal digits from two 16-bit random numbers.\<close>

definition client_list_make_auth_token :: "16 word \<Rightarrow> 16 word \<Rightarrow> string" where
  "client_list_make_auth_token r1 r2 = fmt_04hx r1 @ fmt_04hx r2"

text \<open>
  \<^verbatim>\<open>client_list_add_client\<close>: \<open>arp\<close> is the lookup of \<^verbatim>\<open>arp_get\<close>, \<open>r1\<close> and \<open>r2\<close> the random
  numbers and \<open>now\<close> the time of the call.
\<close>

definition client_list_add_client ::
    "int \<Rightarrow> (string \<Rightarrow> string option) \<Rightarrow> 16 word \<Rightarrow> 16 word \<Rightarrow> int \<Rightarrow> string \<Rightarrow> clist \<Rightarrow>
     (addr option \<times> clist) result" where
  "client_list_add_client maxclients arp r1 r2 now ip s =
     (if \<not> check_ip_format ip then Ok (None, s)
      else case arp ip of
        None \<Rightarrow> Ok (None, s)
      | Some mac \<Rightarrow> rbind (client_list_find ip mac s) (\<lambda>found.
          case found of
            Some a \<Rightarrow> Ok (Some a, s)
          | None \<Rightarrow> client_list_append maxclients ip mac
                (Some (client_list_make_auth_token r1 r2)) now s))"

definition client_list_free_node :: "addr \<Rightarrow> clist \<Rightarrow> clist result" where
  "client_list_free_node a s =
     (case hget (cl_heap s) a of
        None \<Rightarrow> Undef
      | Some c \<Rightarrow>
          if length (cl_arr s) \<le> c_idx c then Undef
          else Ok (s\<lparr>cl_heap := hput (cl_heap s) a None,
                     cl_arr := (if cl_arr s ! c_idx c = Some a then (cl_arr s)[c_idx c := None] else cl_arr s)\<rparr>))"

text \<open>The loop of the deletion: the cell before the client, or the last cell.\<close>

partial_function (option) delete_loop :: "heap \<Rightarrow> addr \<Rightarrow> addr \<Rightarrow> addr option" where
  "delete_loop h client ptr =
     (case hget h ptr of
        None \<Rightarrow> None
      | Some c \<Rightarrow> (case c_next c of
            None \<Rightarrow> Some ptr
          | Some n \<Rightarrow> if n = client then Some ptr else delete_loop h client n))"

definition client_list_delete :: "addr \<Rightarrow> clist \<Rightarrow> clist result" where
  "client_list_delete client s =
     (case cl_first s of
        None \<Rightarrow> Ok s
      | Some ptr \<Rightarrow>
          if ptr = client then
            (case hget (cl_heap s) ptr of
               None \<Rightarrow> Undef
             | Some c \<Rightarrow> rbind (client_list_free_node client (s\<lparr>cl_first := c_next c\<rparr>))
                 (\<lambda>s'. Ok (s'\<lparr>cl_count := cl_count s' - 1\<rparr>)))
          else rbind (of_opt (delete_loop (cl_heap s) client ptr)) (\<lambda>p.
            case hget (cl_heap s) p of
              None \<Rightarrow> Undef
            | Some pc \<Rightarrow>
                (if c_next pc = None then Ok s
                 else case hget (cl_heap s) client of
                   None \<Rightarrow> Undef
                 | Some c \<Rightarrow>
                     rbind (client_list_free_node client
                         (s\<lparr>cl_heap := hput (cl_heap s) p (Some (pc\<lparr>c_next := c_next c\<rparr>))\<rparr>))
                       (\<lambda>s'. Ok (s'\<lparr>cl_count := cl_count s' - 1\<rparr>)))))"

text \<open>Writing a field of a client through its pointer.\<close>

definition upd_client :: "addr \<Rightarrow> (t_client \<Rightarrow> t_client) \<Rightarrow> clist \<Rightarrow> clist result" where
  "upd_client a f s =
     (case hget (cl_heap s) a of
        None \<Rightarrow> Undef
      | Some c \<Rightarrow> Ok (s\<lparr>cl_heap := hput (cl_heap s) a (Some (f c))\<rparr>))"

section \<open>Paths through the heap\<close>

fun path :: "heap \<Rightarrow> addr option \<Rightarrow> addr list \<Rightarrow> addr option \<Rightarrow> bool" where
  "path h p [] q \<longleftrightarrow> p = q"
| "path h p (a # as) q \<longleftrightarrow> p = Some a \<and> (\<exists>c. hget h a = Some c \<and> path h (c_next c) as q)"

lemma path_append: "path h p (as @ bs) q \<longleftrightarrow> (\<exists>r. path h p as r \<and> path h r bs q)"
  by (induction as arbitrary: p) auto

lemma path_hput [simp]: "a \<notin> set as \<Longrightarrow> path (hput h a v) p as q = path h p as q"
  by (induction as arbitrary: p) auto

lemma path_allocated: "path h p as q \<Longrightarrow> a \<in> set as \<Longrightarrow> hget h a \<noteq> None"
  by (induction as arbitrary: p) auto

lemma walk_end_path:
  "path h p as None \<Longrightarrow> walk_end h prev p = Some (if as = [] then prev else Some (last as))"
  by (induction as arbitrary: p prev) (subst walk_end.simps; auto)+

lemma find_loop_path:
  "path h p as None \<Longrightarrow> (\<And>a. a \<in> set as \<Longrightarrow> P (the (hget h a)) = Some (Q a)) \<Longrightarrow>
   find_loop h P p = Some (List.find Q as)"
proof (induction as arbitrary: p)
  case Nil
  then show ?case by (subst find_loop.simps) simp
next
  case (Cons a as)
  then obtain c where c: "p = Some a" "hget h a = Some c" "path h (c_next c) as None" by auto
  with Cons have "find_loop h P (c_next c) = Some (List.find Q as)" by simp
  with c Cons.prems(2) [of a] show ?case by (subst find_loop.simps) simp
qed

lemma delete_loop_path:
  "path h (Some p) (us @ ws) None \<Longrightarrow> us \<noteq> [] \<Longrightarrow> a \<notin> set us \<Longrightarrow> ws = [] \<or> hd ws = a \<Longrightarrow>
   delete_loop h a p = Some (last us)"
proof (induction us arbitrary: p)
  case (Cons u us)
  then obtain c where c: "u = p" "hget h p = Some c" "path h (c_next c) (us @ ws) None" by auto
  show ?case
  proof (cases us)
    case Nil
    with Cons.prems c show ?thesis
      by (subst delete_loop.simps) (cases ws; auto)
  next
    case (Cons v vs)
    with c have n: "c_next c = Some v" by simp
    with Cons Cons.prems Cons.IH [of v] c have "delete_loop h a v = Some (last us)" by simp
    with Cons Cons.prems c n show ?thesis by (subst delete_loop.simps) auto
  qed
qed simp

section \<open>The invariant and the abstraction\<close>

definition slot :: "heap \<Rightarrow> addr \<Rightarrow> nat" where
  "slot h a = c_idx (the (hget h a))"

text \<open>
  The cells on the list are exactly the allocated ones, none twice, their number is the
  counter, and the array and the slot numbers in the cells point at each other.
\<close>

definition cl_repr :: "clist \<Rightarrow> addr list \<Rightarrow> bool" where
  "cl_repr s as \<longleftrightarrow>
     path (cl_heap s) (cl_first s) as None \<and> distinct as \<and>
     (\<forall>a. hget (cl_heap s) a \<noteq> None \<longrightarrow> a \<in> set as) \<and>
     cl_count s = int (length as) \<and>
     (\<forall>a \<in> set as. slot (cl_heap s) a < length (cl_arr s) \<and> cl_arr s ! slot (cl_heap s) a = Some a) \<and>
     (\<forall>i < length (cl_arr s). \<forall>a. cl_arr s ! i = Some a \<longrightarrow> a \<in> set as \<and> slot (cl_heap s) a = i)"

text \<open>The addresses on the list, read off the heap with its length as the bound.\<close>

fun addrs :: "nat \<Rightarrow> heap \<Rightarrow> addr option \<Rightarrow> addr list" where
  "addrs 0 h p = []"
| "addrs (Suc n) h None = []"
| "addrs (Suc n) h (Some a) = a # addrs n h (case hget h a of None \<Rightarrow> None | Some c \<Rightarrow> c_next c)"

definition cl_addrs :: "clist \<Rightarrow> addr list" where
  "cl_addrs s = addrs (length (cl_heap s)) (cl_heap s) (cl_first s)"

definition clist_inv :: "clist \<Rightarrow> bool" where
  "clist_inv s \<longleftrightarrow> cl_repr s (cl_addrs s)"

definition cell :: "heap \<Rightarrow> addr \<Rightarrow> t_client" where
  "cell h a = (the (hget h a))\<lparr>c_next := None\<rparr>"

definition clients :: "clist \<Rightarrow> t_client list" where
  "clients s = map (cell (cl_heap s)) (cl_addrs s)"

lemma addrs_path: "path h p as None \<Longrightarrow> length as \<le> n \<Longrightarrow> addrs n h p = as"
proof (induction as arbitrary: p n)
  case Nil
  then show ?case by (cases n) auto
next
  case (Cons a as)
  then show ?case by (cases n) auto
qed

lemma cl_repr_length: "cl_repr s as \<Longrightarrow> length as \<le> length (cl_heap s)"
proof -
  assume r: "cl_repr s as"
  then have "path (cl_heap s) (cl_first s) as None" by (simp add: cl_repr_def)
  then have "hget (cl_heap s) a \<noteq> None" if "a \<in> set as" for a using path_allocated that by blast
  then have "a < length (cl_heap s)" if "a \<in> set as" for a
    using that by (fastforce simp: hget_def split: if_splits)
  then have "set as \<subseteq> {..<length (cl_heap s)}" by blast
  then have "card (set as) \<le> length (cl_heap s)"
    using card_mono [of "{..<length (cl_heap s)}" "set as"] by simp
  with r show ?thesis by (simp add: cl_repr_def distinct_card)
qed

lemma cl_repr_addrs: "cl_repr s as \<Longrightarrow> cl_addrs s = as"
  unfolding cl_addrs_def using cl_repr_length [of s as] by (intro addrs_path) (auto simp: cl_repr_def)

lemma cl_repr_inv: "cl_repr s as \<Longrightarrow> clist_inv s"
  by (simp add: clist_inv_def cl_repr_addrs)

lemma clist_invE:
  assumes "clist_inv s"
  obtains as where "cl_repr s as" "cl_addrs s = as" "clients s = map (cell (cl_heap s)) as"
  using assms by (auto simp: clist_inv_def clients_def)

lemma slot_cell: "slot h a = c_idx (cell h a)"
  by (simp add: slot_def cell_def)

text \<open>Slots are a one-to-one numbering of the clients below the array's length.\<close>

lemma cl_repr_slots:
  assumes "cl_repr s as"
  shows "distinct (map (slot (cl_heap s)) as)" "\<forall>a \<in> set as. slot (cl_heap s) a < length (cl_arr s)"
proof -
  have "inj_on (slot (cl_heap s)) (set as)"
  proof (rule inj_onI)
    fix a b assume "a \<in> set as" "b \<in> set as" "slot (cl_heap s) a = slot (cl_heap s) b"
    with assms have "Some a = Some b" unfolding cl_repr_def by metis
    then show "a = b" by simp
  qed
  with assms show "distinct (map (slot (cl_heap s)) as)" by (simp add: distinct_map cl_repr_def)
  from assms show "\<forall>a \<in> set as. slot (cl_heap s) a < length (cl_arr s)" by (simp add: cl_repr_def)
qed

lemma cl_repr_length_arr: "cl_repr s as \<Longrightarrow> length as \<le> length (cl_arr s)"
proof -
  assume r: "cl_repr s as"
  have "set (map (slot (cl_heap s)) as) \<subseteq> {..<length (cl_arr s)}"
    using cl_repr_slots(2) [OF r] by auto
  then have "card (set (map (slot (cl_heap s)) as)) \<le> length (cl_arr s)"
    using card_mono [of "{..<length (cl_arr s)}"] by (metis card_lessThan finite_lessThan)
  then show ?thesis using distinct_card [OF cl_repr_slots(1) [OF r]] by simp
qed

section \<open>Append\<close>

lemma free_slot_length: "free_slot (length arr) arr = Some (first_index (\<lambda>x. x = None) arr)"
  by (induction arr) auto

lemma cl_repr_free:
  assumes "cl_repr s as" "length as < length (cl_arr s)"
  shows "first_index (\<lambda>x. x = None) (cl_arr s) < length (cl_arr s)"
proof (rule ccontr)
  assume "\<not> ?thesis"
  then have full: "\<forall>i < length (cl_arr s). cl_arr s ! i \<noteq> None"
    using first_index_least [of _ "\<lambda>x. x = None" "cl_arr s"] by simp
  let ?f = "\<lambda>i. the (cl_arr s ! i)"
  have "inj_on ?f {..<length (cl_arr s)}"
  proof (rule inj_onI)
    fix i j assume ij: "i \<in> {..<length (cl_arr s)}" "j \<in> {..<length (cl_arr s)}" "?f i = ?f j"
    then obtain a where "cl_arr s ! i = Some a" "cl_arr s ! j = Some a"
      using full by (metis lessThan_iff option.collapse)
    with assms(1) ij show "i = j" unfolding cl_repr_def by (metis lessThan_iff)
  qed
  moreover have "?f ` {..<length (cl_arr s)} \<subseteq> set as"
  proof
    fix a assume "a \<in> ?f ` {..<length (cl_arr s)}"
    then obtain i where "i < length (cl_arr s)" "cl_arr s ! i = Some a"
      using full by auto
    with assms(1) show "a \<in> set as" unfolding cl_repr_def by metis
  qed
  ultimately have "length (cl_arr s) \<le> card (set as)"
    using card_inj_on_le [of ?f "{..<length (cl_arr s)}" "set as"] by simp
  also have "\<dots> \<le> length as" by (rule card_length)
  finally show False using assms(2) by simp
qed

lemma client_list_append_full:
  "cl_repr s as \<Longrightarrow> maxclients \<le> int (length as) \<Longrightarrow>
   client_list_append maxclients ip mac token now s = Ok (None, s)"
  by (simp add: client_list_append_def cl_repr_def)

lemma client_list_append_repr:
  assumes r: "cl_repr s as" and m: "nat maxclients = length (cl_arr s)" "int (length as) < maxclients"
  obtains a i s' where "client_list_append maxclients ip mac token now s = Ok (Some a, s')"
    "cl_repr s' (as @ [a])" "a \<notin> set as"
    "length (cl_arr s') = length (cl_arr s)"
    "i < length (cl_arr s)" "i \<notin> slot (cl_heap s) ` set as" "{..<i} \<subseteq> slot (cl_heap s) ` set as"
    "cell (cl_heap s') a = new_client ip mac token now i"
    "\<forall>b \<in> set as. cell (cl_heap s') b = cell (cl_heap s) b"
proof -
  let ?h = "cl_heap s" and ?a = "halloc (cl_heap s)" and ?i = "first_index (\<lambda>x. x = None) (cl_arr s)"
  let ?n = "new_client ip mac token now ?i"
  let ?h1 = "hput ?h ?a (Some ?n)"
  from r have P: "path ?h (cl_first s) as None" and D: "distinct as"
    and A: "\<And>b. hget ?h b \<noteq> None \<Longrightarrow> b \<in> set as" and C: "cl_count s = int (length as)"
    and S: "\<And>b. b \<in> set as \<Longrightarrow> slot ?h b < length (cl_arr s) \<and> cl_arr s ! slot ?h b = Some b"
    and T: "\<And>i b. i < length (cl_arr s) \<Longrightarrow> cl_arr s ! i = Some b \<Longrightarrow> b \<in> set as \<and> slot ?h b = i"
    unfolding cl_repr_def by blast+
  have i: "?i < length (cl_arr s)" using cl_repr_free [OF r] m by linarith
  then have iN: "cl_arr s ! ?i = None" by (rule first_index_holds)
  have aN: "?a \<notin> set as" using path_allocated [OF P, of ?a] by auto
  have inot: "?i \<notin> slot ?h ` set as" using S iN by force
  have ibelow: "{..<?i} \<subseteq> slot ?h ` set as"
  proof
    fix j assume "j \<in> {..<?i}"
    then have "cl_arr s ! j \<noteq> None" "j < length (cl_arr s)"
      using first_index_least [of j "\<lambda>x. x = None" "cl_arr s"] i by auto
    then show "j \<in> slot ?h ` set as" using T by (metis image_eqI not_None_eq)
  qed
  define s1 where "s1 = s\<lparr>cl_heap := ?h1, cl_arr := (cl_arr s)[?i := Some ?a],
                          cl_count := cl_count s + 1, cl_last_time := now\<rparr>"
  have w: "walk_end ?h None (cl_first s) = Some (if as = [] then None else Some (last as))"
    by (rule walk_end_path [OF P])
  have f: "free_slot (nat maxclients) (cl_arr s) = Some ?i" by (simp add: m free_slot_length)
  have slots: "slot h b = slot ?h b" if "hget h b = hget ?h b \<or>
      (\<exists>c n. hget ?h b = Some c \<and> hget h b = Some (c\<lparr>c_next := n\<rparr>))" for h b
    using that by (auto simp: slot_def)
  have arr: "(\<forall>b \<in> set (as @ [?a]). slot h b < length (cl_arr s1) \<and> cl_arr s1 ! slot h b = Some b) \<and>
     (\<forall>i < length (cl_arr s1). \<forall>b. cl_arr s1 ! i = Some b \<longrightarrow> b \<in> set (as @ [?a]) \<and> slot h b = i)"
    if "\<And>b. b \<in> set as \<Longrightarrow> slot h b = slot ?h b" "slot h ?a = ?i" for h
  proof (intro conjI ballI allI impI)
    fix b assume b: "b \<in> set (as @ [?a])"
    show "slot h b < length (cl_arr s1)"
      using b that S [of b] i by (auto simp: s1_def)
    show "cl_arr s1 ! slot h b = Some b"
    proof (cases "b = ?a")
      case True
      with that i show ?thesis by (simp add: s1_def)
    next
      case False
      with b have "b \<in> set as" by simp
      moreover from this inot have "slot ?h b \<noteq> ?i" by (metis image_eqI)
      ultimately show ?thesis using that S [of b] by (simp add: s1_def)
    qed
  next
    fix j b assume j: "j < length (cl_arr s1)" "cl_arr s1 ! j = Some b"
    have "b = ?a \<and> slot h b = j \<or> b \<in> set as \<and> slot h b = j"
    proof (cases "j = ?i")
      case True
      with j that i show ?thesis by (simp add: s1_def)
    next
      case False
      with j have "b \<in> set as \<and> slot ?h b = j" using T [of j b] by (simp add: s1_def)
      with that show ?thesis by simp
    qed
    then show "b \<in> set (as @ [?a])" "slot h b = j" by auto
  qed
  show thesis
  proof (cases "as = []")
    case True
    let ?s' = "s1\<lparr>cl_first := Some ?a\<rparr>"
    have app: "client_list_append maxclients ip mac token now s = Ok (Some ?a, ?s')"
      using w f i m C by (simp add: client_list_append_def s1_def True Let_def)
    have h: "hget ?h b = None" for b using A True by fastforce
    have sl: "\<And>b. b \<in> set as \<Longrightarrow> slot ?h1 b = slot ?h b" "slot ?h1 ?a = ?i"
      using True by (simp_all add: slot_def new_client_def)
    have "path ?h1 (Some ?a) [?a] None" by (simp add: new_client_def)
    then have "cl_repr ?s' ([] @ [?a])"
      unfolding cl_repr_def using arr [OF sl] C True h by (simp add: s1_def)
    with app show thesis
      using that [of ?a ?s' ?i] aN i inot ibelow True
      by (simp add: s1_def cell_def new_client_def)
  next
    case False
    define q where "q = last as"
    define us where "us = butlast as"
    have as: "as = us @ [q]" using False by (simp add: q_def us_def)
    from P as obtain qc where q: "hget ?h q = Some qc" "c_next qc = None" "path ?h (cl_first s) us (Some q)"
      by (auto simp: path_append)
    have nq: "q \<noteq> ?a" "q \<notin> set us" "?a \<notin> set us" using aN D as by auto
    let ?h2 = "hput ?h1 q (Some (qc\<lparr>c_next := Some ?a\<rparr>))"
    let ?s' = "s1\<lparr>cl_heap := ?h2\<rparr>"
    have app: "client_list_append maxclients ip mac token now s = Ok (Some ?a, ?s')"
      using w f i m C q False nq by (simp add: client_list_append_def s1_def Let_def q_def [symmetric])
    have "path ?h2 (cl_first s) (us @ [q, ?a]) None"
      using q nq by (auto simp: path_append new_client_def)
    then have P': "path ?h2 (cl_first s) (as @ [?a]) None" by (simp add: as)
    have sl: "\<And>b. b \<in> set as \<Longrightarrow> slot ?h2 b = slot ?h b" "slot ?h2 ?a = ?i"
      using q nq aN by (auto simp: slot_def new_client_def)
    have D': "distinct (as @ [?a])" using D aN by simp
    have A': "hget ?h2 b \<noteq> None \<Longrightarrow> b \<in> set (as @ [?a])" for b
      using A [of b] as by (auto split: if_splits)
    have "cl_repr ?s' (as @ [?a])"
      unfolding cl_repr_def using arr [OF sl] P' D' A' C by (simp add: s1_def)
    with app show thesis
      using that [of ?a ?s' ?i] aN i inot ibelow nq q
      by (simp add: s1_def cell_def new_client_def)
  qed
qed

section \<open>Search and update\<close>

lemma find_map: "List.find P (map f xs) = map_option f (List.find (\<lambda>x. P (f x)) xs)"
  by (induction xs) auto

lemma client_find_repr:
  assumes "cl_repr s as" "\<And>a. a \<in> set as \<Longrightarrow> P (the (hget (cl_heap s) a)) = Some (Q (cell (cl_heap s) a))"
  shows "of_opt (find_loop (cl_heap s) P (cl_first s)) = Ok (List.find (\<lambda>a. Q (cell (cl_heap s) a)) as)"
  using find_loop_path [of "cl_heap s" "cl_first s" as P "\<lambda>a. Q (cell (cl_heap s) a)"] assms
  by (simp add: cl_repr_def)

lemma cell_fields [simp]:
  "c_ip (cell h a) = c_ip (the (hget h a))" "c_mac (cell h a) = c_mac (the (hget h a))"
  "c_token (cell h a) = c_token (the (hget h a))" "c_idx (cell h a) = c_idx (the (hget h a))"
  "c_fw_connection_state (cell h a) = c_fw_connection_state (the (hget h a))"
  by (simp_all add: cell_def)

lemma upd_client_repr:
  assumes r: "cl_repr s as" "a \<in> set as"
    and f: "\<And>c. c_next (f c) = c_next c" "\<And>c. c_idx (f c) = c_idx c"
      "\<And>c. (f c)\<lparr>c_next := None\<rparr> = f (c\<lparr>c_next := None\<rparr>)"
  obtains s' where "upd_client a f s = Ok s'" "cl_repr s' as" "cl_arr s' = cl_arr s"
    "cell (cl_heap s') a = f (cell (cl_heap s) a)"
    "\<forall>b. b \<noteq> a \<longrightarrow> cell (cl_heap s') b = cell (cl_heap s) b"
proof -
  let ?h = "cl_heap s"
  from r obtain c where c: "hget ?h a = Some c"
    using path_allocated [of ?h "cl_first s" as None a] by (auto simp: cl_repr_def)
  let ?h' = "hput ?h a (Some (f c))"
  have p: "path ?h' p bs q = path ?h p bs q" for p bs q
    using c by (induction bs arbitrary: p) (auto simp: f)
  have sl: "slot ?h' b = slot ?h b" for b using c by (simp add: slot_def f)
  show thesis
  proof (rule that [of "s\<lparr>cl_heap := ?h'\<rparr>"])
    show "upd_client a f s = Ok (s\<lparr>cl_heap := ?h'\<rparr>)" by (simp add: upd_client_def c)
    show "cl_repr (s\<lparr>cl_heap := ?h'\<rparr>) as"
      using r(1) c unfolding cl_repr_def by (simp add: p sl)
  qed (use c in \<open>auto simp: cell_def f\<close>)
qed

section \<open>Delete\<close>

lemma free_node_repr:
  assumes "path (cl_heap s) (cl_first s) (us @ ws) None" "distinct (us @ a # ws)"
    "\<And>b. hget (cl_heap s) b \<noteq> None \<Longrightarrow> b \<in> set (us @ a # ws)"
    "cl_count s = int (length (us @ a # ws))"
    "\<And>b. b \<in> set (us @ a # ws) \<Longrightarrow> slot (cl_heap s) b < length (cl_arr s) \<and> cl_arr s ! slot (cl_heap s) b = Some b"
    "\<And>i b. i < length (cl_arr s) \<Longrightarrow> cl_arr s ! i = Some b \<Longrightarrow> b \<in> set (us @ a # ws) \<and> slot (cl_heap s) b = i"
    and c: "hget (cl_heap s) a = Some c"
  obtains s' where "client_list_free_node a s = Ok s'" "cl_repr (s'\<lparr>cl_count := cl_count s' - 1\<rparr>) (us @ ws)"
    "length (cl_arr s') = length (cl_arr s)"
    "cl_heap s' = hput (cl_heap s) a None"
proof -
  let ?h' = "hput (cl_heap s) a None"
  let ?s' = "s\<lparr>cl_heap := ?h', cl_arr := (cl_arr s)[c_idx c := None]\<rparr>"
  have i: "c_idx c < length (cl_arr s)" "cl_arr s ! c_idx c = Some a" "slot (cl_heap s) a = c_idx c"
    using assms(5) [of a] c by (simp_all add: slot_def)
  then have free: "client_list_free_node a s = Ok ?s'"
    by (simp add: client_list_free_node_def c)
  have sl: "slot ?h' b = slot (cl_heap s) b" if "b \<noteq> a" for b
    using that by (simp add: slot_def)
  have na: "a \<notin> set (us @ ws)" using assms(2) by auto
  have ne: "slot (cl_heap s) b \<noteq> c_idx c" if "b \<in> set (us @ ws)" for b
    using assms(5) [of b] that i(2) na by auto
  have S: "slot ?h' b < length (cl_arr ?s') \<and> cl_arr ?s' ! slot ?h' b = Some b" if "b \<in> set (us @ ws)" for b
  proof -
    have "b \<noteq> a" using that na by blast
    then show ?thesis using assms(5) [of b] that ne [OF that] sl by auto
  qed
  have T: "b \<in> set (us @ ws) \<and> slot ?h' b = j" if "j < length (cl_arr ?s')" "cl_arr ?s' ! j = Some b" for j b
  proof -
    have j: "j \<noteq> c_idx c" using that i(1) by auto
    with that have "b \<in> set (us @ a # ws) \<and> slot (cl_heap s) b = j" using assms(6) [of j b] by simp
    moreover from this j i(3) have "b \<noteq> a" by auto
    ultimately show ?thesis using sl by auto
  qed
  have "cl_repr (?s'\<lparr>cl_count := cl_count ?s' - 1\<rparr>) (us @ ws)"
    unfolding cl_repr_def using assms(1-4) na S T by auto
  then show thesis using that free by simp
qed

lemma client_list_delete_repr:
  assumes r: "cl_repr s (us @ a # ws)"
  obtains s' where "client_list_delete a s = Ok s'" "cl_repr s' (us @ ws)"
    "length (cl_arr s') = length (cl_arr s)"
    "\<forall>b \<in> set (us @ ws). cell (cl_heap s') b = cell (cl_heap s) b"
proof -
  let ?h = "cl_heap s"
  from r have P: "path ?h (cl_first s) (us @ a # ws) None" and D: "distinct (us @ a # ws)"
    and A: "\<And>b. hget ?h b \<noteq> None \<Longrightarrow> b \<in> set (us @ a # ws)" and C: "cl_count s = int (length (us @ a # ws))"
    and S: "\<And>b. b \<in> set (us @ a # ws) \<Longrightarrow> slot ?h b < length (cl_arr s) \<and> cl_arr s ! slot ?h b = Some b"
    and T: "\<And>i b. i < length (cl_arr s) \<Longrightarrow> cl_arr s ! i = Some b \<Longrightarrow> b \<in> set (us @ a # ws) \<and> slot ?h b = i"
    unfolding cl_repr_def by blast+
  from P obtain c where c: "hget ?h a = Some c" "path ?h (cl_first s) us (Some a)" "path ?h (c_next c) ws None"
    by (auto simp: path_append)
  show thesis
  proof (cases "us = []")
    case True
    with c have first: "cl_first s = Some a" by simp
    let ?s1 = "s\<lparr>cl_first := c_next c\<rparr>"
    obtain s' where s': "client_list_free_node a ?s1 = Ok s'" "cl_repr (s'\<lparr>cl_count := cl_count s' - 1\<rparr>) (us @ ws)"
        "length (cl_arr s') = length (cl_arr s)" "cl_heap s' = hput ?h a None"
      by (rule free_node_repr [of ?s1 us ws a c]) (use True c D A C S T in auto)
    show thesis
      by (rule that [of "s'\<lparr>cl_count := cl_count s' - 1\<rparr>"])
         (use s' first c D in \<open>auto simp: client_list_delete_def cell_def\<close>)
  next
    case False
    define q where "q = last us"
    define vs where "vs = butlast us"
    have us: "us = vs @ [q]" using False by (simp add: q_def vs_def)
    from c us obtain qc where q: "hget ?h q = Some qc" "c_next qc = Some a" "path ?h (cl_first s) vs (Some q)"
      by (auto simp: path_append)
    have nq: "q \<noteq> a" "q \<notin> set vs" "q \<notin> set ws" using D us by auto
    obtain p where p: "cl_first s = Some p" "p = hd us" using P False by (cases us) auto
    have "p \<noteq> a" using p D False by (cases us) auto
    have dl: "delete_loop ?h a p = Some q"
      using delete_loop_path [of ?h p us "a # ws" a] P D p False by (simp add: q_def)
    let ?h1 = "hput ?h q (Some (qc\<lparr>c_next := c_next c\<rparr>))"
    let ?s1 = "s\<lparr>cl_heap := ?h1\<rparr>"
    have P1: "path ?h1 (cl_first s) (us @ ws) None"
      unfolding us using q nq c by (auto simp: path_append)
    have sl: "slot ?h1 b = slot ?h b" for b using q by (simp add: slot_def)
    have A1: "hget ?h1 b \<noteq> None \<Longrightarrow> b \<in> set (us @ a # ws)" for b
      using A [of b] us by (auto split: if_splits)
    obtain s' where s': "client_list_free_node a ?s1 = Ok s'" "cl_repr (s'\<lparr>cl_count := cl_count s' - 1\<rparr>) (us @ ws)"
        "length (cl_arr s') = length (cl_arr s)" "cl_heap s' = hput ?h1 a None"
    proof (rule free_node_repr [of ?s1 us ws a c])
      show "hget (cl_heap ?s1) a = Some c" using c nq by simp
    qed (use P1 D A1 C S T in \<open>simp_all add: sl\<close>)
    have del: "client_list_delete a s = Ok (s'\<lparr>cl_count := cl_count s' - 1\<rparr>)"
      using p \<open>p \<noteq> a\<close> dl q c s'(1) by (simp add: client_list_delete_def)
    show thesis
      by (rule that [OF del]) (use s' q D in \<open>auto simp: cell_def\<close>)
  qed
qed

lemma client_list_delete_other:
  assumes "cl_repr s as" "a \<notin> set as"
  shows "client_list_delete a s = Ok s"
proof (cases as)
  case Nil
  with assms show ?thesis by (simp add: cl_repr_def client_list_delete_def)
next
  case (Cons p bs)
  from assms have P: "path (cl_heap s) (cl_first s) as None" by (simp add: cl_repr_def)
  have p: "cl_first s = Some p" "p \<noteq> a" using P assms(2) Cons by auto
  have "delete_loop (cl_heap s) a p = Some (last as)"
    using delete_loop_path [of "cl_heap s" p as "[]" a] P assms(2) Cons p by simp
  moreover obtain c where "hget (cl_heap s) (last as) = Some c" "c_next c = None"
  proof -
    have "butlast as @ [last as] = as" using Cons by (intro append_butlast_last_id) simp
    with P have "path (cl_heap s) (cl_first s) (butlast as @ [last as]) None" by (simp only:)
    then show thesis using that by (auto simp only: path_append path.simps)
  qed
  ultimately show ?thesis using p by (simp add: client_list_delete_def)
qed

lemma find_key_None: "List.find (\<lambda>c. key c = k) xs = None \<longleftrightarrow> k \<notin> key ` set xs"
  by (induction xs) auto

section \<open>The contract of a client registry\<close>

text \<open>
  What the users of the client list rely on, over any state \<open>'s\<close>, pointer type \<open>'p\<close> and
  client type \<open>'c\<close>: the state stands for a list of clients of bounded length, each with a
  slot below the bound, and the operations act on that list.
\<close>

locale client_registry =
  fixes inv :: "'s \<Rightarrow> bool"
    and cs :: "'s \<Rightarrow> 'c list"
    and at :: "'s \<Rightarrow> 'p \<Rightarrow> 'c option"
    and cap :: "'s \<Rightarrow> nat"
    and key :: "'c \<Rightarrow> 'k"
    and num :: "'c \<Rightarrow> nat"
    and new :: "'x \<Rightarrow> nat \<Rightarrow> 'c"
    and find :: "'k \<Rightarrow> 's \<Rightarrow> 'p option result"
    and append :: "'x \<Rightarrow> 's \<Rightarrow> ('p option \<times> 's) result"
    and delete :: "'p \<Rightarrow> 's \<Rightarrow> 's result"
  assumes find_ok: "inv s \<Longrightarrow> \<exists>r. find k s = Ok r \<and>
      (case r of None \<Rightarrow> List.find (\<lambda>c. key c = k) (cs s) = None
       | Some p \<Rightarrow> at s p \<noteq> None \<and> List.find (\<lambda>c. key c = k) (cs s) = at s p)"
    and append_full: "inv s \<Longrightarrow> cap s \<le> length (cs s) \<Longrightarrow> append x s = Ok (None, s)"
    and append_ok: "inv s \<Longrightarrow> length (cs s) < cap s \<Longrightarrow> \<exists>p s' i. append x s = Ok (Some p, s') \<and>
      inv s' \<and> cap s' = cap s \<and> cs s' = cs s @ [new x i] \<and> at s' p = Some (new x i) \<and>
      i < cap s \<and> i \<notin> num ` set (cs s)"
    and delete_ok: "inv s \<Longrightarrow> at s p = Some c \<Longrightarrow> \<exists>s' us ws. delete p s = Ok s' \<and> inv s' \<and>
      cap s' = cap s \<and> cs s = us @ c # ws \<and> cs s' = us @ ws \<and> at s' p = None"
    and size_ok: "inv s \<Longrightarrow> length (cs s) \<le> cap s"
    and key_new: "key (new x i) = key (new x j)"
    and num_new: "num (new x i) = i"
begin

lemma append_cases:
  assumes "inv s"
  obtains (full) "cap s \<le> length (cs s)" "append x s = Ok (None, s)"
  | (added) p s' i where "append x s = Ok (Some p, s')" "inv s'" "cap s' = cap s"
      "cs s' = cs s @ [new x i]" "at s' p = Some (new x i)" "i < cap s" "i \<notin> num ` set (cs s)"
proof (cases "cap s \<le> length (cs s)")
  case True
  with full append_full [OF assms] show thesis by blast
next
  case False
  with added append_ok [OF assms, of x] show thesis by fastforce
qed

lemma append_inv: "inv s \<Longrightarrow> append x s = Ok (r, s') \<Longrightarrow> inv s' \<and> cap s' = cap s"
  by (cases rule: append_cases [of s x]) auto

lemma find_None: "inv s \<Longrightarrow> find k s = Ok None \<longleftrightarrow> k \<notin> key ` set (cs s)"
proof -
  assume "inv s"
  then obtain r where r: "find k s = Ok r" "case r of None \<Rightarrow> List.find (\<lambda>c. key c = k) (cs s) = None
       | Some p \<Rightarrow> at s p \<noteq> None \<and> List.find (\<lambda>c. key c = k) (cs s) = at s p"
    using find_ok [of s k] by blast
  then show ?thesis
    by (cases r) (auto simp: find_key_None [symmetric])
qed

lemma find_Some: "inv s \<Longrightarrow> find k s = Ok (Some p) \<Longrightarrow>
   \<exists>c. at s p = Some c \<and> c \<in> set (cs s) \<and> key c = k"
  using find_ok [of s k] by (auto dest: find_Some_mem)

text \<open>Appending a client whose key is new keeps the keys distinct.\<close>

lemma append_distinct:
  assumes "inv s" "distinct (map key (cs s))" "find (key (new x 0)) s = Ok None"
    "append x s = Ok (r, s')"
  shows "distinct (map key (cs s'))"
proof (cases rule: append_cases [OF assms(1), of x])
  case 1
  with assms show ?thesis by simp
next
  case (2 p s1 i)
  have "key (new x i) \<notin> key ` set (cs s)"
    using assms(3) find_None [OF assms(1)] key_new [of x i 0] by simp
  with 2 assms show ?thesis by simp
qed

lemma append_then_find:
  assumes "inv s" "find (key (new x 0)) s = Ok None" "append x s = Ok (Some p, s')"
  shows "\<exists>q. find (key (new x 0)) s' = Ok (Some q) \<and> at s' q = at s' p"
proof (cases rule: append_cases [OF assms(1), of x])
  case 1
  with assms show ?thesis by simp
next
  case (2 p1 s1 i)
  have n: "key (new x i) \<notin> key ` set (cs s)"
    using assms(2) find_None [OF assms(1)] key_new [of x i 0] by simp
  then have "List.find (\<lambda>c. key c = key (new x 0)) (cs s) = None"
    using key_new [of x i 0] by (simp add: find_key_None)
  then have "List.find (\<lambda>c. key c = key (new x 0)) (cs s1) = Some (new x i)"
    using 2 key_new [of x i 0] by (simp add: find_append)
  with 2 assms find_ok [of s1 "key (new x 0)"] show ?thesis
    by (auto split: option.splits)
qed

lemma delete_distinct:
  assumes "inv s" "distinct (map key (cs s))" "at s p = Some c"
  shows "\<exists>s'. delete p s = Ok s' \<and> inv s' \<and> distinct (map key (cs s')) \<and>
    find (key c) s' = Ok None \<and> length (cs s') + 1 = length (cs s)"
proof -
  obtain s' us ws where d: "delete p s = Ok s'" "inv s'" "cs s = us @ c # ws" "cs s' = us @ ws"
    using delete_ok [OF assms(1,3)] by blast
  with assms(2) have "key c \<notin> key ` set (cs s')" "distinct (map key (cs s'))" by auto
  with d find_None [of s' "key c"] show ?thesis by auto
qed

end

section \<open>The client list is a client registry\<close>

definition client_at :: "clist \<Rightarrow> addr \<Rightarrow> t_client option" where
  "client_at s a = map_option (\<lambda>c. c\<lparr>c_next := None\<rparr>) (hget (cl_heap s) a)"

lemma client_at_cell: "cl_repr s as \<Longrightarrow> a \<in> set as \<Longrightarrow> client_at s a = Some (cell (cl_heap s) a)"
  using path_allocated [of "cl_heap s" "cl_first s" as None a]
  by (auto simp: cl_repr_def client_at_def cell_def)

lemma client_at_mem: "cl_repr s as \<Longrightarrow> client_at s a = Some c \<Longrightarrow> a \<in> set as \<and> c = cell (cl_heap s) a"
  by (auto simp: cl_repr_def client_at_def cell_def)

lemma clients_repr: "cl_repr s as \<Longrightarrow> clients s = map (cell (cl_heap s)) as"
  by (simp add: clients_def cl_repr_addrs)

lemma find_refines:
  assumes "clist_inv s" "\<And>c. c \<in> set (clients s) \<Longrightarrow> P c = Some (Q c)"
    "\<And>c. P (c\<lparr>c_next := None\<rparr>) = P c"
  shows "\<exists>r. of_opt (find_loop (cl_heap s) P (cl_first s)) = Ok r \<and>
    (case r of None \<Rightarrow> List.find Q (clients s) = None
     | Some a \<Rightarrow> client_at s a \<noteq> None \<and> List.find Q (clients s) = client_at s a)"
proof -
  from assms(1) obtain as where r: "cl_repr s as" "clients s = map (cell (cl_heap s)) as"
    by (rule clist_invE)
  have "P (the (hget (cl_heap s) a)) = Some (Q (cell (cl_heap s) a))" if "a \<in> set as" for a
    using assms(2) [of "cell (cl_heap s) a"] that r assms(3) by (simp add: cell_def)
  then have f: "of_opt (find_loop (cl_heap s) P (cl_first s)) = Ok (List.find (\<lambda>a. Q (cell (cl_heap s) a)) as)"
    by (rule client_find_repr [OF r(1)])
  show ?thesis
  proof (cases "List.find (\<lambda>a. Q (cell (cl_heap s) a)) as")
    case None
    with f r show ?thesis by (auto simp: find_map)
  next
    case (Some a)
    then have "client_at s a = Some (cell (cl_heap s) a)"
      using client_at_cell [OF r(1)] find_Some_mem [OF Some] by blast
    with f r Some show ?thesis by (auto simp: find_map)
  qed
qed

lemma append_refines:
  assumes "clist_inv s" "nat maxclients = length (cl_arr s)" "int (length (clients s)) < maxclients"
  shows "\<exists>a i s'. client_list_append maxclients ip mac token now s = Ok (Some a, s') \<and> clist_inv s' \<and>
     length (cl_arr s') = length (cl_arr s) \<and>
     clients s' = clients s @ [new_client ip mac token now i] \<and>
     client_at s' a = Some (new_client ip mac token now i) \<and>
     i < length (cl_arr s) \<and> i \<notin> c_idx ` set (clients s) \<and> {..<i} \<subseteq> c_idx ` set (clients s)"
proof -
  from assms(1) obtain as where r: "cl_repr s as" "clients s = map (cell (cl_heap s)) as"
    by (rule clist_invE)
  have im: "c_idx ` set (clients s) = slot (cl_heap s) ` set as"
    by (simp add: r(2) image_image slot_cell del: cell_fields)
  have len: "int (length as) < maxclients" using assms(3) r(2) by simp
  obtain a i s' where a: "client_list_append maxclients ip mac token now s = Ok (Some a, s')"
    "cl_repr s' (as @ [a])" "length (cl_arr s') = length (cl_arr s)" "i < length (cl_arr s)"
    "i \<notin> slot (cl_heap s) ` set as" "{..<i} \<subseteq> slot (cl_heap s) ` set as"
    "cell (cl_heap s') a = new_client ip mac token now i"
    "\<forall>b \<in> set as. cell (cl_heap s') b = cell (cl_heap s) b"
    by (rule client_list_append_repr [OF r(1) assms(2) len])
  have "clients s' = clients s @ [new_client ip mac token now i]"
    using a by (simp add: clients_repr [OF a(2)] r(2))
  moreover have "client_at s' a = Some (new_client ip mac token now i)"
    using client_at_cell [OF a(2), of a] a(7) by simp
  ultimately show ?thesis using a im cl_repr_inv [OF a(2)] by auto
qed

lemma delete_refines:
  assumes "clist_inv s" "client_at s a = Some c"
  shows "\<exists>s' us ws. client_list_delete a s = Ok s' \<and> clist_inv s' \<and>
    length (cl_arr s') = length (cl_arr s) \<and> clients s = us @ c # ws \<and> clients s' = us @ ws \<and>
    client_at s' a = None"
proof -
  from assms(1) obtain as where r: "cl_repr s as" "clients s = map (cell (cl_heap s)) as"
    by (rule clist_invE)
  from client_at_mem [OF r(1) assms(2)] obtain us ws where as: "as = us @ a # ws" "c = cell (cl_heap s) a"
    by (auto simp: in_set_conv_decomp)
  obtain s' where d: "client_list_delete a s = Ok s'" "cl_repr s' (us @ ws)"
    "length (cl_arr s') = length (cl_arr s)" "\<forall>b \<in> set (us @ ws). cell (cl_heap s') b = cell (cl_heap s) b"
    by (rule client_list_delete_repr [OF r(1) [unfolded as(1)]])
  have "a \<notin> set (us @ ws)" using r(1) as by (auto simp: cl_repr_def)
  with d(2) have "client_at s' a = None" by (auto simp: cl_repr_def client_at_def)
  moreover have "clients s' = map (cell (cl_heap s)) us @ map (cell (cl_heap s)) ws"
    using d by (simp add: clients_repr [OF d(2)])
  ultimately show ?thesis using d as r cl_repr_inv [OF d(2)] by auto
qed

definition registry_append :: "string \<times> string \<times> string option \<times> int \<Rightarrow> clist \<Rightarrow> (addr option \<times> clist) result" where
  "registry_append x s = (case x of (ip, mac, token, now) \<Rightarrow>
     client_list_append (int (length (cl_arr s))) ip mac token now s)"

interpretation reg: client_registry clist_inv clients client_at "\<lambda>s. length (cl_arr s)"
    "\<lambda>c. (c_ip c, c_mac c)" c_idx "\<lambda>(ip, mac, token, now). new_client ip mac token now"
    "\<lambda>(ip, mac). client_list_find ip mac" registry_append client_list_delete
proof unfold_locales
  fix k :: "string \<times> string" and s :: clist
  assume "clist_inv s"
  moreover obtain ip mac where "k = (ip, mac)" by (cases k)
  ultimately show "\<exists>r. (\<lambda>(ip, mac). client_list_find ip mac) k s = Ok r \<and>
      (case r of None \<Rightarrow> List.find (\<lambda>c. (c_ip c, c_mac c) = k) (clients s) = None
       | Some p \<Rightarrow> client_at s p \<noteq> None \<and> List.find (\<lambda>c. (c_ip c, c_mac c) = k) (clients s) = client_at s p)"
    using find_refines [of s "\<lambda>c. Some (c_ip c = ip \<and> c_mac c = mac)" "\<lambda>c. (c_ip c, c_mac c) = k"]
    by (simp add: client_list_find_def)
next
  fix x :: "string \<times> string \<times> string option \<times> int" and s :: clist
  assume "clist_inv s" "length (cl_arr s) \<le> length (clients s)"
  then show "registry_append x s = Ok (None, s)"
    by (cases x) (auto simp: registry_append_def elim!: clist_invE intro!: client_list_append_full)
next
  fix x :: "string \<times> string \<times> string option \<times> int" and s :: clist
  assume a: "clist_inv s" "length (clients s) < length (cl_arr s)"
  obtain ip mac token now where x: "x = (ip, mac, token, now)" by (cases x)
  show "\<exists>p s' i. registry_append x s = Ok (Some p, s') \<and> clist_inv s' \<and>
      length (cl_arr s') = length (cl_arr s) \<and>
      clients s' = clients s @ [(\<lambda>(ip, mac, token, now). new_client ip mac token now) x i] \<and>
      client_at s' p = Some ((\<lambda>(ip, mac, token, now). new_client ip mac token now) x i) \<and>
      i < length (cl_arr s) \<and> i \<notin> c_idx ` set (clients s)"
    using append_refines [of s "int (length (cl_arr s))" ip mac token now] a
    unfolding x registry_append_def by simp blast
next
  fix s :: clist
  assume "clist_inv s"
  then show "length (clients s) \<le> length (cl_arr s)"
    by (auto elim!: clist_invE dest: cl_repr_length_arr)
qed (use delete_refines in \<open>auto simp: new_client_def split: prod.splits\<close>)

section \<open>Adding the client of an address\<close>

lemma add_client_cases:
  assumes "clist_inv s" "nat maxclients = length (cl_arr s)"
    "distinct (map (\<lambda>c. (c_ip c, c_mac c)) (clients s))"
  shows "case (if check_ip_format ip then arp ip else None) of
      None \<Rightarrow> client_list_add_client maxclients arp ra rb now ip s = Ok (None, s)
    | Some mac \<Rightarrow> (case List.find (\<lambda>c. c_ip c = ip \<and> c_mac c = mac) (clients s) of
        Some c \<Rightarrow> \<exists>a. client_list_add_client maxclients arp ra rb now ip s = Ok (Some a, s) \<and>
          client_at s a = Some c
      | None \<Rightarrow> if maxclients \<le> int (length (clients s))
          then client_list_add_client maxclients arp ra rb now ip s = Ok (None, s)
          else \<exists>a i s'. client_list_add_client maxclients arp ra rb now ip s = Ok (Some a, s') \<and>
            clist_inv s' \<and> length (cl_arr s') = length (cl_arr s) \<and> clients s' = clients s @
              [new_client ip mac (Some (fmt_04hx ra @ fmt_04hx rb)) now i] \<and>
            client_at s' a = Some (new_client ip mac (Some (fmt_04hx ra @ fmt_04hx rb)) now i) \<and>
            distinct (map (\<lambda>c. (c_ip c, c_mac c)) (clients s')))"
proof (cases "if check_ip_format ip then arp ip else None")
  case None
  then show ?thesis by (auto simp: client_list_add_client_def split: if_splits)
next
  case (Some mac)
  let ?tok = "Some (fmt_04hx ra @ fmt_04hx rb)"
  let ?Q = "\<lambda>c. c_ip c = ip \<and> c_mac c = mac"
  obtain r where r: "client_list_find ip mac s = Ok r"
    "case r of None \<Rightarrow> List.find ?Q (clients s) = None
     | Some a \<Rightarrow> client_at s a \<noteq> None \<and> List.find ?Q (clients s) = client_at s a"
    using find_refines [OF assms(1), of "\<lambda>c. Some (?Q c)" ?Q] by (auto simp: client_list_find_def)
  have add: "client_list_add_client maxclients arp ra rb now ip s = (case r of Some a \<Rightarrow> Ok (Some a, s)
      | None \<Rightarrow> client_list_append maxclients ip mac ?tok now s)"
    using Some r(1) by (simp add: client_list_add_client_def client_list_make_auth_token_def split: if_splits)
  show ?thesis
  proof (cases r)
    case (Some a)
    with r(2) obtain c where "client_at s a = Some c" "List.find ?Q (clients s) = Some c" by auto
    with add \<open>r = Some a\<close> \<open>(if check_ip_format ip then arp ip else None) = Some mac\<close> show ?thesis by simp
  next
    case None
    with r(2) have nf: "List.find ?Q (clients s) = None" by simp
    then have k: "(ip, mac) \<notin> (\<lambda>c. (c_ip c, c_mac c)) ` set (clients s)"
      by (auto simp: find_None_iff)
    show ?thesis
    proof (cases "maxclients \<le> int (length (clients s))")
      case True
      have "client_list_append maxclients ip mac ?tok now s = Ok (None, s)"
        using assms(1) True by (auto elim!: clist_invE intro!: client_list_append_full)
      with True Some nf add None show ?thesis by simp
    next
      case False
      with append_refines [OF assms(1,2), of ip mac ?tok now]
      obtain a i s' where a: "client_list_append maxclients ip mac ?tok now s = Ok (Some a, s')" "clist_inv s'"
        "length (cl_arr s') = length (cl_arr s)" "clients s' = clients s @ [new_client ip mac ?tok now i]"
        "client_at s' a = Some (new_client ip mac ?tok now i)" by auto
      have "distinct (map (\<lambda>c. (c_ip c, c_mac c)) (clients s'))"
        using a(4) assms(3) k by (simp add: new_client_def)
      with a False Some nf add None show ?thesis by auto
    qed
  qed
qed

section \<open>Properties\<close>

text \<open>Two concrete states: an array of two slots without a client, and with one.\<close>

definition sample_empty :: clist where
  "sample_empty = \<lparr>cl_heap = [], cl_first = None, cl_count = 0, cl_arr = [None, None], cl_last_time = 0\<rparr>"

definition sample_client :: t_client where
  "sample_client = new_client ''10.0.0.2'' ''00:1a:22:33:44:5f'' (Some ''0000beef'') 5 0"

definition sample_one :: clist where
  "sample_one = \<lparr>cl_heap = [Some sample_client], cl_first = Some 0, cl_count = 1,
     cl_arr = [Some 0, None], cl_last_time = 5\<rparr>"

lemma sample_empty_repr: "cl_repr sample_empty []"
  by (auto simp: cl_repr_def sample_empty_def hget_def nth_Cons split: nat.splits)

lemma sample_one_repr: "cl_repr sample_one [0]"
  by (auto simp: cl_repr_def sample_one_def hget_def slot_def sample_client_def new_client_def
      nth_Cons split: nat.splits if_splits)

lemma sample_states [simp]:
  "clist_inv sample_empty" "clients sample_empty = []" "length (cl_arr sample_empty) = 2"
  "clist_inv sample_one" "clients sample_one = [sample_client]" "length (cl_arr sample_one) = 2"
  "client_at sample_one 0 = Some sample_client"
  using cl_repr_inv [OF sample_empty_repr] cl_repr_inv [OF sample_one_repr]
    clients_repr [OF sample_empty_repr] clients_repr [OF sample_one_repr]
  by (simp_all add: sample_empty_def sample_one_def cell_def client_at_def hget_def
      sample_client_def new_client_def)

text \<open>
  C24. Appending refines the abstract list: below the limit the new client goes to the end
  of the list, gets the smallest slot no client has, and the invariant (no dangling or
  shared cell, counter and array in step with the list) is kept; at the limit nothing
  changes. The search for the slot and the write stay inside the array.
\<close>

theorem client_list_append_refines:
  assumes "clist_inv s" "nat maxclients = length (cl_arr s)"
  shows "if maxclients \<le> int (length (clients s))
    then client_list_append maxclients ip mac token now s = Ok (None, s)
    else \<exists>a i s'. client_list_append maxclients ip mac token now s = Ok (Some a, s') \<and>
      clist_inv s' \<and> length (cl_arr s') = length (cl_arr s) \<and>
      clients s' = clients s @ [new_client ip mac token now i] \<and>
      client_at s' a = Some (new_client ip mac token now i) \<and>
      i < length (cl_arr s) \<and> i \<notin> c_idx ` set (clients s) \<and> {..<i} \<subseteq> c_idx ` set (clients s)"
proof (cases "maxclients \<le> int (length (clients s))")
  case True
  moreover have "client_list_append maxclients ip mac token now s = Ok (None, s)"
    using assms(1) True by (auto elim!: clist_invE intro!: client_list_append_full)
  ultimately show ?thesis by simp
next
  case False
  then show ?thesis using append_refines [OF assms, of ip mac token now] by simp
qed

lemma client_list_append_refines_witness:
  "\<exists>a s'. client_list_append 2 ''10.0.0.3'' ''m'' None 9 sample_one = Ok (Some a, s') \<and>
     clients s' = [sample_client, new_client ''10.0.0.3'' ''m'' None 9 1]"
proof -
  have i: "i = 1" if "i < 2" "i \<notin> c_idx ` set (clients sample_one)" for i
    using that by (cases i) (auto simp: sample_client_def new_client_def)
  show ?thesis
    using client_list_append_refines [of sample_one 2 "''10.0.0.3''" "''m''" None 9] i by fastforce
qed

text \<open>
  The four searches walk the list without touching a freed cell, end, and return the
  first client that matches, or null when there is none.
\<close>

theorem client_list_find_refines:
  assumes "clist_inv s" "\<forall>c \<in> set (clients s). c_token c \<noteq> None"
    and "(found, Q) \<in> {(client_list_find ip mac s, \<lambda>c. c_ip c = ip \<and> c_mac c = mac),
      (client_list_find_by_ip ip s, \<lambda>c. c_ip c = ip), (client_list_find_by_mac mac s, \<lambda>c. c_mac c = mac),
      (client_list_find_by_token tok s, \<lambda>c. c_token c = Some tok)}"
  shows "\<exists>r. found = Ok r \<and> (case r of None \<Rightarrow> List.find Q (clients s) = None
    | Some a \<Rightarrow> client_at s a \<noteq> None \<and> List.find Q (clients s) = client_at s a)"
  using assms(3)
proof (elim insertE emptyE)
  assume "(found, Q) = (client_list_find_by_token tok s, \<lambda>c. c_token c = Some tok)"
  then have fQ: "found = client_list_find_by_token tok s" "Q = (\<lambda>c. c_token c = Some tok)" by simp_all
  have tm: "map_option (\<lambda>t. t = tok) (c_token c) = Some (c_token c = Some tok)"
    if "c \<in> set (clients s)" for c using assms(2) that by auto
  show ?thesis
    unfolding fQ client_list_find_by_token_def by (rule find_refines [OF assms(1) tm]) simp_all
qed (use find_refines [OF assms(1), of "\<lambda>c. Some (Q c)" Q] in
    \<open>simp_all add: client_list_find_def client_list_find_by_ip_def client_list_find_by_mac_def\<close>)

lemma client_list_find_refines_witness:
  "\<exists>a. client_list_find_by_token ''0000beef'' sample_one = Ok (Some a) \<and> client_at sample_one a = Some sample_client"
  using client_list_find_refines [of sample_one "client_list_find_by_token ''0000beef'' sample_one"
      "\<lambda>c. c_token c = Some ''0000beef''" "[]" "[]" "''0000beef''"]
  by (auto simp: sample_client_def new_client_def split: option.splits)

text \<open>
  C25. Deleting a client on the list takes exactly that client out, keeps the others in
  their order with their slots, frees its cell and its slot and keeps the invariant.
\<close>

theorem client_list_delete_refines:
  assumes "clist_inv s" "client_at s a = Some c"
  shows "\<exists>s' us ws. client_list_delete a s = Ok s' \<and> clist_inv s' \<and>
    length (cl_arr s') = length (cl_arr s) \<and> clients s = us @ c # ws \<and> clients s' = us @ ws \<and>
    client_at s' a = None"
  using assms by (rule delete_refines)

lemma client_list_delete_refines_witness:
  "\<exists>s'. client_list_delete 0 sample_one = Ok s' \<and> clist_inv s' \<and> clients s' = []"
  using client_list_delete_refines [of sample_one 0 sample_client] by (auto simp: Cons_eq_append_conv)

text \<open>
  C26. Adding the client of an IP address, on every branch: an address that is malformed
  or has no ARP entry adds nothing; a known pair of IP and MAC address gives its client
  back unchanged; otherwise a client with a fresh token is appended unless the list is
  full. No pair of addresses ever appears twice.
\<close>

theorem client_list_add_client_spec:
  assumes "clist_inv s" "nat maxclients = length (cl_arr s)"
    "distinct (map (\<lambda>c. (c_ip c, c_mac c)) (clients s))"
  shows "case (if check_ip_format ip then arp ip else None) of
      None \<Rightarrow> client_list_add_client maxclients arp ra rb now ip s = Ok (None, s)
    | Some mac \<Rightarrow> (case List.find (\<lambda>c. c_ip c = ip \<and> c_mac c = mac) (clients s) of
        Some c \<Rightarrow> \<exists>a. client_list_add_client maxclients arp ra rb now ip s = Ok (Some a, s) \<and>
          client_at s a = Some c
      | None \<Rightarrow> if maxclients \<le> int (length (clients s))
          then client_list_add_client maxclients arp ra rb now ip s = Ok (None, s)
          else \<exists>a i s'. client_list_add_client maxclients arp ra rb now ip s = Ok (Some a, s') \<and>
            clist_inv s' \<and> length (cl_arr s') = length (cl_arr s) \<and> clients s' = clients s @
              [new_client ip mac (Some (fmt_04hx ra @ fmt_04hx rb)) now i] \<and>
            client_at s' a = Some (new_client ip mac (Some (fmt_04hx ra @ fmt_04hx rb)) now i) \<and>
            distinct (map (\<lambda>c. (c_ip c, c_mac c)) (clients s')))"
  using assms by (rule add_client_cases)

lemma client_list_add_client_spec_witness:
  "\<exists>a s' i. client_list_add_client 2 (\<lambda>ip. Some ''m'') 0x1f 0xbeef 9 ''10.0.0.3'' sample_one = Ok (Some a, s') \<and>
     clients s' = [sample_client, new_client ''10.0.0.3'' ''m'' (Some ''001fbeef'') 9 i]"
proof -
  have ip: "check_ip_format ''10.0.0.3''"
    using check_ip_dotted [of 10 0 0 3] by (simp add: udec_step udec_small char_of_def bit_0)
  have r2: "replicate 2 x = [x, x]" for x :: char by (simp add: numeral_2_eq_2)
  have r2: "replicate 2 x = [x, x]" for x :: char by (simp add: numeral_2_eq_2)
  have tok: "fmt_04hx 0x1f @ fmt_04hx 0xbeef = ''001fbeef''"
    by (simp add: fmt_04hx_def Let_def uhex_step uhex_small hexc_def char_of_def bit_0 r2)
  show ?thesis
    using client_list_add_client_spec [where s = sample_one and maxclients = 2 and ip = "''10.0.0.3''"
        and arp = "\<lambda>ip. Some ''m''" and ra = "0x1f" and rb = "0xbeef" and now = 9]
    by (auto simp: ip tok sample_client_def new_client_def)
qed

end
