(* ===== verification/World.thy ===== *)
theory World
  imports ClientList
begin

unbundle bit_operations_syntax

text \<open>
  The state of the daemon and its surroundings: the configuration, the client list, the
  globals of the firewall modules, and the log of the shell commands it has run. What the
  kernel and the outside world answer is a parameter, the record \<open>env\<close>: one answer per
  interaction, numbered by \<open>w_clock\<close>. The command runners \<^verbatim>\<open>execute\<close>
  (\<^verbatim>\<open>src/util.c\<close>), \<^verbatim>\<open>iptables_do_command\<close> (\<^verbatim>\<open>src/fw_iptables.c\<close>) and
  \<^verbatim>\<open>tc_do_command\<close> (\<^verbatim>\<open>src/tc.c\<close>) share the contract \<open>command_runner\<close>.
\<close>

section \<open>State\<close>

text \<open>What \<^verbatim>\<open>waitpid\<close> reports of a child.\<close>

datatype wait_status = Exited int | Signaled int | NoChild | WaitError

record env =
  e_sh :: "nat \<Rightarrow> string \<Rightarrow> wait_status"
  e_popen :: "nat \<Rightarrow> string \<Rightarrow> string option"
  e_time :: "nat \<Rightarrow> int"
  e_arp :: "nat \<Rightarrow> string option"
  e_rand :: "nat \<Rightarrow> 16 word"

record world =
  w_conf :: s_config
  w_clients :: clist
  w_MARK_PREAUTHENTICATED :: "32 word"
  w_MARK_AUTHENTICATED :: "32 word"
  w_MARK_BLOCKED :: "32 word"
  w_MARK_TRUSTED :: "32 word"
  w_MARK_MASK :: "32 word"
  w_markop :: string
  w_markmask :: string
  w_fw_quiet :: bool
  w_tc_quiet :: bool
  w_log :: "(string \<times> int) list"
  w_clock :: nat
  w_authenticated_since_start :: "32 word"

definition tick :: "world \<Rightarrow> world" where
  "tick w = w\<lparr>w_clock := Suc (w_clock w)\<rparr>"

definition time_now :: "env \<Rightarrow> world \<Rightarrow> int \<times> world" where
  "time_now e w = (e_time e (w_clock w), tick w)"

definition popen :: "env \<Rightarrow> string \<Rightarrow> world \<Rightarrow> string option \<times> world" where
  "popen e cmd w = (e_popen e (w_clock w) cmd, tick w)"

section \<open>Running commands\<close>

text \<open>
  \<^verbatim>\<open>execute\<close> forks a shell and turns the status of the child into a number. The log
  keeps every command with the number returned.
\<close>

fun wait_retval :: "wait_status \<Rightarrow> int" where
  "wait_retval (Exited n) = n"
| "wait_retval (Signaled n) = -1"
| "wait_retval NoChild = 0"
| "wait_retval WaitError = -1"

definition execute :: "env \<Rightarrow> string \<Rightarrow> world \<Rightarrow> int \<times> world" where
  "execute e cmd w =
     (let rc = wait_retval (e_sh e (w_clock w) cmd)
      in (rc, (tick w)\<lparr>w_log := w_log w @ [(cmd, rc)]\<rparr>))"

text \<open>
  Up to five attempts while the exit status is 4, a resource problem of iptables that may
  be temporary.
\<close>

fun iptables_attempts :: "env \<Rightarrow> nat \<Rightarrow> string \<Rightarrow> world \<Rightarrow> int \<times> world" where
  "iptables_attempts e 0 cmd w = execute e cmd w"
| "iptables_attempts e (Suc n) cmd w =
     (case execute e cmd w of (rc, w') \<Rightarrow> if rc = 4 then iptables_attempts e n cmd w' else (rc, w'))"

definition ipt_cmd :: "string \<Rightarrow> string" where
  "ipt_cmd fmt_cmd = ''iptables '' @ fmt_cmd"

definition tc_cmd :: "string \<Rightarrow> string" where
  "tc_cmd fmt_cmd = ''tc '' @ fmt_cmd"

definition iptables_do_command :: "env \<Rightarrow> string \<Rightarrow> world \<Rightarrow> int \<times> world" where
  "iptables_do_command e fmt_cmd w = iptables_attempts e 4 (ipt_cmd fmt_cmd) w"

definition tc_do_command :: "env \<Rightarrow> string \<Rightarrow> world \<Rightarrow> int \<times> world" where
  "tc_do_command e fmt_cmd w = execute e (tc_cmd fmt_cmd) w"

text \<open>\<^verbatim>\<open>rc |= f(cmd)\<close> for one command after the other.\<close>

fun or_all :: "(string \<Rightarrow> world \<Rightarrow> int \<times> world) \<Rightarrow> string list \<Rightarrow> int \<times> world \<Rightarrow> int \<times> world" where
  "or_all f [] rw = rw"
| "or_all f (c # cs) (rc, w) = (case f c w of (r, w') \<Rightarrow> or_all f cs (rc OR r, w'))"

section \<open>What a command runner does\<close>

text \<open>The part of the state that commands leave alone.\<close>

definition same_daemon :: "world \<Rightarrow> world \<Rightarrow> bool" where
  "same_daemon w w' \<longleftrightarrow> w' = w\<lparr>w_log := w_log w', w_clock := w_clock w'\<rparr>"

lemma same_daemon_refl [simp]: "same_daemon w w"
  by (simp add: same_daemon_def)

lemma same_daemon_fields:
  assumes "same_daemon w w'"
  shows "w_conf w' = w_conf w" "w_clients w' = w_clients w"
    "w_MARK_AUTHENTICATED w' = w_MARK_AUTHENTICATED w" "w_MARK_BLOCKED w' = w_MARK_BLOCKED w"
    "w_MARK_TRUSTED w' = w_MARK_TRUSTED w" "w_MARK_MASK w' = w_MARK_MASK w"
    "w_MARK_PREAUTHENTICATED w' = w_MARK_PREAUTHENTICATED w"
    "w_markop w' = w_markop w" "w_markmask w' = w_markmask w"
    "w_fw_quiet w' = w_fw_quiet w" "w_tc_quiet w' = w_tc_quiet w"
    "w_authenticated_since_start w' = w_authenticated_since_start w"
  by (subst assms [unfolded same_daemon_def], simp)+

lemma same_daemon_trans: "same_daemon w w' \<Longrightarrow> same_daemon w' w'' \<Longrightarrow> same_daemon w w''"
  by (cases w; cases w'; cases w'') (simp add: same_daemon_def)

text \<open>
  The commands that took effect: the entries of a log whose exit status is 0, in order.
\<close>

definition effects :: "(string \<times> int) list \<Rightarrow> string list" where
  "effects l = map fst (filter (\<lambda>(c, rc). rc = 0) l)"

lemma effects_append [simp]: "effects (l @ l') = effects l @ effects l'"
  by (simp add: effects_def)

lemma effects_Nil [simp]: "effects [] = []"
  by (simp add: effects_def)

lemma effects_single [simp]: "effects [(c, rc)] = (if rc = 0 then [c] else [])"
  by (simp add: effects_def)

text \<open>
  A runner runs its command one or more times, the last attempt giving the result, takes
  effect exactly once if that is 0 and not at all otherwise, and touches nothing else.
\<close>

locale command_runner =
  fixes run :: "string \<Rightarrow> world \<Rightarrow> int \<times> world"
    and full :: "string \<Rightarrow> string"
  assumes run_log: "run c w = (rc, w') \<Longrightarrow> \<exists>l. w_log w' = w_log w @ l @ [(full c, rc)] \<and>
      (\<forall>x \<in> set l. fst x = full c \<and> snd x \<noteq> 0)"
    and run_same: "run c w = (rc, w') \<Longrightarrow> same_daemon w w'"
begin

lemma run_effects:
  assumes "run c w = (rc, w')"
  shows "effects (w_log w') = effects (w_log w) @ (if rc = 0 then [full c] else [])"
proof -
  obtain l where l: "w_log w' = w_log w @ l @ [(full c, rc)]" "\<forall>x \<in> set l. snd x \<noteq> 0"
    using run_log [OF assms] by blast
  then have "effects l = []" by (auto simp: effects_def filter_empty_conv)
  with l(1) show ?thesis by simp
qed

lemma or_all_same: "or_all run cs (r0, w) = (rc, w') \<Longrightarrow> same_daemon w w'"
proof (induction cs arbitrary: r0 w)
  case (Cons c cs)
  obtain r1 w1 where r: "run c w = (r1, w1)" by (cases "run c w")
  with Cons.prems have "or_all run cs (r0 OR r1, w1) = (rc, w')" by simp
  from Cons.IH [OF this] run_same [OF r] show ?case by (blast intro: same_daemon_trans)
qed simp

lemma or_zero: "x OR y = (0 :: int) \<longleftrightarrow> x = 0 \<and> y = 0"
  by (auto simp: bit_eq_iff bit_or_iff)

text \<open>
  A sequence of commands reports 0 only when every command did, and then all of them took
  effect in order.
\<close>

lemma or_all_zero:
  assumes "or_all run cs (r0, w) = (0, w')"
  shows "r0 = 0 \<and> effects (w_log w') = effects (w_log w) @ map full cs"
  using assms
proof (induction cs arbitrary: r0 w)
  case (Cons c cs)
  obtain r1 w1 where r: "run c w = (r1, w1)" by (cases "run c w")
  with Cons.prems have "or_all run cs (r0 OR r1, w1) = (0, w')" by simp
  from Cons.IH [OF this] run_effects [OF r] show ?case by (simp add: or_zero)
qed simp

text \<open>In any case what took effect is some of the commands, in their order.\<close>

lemma or_all_effects:
  assumes "or_all run cs (r0, w) = (rc, w')"
  shows "\<exists>cs'. effects (w_log w') = effects (w_log w) @ map full cs' \<and> set cs' \<subseteq> set cs"
  using assms
proof (induction cs arbitrary: r0 w)
  case Nil
  then show ?case by (auto intro: exI [of _ "[]"])
next
  case (Cons c cs)
  obtain r1 w1 where r: "run c w = (r1, w1)" by (cases "run c w")
  with Cons.prems have "or_all run cs (r0 OR r1, w1) = (rc, w')" by simp
  from Cons.IH [OF this] obtain cs' where "effects (w_log w') = effects (w_log w1) @ map full cs'"
    "set cs' \<subseteq> set cs" by blast
  with run_effects [OF r] show ?case
    by (intro exI [of _ "if r1 = 0 then c # cs' else cs'"]) auto
qed

end

lemma execute_same: "execute e c w = (rc, w') \<Longrightarrow> same_daemon w w'"
  by (auto simp: execute_def Let_def same_daemon_def tick_def)

lemma execute_log: "execute e c w = (rc, w') \<Longrightarrow> w_log w' = w_log w @ [(c, rc)]"
  by (auto simp: execute_def Let_def)

lemma iptables_attempts_log:
  "iptables_attempts e n c w = (rc, w') \<Longrightarrow>
   \<exists>l. w_log w' = w_log w @ l @ [(c, rc)] \<and> length l \<le> n \<and> (\<forall>x \<in> set l. x = (c, 4)) \<and>
     (length l < n \<longrightarrow> rc \<noteq> 4)"
proof (induction n arbitrary: w)
  case 0
  then show ?case by (auto dest: execute_log)
next
  case (Suc n)
  obtain r1 w1 where r: "execute e c w = (r1, w1)" by (cases "execute e c w")
  show ?case
  proof (cases "r1 = 4")
    case True
    with Suc.prems r have "iptables_attempts e n c w1 = (rc, w')" by simp
    from Suc.IH [OF this] obtain l where "w_log w' = w_log w1 @ l @ [(c, rc)]" "length l \<le> n"
      "\<forall>x \<in> set l. x = (c, 4)" "length l < n \<longrightarrow> rc \<noteq> 4" by blast
    with execute_log [OF r] True show ?thesis by (intro exI [of _ "(c, 4) # l"]) auto
  next
    case False
    with Suc.prems r have "r1 = rc" "w1 = w'" by simp_all
    with execute_log [OF r] False show ?thesis by (intro exI [of _ "[]"]) auto
  qed
qed

lemma iptables_attempts_same: "iptables_attempts e n c w = (rc, w') \<Longrightarrow> same_daemon w w'"
proof (induction n arbitrary: w)
  case 0
  then show ?case by (auto dest: execute_same)
next
  case (Suc n)
  obtain r1 w1 where r: "execute e c w = (r1, w1)" by (cases "execute e c w")
  with Suc show ?case by (auto dest: execute_same same_daemon_trans split: if_splits)
qed

interpretation sh: command_runner "execute e" "\<lambda>c. c" for e
  by unfold_locales (auto dest: execute_log execute_same intro: exI [of _ "[]"])

interpretation ipt: command_runner "iptables_do_command e" ipt_cmd for e
proof unfold_locales
  fix c w rc w'
  assume "iptables_do_command e c w = (rc, w')"
  then have a: "iptables_attempts e 4 (ipt_cmd c) w = (rc, w')"
    by (simp add: iptables_do_command_def)
  then show "same_daemon w w'" by (rule iptables_attempts_same)
  from iptables_attempts_log [OF a]
  show "\<exists>l. w_log w' = w_log w @ l @ [(ipt_cmd c, rc)] \<and>
      (\<forall>x \<in> set l. fst x = ipt_cmd c \<and> snd x \<noteq> 0)" by fastforce
qed

interpretation tc: command_runner "tc_do_command e" tc_cmd for e
  by unfold_locales
     (auto simp: tc_do_command_def dest: execute_log execute_same intro: exI [of _ "[]"])

section \<open>Properties\<close>

text \<open>
  Running one iptables command: it is run once, and again only while it exits with 4,
  at most five times in all; the last status is the result, nothing but the log and the
  clock changes, and the command takes effect exactly when the result is 0.
\<close>

theorem iptables_do_command_spec:
  assumes "iptables_do_command e c w = (rc, w')"
  shows "\<exists>n. w_log w' = w_log w @ replicate n (ipt_cmd c, 4) @ [(ipt_cmd c, rc)] \<and>
    n \<le> 4 \<and> (n < 4 \<longrightarrow> rc \<noteq> 4) \<and>
    effects (w_log w') = effects (w_log w) @ (if rc = 0 then [ipt_cmd c] else []) \<and>
    same_daemon w w'"
proof -
  have a: "iptables_attempts e 4 (ipt_cmd c) w = (rc, w')"
    using assms by (simp add: iptables_do_command_def)
  from iptables_attempts_log [OF a] obtain l where l: "w_log w' = w_log w @ l @ [(ipt_cmd c, rc)]"
    "length l \<le> 4" "\<forall>x \<in> set l. x = (ipt_cmd c, 4)" "length l < 4 \<longrightarrow> rc \<noteq> 4" by blast
  from l(3) have "l = replicate (length l) (ipt_cmd c, 4)"
    by (simp add: replicate_eqI)
  with l ipt.run_effects [OF assms] iptables_attempts_same [OF a] show ?thesis by metis
qed

text \<open>A world in which iptables is busy at the first attempt and every command works.\<close>

definition sample_env :: env where
  "sample_env = \<lparr>e_sh = (\<lambda>n c. Exited (if n = 0 then 4 else 0)), e_popen = (\<lambda>n c. None),
     e_time = (\<lambda>n. int n), e_arp = (\<lambda>n. None), e_rand = (\<lambda>n. 7)\<rparr>"

definition sample_world :: world where
  "sample_world = \<lparr>w_conf = config_init, w_clients = sample_one, w_MARK_PREAUTHENTICATED = 0,
     w_MARK_AUTHENTICATED = 0x400, w_MARK_BLOCKED = 0x100, w_MARK_TRUSTED = 0x200,
     w_MARK_MASK = 0x700, w_markop = ''--or-mark'', w_markmask = ''/0x700'',
     w_fw_quiet = False, w_tc_quiet = False, w_log = [], w_clock = 0,
     w_authenticated_since_start = 0\<rparr>"

lemma iptables_do_command_spec_witness:
  "iptables_do_command sample_env ''-L'' sample_world =
     (0, sample_world\<lparr>w_log := [(''iptables -L'', 4), (''iptables -L'', 0)], w_clock := 2\<rparr>) \<and>
   effects [(''iptables -L'', 4), (''iptables -L'', 0)] = [''iptables -L'']"
proof -
  have "iptables_do_command sample_env ''-L'' sample_world =
      (0, sample_world\<lparr>w_log := [(''iptables -L'', 4), (''iptables -L'', 0)], w_clock := 2\<rparr>)"
    by (simp add: iptables_do_command_def ipt_cmd_def eval_nat_numeral execute_def Let_def tick_def
        sample_env_def sample_world_def)
  moreover from iptables_do_command_spec [OF this]
  have "effects [(''iptables -L'', 4), (''iptables -L'', 0)] = [''iptables -L'']"
    by (auto simp: sample_world_def ipt_cmd_def)
  ultimately show ?thesis by blast
qed

end
