(* ===== verification/Tc.thy ===== *)
theory Tc
  imports World
begin

text \<open>
  Traffic control (\<^verbatim>\<open>src/tc.c\<close>): the commands that attach and detach the classes of a
  client, and the set-up and removal of the intermediate queueing devices. A command is
  the string handed to the shell.
\<close>

section \<open>Arithmetic\<close>

text \<open>C's division rounds towards zero.\<close>

definition cdiv :: "int \<Rightarrow> int \<Rightarrow> int" where
  "cdiv a b = (if 0 \<le> a then a div b else - ((- a) div b))"

text \<open>The burst in bytes of a limit in kbit/s, at least \<^verbatim>\<open>MTU + 40\<close>.\<close>

definition tc_mtu :: int where "tc_mtu = 1500 + 40"

definition tc_burst :: "int \<Rightarrow> int" where
  "tc_burst limit =
     (let burst = cdiv (cdiv (s32 (limit * 1000)) 8) 100
      in if burst < tc_mtu then tc_mtu else burst)"

text \<open>\<^verbatim>\<open>%x\<close> of an unsigned mark.\<close>

definition hx :: "32 word \<Rightarrow> string" where
  "hx m = uhex (unat m)"

section \<open>The classes of a client\<close>

definition tc_class_cmd :: "string \<Rightarrow> int \<Rightarrow> nat \<Rightarrow> string" where
  "tc_class_cmd dev limit idx =
     ''class add dev '' @ dev @ '' parent 1:1 classid 1:'' @ udec (idx + 10) @
     '' htb rate '' @ fmt_d limit @ ''kbit ceil '' @ fmt_d limit @ ''kbit burst '' @
     fmt_d (s32 (tc_burst limit * 10)) @ '' cburst '' @ fmt_d (tc_burst limit) @ '' mtu '' @
     fmt_d tc_mtu @ '' prio 1''"

definition tc_filter_cmd :: "string \<Rightarrow> nat \<Rightarrow> 32 word \<Rightarrow> string" where
  "tc_filter_cmd dev idx fw_mark =
     ''filter add dev '' @ dev @ '' protocol ip parent 1: handle 0x'' @ uhex (idx + 10) @
     hx fw_mark @ '' fw flowid 1:'' @ udec (idx + 10)"

definition tc_attach_client ::
    "env \<Rightarrow> string \<Rightarrow> int \<Rightarrow> string \<Rightarrow> int \<Rightarrow> nat \<Rightarrow> 32 word \<Rightarrow> world \<Rightarrow> int \<times> world" where
  "tc_attach_client e down_dev download_limit up_dev upload_limit idx fw_mark w =
     or_all (tc_do_command e)
       [tc_class_cmd down_dev download_limit idx, tc_filter_cmd down_dev idx fw_mark,
        tc_class_cmd up_dev upload_limit idx, tc_filter_cmd up_dev idx fw_mark] (0, w)"

definition tc_detach_cmd :: "string \<Rightarrow> nat \<Rightarrow> string" where
  "tc_detach_cmd dev idx =
     ''class del dev '' @ dev @ '' parent 1: classid 1:'' @ udec (idx + 10)"

definition tc_detach_client :: "env \<Rightarrow> string \<Rightarrow> string \<Rightarrow> nat \<Rightarrow> world \<Rightarrow> int \<times> world" where
  "tc_detach_client e down_dev up_dev idx w =
     or_all (tc_do_command e) [tc_detach_cmd down_dev idx, tc_detach_cmd up_dev idx] (0, w)"

section \<open>The devices\<close>

definition tc_qdisc_cmds :: "string \<Rightarrow> int \<Rightarrow> string list" where
  "tc_qdisc_cmds dev limit =
     [''qdisc add dev '' @ dev @ '' root handle 1: htb default 2 r2q 1700'',
      ''class add dev '' @ dev @ '' parent 1: classid 1:1 htb rate 100Mbps ceil 100Mbps burst '' @
        fmt_d (s32 (tc_burst limit * 10)) @ '' cburst '' @ fmt_d (tc_burst limit) @ '' mtu '' @ fmt_d tc_mtu,
      ''class add dev '' @ dev @ '' parent 1:1 classid 1:2 htb rate '' @ fmt_d limit @ ''kbit ceil '' @
        fmt_d limit @ ''kbit burst '' @ fmt_d (s32 (tc_burst limit * 10)) @ '' cburst '' @
        fmt_d (tc_burst limit) @ '' mtu '' @ fmt_d tc_mtu @ '' prio 1'']"

definition tc_attach_upload_qdisc :: "env \<Rightarrow> string \<Rightarrow> int \<Rightarrow> world \<Rightarrow> int \<times> world" where
  "tc_attach_upload_qdisc e dev upload_limit w =
     or_all (tc_do_command e) (tc_qdisc_cmds dev upload_limit) (0, w)"

definition tc_attach_download_qdisc :: "env \<Rightarrow> string \<Rightarrow> int \<Rightarrow> world \<Rightarrow> int \<times> world" where
  "tc_attach_download_qdisc e dev download_limit w =
     or_all (tc_do_command e) (tc_qdisc_cmds dev download_limit) (0, w)"

definition imq :: "int \<Rightarrow> string" where
  "imq n = ''imq'' @ fmt_d n"

text \<open>
  One direction of \<^verbatim>\<open>tc_init_tc\<close>: bring the device up; when that fails the download part
  goes on with the result so far, the upload part with -1.
\<close>

definition tc_init_dev ::
    "env \<Rightarrow> string \<Rightarrow> int \<Rightarrow> int \<Rightarrow> (string \<Rightarrow> int \<Rightarrow> world \<Rightarrow> int \<times> world) \<Rightarrow> int \<Rightarrow> int \<times> world \<Rightarrow> int \<times> world" where
  "tc_init_dev e chain imq_no limit attach failed rw =
     (case rw of (rc, w) \<Rightarrow>
        if limit > 0 then
          (case execute e (''ip link set '' @ imq imq_no @ '' up'') w of (ret, w1) \<Rightarrow>
             if ret \<noteq> 0 then (failed, w1)
             else case iptables_do_command e
                    (''-t mangle -A '' @ chain @ '' -j IMQ --todev '' @ fmt_d imq_no @ '' '') w1 of (r1, w2) \<Rightarrow>
               case attach (imq imq_no) limit w2 of (r2, w3) \<Rightarrow> ((rc OR r1) OR r2, w3))
        else (rc, w))"

definition tc_init_tc :: "env \<Rightarrow> world \<Rightarrow> int \<times> world" where
  "tc_init_tc e w =
     (let c = w_conf w;
          down = tc_init_dev e ''ndsINC'' (cf_download_imq c) (cf_download_limit c)
            (tc_attach_download_qdisc e) 0 (0, w\<lparr>w_tc_quiet := False\<rparr>)
      in tc_init_dev e ''ndsOUT'' (cf_upload_imq c) (cf_upload_limit c)
           (tc_attach_upload_qdisc e) (-1) down)"

definition tc_destroy_tc :: "env \<Rightarrow> world \<Rightarrow> int \<times> world" where
  "tc_destroy_tc e w =
     (let old_tc_quiet = w_tc_quiet w;
          down = imq (cf_download_imq (w_conf w)); up = imq (cf_upload_imq (w_conf w));
          rw = or_all (tc_do_command e)
                 [''qdisc del dev '' @ down @ '' root'', ''qdisc del dev '' @ up @ '' root'']
                 (0, w\<lparr>w_tc_quiet := True\<rparr>);
          (rc, w') = or_all (execute e)
                 [''ip link set '' @ down @ '' down'', ''ip link set '' @ up @ '' down''] rw
      in (rc, w'\<lparr>w_tc_quiet := old_tc_quiet\<rparr>))"

section \<open>Lemmas\<close>

lemma tc_burst_ge: "tc_mtu \<le> tc_burst limit"
  by (simp add: tc_burst_def Let_def)

lemma tc_attach_client_same:
  "tc_attach_client e dd dl ud ul i m w = (rc, w') \<Longrightarrow> same_daemon w w'"
  unfolding tc_attach_client_def by (rule tc.or_all_same)

lemma tc_detach_client_same: "tc_detach_client e dd ud i w = (rc, w') \<Longrightarrow> same_daemon w w'"
  unfolding tc_detach_client_def by (rule tc.or_all_same)

end
