(* ===== verification/FwRules.thy ===== *)
theory FwRules
  imports Config
begin

text \<open>
  The line-level parsers of the configuration file (\<^verbatim>\<open>src/conf.c\<close>):
  \<^verbatim>\<open>_strip_whitespace\<close>, the macro \<^verbatim>\<open>TO_NEXT_WORD\<close>, one firewall rule, a firewall
  ruleset up to its closing brace, the empty-ruleset policy and booleans.
\<close>

section \<open>Stripping a line\<close>

text \<open>
  The text before the first \<^verbatim>\<open>#\<close> that no backslash precedes. The first argument is the
  character before the rest of the line, if there is one.
\<close>

fun cut_comment :: "char option \<Rightarrow> string \<Rightarrow> string" where
  "cut_comment prev [] = []"
| "cut_comment prev (c # s) =
     (if c = CHR ''#'' \<and> prev \<noteq> Some (CHR 0x5C) then [] else c # cut_comment (Some c) s)"

definition rstrip :: "string \<Rightarrow> string" where
  "rstrip s = rev (dropWhile isspace (rev s))"

text \<open>
  \<^verbatim>\<open>_strip_whitespace\<close> works in the line buffer and overwrites what it cuts with NULs.
  \<open>strip_whitespace\<close> is the string it returns a pointer to; \<open>strip_after\<close> the string that
  starts one byte behind its terminator: \<open>None\<close> when that byte lies behind the line
  read, in what earlier lines left in the buffer.
\<close>

definition strip_whitespace :: "string \<Rightarrow> string" where
  "strip_whitespace line = rstrip (dropWhile isspace (cut_comment None line))"

definition strip_after :: "string \<Rightarrow> string option" where
  "strip_after line =
     (let text = cut_comment None line;
          n = length (takeWhile isspace text) + length (strip_whitespace line)
      in if n = length line then None
         else if n < length text then Some []
         else Some (drop (Suc n) line))"

section \<open>Words\<close>

text \<open>
  \<^verbatim>\<open>TO_NEXT_WORD(s, e)\<close>: the word left behind, the rest of the line from its next
  word on, and the flag, set when the end of the string was reached.
\<close>

definition to_next_word :: "string \<Rightarrow> bool \<Rightarrow> string \<times> string \<times> bool" where
  "to_next_word s e =
     (let w = takeWhile (\<lambda>c. \<not> isblank c) s; r = dropWhile (\<lambda>c. \<not> isblank c) s
      in case r of [] \<Rightarrow> (w, [], True) | _ # r' \<Rightarrow> (w, dropWhile isblank r', e))"

section \<open>One firewall rule\<close>

definition rule_target :: "string \<Rightarrow> t_firewall_target option" where
  "rule_target token =
     (if strcasecmp_eq token ''block'' then Some TARGET_REJECT
      else if strcasecmp_eq token ''drop'' then Some TARGET_DROP
      else if strcasecmp_eq token ''allow'' then Some TARGET_ACCEPT
      else if strcasecmp_eq token ''log'' then Some TARGET_LOG
      else if strcasecmp_eq token ''ulog'' then Some TARGET_ULOG
      else None)"

definition rule_protocol :: "string \<Rightarrow> bool \<Rightarrow> string option \<times> string \<times> bool" where
  "rule_protocol leftover finished =
     (if strncmp_eq leftover ''tcp'' 3 \<or> strncmp_eq leftover ''udp'' 3 \<or>
         strncmp_eq leftover ''all'' 3 \<or> strncmp_eq leftover ''icmp'' 4
      then case to_next_word leftover finished of (w, r, e) \<Rightarrow> (Some w, r, e)
      else (None, leftover, finished))"

definition port_char :: "char \<Rightarrow> bool" where
  "port_char c \<longleftrightarrow> isdigit c \<or> c = CHR '':''"

definition rule_port ::
    "string option \<Rightarrow> string \<Rightarrow> bool \<Rightarrow> int + (string option \<times> string \<times> bool)" where
  "rule_port protocol leftover finished =
     (if strncmp_eq leftover ''port'' 4 then
        (case protocol of
           None \<Rightarrow> Inl (-3)
         | Some p \<Rightarrow>
             if \<not> (strncmp_eq p ''tcp'' 3 \<or> strncmp_eq p ''udp'' 3) then Inl (-3)
             else case to_next_word leftover finished of (_, r, e) \<Rightarrow>
               case to_next_word r e of (port, r', e') \<Rightarrow>
                 if list_all port_char port then Inr (Some port, r', e') else Inl (-3))
      else Inr (None, leftover, finished))"

definition mask_char :: "char \<Rightarrow> bool" where
  "mask_char c \<longleftrightarrow> isdigit c \<or> c = CHR ''.'' \<or> c = CHR ''/''"

definition rule_mask :: "string \<Rightarrow> bool \<Rightarrow> int + string option" where
  "rule_mask leftover finished =
     (if finished then Inr None
      else case to_next_word leftover finished of (other_kw, r, e) \<Rightarrow>
        if other_kw \<noteq> ''to'' \<or> e then Inl (-4)
        else case to_next_word r e of (m, _, _) \<Rightarrow>
          if list_all mask_char m then Inr (Some m) else Inl (-5))"

definition parse_firewall_rule ::
    "t_firewall_ruleset \<Rightarrow> string \<Rightarrow> int \<times> t_firewall_ruleset" where
  "parse_firewall_rule ruleset leftover0 =
     (case to_next_word (map tolower leftover0) False of (token, leftover, finished) \<Rightarrow>
        case rule_target token of
          None \<Rightarrow> (-1, ruleset)
        | Some target \<Rightarrow>
            (case rule_protocol leftover finished of (protocol, leftover, finished) \<Rightarrow>
               case rule_port protocol leftover finished of
                 Inl err \<Rightarrow> (err, ruleset)
               | Inr (port, leftover, finished) \<Rightarrow>
                   (case rule_mask leftover finished of
                      Inl err \<Rightarrow> (err, ruleset)
                    | Inr m \<Rightarrow>
                        (1, ruleset\<lparr>rs_rules := rs_rules ruleset @
                           [\<lparr>r_target = target, r_protocol = protocol, r_port = port,
                             r_mask = Some (case m of None \<Rightarrow> ''0.0.0.0/0'' | Some x \<Rightarrow> x)\<rparr>]\<rparr>))))"

section \<open>Booleans and keywords\<close>

definition parse_boolean_value :: "string \<Rightarrow> int" where
  "parse_boolean_value line =
     (if strcasecmp_eq line ''no'' \<or> strcasecmp_eq line ''false'' \<or> line = ''0'' then 0
      else if strcasecmp_eq line ''yes'' \<or> strcasecmp_eq line ''true'' \<or> line = ''1'' then 1
      else -1)"

datatype OpCodes =
    oBadOption | oDaemon | oDebugLevel | oMaxClients | oExternalInterface | oGatewayName
  | oGatewayInterface | oGatewayIPRange | oGatewayAddress | oGatewayPort
  | oRemoteAuthenticatorAction | oEnablePreAuth | oBinVoucher | oForceVoucher
  | oPasswordAuthentication | oUsernameAuthentication | oPasswordAttempts | oUsername
  | oPassword | oHTTPDMaxConn | oWebRoot | oSplashPage | oImagesDir | oPagesDir
  | oRedirectURL | oClientIdleTimeout | oClientForceTimeout | oCheckInterval
  | oAuthenticateImmediately | oSetMSS | oMSSValue | oTrafficControl | oDownloadLimit
  | oUploadLimit | oDownloadIMQ | oUploadIMQ | oNdsctlSocket | oDecongestHttpdThreads
  | oHttpdThreadThreshold | oHttpdThreadDelayMS | oSyslogFacility | oFirewallRule
  | oFirewallRuleSet | oEmptyRuleSetPolicy | oMACmechanism | oTrustedMACList
  | oBlockedMACList | oAllowedMACList | oFWMarkAuthenticated | oFWMarkTrusted
  | oFWMarkBlocked | oAuthServer | oAuthPort | oAuthPath | oConfigPath | oNetTrafficPath
  | oTokenVerifyPath | oFreeIPList | oFreeDomainList | oUID

definition keyword_table :: "(string \<times> OpCodes) list" where
  "keyword_table = [
     (''daemon'', oDaemon), (''debuglevel'', oDebugLevel), (''maxclients'', oMaxClients),
     (''externalinterface'', oExternalInterface), (''gatewayname'', oGatewayName),
     (''gatewayinterface'', oGatewayInterface), (''gatewayiprange'', oGatewayIPRange),
     (''gatewayaddress'', oGatewayAddress), (''gatewayport'', oGatewayPort),
     (''remoteauthenticatoraction'', oRemoteAuthenticatorAction),
     (''enablepreauth'', oEnablePreAuth), (''binvoucher'', oBinVoucher),
     (''forcevoucher'', oForceVoucher), (''passwordauthentication'', oPasswordAuthentication),
     (''usernameauthentication'', oUsernameAuthentication),
     (''passwordattempts'', oPasswordAttempts), (''username'', oUsername),
     (''password'', oPassword), (''webroot'', oWebRoot), (''splashpage'', oSplashPage),
     (''imagesdir'', oImagesDir), (''pagesdir'', oPagesDir), (''redirectURL'', oRedirectURL),
     (''clientidletimeout'', oClientIdleTimeout), (''clientforcetimeout'', oClientForceTimeout),
     (''checkinterval'', oCheckInterval), (''authenticateimmediately'', oAuthenticateImmediately),
     (''setmss'', oSetMSS), (''mssvalue'', oMSSValue), (''trafficcontrol'', oTrafficControl),
     (''downloadlimit'', oDownloadLimit), (''uploadlimit'', oUploadLimit),
     (''downloadimq'', oDownloadIMQ), (''uploadimq'', oUploadIMQ),
     (''syslogfacility'', oSyslogFacility), (''syslogfacility'', oSyslogFacility),
     (''ndsctlsocket'', oNdsctlSocket), (''decongesthttpdthreads'', oDecongestHttpdThreads),
     (''httpdthreadthreshold'', oHttpdThreadThreshold),
     (''httpdthreaddelayms'', oHttpdThreadDelayMS), (''firewallruleset'', oFirewallRuleSet),
     (''firewallrule'', oFirewallRule), (''emptyrulesetpolicy'', oEmptyRuleSetPolicy),
     (''trustedmaclist'', oTrustedMACList), (''blockedmaclist'', oBlockedMACList),
     (''allowedmaclist'', oAllowedMACList), (''MACmechanism'', oMACmechanism),
     (''FW_MARK_AUTHENTICATED'', oFWMarkAuthenticated), (''FW_MARK_TRUSTED'', oFWMarkTrusted),
     (''FW_MARK_BLOCKED'', oFWMarkBlocked), (''authserver'', oAuthServer),
     (''authport'', oAuthPort), (''authpath'', oAuthPath), (''configpath'', oConfigPath),
     (''nettrafficpath'', oNetTrafficPath), (''tokenverifypath'', oTokenVerifyPath),
     (''freeiplist'', oFreeIPList), (''freedomainlist'', oFreeDomainList), (''uid'', oUID)]"

definition config_parse_opcode :: "string \<Rightarrow> OpCodes" where
  "config_parse_opcode cp =
     (case List.find (\<lambda>kw. strcasecmp_eq cp (fst kw)) keyword_table of
        Some kw \<Rightarrow> snd kw | None \<Rightarrow> oBadOption)"

section \<open>Rulesets\<close>

text \<open>The name is cut at the first space and then at the first tab.\<close>

definition ruleset_arg_name :: "string \<Rightarrow> string" where
  "ruleset_arg_name s = takeWhile (\<lambda>c. c \<noteq> CHR 0x09) (takeWhile (\<lambda>c. c \<noteq> CHR '' '') s)"

text \<open>
  The loop over the lines of the file inside the braces. It returns the ruleset and the
  unread rest of the file; a rule that does not parse is dropped without an error, a line
  without an argument and any other option end the program.
\<close>

function ruleset_lines :: "t_firewall_ruleset \<Rightarrow> string \<Rightarrow> (t_firewall_ruleset \<times> string) result" where
  "ruleset_lines rs fd =
     (case fgets MAX_BUF fd of
        None \<Rightarrow> Ok (rs, [])
      | Some (line, rest) \<Rightarrow>
          let p1 = strip_whitespace line in
          if p1 = [] then ruleset_lines rs rest
          else if hd p1 = CHR 0x7D then Ok (rs, rest)
          else let w = takeWhile (\<lambda>c. \<not> isblank c) p1; p2 = dropWhile (\<lambda>c. \<not> isblank c) p1 in
            if p2 = [] then Exit (-1)
            else if config_parse_opcode w = oFirewallRule
              then ruleset_lines (snd (parse_firewall_rule rs (dropWhile isblank (tl p2)))) rest
              else Exit (-1))"
  by pat_completeness auto
termination
  by (relation "measure (\<lambda>(rs, fd). length fd)") (auto dest!: fgets_decreases)

declare ruleset_lines.simps [simp del]

definition parse_firewall_ruleset :: "string \<Rightarrow> string \<Rightarrow> s_config \<Rightarrow> (s_config \<times> string) result" where
  "parse_firewall_ruleset arg fd c =
     (let name = ruleset_arg_name arg in
      case get_ruleset name c of
        None \<Rightarrow> Exit (-1)
      | Some rs \<Rightarrow> rbind (ruleset_lines rs fd) (\<lambda>(rs', rest).
          Ok (upd_ruleset name (\<lambda>_. rs') c, rest)))"

text \<open>
  The policy directive reads on behind the terminator when the line holds only a name;
  \<open>after\<close> is the string found there, if it is part of what was read.
\<close>

definition parse_empty_ruleset_policy :: "string \<Rightarrow> string option \<Rightarrow> s_config \<Rightarrow> s_config result" where
  "parse_empty_ruleset_policy ptr after c =
     (let p = dropWhile isblank ptr;
          rulesetname = takeWhile (\<lambda>ch. \<not> isblank ch) p;
          r = dropWhile (\<lambda>ch. \<not> isblank ch) p
      in case get_ruleset rulesetname c of
           None \<Rightarrow> Exit (-1)
         | Some rs \<Rightarrow>
             (case (if r = [] then after else Some (tl r)) of
                None \<Rightarrow> Undef
              | Some q \<Rightarrow>
                  let policy = takeWhile (\<lambda>ch. \<not> isblank ch) (dropWhile isblank q) in
                  if strcasecmp_eq policy ''passthrough''
                    then Ok (set_ruleset_policy rulesetname ''RETURN'' c)
                  else if strcasecmp_eq policy ''allow''
                    then Ok (set_ruleset_policy rulesetname ''ACCEPT'' c)
                  else if strcasecmp_eq policy ''block''
                    then Ok (set_ruleset_policy rulesetname ''REJECT'' c)
                  else Exit (-1)))"

section \<open>Lemmas on stripping\<close>

text \<open>A \<^verbatim>\<open>#\<close> that no backslash precedes occurs nowhere in the text.\<close>

fun no_bare_hash :: "char option \<Rightarrow> string \<Rightarrow> bool" where
  "no_bare_hash prev [] \<longleftrightarrow> True"
| "no_bare_hash prev (c # s) \<longleftrightarrow>
     (c = CHR ''#'' \<longrightarrow> prev = Some (CHR 0x5C)) \<and> no_bare_hash (Some c) s"

lemma cut_comment_no_hash: "no_bare_hash prev (cut_comment prev s)"
  by (induction prev s rule: cut_comment.induct) auto

lemma cut_comment_split:
  "\<exists>v. s = cut_comment prev s @ v \<and> (v = [] \<or> hd v = CHR ''#'')"
proof (induction prev s rule: cut_comment.induct)
  case (2 prev c s)
  show ?case
  proof (cases "c = CHR ''#'' \<and> prev \<noteq> Some (CHR 0x5C)")
    case False
    with 2 obtain v where "s = cut_comment (Some c) s @ v" "v = [] \<or> hd v = CHR ''#''" by auto
    with False show ?thesis by auto
  qed simp
qed simp

lemma no_bare_hash_append:
  "no_bare_hash prev (u @ v) \<longleftrightarrow>
     no_bare_hash prev u \<and> no_bare_hash (if u = [] then prev else Some (last u)) v"
  by (induction u arbitrary: prev) auto

lemma no_bare_hash_weaken: "no_bare_hash prev s \<Longrightarrow> prev \<noteq> Some (CHR 0x5C) \<Longrightarrow> no_bare_hash None s"
  by (cases s) auto

lemma rstrip_split: "\<exists>v. s = rstrip s @ v \<and> (\<forall>c \<in> set v. isspace c)"
proof (intro exI conjI)
  show "s = rstrip s @ rev (takeWhile isspace (rev s))"
    by (metis rstrip_def rev_append rev_rev_ident takeWhile_dropWhile_id)
  show "\<forall>c \<in> set (rev (takeWhile isspace (rev s))). isspace c"
    by (auto dest: set_takeWhileD)
qed

lemma rstrip_Nil: "rstrip [] = []"
  by (simp add: rstrip_def)

lemma rstrip_last: "rstrip s \<noteq> [] \<Longrightarrow> \<not> isspace (last (rstrip s))"
  using dropWhile_hd [of isspace "rev s"] by (simp add: rstrip_def last_rev)

lemma rstrip_hd: "rstrip s \<noteq> [] \<Longrightarrow> hd (rstrip s) = hd s"
  using rstrip_split [of s] by (metis hd_append2)

text \<open>What the stripped line is: the source line without leading blanks, trailing blanks
  and comment.\<close>

lemma strip_whitespace_split:
  obtains u v w where "line = u @ strip_whitespace line @ v @ w"
    "\<forall>c \<in> set u. isspace c" "\<forall>c \<in> set v. isspace c" "w = [] \<or> hd w = CHR ''#''"
    "no_bare_hash None (u @ strip_whitespace line @ v)"
proof -
  let ?t = "cut_comment None line"
  obtain w where w: "line = ?t @ w" "w = [] \<or> hd w = CHR ''#''"
    using cut_comment_split by blast
  obtain v where v: "dropWhile isspace ?t = strip_whitespace line @ v" "\<forall>c \<in> set v. isspace c"
    using rstrip_split unfolding strip_whitespace_def by blast
  have t: "?t = takeWhile isspace ?t @ strip_whitespace line @ v"
    using v(1) by (metis takeWhile_dropWhile_id)
  show thesis
  proof (rule that)
    show "line = takeWhile isspace ?t @ strip_whitespace line @ v @ w"
      using w(1) t by (metis append.assoc)
    show "\<forall>c \<in> set (takeWhile isspace ?t). isspace c" by (rule takeWhile_all)
    show "no_bare_hash None (takeWhile isspace ?t @ strip_whitespace line @ v)"
      using cut_comment_no_hash [of None line] t by simp
  qed (use v w in auto)
qed

lemma strip_whitespace_hd:
  "strip_whitespace line \<noteq> [] \<Longrightarrow> \<not> isspace (hd (strip_whitespace line))"
proof -
  assume ne: "strip_whitespace line \<noteq> []"
  let ?d = "dropWhile isspace (cut_comment None line)"
  from ne have d: "rstrip ?d \<noteq> []" by (simp add: strip_whitespace_def)
  then have "?d \<noteq> []" by (metis rstrip_Nil)
  then have "\<not> isspace (hd ?d)" by (rule dropWhile_hd)
  with rstrip_hd [OF d] show ?thesis unfolding strip_whitespace_def by simp
qed

section \<open>Lemmas on words\<close>

definition good_word :: "string \<Rightarrow> bool" where
  "good_word w \<longleftrightarrow> w \<noteq> [] \<and> (\<forall>c \<in> set w. \<not> isblank c)"

fun unwords :: "string list \<Rightarrow> string" where
  "unwords [] = []"
| "unwords [w] = w"
| "unwords (w # w' # ws) = w @ '' '' @ unwords (w' # ws)"

lemma unwords_prefix: "\<exists>r. unwords (w # ws) = w @ r"
  by (cases ws) auto

lemma unwords_hd: "good_word w \<Longrightarrow> unwords (w # ws) \<noteq> [] \<and> \<not> isblank (hd (unwords (w # ws)))"
  using unwords_prefix [of w ws] by (cases w) (auto simp: good_word_def)

lemma map_tolower_unwords:
  "(\<And>w. w \<in> set ws \<Longrightarrow> map tolower w = w) \<Longrightarrow> map tolower (unwords ws) = unwords ws"
  by (induction ws rule: unwords.induct) (auto simp: tolower_def cc_def)

lemma to_next_word_unwords:
  assumes "good_word w" "list_all good_word ws"
  shows "to_next_word (unwords (w # ws)) e = (w, unwords ws, e \<or> ws = [])"
proof (cases ws)
  case Nil
  with assms have "takeWhile (\<lambda>c. \<not> isblank c) w = w" "dropWhile (\<lambda>c. \<not> isblank c) w = []"
    by (auto simp: good_word_def)
  note tw = this
  show ?thesis
    unfolding to_next_word_def Let_def Nil unwords.simps tw by simp
next
  case (Cons w' ws')
  let ?r = "'' '' @ unwords ws"
  have r: "isblank (hd ?r)" by (simp add: isblank_def cc_def)
  have hd: "dropWhile isblank (unwords ws) = unwords ws"
    using unwords_hd [of w' ws'] assms(2) Cons by (cases "unwords ws") auto
  have "takeWhile (\<lambda>c. \<not> isblank c) (w @ ?r) = w" "dropWhile (\<lambda>c. \<not> isblank c) (w @ ?r) = ?r"
    using takeWhile_prefix [of w "\<lambda>c. \<not> isblank c" ?r] assms(1) r by (auto simp: good_word_def)
  with Cons hd show ?thesis by (simp add: to_next_word_def)
qed

section \<open>Lemmas on rules\<close>

lemma takeWhile_take_prefix: "take (length p) s = p \<Longrightarrow> list_all Q p \<Longrightarrow> take (length p) (takeWhile Q s) = p"
proof (induction p arbitrary: s)
  case (Cons c p)
  then show ?case by (cases s) auto
qed simp

lemma strncmp_eq_takeWhile:
  "strncmp_eq s p n \<Longrightarrow> length p = n \<Longrightarrow> list_all Q p \<Longrightarrow> strncmp_eq (takeWhile Q s) p n"
  using takeWhile_take_prefix [of p s Q] by (simp add: strncmp_eq_def)

text \<open>What a rule accepted by the parser looks like.\<close>

definition wf_protocol :: "string \<Rightarrow> bool" where
  "wf_protocol p \<longleftrightarrow> strncmp_eq p ''tcp'' 3 \<or> strncmp_eq p ''udp'' 3 \<or>
     strncmp_eq p ''all'' 3 \<or> strncmp_eq p ''icmp'' 4"

definition wf_rule :: "t_firewall_rule \<Rightarrow> bool" where
  "wf_rule r \<longleftrightarrow>
     (\<forall>p. r_protocol r = Some p \<longrightarrow> wf_protocol p) \<and>
     (\<forall>q. r_port r = Some q \<longrightarrow> list_all port_char q \<and>
        (\<exists>p. r_protocol r = Some p \<and> (strncmp_eq p ''tcp'' 3 \<or> strncmp_eq p ''udp'' 3))) \<and>
     (\<exists>m. r_mask r = Some m \<and> list_all mask_char m)"

lemma rule_protocol_wf:
  assumes "rule_protocol l f = (Some p, l', f')"
  shows "wf_protocol p"
proof -
  let ?nb = "\<lambda>c. \<not> isblank c"
  have b: "list_all ?nb ''tcp''" "list_all ?nb ''udp''" "list_all ?nb ''all''" "list_all ?nb ''icmp''"
    by (simp_all add: isblank_def cc_def)
  have p: "p = takeWhile ?nb l"
    using assms by (auto simp: rule_protocol_def to_next_word_def Let_def split: if_splits list.splits)
  have "wf_protocol l"
    using assms by (auto simp: rule_protocol_def wf_protocol_def split: if_splits)
  moreover have "strncmp_eq p w n" if "strncmp_eq l w n" "length w = n" "list_all ?nb w" for w n
    using strncmp_eq_takeWhile [OF that] by (simp add: p)
  ultimately show ?thesis
    unfolding wf_protocol_def using b by (elim disjE) simp_all
qed

lemma rule_port_wf:
  assumes "rule_port protocol l f = Inr (Some q, l', f')"
  shows "list_all port_char q \<and> (\<exists>p. protocol = Some p \<and> (strncmp_eq p ''tcp'' 3 \<or> strncmp_eq p ''udp'' 3))"
  using assms by (auto simp: rule_port_def split: if_splits option.splits prod.splits)

lemma rule_mask_wf: "rule_mask l f = Inr (Some m) \<Longrightarrow> list_all mask_char m"
  by (auto simp: rule_mask_def split: if_splits prod.splits)

lemma parse_firewall_rule_cases:
  "(\<exists>r. wf_rule r \<and> parse_firewall_rule rs s = (1, rs\<lparr>rs_rules := rs_rules rs @ [r]\<rparr>)) \<or>
   (\<exists>err \<in> {-1, -3, -4, -5}. parse_firewall_rule rs s = (err, rs))"
proof -
  obtain tok l f where t: "to_next_word (map tolower s) False = (tok, l, f)"
    by (cases "to_next_word (map tolower s) False")
  obtain pr l1 f1 where p: "rule_protocol l f = (pr, l1, f1)"
    by (cases "rule_protocol l f")
  have dflt: "list_all mask_char ''0.0.0.0/0''" by (simp add: mask_char_def isdigit_def cc_def)
  note d = parse_firewall_rule_def t p
  show ?thesis
  proof (cases "rule_target tok")
    case None
    then show ?thesis by (simp add: d)
  next
    case (Some tg)
    show ?thesis
    proof (cases "rule_port pr l1 f1")
      case (Inl err)
      then have "err = -3" by (auto simp: rule_port_def split: if_splits option.splits prod.splits)
      with Inl Some show ?thesis by (simp add: d)
    next
      case (Inr r)
      obtain po l2 f2 where r: "r = (po, l2, f2)" by (cases r)
      show ?thesis
      proof (cases "rule_mask l2 f2")
        case (Inl err)
        then have "err = -4 \<or> err = -5" by (auto simp: rule_mask_def split: if_splits prod.splits)
        with Inl Inr r Some show ?thesis by (auto simp: d)
      next
        case m: (Inr m)
        let ?r = "\<lparr>r_target = tg, r_protocol = pr, r_port = po,
          r_mask = Some (case m of None \<Rightarrow> ''0.0.0.0/0'' | Some x \<Rightarrow> x)\<rparr>"
        have "wf_rule ?r"
          using rule_protocol_wf [of l f] rule_port_wf [of pr l1 f1] rule_mask_wf [of l2 f2] p Inr r m dflt
          by (auto simp: wf_rule_def split: option.splits)
        moreover have "parse_firewall_rule rs s = (1, rs\<lparr>rs_rules := rs_rules rs @ [?r]\<rparr>)"
          by (simp add: d Some Inr r m)
        ultimately show ?thesis by blast
      qed
    qed
  qed
qed

section \<open>Printing a rule\<close>

text \<open>The words a rule is written with in the configuration file.\<close>

definition target_word :: "t_firewall_target \<Rightarrow> string" where
  "target_word t = (case t of TARGET_DROP \<Rightarrow> ''drop'' | TARGET_REJECT \<Rightarrow> ''block''
     | TARGET_ACCEPT \<Rightarrow> ''allow'' | TARGET_LOG \<Rightarrow> ''log'' | TARGET_ULOG \<Rightarrow> ''ulog'')"

definition rule_words :: "t_firewall_rule \<Rightarrow> string list" where
  "rule_words r = target_word (r_target r) #
     (case r_protocol r of None \<Rightarrow> [] | Some p \<Rightarrow> [p]) @
     (case r_port r of None \<Rightarrow> [] | Some q \<Rightarrow> [''port'', q]) @
     (case r_mask r of None \<Rightarrow> [] | Some m \<Rightarrow> [''to'', m])"

definition rule_text :: "t_firewall_rule \<Rightarrow> string" where
  "rule_text r = unwords (rule_words r)"

definition printable_rule :: "t_firewall_rule \<Rightarrow> bool" where
  "printable_rule r \<longleftrightarrow>
     (\<forall>p. r_protocol r = Some p \<longrightarrow> p \<in> {''tcp'', ''udp'', ''all'', ''icmp''}) \<and>
     (\<forall>q. r_port r = Some q \<longrightarrow> q \<noteq> [] \<and> list_all port_char q \<and> r_protocol r \<in> {Some ''tcp'', Some ''udp''}) \<and>
     (\<exists>m. r_mask r = Some m \<and> m \<noteq> [] \<and> list_all mask_char m)"

lemma port_word: "q \<noteq> [] \<Longrightarrow> list_all port_char q \<Longrightarrow> good_word q \<and> map tolower q = q"
  by (auto simp: good_word_def list_all_iff port_char_def isdigit_def isblank_def tolower_def
      intro!: map_idI split: if_splits) (auto simp: cc_def)

lemma mask_word: "m \<noteq> [] \<Longrightarrow> list_all mask_char m \<Longrightarrow> good_word m \<and> map tolower m = m"
  by (auto simp: good_word_def list_all_iff mask_char_def isdigit_def isblank_def tolower_def
      intro!: map_idI split: if_splits) (auto simp: cc_def)

lemma fixed_words:
  "good_word ''tcp''" "good_word ''udp''" "good_word ''all''" "good_word ''icmp''"
  "good_word ''port''" "good_word ''to''" "good_word (target_word t)"
  "map tolower ''tcp'' = ''tcp''" "map tolower ''udp'' = ''udp''" "map tolower ''all'' = ''all''"
  "map tolower ''icmp'' = ''icmp''" "map tolower ''port'' = ''port''" "map tolower ''to'' = ''to''"
  "map tolower (target_word t) = target_word t" "rule_target (target_word t) = Some t"
  by (cases t; simp add: good_word_def isblank_def cc_def tolower_def target_word_def rule_target_def
      strcasecmp_eq_def)+

lemma rule_protocol_None:
  "ws = [] \<or> hd ws = ''to'' \<Longrightarrow> rule_protocol (unwords ws) e = (None, unwords ws, e)"
  using unwords_prefix [of "''to''" "tl ws"]
  by (cases ws) (auto simp: rule_protocol_def strncmp_eq_def)

lemma rule_protocol_Some:
  assumes "p \<in> {''tcp'', ''udp'', ''all'', ''icmp''}" "list_all good_word ws"
  shows "rule_protocol (unwords (p # ws)) e = (Some p, unwords ws, e \<or> ws = [])"
  using assms unwords_prefix [of p ws] to_next_word_unwords [of p ws e] fixed_words(1-4)
  by (auto simp: rule_protocol_def strncmp_eq_def)

lemma rule_port_None:
  "ws = [] \<or> hd ws = ''to'' \<Longrightarrow> rule_port pr (unwords ws) e = Inr (None, unwords ws, e)"
  using unwords_prefix [of "''to''" "tl ws"]
  by (cases ws) (auto simp: rule_port_def strncmp_eq_def)

lemma rule_port_Some:
  assumes "p \<in> {''tcp'', ''udp''}" "q \<noteq> []" "list_all port_char q" "list_all good_word ws"
  shows "rule_port (Some p) (unwords (''port'' # q # ws)) e = Inr (Some q, unwords ws, e \<or> ws = [])"
  using assms unwords_prefix [of "''port''" "q # ws"] to_next_word_unwords [of "''port''" "q # ws" e]
    to_next_word_unwords [of q ws e] fixed_words(5) port_word [of q]
  by (auto simp: rule_port_def strncmp_eq_def)

lemma rule_mask_Some:
  assumes "m \<noteq> []" "list_all mask_char m"
  shows "rule_mask (unwords [''to'', m]) False = Inr (Some m)"
  using assms to_next_word_unwords [of "''to''" "[m]" False]
    to_next_word_unwords [of m "[]" False] fixed_words(6) mask_word [of m]
  by (simp add: rule_mask_def)

lemma parse_rule_text:
  assumes "printable_rule r"
  shows "parse_firewall_rule rs (rule_text r) = (1, rs\<lparr>rs_rules := rs_rules rs @ [r]\<rparr>)"
proof -
  from assms obtain m where m: "r_mask r = Some m" "m \<noteq> []" "list_all mask_char m"
    by (auto simp: printable_rule_def)
  let ?W = "target_word (r_target r)"
  define pw where "pw = (case r_port r of None \<Rightarrow> [] | Some q \<Rightarrow> [''port'', q]) @ [''to'', m]"
  define ws where "ws = (case r_protocol r of None \<Rightarrow> [] | Some p \<Rightarrow> [p]) @ pw"
  have w: "rule_words r = ?W # ws" by (simp add: rule_words_def ws_def pw_def m)
  have gm: "good_word m" "map tolower m = m" using mask_word m by auto
  have gp: "list_all good_word pw" "\<And>w. w \<in> set pw \<Longrightarrow> map tolower w = w"
    using assms port_word gm fixed_words(5,6,12,13)
    by (auto simp: pw_def printable_rule_def split: option.splits)
  have gw: "list_all good_word ws" "\<And>w. w \<in> set (?W # ws) \<Longrightarrow> map tolower w = w"
    using assms gp fixed_words
    by (cases "r_protocol r"; auto simp: ws_def printable_rule_def)+
  have ne: "ws \<noteq> []" "pw \<noteq> []" by (simp_all add: ws_def pw_def)
  have tl: "map tolower (unwords (?W # ws)) = unwords (?W # ws)"
    by (rule map_tolower_unwords) (rule gw(2))
  have t: "to_next_word (map tolower (rule_text r)) False = (?W, unwords ws, False)"
    using to_next_word_unwords [OF fixed_words(7) gw(1), of "r_target r" False]
      tl ne by (simp add: rule_text_def w)
  have p: "rule_protocol (unwords ws) False = (r_protocol r, unwords pw, False)"
  proof (cases "r_protocol r")
    case None
    with assms have "ws = [''to'', m]" "pw = [''to'', m]"
      by (auto simp: printable_rule_def ws_def pw_def split: option.splits)
    with None show ?thesis using rule_protocol_None [of ws False] by simp
  next
    case (Some p)
    with assms rule_protocol_Some [of p pw False] gp ne show ?thesis
      by (simp add: printable_rule_def ws_def)
  qed
  have q: "rule_port (r_protocol r) (unwords pw) False = Inr (r_port r, unwords [''to'', m], False)"
  proof (cases "r_port r")
    case None
    then show ?thesis using rule_port_None [of pw] by (simp add: pw_def)
  next
    case (Some q)
    with assms obtain p where "r_protocol r = Some p" "p \<in> {''tcp'', ''udp''}" "q \<noteq> []" "list_all port_char q"
      by (auto simp: printable_rule_def)
    with Some rule_port_Some [of p q "[''to'', m]" False] gm fixed_words(6) show ?thesis
      by (simp add: pw_def)
  qed
  show ?thesis
    using rule_mask_Some [OF m(2,3)] m(1)
    by (simp add: parse_firewall_rule_def t p q fixed_words(15) del: unwords.simps)
qed

section \<open>Properties\<close>

text \<open>
  Stripping a line of the configuration file: the result is the part of the line
  between leading white space and either trailing white space or the first \<^verbatim>\<open>#\<close> that
  no backslash escapes; it neither begins nor ends with white space, and everything kept
  up to the comment is free of unescaped \<^verbatim>\<open>#\<close>.
\<close>

theorem strip_whitespace_spec:
  "\<exists>u v w. line = u @ strip_whitespace line @ v @ w \<and>
     list_all isspace u \<and> list_all isspace v \<and> take 1 w \<in> {[], ''#''} \<and>
     no_bare_hash None (u @ strip_whitespace line @ v) \<and>
     strip_whitespace line \<in> {[]} \<union> {s. \<not> isspace (hd s) \<and> \<not> isspace (last s)}"
proof -
  obtain u v w where s: "line = u @ strip_whitespace line @ v @ w"
    "\<forall>c \<in> set u. isspace c" "\<forall>c \<in> set v. isspace c" "w = [] \<or> hd w = CHR ''#''"
    "no_bare_hash None (u @ strip_whitespace line @ v)"
    by (rule strip_whitespace_split)
  have "strip_whitespace line \<in> {[]} \<union> {s. \<not> isspace (hd s) \<and> \<not> isspace (last s)}"
    using strip_whitespace_hd [of line] rstrip_last [of "dropWhile isspace (cut_comment None line)"]
    by (auto simp: strip_whitespace_def)
  moreover from s(4) have "take 1 w \<in> {[], ''#''}" by (cases w) auto
  ultimately show ?thesis using s by (metis list_all_iff)
qed

text \<open>
  One line of a firewall ruleset: the parser either rejects it with one of its four
  error codes and leaves the ruleset alone, or appends exactly one rule at the end whose
  port has only digits and colons and is given for tcp or udp only, whose mask is set and
  has only digits, dots and slashes, and whose protocol starts with a known name.
\<close>

theorem parse_firewall_rule_spec:
  "(\<exists>r. wf_rule r \<and> parse_firewall_rule rs s = (1, rs\<lparr>rs_rules := rs_rules rs @ [r]\<rparr>)) \<or>
   (\<exists>err \<in> {-1, -3, -4, -5}. parse_firewall_rule rs s = (err, rs))"
  by (rule parse_firewall_rule_cases)

text \<open>
  C28. Round trip of a firewall rule: parsing the text a rule is written with in the
  configuration file appends that very rule, for every target, the four protocols, an
  optional port for tcp and udp, and a mask.
\<close>

theorem parse_printed_rule:
  "printable_rule r \<Longrightarrow> parse_firewall_rule rs (rule_text r) = (1, rs\<lparr>rs_rules := rs_rules rs @ [r]\<rparr>)"
  by (rule parse_rule_text)

lemma parse_printed_rule_witness:
  "let r = \<lparr>r_target = TARGET_ACCEPT, r_protocol = Some ''tcp'', r_port = Some ''80:90'',
       r_mask = Some ''10.0.0.0/8''\<rparr>;
       rs = \<lparr>rs_name = ''users-to-router'', rs_policy = None, rs_rules = []\<rparr>
   in rule_text r = ''allow tcp port 80:90 to 10.0.0.0/8'' \<and>
      parse_firewall_rule rs (rule_text r) = (1, rs\<lparr>rs_rules := [r]\<rparr>)"
proof -
  have p: "printable_rule \<lparr>r_target = TARGET_ACCEPT, r_protocol = Some ''tcp'',
      r_port = Some ''80:90'', r_mask = Some ''10.0.0.0/8''\<rparr>"
    by (simp add: printable_rule_def port_char_def mask_char_def isdigit_def cc_def)
  show ?thesis
    using parse_printed_rule [OF p, of "\<lparr>rs_name = ''users-to-router'', rs_policy = None, rs_rules = []\<rparr>"]
    by (simp add: Let_def rule_text_def rule_words_def target_word_def)
qed

end
