(* ===== verification/ConfRead.thy ===== *)
theory ConfRead
  imports FwRules MacLists
begin

text \<open>
  \<^verbatim>\<open>config_read\<close> of \<^verbatim>\<open>src/conf.c\<close>: the loop over the lines of the configuration file
  and its switch over the options, which the model splits into groups of cases in the
  order of the code. The file is the string of its characters.
\<close>

section \<open>The shapes of an option\<close>

text \<open>\<^verbatim>\<open>sscanf(p1, "%d", &field) < 1\<close> ends the program.\<close>

definition opt_int :: "(int \<Rightarrow> s_config \<Rightarrow> s_config) \<Rightarrow> string \<Rightarrow> s_config \<Rightarrow> s_config result" where
  "opt_int put p1 c = (case sscanf_d p1 of Some v \<Rightarrow> Ok (put v c) | None \<Rightarrow> Exit (-1))"

definition opt_bool :: "(int \<Rightarrow> s_config \<Rightarrow> s_config) \<Rightarrow> string \<Rightarrow> s_config \<Rightarrow> s_config result" where
  "opt_bool put p1 c =
     (let value = parse_boolean_value p1 in if value \<noteq> -1 then Ok (put value c) else Exit (-1))"

text \<open>A firewall mark must be a hexadecimal number, not zero and not one of the others.\<close>

definition opt_mark ::
    "(32 word \<Rightarrow> s_config \<Rightarrow> s_config) \<Rightarrow> 32 word \<Rightarrow> 32 word \<Rightarrow> string \<Rightarrow> s_config \<Rightarrow> s_config result" where
  "opt_mark put m1 m2 p1 c =
     (case sscanf_x p1 of
        None \<Rightarrow> Exit (-1)
      | Some v \<Rightarrow> if v = 0 \<or> v = m1 \<or> v = m2 then Exit (-1) else Ok (put v c))"

text \<open>The loop that removes trailing slashes from the web root.\<close>

definition strip_slashes :: "string \<Rightarrow> string" where
  "strip_slashes s = rev (dropWhile (\<lambda>c. c = CHR ''/'') (rev s))"

section \<open>The options\<close>

definition config_opt_server :: "OpCodes \<Rightarrow> string \<Rightarrow> s_config \<Rightarrow> s_config result" where
  "config_opt_server opcode p1 c =
     (if opcode = oSyslogFacility then opt_int (\<lambda>v. cf_syslog_facility_update (\<lambda>_. v)) p1 c
      else if opcode = oAuthServer then Ok (c\<lparr>cf_auth_server := Some p1\<rparr>)
      else if opcode = oAuthPort then
        opt_int (\<lambda>v. cf_auth_port_update (\<lambda>_. word_of_int v)) p1 c
      else if opcode = oAuthPath then Ok (c\<lparr>cf_auth_path := Malloced p1\<rparr>)
      else if opcode = oConfigPath then Ok (c\<lparr>cf_config_path := Malloced p1\<rparr>)
      else if opcode = oNetTrafficPath then Ok (c\<lparr>cf_net_traffic_path := Malloced p1\<rparr>)
      else if opcode = oUID then
        (let r = scanf [SInt] p1 in
         if scan_rc r < 0 then Exit (-1)
         else case fst r of VNum v # _ \<Rightarrow> Ok (c\<lparr>cf_uid := s32 v\<rparr>) | _ \<Rightarrow> Ok c)
      else if opcode = oBadOption then Exit (-1)
      else Ok c)"

definition config_opt_marks :: "OpCodes \<Rightarrow> string \<Rightarrow> s_config \<Rightarrow> s_config result" where
  "config_opt_marks opcode p1 c =
     (if opcode = oFWMarkAuthenticated then
        opt_mark (\<lambda>v. cf_FW_MARK_AUTHENTICATED_update (\<lambda>_. v))
          (cf_FW_MARK_BLOCKED c) (cf_FW_MARK_TRUSTED c) p1 c
      else if opcode = oFWMarkBlocked then
        opt_mark (\<lambda>v. cf_FW_MARK_BLOCKED_update (\<lambda>_. v))
          (cf_FW_MARK_AUTHENTICATED c) (cf_FW_MARK_TRUSTED c) p1 c
      else if opcode = oFWMarkTrusted then
        opt_mark (\<lambda>v. cf_FW_MARK_TRUSTED_update (\<lambda>_. v))
          (cf_FW_MARK_AUTHENTICATED c) (cf_FW_MARK_BLOCKED c) p1 c
      else config_opt_server opcode p1 c)"

definition config_opt_traffic :: "OpCodes \<Rightarrow> string \<Rightarrow> s_config \<Rightarrow> s_config result" where
  "config_opt_traffic opcode p1 c =
     (if opcode = oUsername then Ok (snd (set_username (Some p1) c))
      else if opcode = oPassword then Ok (snd (set_password (Some p1) c))
      else if opcode = oSetMSS then opt_bool (\<lambda>v. cf_set_mss_update (\<lambda>_. v)) p1 c
      else if opcode = oMSSValue then opt_int (\<lambda>v. cf_mss_value_update (\<lambda>_. v)) p1 c
      else if opcode = oTrafficControl then opt_bool (\<lambda>v. cf_traffic_control_update (\<lambda>_. v)) p1 c
      else if opcode = oDownloadLimit then opt_int (\<lambda>v. cf_download_limit_update (\<lambda>_. v)) p1 c
      else if opcode = oUploadLimit then opt_int (\<lambda>v. cf_upload_limit_update (\<lambda>_. v)) p1 c
      else if opcode = oDownloadIMQ then opt_int (\<lambda>v. cf_download_imq_update (\<lambda>_. v)) p1 c
      else if opcode = oUploadIMQ then opt_int (\<lambda>v. cf_upload_imq_update (\<lambda>_. v)) p1 c
      else config_opt_marks opcode p1 c)"

definition config_opt_client :: "OpCodes \<Rightarrow> string \<Rightarrow> s_config \<Rightarrow> s_config result" where
  "config_opt_client opcode p1 c =
     (if opcode = oDecongestHttpdThreads then
        opt_bool (\<lambda>v. cf_decongest_httpd_threads_update (\<lambda>_. v)) p1 c
      else if opcode = oHttpdThreadThreshold then
        opt_int (\<lambda>v. cf_httpd_thread_threshold_update (\<lambda>_. v)) p1 c
      else if opcode = oHttpdThreadDelayMS then
        opt_int (\<lambda>v. cf_httpd_thread_delay_ms_update (\<lambda>_. v)) p1 c
      else if opcode = oClientIdleTimeout then opt_int (\<lambda>v. cf_clienttimeout_update (\<lambda>_. v)) p1 c
      else if opcode = oClientForceTimeout then opt_int (\<lambda>v. cf_clientforceout_update (\<lambda>_. v)) p1 c
      else if opcode = oAuthenticateImmediately then
        opt_bool (\<lambda>v. cf_authenticate_immediately_update (\<lambda>_. v)) p1 c
      else if opcode = oPasswordAuthentication then
        opt_bool (\<lambda>v. cf_passwordauth_update (\<lambda>_. v)) p1 c
      else if opcode = oUsernameAuthentication then
        opt_bool (\<lambda>v. cf_usernameauth_update (\<lambda>_. v)) p1 c
      else if opcode = oPasswordAttempts then
        opt_int (\<lambda>v. cf_passwordattempts_update (\<lambda>_. v)) p1 c
      else config_opt_traffic opcode p1 c)"

definition config_opt_web :: "OpCodes \<Rightarrow> string \<Rightarrow> s_config \<Rightarrow> s_config result" where
  "config_opt_web opcode p1 c =
     (if opcode = oWebRoot then Ok (c\<lparr>cf_webroot := strip_slashes p1\<rparr>)
      else if opcode = oSplashPage then Ok (c\<lparr>cf_splashpage := p1\<rparr>)
      else if opcode = oImagesDir then Ok (c\<lparr>cf_imagesdir := p1\<rparr>)
      else if opcode = oPagesDir then Ok (c\<lparr>cf_pagesdir := p1\<rparr>)
      else if opcode = oRedirectURL then Ok (c\<lparr>cf_redirectURL := Some p1\<rparr>)
      else if opcode = oNdsctlSocket then Ok (c\<lparr>cf_ndsctl_sock := p1\<rparr>)
      else config_opt_client opcode p1 c)"

definition config_opt_lists ::
    "OpCodes \<Rightarrow> string \<Rightarrow> string option \<Rightarrow> s_config \<Rightarrow> s_config result" where
  "config_opt_lists opcode p1 after c =
     (if opcode = oEmptyRuleSetPolicy then parse_empty_ruleset_policy p1 after c
      else if opcode = oTrustedMACList then Ok (parse_trusted_mac_list p1 c)
      else if opcode = oBlockedMACList then Ok (parse_blocked_mac_list p1 c)
      else if opcode = oAllowedMACList then Ok (parse_allowed_mac_list p1 c)
      else if opcode = oMACmechanism then
        (if strcasecmp_eq ''allow'' p1 then Ok (c\<lparr>cf_macmechanism := MAC_ALLOW\<rparr>)
         else if strcasecmp_eq ''block'' p1 then Ok (c\<lparr>cf_macmechanism := MAC_BLOCK\<rparr>)
         else Exit (-1))
      else config_opt_web opcode p1 c)"

definition config_opt_basic ::
    "OpCodes \<Rightarrow> string \<Rightarrow> string option \<Rightarrow> s_config \<Rightarrow> s_config result" where
  "config_opt_basic opcode p1 after c =
     (if opcode = oDaemon then
        (let value = parse_boolean_value p1 in
         if cf_daemon c = -1 \<and> value \<noteq> -1 then Ok (c\<lparr>cf_daemon := value\<rparr>) else Ok c)
      else if opcode = oMaxClients then opt_int (\<lambda>v. cf_maxclients_update (\<lambda>_. v)) p1 c
      else if opcode = oExternalInterface then Ok (c\<lparr>cf_ext_interface := Some p1\<rparr>)
      else if opcode = oGatewayName then Ok (c\<lparr>cf_gw_name := p1\<rparr>)
      else if opcode = oGatewayInterface then Ok (c\<lparr>cf_gw_interface := Some p1\<rparr>)
      else if opcode = oGatewayIPRange then Ok (c\<lparr>cf_gw_iprange := p1\<rparr>)
      else if opcode = oGatewayAddress then Ok (c\<lparr>cf_gw_address := Some p1\<rparr>)
      else if opcode = oGatewayPort then
        (case sscanf_u p1 of Some v \<Rightarrow> Ok (c\<lparr>cf_gw_port := v\<rparr>) | None \<Rightarrow> Exit (-1))
      else if opcode = oRemoteAuthenticatorAction then Ok (c\<lparr>cf_remote_auth_action := Some p1\<rparr>)
      else if opcode = oEnablePreAuth then
        (let value = parse_boolean_value p1 in
         if value \<noteq> -1 then Ok (c\<lparr>cf_enable_preauth := value\<rparr>) else Ok c)
      else if opcode = oBinVoucher then Ok (c\<lparr>cf_bin_voucher := Some p1\<rparr>)
      else if opcode = oForceVoucher then
        (let value = parse_boolean_value p1 in
         if value \<noteq> -1 then Ok (c\<lparr>cf_force_voucher := value\<rparr>) else Ok c)
      else config_opt_lists opcode p1 after c)"

section \<open>The loop\<close>

text \<open>One line that is not blank: the new configuration and the rest of the file.\<close>

definition config_line :: "string \<Rightarrow> string \<Rightarrow> s_config \<Rightarrow> (s_config \<times> string) result" where
  "config_line line rest c =
     (let s = strip_whitespace line;
          opt = takeWhile (\<lambda>ch. \<not> isspace ch) s;
          r = dropWhile (\<lambda>ch. \<not> isspace ch) s
      in if r = [] then Exit (-1)
         else let p1 = dropWhile isblank (tl r); opcode = config_parse_opcode opt in
           if opcode = oFirewallRuleSet then parse_firewall_ruleset p1 rest c
           else rbind (config_opt_basic opcode p1 (strip_after line) c) (\<lambda>c'. Ok (c', rest)))"

lemma ruleset_lines_shorter: "ruleset_lines rs fd = Ok (rs', rest) \<Longrightarrow> length rest \<le> length fd"
proof (induction "length fd" arbitrary: fd rs rule: less_induct)
  case less
  show ?case
  proof (cases "fgets MAX_BUF fd")
    case None
    with less.prems show ?thesis by (simp add: ruleset_lines.simps)
  next
    case (Some lr)
    obtain line r where lr: "lr = (line, r)" by (cases lr)
    have sh: "length r < length fd" using fgets_decreases [of MAX_BUF fd line r] Some lr by simp
    have IH: "ruleset_lines rs'' r = Ok (rs', rest) \<Longrightarrow> length rest \<le> length fd" for rs''
      using less.hyps [OF sh, of rs''] sh by simp
    from less.prems Some lr sh show ?thesis
      by (subst (asm) ruleset_lines.simps) (auto simp: Let_def split: if_splits intro: IH)
  qed
qed

lemma config_line_shorter: "config_line line rest c = Ok (c', rest') \<Longrightarrow> length rest' \<le> length rest"
  by (auto simp: config_line_def parse_firewall_ruleset_def Let_def rbind_Ok_iff
      dest: ruleset_lines_shorter split: if_splits option.splits)

function config_lines :: "string \<Rightarrow> s_config \<Rightarrow> s_config result" where
  "config_lines fd c =
     (case fgets MAX_BUF fd of
        None \<Rightarrow> Ok c
      | Some (line, rest) \<Rightarrow>
          if strip_whitespace line = [] then config_lines rest c
          else (case config_line line rest c of
                  Ok (c', rest') \<Rightarrow> config_lines rest' c'
                | Exit e \<Rightarrow> Exit e
                | Undef \<Rightarrow> Undef))"
  by pat_completeness auto
termination
  by (relation "measure (\<lambda>(fd, c). length fd)")
     (auto dest!: fgets_decreases config_line_shorter)

declare config_lines.simps [simp del]

text \<open>\<open>file\<close> is \<open>None\<close> when the file cannot be opened.\<close>

definition config_read :: "string option \<Rightarrow> s_config \<Rightarrow> s_config result" where
  "config_read file c = (case file of None \<Rightarrow> Exit 1 | Some fd \<Rightarrow> config_lines fd c)"

section \<open>What every configuration file preserves\<close>

definition marks_ok :: "s_config \<Rightarrow> bool" where
  "marks_ok c \<longleftrightarrow> distinct [0, cf_FW_MARK_AUTHENTICATED c, cf_FW_MARK_BLOCKED c, cf_FW_MARK_TRUSTED c]"

definition ruleset_ok :: "t_firewall_ruleset \<Rightarrow> bool" where
  "ruleset_ok rs \<longleftrightarrow> rs_policy rs \<in> {Some ''RETURN'', Some ''ACCEPT'', Some ''REJECT''} \<and>
     list_all wf_rule (rs_rules rs)"

definition rulesets_inv :: "s_config \<Rightarrow> bool" where
  "rulesets_inv c \<longleftrightarrow> ruleset_names c = ruleset_names config_init \<and> list_all ruleset_ok (cf_rulesets c)"

definition config_inv :: "s_config \<Rightarrow> bool" where
  "config_inv c \<longleftrightarrow> marks_ok c \<and> rulesets_inv c \<and> mac_lists_inv c"

text \<open>The fields the invariant looks at. An option that leaves them alone keeps it.\<close>

definition config_view :: "s_config \<Rightarrow> 32 word list \<times> t_firewall_ruleset list \<times> string list list" where
  "config_view c = ([cf_FW_MARK_AUTHENTICATED c, cf_FW_MARK_BLOCKED c, cf_FW_MARK_TRUSTED c],
     cf_rulesets c, [cf_trustedmaclist c, cf_blockedmaclist c, cf_allowedmaclist c])"

lemma config_inv_view: "config_view c' = config_view c \<Longrightarrow> config_inv c' = config_inv c"
  by (simp add: config_view_def config_inv_def marks_ok_def rulesets_inv_def ruleset_names_def
      mac_lists_inv_def)

lemma opt_int_iff: "opt_int put p1 c = Ok c' \<longleftrightarrow> (\<exists>v. sscanf_d p1 = Some v \<and> c' = put v c)"
  by (auto simp: opt_int_def split: option.splits)

lemma opt_bool_iff:
  "opt_bool put p1 c = Ok c' \<longleftrightarrow> parse_boolean_value p1 \<noteq> -1 \<and> c' = put (parse_boolean_value p1) c"
  by (auto simp: opt_bool_def Let_def)

lemma opt_mark_iff:
  "opt_mark put m1 m2 p1 c = Ok c' \<longleftrightarrow>
     (\<exists>v. sscanf_x p1 = Some v \<and> v \<noteq> 0 \<and> v \<noteq> m1 \<and> v \<noteq> m2 \<and> c' = put v c)"
  by (auto simp: opt_mark_def split: option.splits)

lemmas opt_iffs = opt_int_iff opt_bool_iff opt_mark_iff

lemma config_opt_server_view:
  "config_opt_server opcode p1 c = Ok c' \<Longrightarrow> config_view c' = config_view c"
  unfolding config_opt_server_def Let_def
  by (auto simp: opt_iffs config_view_def split: if_splits list.splits scan_val.splits)

lemma config_opt_server_inv:
  "config_inv c \<Longrightarrow> config_opt_server opcode p1 c = Ok c' \<Longrightarrow> config_inv c'"
  using config_inv_view config_opt_server_view by blast

lemma marks_only:
  "config_inv c \<Longrightarrow> marks_ok c' \<Longrightarrow> cf_rulesets c' = cf_rulesets c \<Longrightarrow>
   cf_trustedmaclist c' = cf_trustedmaclist c \<Longrightarrow> cf_blockedmaclist c' = cf_blockedmaclist c \<Longrightarrow>
   cf_allowedmaclist c' = cf_allowedmaclist c \<Longrightarrow> config_inv c'"
  by (simp add: config_inv_def rulesets_inv_def ruleset_names_def mac_lists_inv_def)

lemma config_opt_marks_inv:
  assumes "config_inv c" "config_opt_marks opcode p1 c = Ok c'"
  shows "config_inv c'"
proof (cases "opcode \<in> {oFWMarkAuthenticated, oFWMarkBlocked, oFWMarkTrusted}")
  case True
  have "marks_ok c" using assms(1) by (simp add: config_inv_def)
  with assms(2) True have "marks_ok c' \<and> cf_rulesets c' = cf_rulesets c \<and>
      cf_trustedmaclist c' = cf_trustedmaclist c \<and> cf_blockedmaclist c' = cf_blockedmaclist c \<and>
      cf_allowedmaclist c' = cf_allowedmaclist c"
    by (auto simp: config_opt_marks_def opt_mark_iff marks_ok_def)
  with marks_only [OF assms(1)] show ?thesis by blast
next
  case False
  with assms show ?thesis
    using config_opt_server_inv by (simp add: config_opt_marks_def)
qed

lemma config_opt_traffic_inv:
  assumes "config_inv c" "config_opt_traffic opcode p1 c = Ok c'"
  shows "config_inv c'"
proof -
  from assms(2) have "config_view c' = config_view c \<or> config_opt_marks opcode p1 c = Ok c'"
    unfolding config_opt_traffic_def set_username_def set_password_def
    by (auto simp: opt_iffs config_view_def split: if_splits)
  with assms(1) config_inv_view config_opt_marks_inv show ?thesis by blast
qed

lemma config_opt_client_inv:
  assumes "config_inv c" "config_opt_client opcode p1 c = Ok c'"
  shows "config_inv c'"
proof -
  from assms(2) have "config_view c' = config_view c \<or> config_opt_traffic opcode p1 c = Ok c'"
    unfolding config_opt_client_def
    by (auto simp: opt_iffs config_view_def split: if_splits)
  with assms(1) config_inv_view config_opt_traffic_inv show ?thesis by blast
qed

lemma config_opt_web_inv:
  assumes "config_inv c" "config_opt_web opcode p1 c = Ok c'"
  shows "config_inv c'"
proof -
  from assms(2) have "config_view c' = config_view c \<or> config_opt_client opcode p1 c = Ok c'"
    unfolding config_opt_web_def by (auto simp: config_view_def split: if_splits)
  with assms(1) config_inv_view config_opt_client_inv show ?thesis by blast
qed

lemma update_first_all:
  "list_all Q xs \<Longrightarrow> (\<And>x. P x \<Longrightarrow> Q x \<Longrightarrow> Q (f x)) \<Longrightarrow> list_all Q (update_first P f xs)"
  by (induction xs) auto

lemma upd_ruleset_inv:
  assumes "config_inv c"
    and "\<And>rs. rs_name rs = n \<Longrightarrow> rs_name (f rs) = n"
    and "\<And>rs. ruleset_ok rs \<Longrightarrow> ruleset_ok (f rs)"
  shows "config_inv (upd_ruleset n f c)"
proof -
  have "list_all ruleset_ok (cf_rulesets (upd_ruleset n f c))"
    using assms by (auto simp: upd_ruleset_def config_inv_def rulesets_inv_def intro!: update_first_all)
  moreover have "ruleset_names (upd_ruleset n f c) = ruleset_names c"
    unfolding ruleset_names_def upd_ruleset_def
    using map_update_first [of "\<lambda>rs. rs_name rs = n" rs_name f] assms(2) by simp
  ultimately show ?thesis
    using assms(1)
    by (simp add: config_inv_def marks_ok_def rulesets_inv_def mac_lists_inv_def upd_ruleset_def)
qed

lemma set_ruleset_policy_inv:
  "config_inv c \<Longrightarrow> p \<in> {''RETURN'', ''ACCEPT'', ''REJECT''} \<Longrightarrow> config_inv (set_ruleset_policy n p c)"
  unfolding set_ruleset_policy_def by (rule upd_ruleset_inv) (auto simp: ruleset_ok_def)

lemma parse_empty_ruleset_policy_inv:
  "config_inv c \<Longrightarrow> parse_empty_ruleset_policy p1 after c = Ok c' \<Longrightarrow> config_inv c'"
  unfolding parse_empty_ruleset_policy_def Let_def
  by (auto simp: set_ruleset_policy_inv split: option.splits if_splits)

lemma parse_mac_view:
  "marks_ok (parse_trusted_mac_list s c) = marks_ok c"
  "marks_ok (parse_blocked_mac_list s c) = marks_ok c"
  "marks_ok (parse_allowed_mac_list s c) = marks_ok c"
  "rulesets_inv (parse_trusted_mac_list s c) = rulesets_inv c"
  "rulesets_inv (parse_blocked_mac_list s c) = rulesets_inv c"
  "rulesets_inv (parse_allowed_mac_list s c) = rulesets_inv c"
  by (rule parse_mac_lists_frame(1) [where g = marks_ok], simp add: marks_ok_def)
     (rule parse_mac_lists_frame(2) [where g = marks_ok], simp add: marks_ok_def,
      rule parse_mac_lists_frame(3) [where g = marks_ok], simp add: marks_ok_def,
      rule parse_mac_lists_frame(1) [where g = rulesets_inv], simp add: rulesets_inv_def ruleset_names_def,
      rule parse_mac_lists_frame(2) [where g = rulesets_inv], simp add: rulesets_inv_def ruleset_names_def,
      rule parse_mac_lists_frame(3) [where g = rulesets_inv], simp add: rulesets_inv_def ruleset_names_def)

lemma config_opt_lists_inv:
  assumes "config_inv c" "config_opt_lists opcode p1 after c = Ok c'"
  shows "config_inv c'"
proof -
  have l: "config_inv (parse_trusted_mac_list p1 c)" "config_inv (parse_blocked_mac_list p1 c)"
    "config_inv (parse_allowed_mac_list p1 c)"
    using assms(1) parse_mac_lists_inv [of c] by (simp_all add: config_inv_def parse_mac_view)
  have m: "config_inv (cf_macmechanism_update (\<lambda>_. x) c)" for x
    using assms(1) config_inv_view [of "cf_macmechanism_update (\<lambda>_. x) c" c]
    by (simp add: config_view_def)
  from assms(2) show ?thesis
    unfolding config_opt_lists_def
    by (simp split: if_splits)
       (use l m config_opt_web_inv [OF assms(1)] parse_empty_ruleset_policy_inv [OF assms(1)]
        in blast)+
qed

lemma config_opt_basic_inv:
  assumes "config_inv c" "config_opt_basic opcode p1 after c = Ok c'"
  shows "config_inv c'"
proof -
  from assms(2) have "config_view c' = config_view c \<or> config_opt_lists opcode p1 after c = Ok c'"
    unfolding config_opt_basic_def Let_def
    by (auto simp: opt_iffs config_view_def split: if_splits option.splits)
  with assms(1) config_inv_view config_opt_lists_inv show ?thesis by blast
qed

section \<open>The invariant through rulesets and the whole file\<close>

lemma parse_firewall_rule_ok:
  "ruleset_ok rs \<Longrightarrow> ruleset_ok (snd (parse_firewall_rule rs s)) \<and>
     rs_name (snd (parse_firewall_rule rs s)) = rs_name rs"
  using parse_firewall_rule_cases [of rs s] by (auto simp: ruleset_ok_def)

lemma ruleset_lines_ok:
  assumes "ruleset_ok rs" "ruleset_lines rs fd = Ok (rs', rest)"
  shows "ruleset_ok rs' \<and> rs_name rs' = rs_name rs"
  using assms
proof (induction "length fd" arbitrary: fd rs rule: less_induct)
  case less
  show ?case
  proof (cases "fgets MAX_BUF fd")
    case None
    with less.prems show ?thesis by (simp add: ruleset_lines.simps)
  next
    case (Some lr)
    obtain line r where lr: "lr = (line, r)" by (cases lr)
    have sh: "length r < length fd" using fgets_decreases [of MAX_BUF fd line r] Some lr by simp
    note IH = less.hyps [OF sh]
    from less.prems Some lr show ?thesis
      by (subst (asm) ruleset_lines.simps)
         (auto simp: Let_def parse_firewall_rule_ok split: if_splits dest!: IH [rotated])
  qed
qed

lemma config_line_inv:
  assumes "config_inv c" "config_line line rest c = Ok (c', rest')"
  shows "config_inv c'"
proof -
  have r: "config_inv c'" if "parse_firewall_ruleset p1 rest c = Ok (c', rest')" for p1
  proof -
    from that obtain rs rs' where rs: "get_ruleset (ruleset_arg_name p1) c = Some rs"
        "ruleset_lines rs rest = Ok (rs', rest')"
        "c' = upd_ruleset (ruleset_arg_name p1) (\<lambda>_. rs') c"
      by (auto simp: parse_firewall_ruleset_def Let_def rbind_Ok_iff split: option.splits)
    have "rs \<in> set (cf_rulesets c)" using rs(1) by (auto simp: get_ruleset_def dest: find_Some_mem)
    with assms(1) have "ruleset_ok rs" by (simp add: config_inv_def rulesets_inv_def list_all_iff)
    from ruleset_lines_ok [OF this rs(2)] get_ruleset_name [OF rs(1)] assms(1) show ?thesis
      unfolding rs(3) by (intro upd_ruleset_inv) auto
  qed
  from assms(2) show ?thesis
    by (auto simp: config_line_def Let_def rbind_Ok_iff split: if_splits
        intro: r config_opt_basic_inv [OF assms(1)])
qed

text \<open>Any property of the configuration that single lines preserve holds after the file.\<close>

lemma config_lines_invariant:
  assumes step: "\<And>line rest c c' rest'. P c \<Longrightarrow> config_line line rest c = Ok (c', rest') \<Longrightarrow> P c'"
    and "P c" "config_lines fd c = Ok c'"
  shows "P c'"
  using assms(2,3)
proof (induction "length fd" arbitrary: fd c rule: less_induct)
  case less
  show ?case
  proof (cases "fgets MAX_BUF fd")
    case None
    with less.prems show ?thesis by (simp add: config_lines.simps)
  next
    case (Some lr)
    obtain line r where lr: "lr = (line, r)" by (cases lr)
    have sh: "length r < length fd" using fgets_decreases [of MAX_BUF fd line r] Some lr by simp
    show ?thesis
    proof (cases "strip_whitespace line = []")
      case True
      with less Some lr sh show ?thesis by (simp add: config_lines.simps [of fd])
    next
      case False
      with less.prems Some lr obtain c1 r1 where c1: "config_line line r c = Ok (c1, r1)"
          "config_lines r1 c1 = Ok c'"
        by (auto simp: config_lines.simps [of fd] split: result.splits)
      with step less.prems have "P c1" by blast
      moreover have "length r1 < length fd" using config_line_shorter [OF c1(1)] sh by simp
      ultimately show ?thesis using less.hyps c1(2) by blast
    qed
  qed
qed

lemma config_init_inv: "config_inv config_init"
  by (simp add: config_init_def add_default_ruleset_def add_ruleset_def set_ruleset_policy_def
      get_ruleset_def upd_ruleset_def config_defaults_def config_inv_def marks_ok_def
      rulesets_inv_def ruleset_ok_def mac_lists_inv_def ruleset_names_def)

section \<open>Evaluating a small file\<close>

lemma opcode_blocked: "config_parse_opcode ''fw_mark_blocked'' = oFWMarkBlocked"
  by (simp add: config_parse_opcode_def keyword_table_def strcasecmp_eq_def tolower_def cc_def char_of_def bit_0)

lemma add_ruleset_marks:
  "cf_FW_MARK_AUTHENTICATED (add_ruleset n c) = cf_FW_MARK_AUTHENTICATED c"
  "cf_FW_MARK_BLOCKED (add_ruleset n c) = cf_FW_MARK_BLOCKED c"
  "cf_FW_MARK_TRUSTED (add_ruleset n c) = cf_FW_MARK_TRUSTED c"
  by (simp_all add: add_ruleset_def split: option.split)

lemma config_init_marks:
  "cf_FW_MARK_AUTHENTICATED config_init = 0x400" "cf_FW_MARK_BLOCKED config_init = 0x100"
  "cf_FW_MARK_TRUSTED config_init = 0x200"
  by (simp_all add: config_init_def add_default_ruleset_def set_ruleset_policy_def upd_ruleset_frame
      add_ruleset_marks) (simp_all add: config_defaults_def)

lemma marked: "config_opt_basic oFWMarkBlocked ''0x3'' a config_init = Ok (config_init\<lparr>cf_FW_MARK_BLOCKED := 3\<rparr>)"
proof -
  have "sscanf_x ''0x3'' = Some 3"
    by (simp add: sscanf_x_def scanf.simps skip_ws_def scan_hex_def strip_0x_def strncasecmp_eq_def
        scan_sign_def hexval_def hexval1_def isxdigit_def isdigit_def tolower_def cc_def isspace_def)
  then show ?thesis
    by (simp add: config_opt_basic_def config_opt_lists_def config_opt_web_def config_opt_client_def
        config_opt_traffic_def config_opt_marks_def opt_mark_def config_init_marks)
qed

definition sample_file :: string where
  "sample_file = ''fw_mark_blocked 0x3 # mark'' @ [nl]"

lemma sample_config:
  "config_read (Some sample_file) config_init = Ok (config_init\<lparr>cf_FW_MARK_BLOCKED := 3\<rparr>)"
  by (simp add: sample_file_def opcode_blocked marked config_read_def config_lines.simps fgets_def c_string_def NUL_def
      Let_def nl_def strip_whitespace_def rstrip_def isspace_def cc_def MAX_BUF_def config_line_def
      isblank_def)

section \<open>Properties\<close>

text \<open>
  C27. Whatever the configuration file says, when reading it over the defaults succeeds
  the three firewall marks are nonzero and pairwise different, the five rulesets are the
  ones set up at start with one of the three iptables policies each, every rule in them
  is well formed (digits and colons for a port, digits, dots and slashes for a mask), and
  no MAC list holds an entry twice, also not in another case.
\<close>

theorem config_read_inv:
  assumes "config_read file config_init = Ok c"
  shows "distinct [0, cf_FW_MARK_AUTHENTICATED c, cf_FW_MARK_BLOCKED c, cf_FW_MARK_TRUSTED c] \<and>
    map rs_name (cf_rulesets c) = [''preauthenticated-users'', ''authenticated-users'',
      ''users-to-router'', ''trusted-users-to-router'', ''trusted-users''] \<and>
    list_all ruleset_ok (cf_rulesets c) \<and> mac_lists_inv c"
proof -
  from assms obtain fd where "config_lines fd config_init = Ok c"
    by (auto simp: config_read_def split: option.splits)
  then have "config_inv c"
    by (rule config_lines_invariant [of config_inv, rotated 2])
       (use config_line_inv config_init_inv in blast)+
  then show ?thesis
    using ruleset_names_config_init
    by (simp add: config_inv_def marks_ok_def rulesets_inv_def ruleset_names_def)
qed

lemma config_read_inv_witness:
  "config_read (Some sample_file) config_init = Ok (config_init\<lparr>cf_FW_MARK_BLOCKED := 3\<rparr>) \<and>
   distinct [0, 0x400, 3, 0x200 :: 32 word] \<and> mac_lists_inv (config_init\<lparr>cf_FW_MARK_BLOCKED := 3\<rparr>)"
  using config_read_inv [OF sample_config] by (simp add: sample_config config_init_marks)

end
