(* ===== verification/Iptables.thy ===== *)
theory Iptables
  imports Tc ConfRead "HOL-Library.Sublist"
begin

text \<open>
  The iptables back end (\<^verbatim>\<open>src/fw_iptables.c\<close>): the mark set-up, the compilation of
  rulesets, the rules put up at start and taken down at the end, and the rules of a client.
  The counters read back from the kernel are in \<open>Counters\<close>.
\<close>

section \<open>Marks\<close>

definition iptables_init_marks :: "world \<Rightarrow> int \<times> world" where
  "iptables_init_marks w =
     (if w_MARK_BLOCKED w = w_MARK_TRUSTED w \<or> w_MARK_TRUSTED w = w_MARK_AUTHENTICATED w \<or>
         w_MARK_AUTHENTICATED w = w_MARK_BLOCKED w then (-1, w)
      else if w_MARK_BLOCKED w = 0 \<or> w_MARK_TRUSTED w = 0 \<or> w_MARK_AUTHENTICATED w = 0 then (-1, w)
      else (0, w\<lparr>w_MARK_PREAUTHENTICATED := 0,
                 w_MARK_MASK := (w_MARK_BLOCKED w OR w_MARK_TRUSTED w) OR w_MARK_AUTHENTICATED w\<rparr>))"

text \<open>Two test rules find out what the kernel supports; each is deleted again.\<close>

definition iptables_check_mark_masking :: "env \<Rightarrow> world \<Rightarrow> int \<times> world" where
  "iptables_check_mark_masking e w0 =
     (let w = w0\<lparr>w_fw_quiet := True\<rparr>;
          (rc1, w1) = iptables_do_command e
            (''-t mangle -I PREROUTING 1 -j MARK --or-mark 0x'' @ hx (w_MARK_BLOCKED w)) w;
          w2 = (if rc1 = 0
                then (snd (iptables_do_command e ''-t mangle -D PREROUTING 1'' w1))\<lparr>w_markop := ''--or-mark''\<rparr>
                else w1\<lparr>w_markop := ''--set-mark''\<rparr>);
          (rc2, w3) = iptables_do_command e
            (''-t filter -I FORWARD 1 -m mark --mark 0x'' @ hx (w_MARK_BLOCKED w2) @ ''/0x'' @
             hx (w_MARK_MASK w2) @ '' -j REJECT'') w2;
          w4 = (if rc2 = 0
                then (snd (iptables_do_command e ''-t filter -D FORWARD 1'' w3))
                       \<lparr>w_markmask := ''/0x'' @ hx (w_MARK_MASK w3)\<rparr>
                else w3\<lparr>w_markmask := []\<rparr>)
      in (0, w4\<lparr>w_fw_quiet := False\<rparr>))"

section \<open>Rulesets\<close>

definition target_mode :: "t_firewall_target \<Rightarrow> string" where
  "target_mode t = (case t of TARGET_DROP \<Rightarrow> ''DROP'' | TARGET_REJECT \<Rightarrow> ''REJECT''
     | TARGET_ACCEPT \<Rightarrow> ''ACCEPT'' | TARGET_LOG \<Rightarrow> ''LOG'' | TARGET_ULOG \<Rightarrow> ''ULOG'')"

text \<open>The pieces are printed one after the other into a buffer of \<^verbatim>\<open>MAX_BUF\<close> bytes.\<close>

definition iptables_compile :: "string \<Rightarrow> string \<Rightarrow> t_firewall_rule \<Rightarrow> string" where
  "iptables_compile table chain r =
     snprintf_s MAX_BUF
       (''-t '' @ table @ '' -A '' @ chain @ '' '' @
        (case r_mask r of None \<Rightarrow> [] | Some m \<Rightarrow> ''-d '' @ m @ '' '') @
        (case r_protocol r of None \<Rightarrow> [] | Some p \<Rightarrow> ''-p '' @ p @ '' '') @
        (case r_port r of None \<Rightarrow> [] | Some q \<Rightarrow> ''--dport '' @ q @ '' '') @
        ''-j '' @ target_mode (r_target r))"

text \<open>
  The compiled rule is used as the format string of \<^verbatim>\<open>iptables_do_command\<close> without
  further arguments: a conversion other than \<^verbatim>\<open>%%\<close> has no value to print.
\<close>

fun fmt_expand :: "string \<Rightarrow> string option" where
  "fmt_expand [] = Some []"
| "fmt_expand (c # s) =
     (if c = CHR 0x25 then
        (case s of [] \<Rightarrow> None
         | d # s' \<Rightarrow> if d = CHR 0x25 then map_option ((#) c) (fmt_expand s') else None)
      else map_option ((#) c) (fmt_expand s))"

definition ruleset_cmds :: "string \<Rightarrow> string \<Rightarrow> string \<Rightarrow> s_config \<Rightarrow> string option list" where
  "ruleset_cmds table ruleset chain c =
     map (\<lambda>r. fmt_expand (iptables_compile table chain r)) (get_ruleset_list ruleset c)"

text \<open>Commands in sequence, some of which may have no meaning.\<close>

fun all_some :: "'a option list \<Rightarrow> 'a list option" where
  "all_some [] = Some []"
| "all_some (None # xs) = None"
| "all_some (Some x # xs) = map_option ((#) x) (all_some xs)"

definition iptables_append_ruleset ::
    "env \<Rightarrow> string \<Rightarrow> string \<Rightarrow> string \<Rightarrow> world \<Rightarrow> (int \<times> world) result" where
  "iptables_append_ruleset e table ruleset chain w =
     rbind (of_opt (all_some (ruleset_cmds table ruleset chain (w_conf w))))
       (\<lambda>cs. Ok (or_all (iptables_do_command e) cs (0, w)))"

section \<open>MAC addresses\<close>

definition mark_rule :: "world \<Rightarrow> 32 word \<Rightarrow> string" where
  "mark_rule w m = '' -j MARK '' @ w_markop w @ '' 0x'' @ hx m"

definition iptables_block_mac :: "env \<Rightarrow> string \<Rightarrow> world \<Rightarrow> int \<times> world" where
  "iptables_block_mac e mac w = iptables_do_command e
     (''-t mangle -A ndsBLK -m mac --mac-source '' @ mac @ mark_rule w (w_MARK_BLOCKED w)) w"

definition iptables_unblock_mac :: "env \<Rightarrow> string \<Rightarrow> world \<Rightarrow> int \<times> world" where
  "iptables_unblock_mac e mac w = iptables_do_command e
     (''-t mangle -D ndsBLK -m mac --mac-source '' @ mac @ mark_rule w (w_MARK_BLOCKED w)) w"

definition iptables_allow_mac :: "env \<Rightarrow> string \<Rightarrow> world \<Rightarrow> int \<times> world" where
  "iptables_allow_mac e mac w = iptables_do_command e
     (''-t mangle -I ndsBLK -m mac --mac-source '' @ mac @ '' -j RETURN'') w"

definition iptables_unallow_mac :: "env \<Rightarrow> string \<Rightarrow> world \<Rightarrow> int \<times> world" where
  "iptables_unallow_mac e mac w = iptables_do_command e
     (''-t mangle -D ndsBLK -m mac --mac-source '' @ mac @ '' -j RETURN'') w"

definition iptables_trust_mac :: "env \<Rightarrow> string \<Rightarrow> world \<Rightarrow> int \<times> world" where
  "iptables_trust_mac e mac w = iptables_do_command e
     (''-t mangle -A ndsTRU -m mac --mac-source '' @ mac @ mark_rule w (w_MARK_TRUSTED w)) w"

definition iptables_untrust_mac :: "env \<Rightarrow> string \<Rightarrow> world \<Rightarrow> int \<times> world" where
  "iptables_untrust_mac e mac w = iptables_do_command e
     (''-t mangle -D ndsTRU -m mac --mac-source '' @ mac @ mark_rule w (w_MARK_TRUSTED w)) w"

fun or_macs :: "(string \<Rightarrow> world \<Rightarrow> int \<times> world) \<Rightarrow> string list \<Rightarrow> int \<times> world \<Rightarrow> int \<times> world" where
  "or_macs f [] rw = rw"
| "or_macs f (m # ms) (rc, w) = (case f m w of (r, w') \<Rightarrow> or_macs f ms (rc OR r, w'))"

section \<open>The rules put up at start\<close>

text \<open>The chains of the mangle table and the jumps into them.\<close>

definition mangle_cmds :: "string \<Rightarrow> string \<Rightarrow> string list" where
  "mangle_cmds gw_interface gw_iprange =
     [''-t mangle -N ndsTRU'', ''-t mangle -N ndsBLK'', ''-t mangle -N ndsINC'', ''-t mangle -N ndsOUT'',
      ''-t mangle -I PREROUTING 1 -i '' @ gw_interface @ '' -s '' @ gw_iprange @ '' -j ndsOUT'',
      ''-t mangle -I PREROUTING 2 -i '' @ gw_interface @ '' -s '' @ gw_iprange @ '' -j ndsBLK'',
      ''-t mangle -I PREROUTING 3 -i '' @ gw_interface @ '' -s '' @ gw_iprange @ '' -j ndsTRU'',
      ''-t mangle -I POSTROUTING 1 -o '' @ gw_interface @ '' -d '' @ gw_iprange @ '' -j ndsINC'']"

text \<open>The marking of MAC addresses, by the mechanism in use.\<close>

definition fw_init_macs :: "env \<Rightarrow> int \<times> world \<Rightarrow> int \<times> world" where
  "fw_init_macs e rw =
     (case or_macs (iptables_trust_mac e) (cf_trustedmaclist (w_conf (snd rw))) rw of (rc, w) \<Rightarrow>
        let c = w_conf w in
        if MAC_BLOCK = cf_macmechanism c then
          or_macs (iptables_block_mac e) (cf_blockedmaclist c) (rc, w)
        else if MAC_ALLOW = cf_macmechanism c then
          (case iptables_do_command e
                 (''-t mangle -A ndsBLK'' @ mark_rule w (w_MARK_BLOCKED w)) w of (r, w') \<Rightarrow>
             or_macs (iptables_allow_mac e) (cf_allowedmaclist c) (rc OR r, w'))
        else (-1, w))"

text \<open>The match on a mark, with the mask the kernel supports.\<close>

definition mark_match :: "world \<Rightarrow> 32 word \<Rightarrow> string" where
  "mark_match w m = '' -m mark --mark 0x'' @ hx m @ w_markmask w"

definition nat_cmds :: "world \<Rightarrow> string \<Rightarrow> string \<Rightarrow> string \<Rightarrow> int \<Rightarrow> string option list" where
  "nat_cmds w gw_interface gw_iprange gw_address gw_port =
     map Some
       [''-t nat -N ndsOUT'',
        ''-t nat -I PREROUTING -i '' @ gw_interface @ '' -s '' @ gw_iprange @ '' -j ndsOUT'',
        ''-t nat -A ndsOUT'' @ mark_match w (w_MARK_TRUSTED w) @ '' -j ACCEPT'',
        ''-t nat -A ndsOUT'' @ mark_match w (w_MARK_AUTHENTICATED w) @ '' -j ACCEPT''] @
     ruleset_cmds ''nat'' ''preauthenticated-users'' ''ndsOUT'' (w_conf w) @
     map Some
       [''-t nat -A ndsOUT -p tcp --dport 80 -j DNAT --to-destination '' @ gw_address @ '':'' @ fmt_d gw_port,
        ''-t nat -A ndsOUT -j ACCEPT'']"

text \<open>\<^verbatim>\<open>%s\<close> of a policy that may be missing.\<close>

definition policy_str :: "string \<Rightarrow> s_config \<Rightarrow> string" where
  "policy_str ruleset c = (case get_empty_ruleset_policy ruleset c of Some p \<Rightarrow> p | None \<Rightarrow> ''(null)'')"

definition reject_rest :: "string \<Rightarrow> string" where
  "reject_rest chain = ''-t filter -A '' @ chain @ '' -j REJECT --reject-with icmp-port-unreachable''"

text \<open>
  The packets with a mark: the empty-ruleset policy, or a jump into a chain of their own
  with the ruleset between established connections and a rejection.
\<close>

definition marked_ruleset :: "world \<Rightarrow> string \<Rightarrow> 32 word \<Rightarrow> string \<Rightarrow> string \<Rightarrow> string option list" where
  "marked_ruleset w from_chain m ruleset chain =
     (if is_empty_ruleset ruleset (w_conf w) then
        [Some (''-t filter -A '' @ from_chain @ mark_match w m @ '' -j '' @ policy_str ruleset (w_conf w))]
      else
        map Some [''-t filter -A '' @ from_chain @ mark_match w m @ '' -j '' @ chain,
          ''-t filter -A '' @ chain @ '' -m state --state RELATED,ESTABLISHED -j ACCEPT''] @
        ruleset_cmds ''filter'' ruleset chain (w_conf w) @ [Some (reject_rest chain)])"

definition filter_router_cmds :: "world \<Rightarrow> string \<Rightarrow> string \<Rightarrow> int \<Rightarrow> string option list" where
  "filter_router_cmds w gw_interface gw_iprange gw_port =
     map Some
       [''-t filter -N ndsNET'', ''-t filter -N ndsRTR'', ''-t filter -N ndsAUT'',
        ''-t filter -N ndsTRU'', ''-t filter -N ndsTRT'',
        ''-t filter -I INPUT -i '' @ gw_interface @ '' -s '' @ gw_iprange @ '' -j ndsRTR'',
        ''-t filter -A ndsRTR'' @ mark_match w (w_MARK_BLOCKED w) @ '' -j DROP'',
        ''-t filter -A ndsRTR -m state --state INVALID -j DROP'',
        ''-t filter -A ndsRTR -m state --state RELATED,ESTABLISHED -j ACCEPT'',
        ''-t filter -A ndsRTR -p tcp --tcp-flags SYN SYN '' @ [CHR 0x5C] @ ''! --tcp-option 2 -j  DROP'',
        ''-t filter -A ndsRTR -p tcp --dport '' @ fmt_d gw_port @ '' -j ACCEPT''] @
     marked_ruleset w ''ndsRTR'' (w_MARK_TRUSTED w) ''trusted-users-to-router'' ''ndsTRT'' @
     (if is_empty_ruleset ''users-to-router'' (w_conf w) then
        [Some (''-t filter -A ndsRTR -j '' @ policy_str ''users-to-router'' (w_conf w))]
      else ruleset_cmds ''filter'' ''users-to-router'' ''ndsRTR'' (w_conf w) @ [Some (reject_rest ''ndsRTR'')])"

definition filter_forward_cmds :: "world \<Rightarrow> string \<Rightarrow> string \<Rightarrow> string option list" where
  "filter_forward_cmds w gw_interface gw_iprange =
     (let c = w_conf w in
      map Some
        [''-t filter -I FORWARD -i '' @ gw_interface @ '' -s '' @ gw_iprange @ '' -j ndsNET'',
         ''-t filter -A ndsNET'' @ mark_match w (w_MARK_BLOCKED w) @ '' -j DROP'',
         ''-t filter -A ndsNET -m state --state INVALID -j DROP''] @
      (if cf_set_mss c \<noteq> 0 then
         [Some (if cf_mss_value c > 0
            then ''-t filter -A ndsNET -p tcp --tcp-flags SYN,RST SYN -j TCPMSS --set-mss '' @ fmt_d (cf_mss_value c)
            else ''-t filter -A ndsNET -p tcp --tcp-flags SYN,RST SYN -j TCPMSS --clamp-mss-to-pmtu'')]
       else []) @
      marked_ruleset w ''ndsNET'' (w_MARK_TRUSTED w) ''trusted-users'' ''ndsTRU'' @
      marked_ruleset w ''ndsNET'' (w_MARK_AUTHENTICATED w) ''authenticated-users'' ''ndsAUT'' @
      (if is_empty_ruleset ''preauthenticated-users'' c then
         [Some (''-t filter -A ndsNET -j '' @ policy_str ''preauthenticated-users'' c @ '' '')]
       else ruleset_cmds ''filter'' ''preauthenticated-users'' ''ndsNET'' c) @
      [Some (reject_rest ''ndsNET'')])"

definition iptables_fw_init :: "env \<Rightarrow> world \<Rightarrow> (int \<times> world) result" where
  "iptables_fw_init e w =
     (let c = w_conf w; rng = cf_gw_iprange c; port = sint (cf_gw_port c) in
      case (cf_gw_interface c, cf_gw_address c) of
        (Some ifc, Some addr) \<Rightarrow>
          (let w1 = w\<lparr>w_MARK_BLOCKED := cf_FW_MARK_BLOCKED c, w_MARK_TRUSTED := cf_FW_MARK_TRUSTED c,
                      w_MARK_AUTHENTICATED := cf_FW_MARK_AUTHENTICATED c\<rparr>;
               (r1, w2) = iptables_init_marks w1;
               (r2, w3) = iptables_check_mark_masking e w2;
               (r4, w4) = fw_init_macs e
                 (or_all (iptables_do_command e) (mangle_cmds ifc rng) (r1 OR r2, w3));
               (r5, w5) = (if cf_traffic_control c \<noteq> 0
                 then (case tc_init_tc e w4 of (r, w') \<Rightarrow> (r4 OR r, w')) else (r4, w4))
           in rbind (of_opt (all_some (nat_cmds w5 ifc rng addr port @
                filter_router_cmds w5 ifc rng port @ filter_forward_cmds w5 ifc rng)))
                (\<lambda>cs. Ok (or_all (iptables_do_command e) cs (r5, w5))))
      | _ \<Rightarrow> Exit 1)"

section \<open>Taking the rules down\<close>

text \<open>\<^verbatim>\<open>while (!feof(p) && fgetc(p) != '\n')\<close>: what is left of the stream, and whether its
  end was hit.\<close>

definition skip_line :: "string \<Rightarrow> string \<times> bool" where
  "skip_line s = (case dropWhile (\<lambda>c. c \<noteq> nl) s of [] \<Rightarrow> ([], True) | _ # r \<Rightarrow> (r, False))"

definition skip_two :: "string \<Rightarrow> string \<times> bool" where
  "skip_two s = (case skip_line s of (r, eof) \<Rightarrow> if eof then (r, eof) else skip_line r)"

text \<open>The rule number of the first line that mentions the word and starts with a number.\<close>

function find_mention :: "string \<Rightarrow> string \<Rightarrow> string option" where
  "find_mention mention s =
     (case fgets MAX_BUF s of
        None \<Rightarrow> None
      | Some (line, rest) \<Rightarrow>
          (if strstr line mention \<noteq> None then
             (case fst (scanf [SSet 9 isdigit] line) of
                VStr num # _ \<Rightarrow> Some num
              | _ \<Rightarrow> find_mention mention rest)
           else find_mention mention rest))"
  by pat_completeness auto
termination
  by (relation "measure (\<lambda>(m, s). length s)") (auto dest!: fgets_decreases)

declare find_mention.simps [simp del]

definition list_cmd :: "string \<Rightarrow> string \<Rightarrow> string" where
  "list_cmd table chain = ''iptables -t '' @ table @ '' -L '' @ chain @ '' -n --line-numbers -v''"

text \<open>After a deletion the numbers have changed, so the function calls itself again.\<close>

partial_function (option) destroy_mention ::
    "env \<Rightarrow> string \<Rightarrow> string \<Rightarrow> string \<Rightarrow> world \<Rightarrow> (int \<times> world) option" where
  "destroy_mention e table chain mention w =
     (case popen e (list_cmd table chain) w of (out, w1) \<Rightarrow>
        case (case out of None \<Rightarrow> None | Some txt \<Rightarrow> find_mention mention (fst (skip_two txt))) of
          None \<Rightarrow> Some (-1, w1)
        | Some num \<Rightarrow>
            (case iptables_do_command e (''-t '' @ table @ '' -D '' @ chain @ '' '' @ num) w1 of (_, w2) \<Rightarrow>
               Option.bind (destroy_mention e table chain mention w2) (\<lambda>(_, w3). Some (0, w3))))"

definition iptables_fw_destroy_mention ::
    "env \<Rightarrow> string \<Rightarrow> string \<Rightarrow> string \<Rightarrow> world \<Rightarrow> (int \<times> world) result" where
  "iptables_fw_destroy_mention e table chain mention w = of_opt (destroy_mention e table chain mention w)"

fun destroy_mentions :: "env \<Rightarrow> (string \<times> string \<times> string) list \<Rightarrow> world \<Rightarrow> world result" where
  "destroy_mentions e [] w = Ok w"
| "destroy_mentions e ((t, c, m) # xs) w =
     rbind (iptables_fw_destroy_mention e t c m w) (\<lambda>(_, w'). destroy_mentions e xs w')"

definition run_all :: "env \<Rightarrow> string list \<Rightarrow> world \<Rightarrow> world" where
  "run_all e cs w = snd (or_all (iptables_do_command e) cs (0, w))"

definition iptables_fw_destroy :: "env \<Rightarrow> world \<Rightarrow> (int \<times> world) result" where
  "iptables_fw_destroy e w =
     (let w0 = w\<lparr>w_fw_quiet := True\<rparr>;
          w1 = (if cf_traffic_control (w_conf w0) \<noteq> 0 then snd (tc_destroy_tc e w0) else w0)
      in rbind (destroy_mentions e
             [(''mangle'', ''PREROUTING'', ''ndsTRU''), (''mangle'', ''PREROUTING'', ''ndsBLK''),
              (''mangle'', ''PREROUTING'', ''ndsALW''), (''mangle'', ''PREROUTING'', ''ndsOUT''),
              (''mangle'', ''POSTROUTING'', ''ndsINC'')] w1) (\<lambda>w2.
         rbind (destroy_mentions e [(''nat'', ''PREROUTING'', ''ndsOUT'')]
             (run_all e [''-t mangle -F ndsTRU'', ''-t mangle -F ndsBLK'', ''-t mangle -F ndsALW'',
                ''-t mangle -F ndsOUT'', ''-t mangle -F ndsINC'', ''-t mangle -X ndsTRU'',
                ''-t mangle -X ndsBLK'', ''-t mangle -X ndsALW'', ''-t mangle -X ndsOUT'',
                ''-t mangle -X ndsINC''] w2)) (\<lambda>w3.
         rbind (destroy_mentions e
             [(''filter'', ''INPUT'', ''ndsRTR''), (''filter'', ''FORWARD'', ''ndsNET'')]
             (run_all e [''-t nat -F ndsOUT'', ''-t nat -X ndsOUT''] w3)) (\<lambda>w4.
         Ok (0, run_all e [''-t filter -F ndsRTR'', ''-t filter -F ndsNET'', ''-t filter -F ndsAUT'',
                ''-t filter -F ndsTRU'', ''-t filter -F ndsTRT'', ''-t filter -X ndsRTR'',
                ''-t filter -X ndsNET'', ''-t filter -X ndsAUT'', ''-t filter -X ndsTRU'',
                ''-t filter -X ndsTRT''] w4)))))"

section \<open>The rules of a client\<close>

datatype t_authaction = AUTH_MAKE_DEAUTHENTICATED | AUTH_MAKE_AUTHENTICATED

text \<open>
  The three mangle rules of a client. The mark is printed as the digits of \<^verbatim>\<open>idx + 10\<close>
  followed by those of the authenticated mark; \<open>act\<close> is \<^verbatim>\<open>A\<close> or \<^verbatim>\<open>D\<close>.
\<close>

definition client_mark :: "world \<Rightarrow> nat \<Rightarrow> string" where
  "client_mark w idx = ''0x'' @ uhex (idx + 10) @ hx (w_MARK_AUTHENTICATED w)"

definition client_rules :: "string \<Rightarrow> world \<Rightarrow> t_client \<Rightarrow> string list" where
  "client_rules act w c =
     [''-t mangle -'' @ act @ '' ndsOUT -s '' @ c_ip c @ '' -m mac --mac-source '' @ c_mac c @
        '' -j MARK '' @ w_markop w @ '' '' @ client_mark w (c_idx c),
      ''-t mangle -'' @ act @ '' ndsINC -d '' @ c_ip c @ '' -j MARK '' @ w_markop w @ '' '' @
        client_mark w (c_idx c),
      ''-t mangle -'' @ act @ '' ndsINC -d '' @ c_ip c @ '' -j ACCEPT'']"

definition client_limits :: "s_config \<Rightarrow> t_client \<Rightarrow> int \<times> int" where
  "client_limits cf c =
     (if c_download_limit c > 0 \<and> c_upload_limit c > 0 then (c_download_limit c, c_upload_limit c)
      else (cf_download_limit cf, cf_upload_limit cf))"

definition iptables_fw_access :: "env \<Rightarrow> t_authaction \<Rightarrow> t_client \<Rightarrow> world \<Rightarrow> int \<times> world" where
  "iptables_fw_access e action c w0 =
     (let w = w0\<lparr>w_fw_quiet := False\<rparr>; cf = w_conf w;
          down = imq (cf_download_imq cf); up = imq (cf_upload_imq cf);
          (dl, ul) = client_limits cf c
      in case action of
           AUTH_MAKE_AUTHENTICATED \<Rightarrow>
             (case or_all (iptables_do_command e) (client_rules ''A'' w c) (0, w) of (rc, w1) \<Rightarrow>
                if cf_traffic_control cf \<noteq> 0 then
                  (case tc_attach_client e down dl up ul (c_idx c) (w_MARK_AUTHENTICATED w1) w1 of
                     (r, w2) \<Rightarrow> (rc OR r, w2))
                else (rc, w1))
         | AUTH_MAKE_DEAUTHENTICATED \<Rightarrow>
             (case or_all (iptables_do_command e) (client_rules ''D'' w c) (0, w) of (rc, w1) \<Rightarrow>
                if cf_traffic_control cf \<noteq> 0 then
                  (case tc_detach_client e down up (c_idx c) w1 of (r, w2) \<Rightarrow> (rc OR r, w2))
                else (rc, w1)))"

section \<open>Lemmas on marks\<close>

lemma iptables_init_marks_ok:
  "fst (iptables_init_marks w) = 0 \<longleftrightarrow>
     distinct [0, w_MARK_AUTHENTICATED w, w_MARK_BLOCKED w, w_MARK_TRUSTED w]"
  by (auto simp: iptables_init_marks_def)

lemma hexval_client_mark:
  "hexval (uhex (idx + 10) @ hx m) = (idx + 10) * 16 ^ length (hx m) + unat m"
  by (simp add: hexval_append hx_def)

lemma and_high_bits:
  fixes a b k n :: nat
  assumes "b < 2 ^ n" "b AND k = b"
  shows "(a * 2 ^ n + b) AND k = b \<longleftrightarrow> a AND (k div 2 ^ n) = 0"
proof -
  let ?x = "a * 2 ^ n + b"
  have x: "drop_bit n ?x = a" "take_bit n ?x = b" using assms(1) by (simp_all add: drop_bit_eq_div take_bit_eq_mod)
  have t: "take_bit n (?x AND k) = b"
  proof -
    have "take_bit n (?x AND k) = take_bit n b AND take_bit n k" using x(2) assms(1) by (simp add: take_bit_nat_eq_self)
    also have "\<dots> = b" using assms by (metis take_bit_and take_bit_nat_eq_self)
    finally show ?thesis .
  qed
  have "?x AND k = 2 ^ n * drop_bit n (?x AND k) + b"
    using bits_ident [of n "?x AND k"] unfolding t push_bit_eq_mult by (simp only: mult.commute)
  moreover have "drop_bit n (?x AND k) = a AND (k div 2 ^ n)"
    using x(1) by (simp add: drop_bit_eq_div [of n k, symmetric])
  ultimately show ?thesis by (metis add_cancel_left_left mult_eq_0_iff power_not_zero zero_neq_numeral)
qed

lemma hx_bound: "unat m < 16 ^ length (hx m)"
  using uhex_bound by (simp add: hx_def)

lemma unat_and: "unat (a AND b) = unat a AND unat b"
  by (simp add: unsigned_and_eq)

section \<open>Lemmas on the rules of a client\<close>

definition client_bodies :: "world \<Rightarrow> t_client \<Rightarrow> string list" where
  "client_bodies w c =
     [''ndsOUT -s '' @ c_ip c @ '' -m mac --mac-source '' @ c_mac c @ '' -j MARK '' @ w_markop w @ '' '' @
        client_mark w (c_idx c),
      ''ndsINC -d '' @ c_ip c @ '' -j MARK '' @ w_markop w @ '' '' @ client_mark w (c_idx c),
      ''ndsINC -d '' @ c_ip c @ '' -j ACCEPT'']"

definition add_cmd :: "string \<Rightarrow> string" where
  "add_cmd body = ''iptables -t mangle -A '' @ body"

definition del_cmd :: "string \<Rightarrow> string" where
  "del_cmd body = ''iptables -t mangle -D '' @ body"

lemma client_rules_bodies:
  "map ipt_cmd (client_rules ''A'' w c) = map add_cmd (client_bodies w c)"
  "map ipt_cmd (client_rules ''D'' w c) = map del_cmd (client_bodies w c)"
  by (simp_all add: client_rules_def client_bodies_def add_cmd_def del_cmd_def ipt_cmd_def)

lemma add_del_cmd [simp]:
  "add_cmd b = add_cmd b' \<longleftrightarrow> b = b'" "del_cmd b = del_cmd b' \<longleftrightarrow> b = b'" "add_cmd b \<noteq> del_cmd b'"
  "del_cmd b \<noteq> add_cmd b'"
  by (simp_all add: add_cmd_def del_cmd_def)

text \<open>How often a mangle rule is in place, going by the commands that took effect.\<close>

definition net :: "(string \<times> int) list \<Rightarrow> string \<Rightarrow> int" where
  "net l body = int (count_list (effects l) (add_cmd body)) - int (count_list (effects l) (del_cmd body))"

lemma count_map_add: "count_list (map add_cmd bs) (add_cmd b) = count_list bs b"
  "count_list (map add_cmd bs) (del_cmd b) = 0" "count_list (map del_cmd bs) (add_cmd b) = 0"
  "count_list (map del_cmd bs) (del_cmd b) = count_list bs b"
  by (induction bs) auto

text \<open>Commands of \<^verbatim>\<open>tc\<close> are no mangle rules.\<close>

lemma count_tc: "count_list (map tc_cmd cs) (add_cmd b) = 0"
  "count_list (map tc_cmd cs) (del_cmd b) = 0"
  by (induction cs) (auto simp: add_cmd_def del_cmd_def tc_cmd_def)

lemma fw_access_same:
  assumes "iptables_fw_access e action c w = (rc, w')"
  shows "same_daemon (w\<lparr>w_fw_quiet := False\<rparr>) w'"
proof -
  let ?w = "w\<lparr>w_fw_quiet := False\<rparr>"
  obtain r1 w1 where a: "or_all (iptables_do_command e)
      (client_rules (case action of AUTH_MAKE_AUTHENTICATED \<Rightarrow> ''A'' | AUTH_MAKE_DEAUTHENTICATED \<Rightarrow> ''D'') ?w c)
      (0, ?w) = (r1, w1)" by fastforce
  have s1: "same_daemon ?w w1" using ipt.or_all_same [OF a] .
  show ?thesis
  proof (cases "cf_traffic_control (w_conf ?w) = 0")
    case True
    with assms a s1 show ?thesis
      by (cases action) (auto simp: iptables_fw_access_def Let_def split: prod.splits)
  next
    case False
    with assms a obtain r2 where "same_daemon w1 w'"
      by (cases action)
         (auto simp: iptables_fw_access_def Let_def split: prod.splits
           dest: tc_attach_client_same tc_detach_client_same)
    with s1 show ?thesis by (rule same_daemon_trans)
  qed
qed

text \<open>A successful change of access adds or deletes exactly the client's three rules.\<close>

lemma fw_access_net:
  assumes "iptables_fw_access e action c w = (0, w')"
  shows "net (w_log w') b = net (w_log w) b +
    (case action of AUTH_MAKE_AUTHENTICATED \<Rightarrow> 1 | AUTH_MAKE_DEAUTHENTICATED \<Rightarrow> -1) *
      int (count_list (client_bodies w c) b)"
proof -
  let ?w = "w\<lparr>w_fw_quiet := False\<rparr>"
  let ?act = "case action of AUTH_MAKE_AUTHENTICATED \<Rightarrow> ''A'' | AUTH_MAKE_DEAUTHENTICATED \<Rightarrow> ''D''"
  obtain r1 w1 where a: "or_all (iptables_do_command e) (client_rules ?act ?w c) (0, ?w) = (r1, w1)"
    by fastforce
  have bod: "client_bodies ?w c = client_bodies w c" by (simp add: client_bodies_def client_mark_def)
  have "\<exists>cs. r1 = 0 \<and> effects (w_log w') = effects (w_log w1) @ map tc_cmd cs"
  proof (cases "cf_traffic_control (w_conf ?w) = 0")
    case True
    with assms a show ?thesis
      by (cases action) (auto simp: iptables_fw_access_def Let_def split: prod.splits intro: exI [of _ "[]"])
  next
    case False
    let ?d = "imq (cf_download_imq (w_conf ?w))" and ?u = "imq (cf_upload_imq (w_conf ?w))"
    obtain dl ul where lim: "client_limits (w_conf ?w) c = (dl, ul)" by fastforce
    obtain cs r2 where t: "or_all (tc_do_command e) cs (0, w1) = (r2, w')" "r1 OR r2 = 0"
      using assms a False lim
      by (cases action)
         (auto simp: iptables_fw_access_def Let_def tc_attach_client_def tc_detach_client_def
            simp del: or_all.simps split: prod.splits)
    from t(2) have "r1 = 0" "r2 = 0" using ipt.or_zero by auto
    with tc.or_all_zero [of e cs 0 w1 w'] t show ?thesis by auto
  qed
  then obtain cs where r: "r1 = 0" "effects (w_log w') = effects (w_log w1) @ map tc_cmd cs"
    by blast
  have "effects (w_log w1) = effects (w_log w) @ map ipt_cmd (client_rules ?act ?w c)"
    using ipt.or_all_zero [of e "client_rules ?act ?w c" 0 ?w w1] a r by simp
  with r show ?thesis
    by (cases action)
       (simp_all add: net_def client_rules_bodies count_map_add count_tc bod)
qed

section \<open>Lemmas on taking rules down\<close>

lemma same_clock: "iptables_do_command e c w = (rc, w') \<Longrightarrow> w_clock w < w_clock w'"
proof -
  have ex: "w_clock w < w_clock w'" if "execute e c w = (rc, w')" for c w rc w'
    using that by (auto simp: execute_def Let_def tick_def)
  have "w_clock w < w_clock w'" if "iptables_attempts e n c w = (rc, w')" for n c w rc w'
    using that
  proof (induction n arbitrary: w)
    case 0
    then show ?case by (auto dest: ex)
  next
    case (Suc n)
    obtain r1 w1 where r: "execute e c w = (r1, w1)" by (cases "execute e c w")
    with ex [OF r] Suc show ?case by (fastforce split: if_splits)
  qed
  then show "iptables_do_command e c w = (rc, w') \<Longrightarrow> w_clock w < w_clock w'"
    unfolding iptables_do_command_def by blast
qed

definition mentions :: "env \<Rightarrow> string \<Rightarrow> string \<Rightarrow> string \<Rightarrow> nat \<Rightarrow> bool" where
  "mentions e table chain mention n \<longleftrightarrow>
     (case e_popen e n (list_cmd table chain) of
        None \<Rightarrow> False | Some txt \<Rightarrow> find_mention mention (fst (skip_two txt)) \<noteq> None)"

lemma destroy_mention_ends:
  assumes "\<And>n. k \<le> n \<Longrightarrow> \<not> mentions e t c m n"
  shows "\<exists>rc w'. destroy_mention e t c m w = Some (rc, w') \<and> same_daemon w w'"
proof (induction "k - w_clock w" arbitrary: w rule: less_induct)
  case less
  obtain out w1 where p: "popen e (list_cmd t c) w = (out, w1)" by fastforce
  then have w1: "same_daemon w w1" "w_clock w1 = Suc (w_clock w)" "out = e_popen e (w_clock w) (list_cmd t c)"
    by (auto simp: popen_def tick_def same_daemon_def)
  let ?f = "case out of None \<Rightarrow> None | Some txt \<Rightarrow> find_mention m (fst (skip_two txt))"
  show ?case
  proof (cases ?f)
    case None
    with p w1(1) show ?thesis by (subst destroy_mention.simps) auto
  next
    case (Some num)
    then have "mentions e t c m (w_clock w)" using w1(3) by (auto simp: mentions_def split: option.splits)
    with assms have "w_clock w < k" by (meson not_le)
    obtain r2 w2 where d: "iptables_do_command e (''-t '' @ t @ '' -D '' @ c @ '' '' @ num) w1 = (r2, w2)" by fastforce
    have "w_clock w < w_clock w2" using same_clock [OF d] w1(2) by simp
    with \<open>w_clock w < k\<close> have "k - w_clock w2 < k - w_clock w" by simp
    from less [OF this] obtain rc w3 where "destroy_mention e t c m w2 = Some (rc, w3)" "same_daemon w2 w3" by blast
    with p Some d w1(1) ipt.run_same [OF d] show ?thesis
      by (subst destroy_mention.simps) (auto intro: same_daemon_trans)
  qed
qed

lemma destroy_mention_clock:
  assumes "destroy_mention e t c m w = Some r"
  shows "w_clock w < w_clock (snd r)"
proof (rule destroy_mention.raw_induct [where P = "\<lambda>e t c m w r. w_clock w < w_clock (snd r)", OF _ assms], goal_cases)
  case (1 f e t c m w r)
  obtain out w1 where p: "popen e (list_cmd t c) w = (out, w1)" by fastforce
  then have c: "w_clock w1 = Suc (w_clock w)" by (auto simp: popen_def tick_def)
  show ?case
  proof (cases "case out of None \<Rightarrow> None | Some txt \<Rightarrow> find_mention m (fst (skip_two txt))")
    case None
    with 1(2) p c show ?thesis by auto
  next
    case (Some num)
    obtain r2 w2 where d: "iptables_do_command e (''-t '' @ t @ '' -D '' @ c @ '' '' @ num) w1 = (r2, w2)" by fastforce
    with 1(2) p Some obtain r3 where "f e t c m w2 = Some r3" "snd r = snd r3" by (auto split: Option.bind_splits)
    with 1(1) same_clock [OF d] c show ?thesis by fastforce
  qed
qed

text \<open>
  What iptables prints for a chain: two lines of heading, then the rules, each with its number
  in front. The number of the first rule, from \<open>i\<close> on, whose line mentions the word.
\<close>

fun printed_rules :: "nat \<Rightarrow> string list \<Rightarrow> string" where
  "printed_rules i [] = []"
| "printed_rules i (b # bs) = udec i @ b @ [nl] @ printed_rules (Suc i) bs"

definition rule_listing :: "string \<Rightarrow> string \<Rightarrow> string list \<Rightarrow> string" where
  "rule_listing h1 h2 bs = h1 @ [nl] @ h2 @ [nl] @ printed_rules 1 bs"

fun mentioning_rule :: "nat \<Rightarrow> string \<Rightarrow> string list \<Rightarrow> nat option" where
  "mentioning_rule i m [] = None"
| "mentioning_rule i m (b # bs) = (if sublist m (udec i @ b) then Some i else mentioning_rule (Suc i) m bs)"

definition printable_rules :: "string list \<Rightarrow> bool" where
  "printable_rules bs \<longleftrightarrow> list_all (\<lambda>b. b \<noteq> [] \<and> \<not> isdigit (hd b) \<and> nl \<notin> set b \<and> NUL \<notin> set b \<and> length b \<le> 4000) bs \<and>
     length bs < 10 ^ 9"

lemma strstr_sublist: "strstr s pat \<noteq> None \<longleftrightarrow> sublist pat s"
proof
  assume "strstr s pat \<noteq> None"
  then obtain t where "strstr s pat = Some t" by blast
  from strstr_SomeD [OF this] obtain u where "s = u @ t" "take (length pat) t = pat" by blast
  then have "s = u @ pat @ drop (length pat) t" by (metis append_take_drop_id)
  then show "sublist pat s" by (auto simp: sublist_def)
next
  show "sublist pat s \<Longrightarrow> strstr s pat \<noteq> None"
  proof (induction s)
    case (Cons c s)
    show ?case
    proof (cases "prefix pat (c # s)")
      case True
      then have "take (length pat) (c # s) = pat" by (auto simp: prefix_def)
      then show ?thesis by (simp add: strstr_Cons)
    next
      case False
      with Cons show ?thesis by (auto simp: strstr_Cons sublist_Cons_right)
    qed
  qed (simp add: strstr_Nil)
qed

lemma sublist_before_nl:
  assumes "nl \<notin> set m"
  shows "sublist m (l @ [nl]) \<longleftrightarrow> sublist m l"
proof
  assume "sublist m (l @ [nl])"
  then obtain u v where "l @ [nl] = u @ m @ v" by (auto simp: sublist_def)
  with assms show "sublist m l"
  proof (cases v rule: rev_cases)
    case (snoc v' x)
    with \<open>l @ [nl] = u @ m @ v\<close> have "l = u @ m @ v'" by simp
    then show ?thesis by (auto simp: sublist_def)
  next
    case Nil
    with \<open>l @ [nl] = u @ m @ v\<close> assms have "m = []" by (cases m rule: rev_cases) auto
    then show ?thesis by simp
  qed
next
  assume "sublist m l"
  then obtain u v where "l @ [nl] = u @ m @ (v @ [nl])" by (auto simp: sublist_def)
  then show "sublist m (l @ [nl])" unfolding sublist_def by blast
qed

lemma find_mention_printed:
  assumes "nl \<notin> set m"
    and "list_all (\<lambda>b. b \<noteq> [] \<and> \<not> isdigit (hd b) \<and> nl \<notin> set b \<and> NUL \<notin> set b \<and> length b \<le> 4000) bs"
    and "i + length bs \<le> 10 ^ 9"
  shows "find_mention m (printed_rules i bs) = map_option udec (mentioning_rule i m bs)"
  using assms(2,3)
proof (induction bs arbitrary: i)
  case Nil
  then show ?case by (simp add: find_mention.simps fgets_def)
next
  case (Cons b bs)
  let ?l = "udec i @ b" and ?r = "printed_rules (Suc i) bs"
  have i: "length (udec i) \<le> 9" using Cons.prems(2) by (intro length_udec_le) simp_all
  have dg: "isdigit x \<Longrightarrow> x \<noteq> nl \<and> x \<noteq> NUL" for x by (auto simp: isdigit_def nl_def NUL_def cc_def)
  have n: "\<forall>x \<in> set ?l. x \<noteq> nl" "\<forall>x \<in> set (?l @ [nl]). x \<noteq> NUL"
    using Cons.prems(1) udec_digits [of i] dg by (auto simp: nl_def NUL_def)
  from n(1) have w: "takeWhile (\<lambda>x. x \<noteq> nl) (?l @ nl # ?r) = ?l" by (subst takeWhile_append2) auto
  have z: "c_string (?l @ [nl]) = ?l @ [nl]" using n(2) by (simp add: c_string_def takeWhile_eq_all_conv del: append_assoc)
  have m: "min (MAX_BUF - 1) (Suc (length ?l)) = Suc (length ?l)" using i Cons.prems(1) by (simp add: MAX_BUF_def)
  have f: "fgets MAX_BUF (?l @ nl # ?r) = Some (?l @ [nl], ?r)"
    using w m z by (simp add: fgets_def Let_def)
  obtain x xs where b: "b = x # xs" "\<not> isdigit x" using Cons.prems(1) by (cases b) auto
  have "takeWhile isdigit (take 9 (?l @ [nl])) = udec i"
    using i b udec_digits [of i] by (simp add: takeWhile_append take_Cons')
  then have d: "fst (scanf [SSet 9 isdigit] (?l @ [nl])) = [VStr (udec i)]"
    by (simp add: scanf.simps Let_def)
  have "find_mention m ?r = map_option udec (mentioning_rule (Suc i) m bs)" using Cons by simp
  with f d sublist_before_nl [OF assms(1), of ?l] strstr_sublist [of "?l @ [nl]" m] show ?case
    by (subst find_mention.simps) (simp del: append_assoc add: append_assoc [symmetric])
qed

lemma skip_two_listing:
  assumes "nl \<notin> set h1" "nl \<notin> set h2"
  shows "fst (skip_two (rule_listing h1 h2 bs)) = printed_rules 1 bs"
proof -
  have d: "dropWhile (\<lambda>x. x \<noteq> nl) (h @ nl # r) = nl # r" if "nl \<notin> set h" for h r
    using that by (subst dropWhile_append2) auto
  show ?thesis using assms by (simp add: rule_listing_def skip_two_def skip_line_def d)
qed

lemma mentioned_number:
  assumes "\<And>n. e_popen e n (''iptables -t '' @ t @ '' -L '' @ c @ '' -n --line-numbers -v'') = map_option (rule_listing h1 h2) (rs n)"
    and "nl \<notin> set h1" "nl \<notin> set h2" "nl \<notin> set m" "\<forall>n bs. rs n = Some bs \<longrightarrow> printable_rules bs"
  shows "(case e_popen e n (list_cmd t c) of None \<Rightarrow> None | Some txt \<Rightarrow> find_mention m (fst (skip_two txt))) =
    Option.bind (rs n) (\<lambda>bs. map_option udec (mentioning_rule 1 m bs))"
  using assms(1) [of n] assms(5) [rule_format, of n] find_mention_printed [OF assms(4), of _ 1]
  by (cases "rs n") (auto simp: list_cmd_def skip_two_listing [OF assms(2,3)] printable_rules_def)

lemma destroy_mention_rounds:
  assumes L: "\<And>n. (case e_popen e n (list_cmd t c) of None \<Rightarrow> None | Some txt \<Rightarrow> find_mention m (fst (skip_two txt))) =
      Option.bind (rs n) (\<lambda>bs. map_option udec (mentioning_rule 1 m bs))"
    and k: "\<And>n bs. k \<le> n \<Longrightarrow> rs n = Some bs \<Longrightarrow> mentioning_rule 1 m bs = None"
  shows "\<exists>rc w' ts ls. destroy_mention e t c m w = Some (rc, w') \<and> same_daemon w w' \<and>
    w_log w' = w_log w @ concat ls \<and> sorted_wrt (<) ts \<and> (\<forall>n \<in> set ts. w_clock w \<le> n \<and> n < w_clock w') \<and>
    list_all2 (\<lambda>n l. \<exists>bs i. rs n = Some bs \<and> mentioning_rule 1 m bs = Some i \<and>
      set (map fst l) = {ipt_cmd (''-t '' @ t @ '' -D '' @ c @ '' '' @ udec i)}) ts ls \<and>
    (\<forall>bs. rs (w_clock w' - 1) = Some bs \<longrightarrow> mentioning_rule 1 m bs = None) \<and> rc = (if ts = [] then -1 else 0)"
proof (induction "k - w_clock w" arbitrary: w rule: less_induct)
  case less
  obtain out w1 where p: "popen e (list_cmd t c) w = (out, w1)" by fastforce
  then have w1: "same_daemon w w1" "w_clock w1 = Suc (w_clock w)" "w_log w1 = w_log w" "out = e_popen e (w_clock w) (list_cmd t c)"
    by (auto simp: popen_def tick_def same_daemon_def)
  let ?f = "case out of None \<Rightarrow> None | Some txt \<Rightarrow> find_mention m (fst (skip_two txt))"
  have f: "?f = Option.bind (rs (w_clock w)) (\<lambda>bs. map_option udec (mentioning_rule 1 m bs))" using L w1(4) by simp
  show ?case
  proof (cases "Option.bind (rs (w_clock w)) (mentioning_rule 1 m)")
    case None
    then have "?f = None" using f by (cases "rs (w_clock w)") auto
    with p have "destroy_mention e t c m w = Some (-1, w1)" by (subst destroy_mention.simps) simp
    moreover have "\<forall>bs. rs (w_clock w1 - 1) = Some bs \<longrightarrow> mentioning_rule 1 m bs = None" using None w1(2) by auto
    ultimately show ?thesis using w1 by (intro exI [of _ "-1"] exI [of _ w1] exI [of _ "[]"]) simp
  next
    case (Some i)
    then obtain bs where bs: "rs (w_clock w) = Some bs" "mentioning_rule 1 m bs = Some i"
      by (cases "rs (w_clock w)") auto
    with f have num: "?f = Some (udec i)" by simp
    have "w_clock w < k" using k bs by (metis not_le option.distinct(1))
    let ?d = "''-t '' @ t @ '' -D '' @ c @ '' '' @ udec i"
    obtain r2 w2 where d: "iptables_do_command e ?d w1 = (r2, w2)" by fastforce
    have c2: "w_clock w < w_clock w2" using same_clock [OF d] w1(2) by simp
    with \<open>w_clock w < k\<close> have "k - w_clock w2 < k - w_clock w" by simp
    from less [OF this] obtain rc w' ts ls where r: "destroy_mention e t c m w2 = Some (rc, w')" "same_daemon w2 w'"
      "w_log w' = w_log w2 @ concat ls" "sorted_wrt (<) ts" "\<forall>n \<in> set ts. w_clock w2 \<le> n \<and> n < w_clock w'"
      "list_all2 (\<lambda>n l. \<exists>bs i. rs n = Some bs \<and> mentioning_rule 1 m bs = Some i \<and>
        set (map fst l) = {ipt_cmd (''-t '' @ t @ '' -D '' @ c @ '' '' @ udec i)}) ts ls"
      "\<forall>bs. rs (w_clock w' - 1) = Some bs \<longrightarrow> mentioning_rule 1 m bs = None" by blast
    obtain l where l: "w_log w2 = w_log w1 @ l @ [(ipt_cmd ?d, r2)]" "\<forall>x \<in> set l. fst x = ipt_cmd ?d \<and> snd x \<noteq> 0"
      using ipt.run_log [OF d] by blast
    then have sl: "set (map fst (l @ [(ipt_cmd ?d, r2)])) = {ipt_cmd ?d}" by auto
    have "w_clock w2 \<le> w_clock w'" using destroy_mention_clock [OF r(1)] by simp
    with c2 r(5) have cl: "\<forall>n \<in> set (w_clock w # ts). w_clock w \<le> n \<and> n < w_clock w'" by fastforce
    have so: "sorted_wrt (<) (w_clock w # ts)" using r(4,5) c2 by fastforce
    have "destroy_mention e t c m w = Some (0, w')" using p num d r(1) by (subst destroy_mention.simps) simp
    moreover have "same_daemon w w'" using w1(1) ipt.run_same [OF d] r(2) by (blast intro: same_daemon_trans)
    moreover have "w_log w' = w_log w @ concat ((l @ [(ipt_cmd ?d, r2)]) # ls)" using r(3) l(1) w1(3) by simp
    ultimately show ?thesis using cl so r(6,7) bs sl
      by (intro exI [of _ 0] exI [of _ w'] exI [of _ "w_clock w # ts"] exI [of _ "(l @ [(ipt_cmd ?d, r2)]) # ls"])
         (simp only: list_all2_Cons list.distinct if_False, blast)
  qed
qed

lemma destroy_mention_returned:
  assumes "destroy_mention e t c m w = Some r"
  shows "\<exists>n. \<not> mentions e t c m n"
proof (rule destroy_mention.raw_induct [where P = "\<lambda>e t c m w r. \<exists>n. \<not> mentions e t c m n", OF _ assms],
    goal_cases)
  case (1 f e t c m w r)
  obtain out w1 where p: "popen e (list_cmd t c) w = (out, w1)" by fastforce
  then have out: "out = e_popen e (w_clock w) (list_cmd t c)" by (simp add: popen_def)
  show ?case
  proof (cases "case out of None \<Rightarrow> None | Some txt \<Rightarrow> find_mention m (fst (skip_two txt))")
    case None
    then have "\<not> mentions e t c m (w_clock w)"
      using out by (auto simp: mentions_def split: option.splits)
    then show ?thesis by blast
  next
    case (Some num)
    obtain r2 w2 where d: "iptables_do_command e (''-t '' @ t @ '' -D '' @ c @ '' '' @ num) w1 = (r2, w2)" by fastforce
    with 1 p Some obtain r3 where "f e t c m w2 = Some r3" by (auto split: Option.bind_splits)
    with 1(1) show ?thesis by blast
  qed
qed

section \<open>Lemmas on the rules put up at start\<close>

text \<open>The fields the rules are made from.\<close>

definition rule_view :: "world \<Rightarrow> s_config \<times> 32 word list" where
  "rule_view w = (w_conf w, [w_MARK_BLOCKED w, w_MARK_TRUSTED w, w_MARK_AUTHENTICATED w])"

lemma same_rule_view: "same_daemon w w' \<Longrightarrow> rule_view w' = rule_view w"
  using same_daemon_fields by (simp add: rule_view_def)

lemma check_mark_masking_view:
  assumes "iptables_check_mark_masking e w = (rc, w')"
  shows "rc = 0 \<and> rule_view w' = rule_view w"
proof -
  have run: "rule_view (snd (iptables_do_command e c w)) = rule_view w" for c w
    by (rule same_rule_view) (metis ipt.run_same prod.collapse)
  have q: "rule_view (w\<lparr>w_fw_quiet := b\<rparr>) = rule_view w" "rule_view (w\<lparr>w_markop := s\<rparr>) = rule_view w"
    "rule_view (w\<lparr>w_markmask := s\<rparr>) = rule_view w" for w b s
    by (simp_all add: rule_view_def)
  show ?thesis using assms
    by (auto simp: iptables_check_mark_masking_def Let_def q run case_prod_unfold)
qed

text \<open>An operation on a MAC address that runs commands and nothing else.\<close>

definition only_runs :: "('a \<Rightarrow> world \<Rightarrow> int \<times> world) \<Rightarrow> bool" where
  "only_runs f \<longleftrightarrow> (\<forall>m w r w'. f m w = (r, w') \<longrightarrow> same_daemon w w')"

lemma only_runsD: "only_runs f \<Longrightarrow> f m w = (r, w') \<Longrightarrow> same_daemon w w'"
  by (auto simp: only_runs_def)

lemma mac_commands_same:
  "only_runs (iptables_trust_mac e)" "only_runs (iptables_block_mac e)" "only_runs (iptables_allow_mac e)"
  by (auto simp: only_runs_def iptables_trust_mac_def iptables_block_mac_def iptables_allow_mac_def
      dest: ipt.run_same)

lemma or_macs_same:
  assumes "only_runs f"
  shows "or_macs f ms (r0, w) = (rc, w') \<Longrightarrow> same_daemon w w' \<and> (rc = 0 \<longrightarrow> r0 = 0)"
proof (induction ms arbitrary: r0 w)
  case (Cons m ms)
  obtain r1 w1 where r: "f m w = (r1, w1)" by (cases "f m w")
  have "or_macs f ms (r0 OR r1, w1) = (rc, w')" using Cons.prems r by simp
  from Cons.IH [OF this] only_runsD [OF assms r] show ?case by (auto simp: ipt.or_zero intro: same_daemon_trans)
qed simp

lemma fw_init_macs_same:
  assumes "fw_init_macs e (r0, w) = (rc, w')"
  shows "same_daemon w w' \<and> (rc = 0 \<longrightarrow> r0 = 0 \<and> cf_macmechanism (w_conf w) \<in> {MAC_BLOCK, MAC_ALLOW})"
proof -
  obtain r1 w1 where t: "or_macs (iptables_trust_mac e) (cf_trustedmaclist (w_conf w)) (r0, w) = (r1, w1)"
    by fastforce
  note s1 = or_macs_same [OF mac_commands_same(1) t]
  then have c: "w_conf w1 = w_conf w" using same_daemon_fields(1) by blast
  let ?mech = "cf_macmechanism (w_conf w)"
  show ?thesis
  proof (cases "?mech = MAC_BLOCK")
    case True
    then have "or_macs (iptables_block_mac e) (cf_blockedmaclist (w_conf w)) (r1, w1) = (rc, w')"
      using assms t c by (simp add: fw_init_macs_def Let_def)
    from or_macs_same [OF mac_commands_same(2) this] s1 True show ?thesis by (auto intro: same_daemon_trans)
  next
    case F: False
    show ?thesis
    proof (cases "?mech = MAC_ALLOW")
      case True
      obtain r2 w2 where d: "iptables_do_command e
          (''-t mangle -A ndsBLK'' @ mark_rule w1 (w_MARK_BLOCKED w1)) w1 = (r2, w2)" by fastforce
      then have "or_macs (iptables_allow_mac e) (cf_allowedmaclist (w_conf w)) (r1 OR r2, w2) = (rc, w')"
        using assms t c True F by (simp add: fw_init_macs_def Let_def)
      from or_macs_same [OF mac_commands_same(3) this] s1 True ipt.run_same [OF d] show ?thesis
        by (auto simp: ipt.or_zero intro: same_daemon_trans)
    next
      case False
      with F assms t c s1 show ?thesis by (auto simp: fw_init_macs_def Let_def)
    qed
  qed
qed

lemma tc_init_dev_same:
  assumes attach: "only_runs (attach (imq n))"
    and "tc_init_dev e ch n l attach failed (r0, w) = (rc, w')"
  shows "same_daemon w w'"
proof (cases "l > 0")
  case True
  obtain r1 w1 where a: "execute e (''ip link set '' @ imq n @ '' up'') w = (r1, w1)" by fastforce
  show ?thesis
  proof (cases "r1 = 0")
    case ok: True
    obtain r2 w2 where b: "iptables_do_command e
        (''-t mangle -A '' @ ch @ '' -j IMQ --todev '' @ fmt_d n @ '' '') w1 = (r2, w2)" by fastforce
    obtain r3 w3 where c: "attach (imq n) l w2 = (r3, w3)" by fastforce
    have "w' = w3" using assms(2) True a ok b c by (simp add: tc_init_dev_def)
    then show ?thesis using sh.run_same [OF a] ipt.run_same [OF b] only_runsD [OF attach c]
      by (auto intro: same_daemon_trans)
  next
    case False
    with assms(2) True a show ?thesis using sh.run_same [OF a] by (simp add: tc_init_dev_def)
  qed
qed (use assms(2) in \<open>simp add: tc_init_dev_def\<close>)

lemma tc_init_tc_view: "tc_init_tc e w = (rc, w') \<Longrightarrow> rule_view w' = rule_view w"
proof -
  assume a: "tc_init_tc e w = (rc, w')"
  let ?c = "w_conf w"
  have s: "only_runs (tc_attach_download_qdisc e d)" "only_runs (tc_attach_upload_qdisc e d)" for d
    by (auto simp: only_runs_def tc_attach_download_qdisc_def tc_attach_upload_qdisc_def
        simp del: or_all.simps dest: tc.or_all_same)
  obtain r1 w1 where d: "tc_init_dev e ''ndsINC'' (cf_download_imq ?c) (cf_download_limit ?c)
      (tc_attach_download_qdisc e) 0 (0, w\<lparr>w_tc_quiet := False\<rparr>) = (r1, w1)" by fastforce
  with a have u: "tc_init_dev e ''ndsOUT'' (cf_upload_imq ?c) (cf_upload_limit ?c)
      (tc_attach_upload_qdisc e) (-1) (r1, w1) = (rc, w')" by (simp add: tc_init_tc_def Let_def)
  have "rule_view w' = rule_view (w\<lparr>w_tc_quiet := False\<rparr>)"
    using tc_init_dev_same [OF s(1) d] tc_init_dev_same [OF s(2) u] same_rule_view by metis
  then show ?thesis by (simp add: rule_view_def)
qed

lemma all_some_map: "all_some xs = Some ys \<longleftrightarrow> xs = map Some ys"
proof (induction xs arbitrary: ys)
  case (Cons x xs)
  then show ?case by (cases x; cases ys) auto
qed auto

text \<open>What a successful start has gone through.\<close>

lemma fw_init_stages:
  assumes "iptables_fw_init e w = Ok (0, w')"
  obtains ifc addr w5 cs where "cf_gw_interface (w_conf w) = Some ifc" "cf_gw_address (w_conf w) = Some addr"
    "or_all (iptables_do_command e) cs (0, w5) = (0, w')"
    "map Some cs = nat_cmds w5 ifc (cf_gw_iprange (w_conf w)) addr (sint (cf_gw_port (w_conf w))) @
      filter_router_cmds w5 ifc (cf_gw_iprange (w_conf w)) (sint (cf_gw_port (w_conf w))) @
      filter_forward_cmds w5 ifc (cf_gw_iprange (w_conf w))"
    "distinct [0, cf_FW_MARK_AUTHENTICATED (w_conf w), cf_FW_MARK_BLOCKED (w_conf w), cf_FW_MARK_TRUSTED (w_conf w)]"
    "cf_macmechanism (w_conf w) \<in> {MAC_BLOCK, MAC_ALLOW}"
    "rule_view w5 = (w_conf w, [cf_FW_MARK_BLOCKED (w_conf w), cf_FW_MARK_TRUSTED (w_conf w),
       cf_FW_MARK_AUTHENTICATED (w_conf w)])"
proof -
  let ?c = "w_conf w" and ?rng = "cf_gw_iprange (w_conf w)" and ?port = "sint (cf_gw_port (w_conf w))"
  obtain ifc addr where ia: "cf_gw_interface ?c = Some ifc" "cf_gw_address ?c = Some addr"
    using assms by (auto simp: iptables_fw_init_def Let_def split: option.splits)
  let ?w1 = "w\<lparr>w_MARK_BLOCKED := cf_FW_MARK_BLOCKED ?c, w_MARK_TRUSTED := cf_FW_MARK_TRUSTED ?c,
    w_MARK_AUTHENTICATED := cf_FW_MARK_AUTHENTICATED ?c\<rparr>"
  obtain m1 w2 where m: "iptables_init_marks ?w1 = (m1, w2)" by fastforce
  obtain m2 w3 where k: "iptables_check_mark_masking e w2 = (m2, w3)" by fastforce
  obtain m3 w3' where g: "or_all (iptables_do_command e) (mangle_cmds ifc ?rng) (m1 OR m2, w3) = (m3, w3')" by fastforce
  obtain m4 w4 where f: "fw_init_macs e (m3, w3') = (m4, w4)" by fastforce
  obtain m5 w5 where t: "(if cf_traffic_control ?c \<noteq> 0
      then (case tc_init_tc e w4 of (r, w') \<Rightarrow> (m4 OR r, w')) else (m4, w4)) = (m5, w5)" by fastforce
  let ?all = "nat_cmds w5 ifc ?rng addr ?port @ filter_router_cmds w5 ifc ?rng ?port @ filter_forward_cmds w5 ifc ?rng"
  have "rbind (of_opt (all_some ?all)) (\<lambda>cs. Ok (or_all (iptables_do_command e) cs (m5, w5))) = Ok (0, w')"
    using assms ia m k g f t by (simp add: iptables_fw_init_def Let_def del: or_all.simps)
  then obtain cs where cs: "map Some cs = ?all" "or_all (iptables_do_command e) cs (m5, w5) = (0, w')"
    by (auto simp: rbind_Ok_iff all_some_map)
  then have z5: "m5 = 0" using ipt.or_all_zero by blast
  have t5: "rule_view w5 = rule_view w4 \<and> m4 = 0"
    using t z5 tc_init_tc_view [of e w4] by (auto simp: ipt.or_zero split: if_splits prod.splits)
  note f4 = fw_init_macs_same [OF f]
  have z3: "m3 = 0" using t5 f4 by simp
  have z1: "m1 OR m2 = 0" using ipt.or_all_zero g unfolding z3 by blast
  note k3 = check_mark_masking_view [OF k]
  have m1: "fst (iptables_init_marks ?w1) = 0" using m z1 ipt.or_zero by simp
  have v2: "rule_view w2 = rule_view ?w1"
    using m m1 by (auto simp: iptables_init_marks_def rule_view_def split: if_splits)
  have v: "rule_view w5 = rule_view ?w1"
    using t5 f4 k3 v2 same_rule_view ipt.or_all_same [OF g] by metis
  have "rule_view w3' = rule_view ?w1" using k3 v2 same_rule_view ipt.or_all_same [OF g] by metis
  then have "w_conf w3' = ?c" by (simp add: rule_view_def)
  then show thesis
    using that [OF ia _ cs(1)] cs(2) z5 m1 f4 t5 v
    by (simp add: iptables_init_marks_ok rule_view_def del: or_all.simps)
qed

section \<open>Properties\<close>



text \<open>
  The options 0x1000, 0x200 and 0x400 for the three marks are accepted; the client in slot 1
  gets the mark 0xb400, and under the mask 0x1600 this is 0x1400, which no rule matches.
\<close>

definition missing_world :: world where
  "missing_world = sample_world\<lparr>w_MARK_BLOCKED := 0x1000, w_MARK_TRUSTED := 0x200, w_MARK_MASK := 0x1600\<rparr>"

lemma client_mark_missed:
  "iptables_init_marks missing_world = (0, missing_world)"
  "client_mark missing_world 1 = ''0xb400''"
  "hexval (drop 2 (client_mark missing_world 1)) AND unat (w_MARK_MASK missing_world) = 0x1400"
proof -
  show "iptables_init_marks missing_world = (0, missing_world)"
    by (simp add: missing_world_def iptables_init_marks_def sample_world_def)
  show m: "client_mark missing_world 1 = ''0xb400''"
    by (simp add: missing_world_def sample_world_def client_mark_def hx_def uhex_step uhex_small hexc_def char_of_def bit_0)
  show "hexval (drop 2 (client_mark missing_world 1)) AND unat (w_MARK_MASK missing_world) = 0x1400"
    unfolding m by (simp add: missing_world_def hexval_def hexval1_def isdigit_def cc_def tolower_def)
qed

text \<open>
  C21. Authenticating a client and deauthenticating it again, when both report success, leaves
  every mangle rule in place as often as before; in between each of the client's three rules
  is in place once more. Neither touches the client list, the configuration or the marks.
\<close>

theorem iptables_fw_access_symmetric:
  assumes "iptables_fw_access e AUTH_MAKE_AUTHENTICATED c w = (0, w1)"
    and "iptables_fw_access e AUTH_MAKE_DEAUTHENTICATED c w1 = (0, w2)"
  shows "net (w_log w2) b = net (w_log w) b \<and>
    net (w_log w1) b = net (w_log w) b + int (count_list (client_bodies w c) b) \<and>
    same_daemon (w\<lparr>w_fw_quiet := False\<rparr>) w2"
proof -
  have s1: "same_daemon (w\<lparr>w_fw_quiet := False\<rparr>) w1" by (rule fw_access_same [OF assms(1)])
  have "w_fw_quiet w1 = False" using same_daemon_fields(10) [OF s1] by simp
  then have q: "w1\<lparr>w_fw_quiet := False\<rparr> = w1" by (cases w1) simp
  have "client_bodies w1 c = client_bodies w c"
    using same_daemon_fields [OF s1] by (simp add: client_bodies_def client_mark_def)
  with fw_access_net [OF assms(1)] fw_access_net [OF assms(2)] fw_access_same [OF assms(2)] s1 q
  show ?thesis by (auto intro: same_daemon_trans)
qed

text \<open>Surroundings in which every command works.\<close>

definition works :: "env \<Rightarrow> bool" where
  "works e \<longleftrightarrow> (\<forall>n c. wait_retval (e_sh e n c) = 0)"

lemma works_runs:
  assumes "works e"
  shows "fst (execute e c w) = 0" "fst (iptables_do_command e c w) = 0" "fst (tc_do_command e c w) = 0"
proof -
  have x: "execute e c w = (0, (tick w)\<lparr>w_log := w_log w @ [(c, 0)]\<rparr>)" for c w
    using assms by (simp add: execute_def works_def)
  then have "fst (iptables_attempts e n c w) = 0" for n c w
    by (cases n) auto
  with x show "fst (execute e c w) = 0" "fst (iptables_do_command e c w) = 0"
    "fst (tc_do_command e c w) = 0" by (simp_all add: iptables_do_command_def tc_do_command_def)
qed

lemma or_all_works: "(\<And>c w. fst (f c w) = 0) \<Longrightarrow> fst (or_all f cs (0, w)) = 0"
proof (induction cs arbitrary: w)
  case (Cons c cs)
  obtain r w' where r: "f c w = (r, w')" by (cases "f c w")
  with Cons.prems [of c w] have "r = 0" by simp
  with Cons r show ?case by simp
qed simp

lemma works_ors:
  assumes "works e"
  shows "fst (or_all (iptables_do_command e) cs (0, w)) = 0" "fst (or_all (tc_do_command e) cs (0, w)) = 0"
  by (rule or_all_works, simp add: works_runs [OF assms])+

lemma fw_access_works:
  assumes e: "works e"
  shows "fst (iptables_fw_access e a c w) = 0"
proof -
  let ?act = "case a of AUTH_MAKE_AUTHENTICATED \<Rightarrow> ''A'' | AUTH_MAKE_DEAUTHENTICATED \<Rightarrow> ''D''"
  let ?w = "w\<lparr>w_fw_quiet := False\<rparr>"
  obtain w1 where i: "or_all (iptables_do_command e) (client_rules ?act ?w c) (0, ?w) = (0, w1)"
    using works_ors(1) [OF e] by (metis prod.collapse)
  have t: "fst (case or_all (tc_do_command e) cs (0, w1) of (r, w2) \<Rightarrow> (0 OR r, w2)) = 0" for cs
    using works_ors(2) [OF e, of cs w1] by (cases "or_all (tc_do_command e) cs (0, w1)") simp
  show ?thesis
    using i t
    by (cases a) (simp_all add: iptables_fw_access_def Let_def tc_attach_client_def tc_detach_client_def
        case_prod_unfold del: or_all.simps)
qed

definition good_env :: env where
  "good_env = sample_env\<lparr>e_sh := (\<lambda>n c. Exited 0)\<rparr>"

lemma works_good_env [simp]: "works good_env"
  by (simp add: works_def good_env_def)

lemma iptables_fw_access_symmetric_witness:
  "net (w_log (snd (iptables_fw_access good_env AUTH_MAKE_DEAUTHENTICATED sample_client
     (snd (iptables_fw_access good_env AUTH_MAKE_AUTHENTICATED sample_client sample_world)))))
     ''ndsINC -d 10.0.0.2 -j ACCEPT'' = 0"
proof -
  obtain w1 where a: "iptables_fw_access good_env AUTH_MAKE_AUTHENTICATED sample_client sample_world = (0, w1)"
    using fw_access_works [OF works_good_env] by (metis prod.collapse)
  obtain w2 where "iptables_fw_access good_env AUTH_MAKE_DEAUTHENTICATED sample_client w1 = (0, w2)"
    using fw_access_works [OF works_good_env] by (metis prod.collapse)
  with iptables_fw_access_symmetric [OF a this, of "''ndsINC -d 10.0.0.2 -j ACCEPT''"] a
  show ?thesis by (simp add: net_def effects_def sample_world_def)
qed

text \<open>
  C23. The listing of a chain prints two lines of heading and then its rules with their numbers.
  When from some time on no rule listed mentions the word, taking down the rules that mention it
  returns, and this is what it did: at increasing times \<open>ts\<close> it saw a listing with a rule that
  mentions the word, and after each ran \<^verbatim>\<open>iptables -D\<close>, one or more times and nothing else,
  with the number of the first such rule; the listing it saw last mentions the word no more or
  could not be had; the result is 0 when a rule was taken down and -1 otherwise; and but for
  the log and the clock nothing changed. While every listing has such a rule it never returns.
\<close>

theorem iptables_fw_destroy_mention_ends:
  assumes "\<And>n. e_popen e n (''iptables -t '' @ t @ '' -L '' @ c @ '' -n --line-numbers -v'') =
      map_option (rule_listing h1 h2) (rs n)"
    and "nl \<notin> set h1" "nl \<notin> set h2" "nl \<notin> set m"
    and "\<forall>n bs. rs n = Some bs \<longrightarrow> printable_rules bs"
  shows "((\<exists>k. \<forall>n bs. k \<le> n \<longrightarrow> rs n = Some bs \<longrightarrow> mentioning_rule 1 m bs = None) \<longrightarrow>
      (\<exists>rc w' ts ls. iptables_fw_destroy_mention e t c m w = Ok (rc, w') \<and> same_daemon w w' \<and>
        w_log w' = w_log w @ concat ls \<and> sorted_wrt (<) ts \<and> (\<forall>n \<in> set ts. w_clock w \<le> n \<and> n < w_clock w') \<and>
        list_all2 (\<lambda>n l. \<exists>bs i. rs n = Some bs \<and> mentioning_rule 1 m bs = Some i \<and>
          set (map fst l) = {''iptables -t '' @ t @ '' -D '' @ c @ '' '' @ udec i}) ts ls \<and>
        (\<forall>bs. rs (w_clock w' - 1) = Some bs \<longrightarrow> mentioning_rule 1 m bs = None) \<and>
        rc = (if ts = [] then -1 else 0))) \<and>
    ((\<forall>n. \<exists>bs i. rs n = Some bs \<and> mentioning_rule 1 m bs = Some i) \<longrightarrow>
      iptables_fw_destroy_mention e t c m w = Undef)"
proof (intro conjI impI)
  note L = mentioned_number [OF assms(1) assms(2-4) assms(5)]
  assume "\<exists>k. \<forall>n bs. k \<le> n \<longrightarrow> rs n = Some bs \<longrightarrow> mentioning_rule 1 m bs = None"
  then obtain k where k: "\<And>n bs. k \<le> n \<Longrightarrow> rs n = Some bs \<Longrightarrow> mentioning_rule 1 m bs = None" by blast
  from destroy_mention_rounds [OF L k, where w = w]
  show "\<exists>rc w' ts ls. iptables_fw_destroy_mention e t c m w = Ok (rc, w') \<and> same_daemon w w' \<and>
        w_log w' = w_log w @ concat ls \<and> sorted_wrt (<) ts \<and> (\<forall>n \<in> set ts. w_clock w \<le> n \<and> n < w_clock w') \<and>
        list_all2 (\<lambda>n l. \<exists>bs i. rs n = Some bs \<and> mentioning_rule 1 m bs = Some i \<and>
          set (map fst l) = {''iptables -t '' @ t @ '' -D '' @ c @ '' '' @ udec i}) ts ls \<and>
        (\<forall>bs. rs (w_clock w' - 1) = Some bs \<longrightarrow> mentioning_rule 1 m bs = None) \<and>
        rc = (if ts = [] then -1 else 0)"
    by (auto simp: iptables_fw_destroy_mention_def ipt_cmd_def)
next
  assume a: "\<forall>n. \<exists>bs i. rs n = Some bs \<and> mentioning_rule 1 m bs = Some i"
  have "mentions e t c m n" for n
    using mentioned_number [OF assms(1) assms(2-4) assms(5), where n = n] a [rule_format, of n]
    by (auto simp: mentions_def split: option.splits)
  with destroy_mention_returned [of e t c m w] show "iptables_fw_destroy_mention e t c m w = Undef"
    by (cases "destroy_mention e t c m w") (auto simp: iptables_fw_destroy_mention_def)
qed

text \<open>A chain with two rules that jump, and the command's surroundings until one is gone.\<close>

definition sample_rules :: "nat \<Rightarrow> string list option" where
  "sample_rules n = (if n = 0 then Some ['' ACCEPT all'', '' ndsOUT all''] else Some ['' ACCEPT all''])"

lemma iptables_fw_destroy_mention_ends_witness:
  "\<exists>rc w' ls. iptables_fw_destroy_mention (good_env\<lparr>e_popen := (\<lambda>n c. map_option (rule_listing ''Chain'' ''num'') (sample_rules n))\<rparr>)
      ''nat'' ''PREROUTING'' ''ndsOUT'' sample_world = Ok (rc, w') \<and> w_log w' = concat ls"
proof -
  let ?e = "good_env\<lparr>e_popen := (\<lambda>n c. map_option (rule_listing ''Chain'' ''num'') (sample_rules n))\<rparr>"
  have "\<forall>n bs. sample_rules n = Some bs \<longrightarrow> printable_rules bs"
    by (auto simp: sample_rules_def printable_rules_def isdigit_def nl_def NUL_def cc_def split: if_splits)
  note T = iptables_fw_destroy_mention_ends [of ?e "''nat''" "''PREROUTING''" "''Chain''" "''num''" sample_rules "''ndsOUT''"
    sample_world, OF _ _ _ _ this]
  have "\<forall>n bs. 1 \<le> n \<longrightarrow> sample_rules n = Some bs \<longrightarrow> mentioning_rule 1 ''ndsOUT'' bs = None"
    by (simp add: sample_rules_def udec_small char_of_def bit_0 sublist_Cons_right)
  then have "\<exists>k. \<forall>n bs. k \<le> n \<longrightarrow> sample_rules n = Some bs \<longrightarrow> mentioning_rule 1 ''ndsOUT'' bs = None" by blast
  moreover have "w_log sample_world = []" by (simp add: sample_world_def)
  ultimately show ?thesis using conjunct1 [OF T, rule_format] by (force simp: nl_def)
qed

lemma mentions_silent: "\<not> mentions good_env t c m n"
  by (simp add: mentions_def good_env_def sample_env_def)

text \<open>The forwarding rules start with the jump and the drops and end with the rejection.\<close>

definition net_head :: "string \<Rightarrow> s_config \<Rightarrow> string \<Rightarrow> string list" where
  "net_head ifc c mm =
     [''-t filter -I FORWARD -i '' @ ifc @ '' -s '' @ cf_gw_iprange c @ '' -j ndsNET'',
      ''-t filter -A ndsNET -m mark --mark 0x'' @ hx (cf_FW_MARK_BLOCKED c) @ mm @ '' -j DROP'',
      ''-t filter -A ndsNET -m state --state INVALID -j DROP'']"

lemma middle_part: "\<exists>m. l @ a @ b @ c @ d @ [x] = l @ m @ [x]"
  by (intro exI [of _ "a @ b @ c @ d"]) simp

lemma filter_forward_shape:
  assumes "w_conf w = c" "w_MARK_BLOCKED w = cf_FW_MARK_BLOCKED c"
  shows "\<exists>m. filter_forward_cmds w ifc (cf_gw_iprange c) =
    map Some (net_head ifc c (w_markmask w)) @ m @ [Some (reject_rest ''ndsNET'')]"
proof -
  have "map Some (net_head ifc c (w_markmask w)) =
      map Some [''-t filter -I FORWARD -i '' @ ifc @ '' -s '' @ cf_gw_iprange c @ '' -j ndsNET'',
        ''-t filter -A ndsNET'' @ mark_match w (w_MARK_BLOCKED w) @ '' -j DROP'',
        ''-t filter -A ndsNET -m state --state INVALID -j DROP'']"
    using assms by (simp add: net_head_def mark_match_def)
  then show ?thesis
    unfolding filter_forward_cmds_def Let_def by (simp only: assms(1)) (rule middle_part)
qed

lemma map_Some_shape:
  assumes "map Some cs = a @ b @ map Some h @ m @ [Some x]"
  shows "\<exists>p q. cs = p @ h @ q @ [x]"
proof -
  have "map the (map Some cs) = map the (a @ b @ map Some h @ m @ [Some x])" using assms by simp
  then have "cs = (map the a @ map the b) @ h @ map the m @ [x]" by (simp add: comp_def)
  then show ?thesis by blast
qed

text \<open>What a start that reports success has put up.\<close>

lemma fw_init_closed:
  assumes "iptables_fw_init e w = Ok (0, w')"
  shows "distinct [0, cf_FW_MARK_AUTHENTICATED (w_conf w), cf_FW_MARK_BLOCKED (w_conf w), cf_FW_MARK_TRUSTED (w_conf w)] \<and>
    cf_macmechanism (w_conf w) \<in> {MAC_BLOCK, MAC_ALLOW} \<and>
    (\<exists>ifc mm pre mid. cf_gw_interface (w_conf w) = Some ifc \<and>
      effects (w_log w') = pre @ map ipt_cmd (net_head ifc (w_conf w) mm) @ mid @
        [ipt_cmd (reject_rest ''ndsNET'')])"
proof -
  let ?c = "w_conf w"
  from fw_init_stages [OF assms] obtain ifc addr w5 cs where
    i: "cf_gw_interface ?c = Some ifc" and run: "or_all (iptables_do_command e) cs (0, w5) = (0, w')"
    and cs: "map Some cs = nat_cmds w5 ifc (cf_gw_iprange ?c) addr (sint (cf_gw_port ?c)) @
      filter_router_cmds w5 ifc (cf_gw_iprange ?c) (sint (cf_gw_port ?c)) @
      filter_forward_cmds w5 ifc (cf_gw_iprange ?c)"
    and d: "distinct [0, cf_FW_MARK_AUTHENTICATED ?c, cf_FW_MARK_BLOCKED ?c, cf_FW_MARK_TRUSTED ?c]"
      "cf_macmechanism ?c \<in> {MAC_BLOCK, MAC_ALLOW}"
    and v: "rule_view w5 = (?c, [cf_FW_MARK_BLOCKED ?c, cf_FW_MARK_TRUSTED ?c, cf_FW_MARK_AUTHENTICATED ?c])" .
  have v5: "w_conf w5 = ?c" "w_MARK_BLOCKED w5 = cf_FW_MARK_BLOCKED ?c" using v by (simp_all add: rule_view_def)
  obtain p q where cs': "cs = p @ net_head ifc ?c (w_markmask w5) @ q @ [reject_rest ''ndsNET'']"
    using filter_forward_shape [OF v5, of ifc] cs map_Some_shape by metis
  have "effects (w_log w') = effects (w_log w5) @ map ipt_cmd cs"
    using ipt.or_all_zero [OF run] by simp
  with cs' have "effects (w_log w') = (effects (w_log w5) @ map ipt_cmd p) @
      map ipt_cmd (net_head ifc ?c (w_markmask w5)) @ map ipt_cmd q @ [ipt_cmd (reject_rest ''ndsNET'')]"
    by simp
  with i d show ?thesis by blast
qed

text \<open>
  C19. When putting up the rules reports success, the configured marks are nonzero and
  different, the mechanism for MAC addresses is a known one, and every rule of the nat and
  filter tables took effect in order: forwarded packets of the gateway's network jump into
  the chain \<^verbatim>\<open>ndsNET\<close>, which starts by dropping blocked and invalid packets and whose last
  rule, and the last command of all, rejects what no earlier rule let through.
\<close>

theorem iptables_fw_init_fails_closed:
  assumes "iptables_fw_init e w = Ok (0, w')"
  shows "distinct [0, cf_FW_MARK_AUTHENTICATED (w_conf w), cf_FW_MARK_BLOCKED (w_conf w), cf_FW_MARK_TRUSTED (w_conf w)] \<and>
    cf_macmechanism (w_conf w) \<in> {MAC_BLOCK, MAC_ALLOW} \<and>
    (\<exists>ifc mm pre mid. cf_gw_interface (w_conf w) = Some ifc \<and>
      effects (w_log w') = pre @ map ipt_cmd (net_head ifc (w_conf w) mm) @ mid @
        [ipt_cmd (reject_rest ''ndsNET'')])"
  using fw_init_closed [OF assms] .

text \<open>The defaults with an interface, in surroundings where every command works.\<close>

definition sample_gateway :: world where
  "sample_gateway = sample_world\<lparr>w_conf := config_init\<lparr>cf_gw_interface := Some ''br0'',
     cf_gw_address := Some ''10.0.0.1''\<rparr>\<rparr>"

lemma config_init_view:
  "cf_rulesets config_init = map (\<lambda>(n, p). \<lparr>rs_name = n, rs_policy = Some p, rs_rules = []\<rparr>)
     [(''preauthenticated-users'', ''REJECT''), (''authenticated-users'', ''RETURN''),
      (''users-to-router'', ''REJECT''), (''trusted-users-to-router'', ''ACCEPT''),
      (''trusted-users'', ''ACCEPT'')] \<and>
   cf_macmechanism config_init = MAC_BLOCK \<and> cf_traffic_control config_init = 0 \<and>
   cf_trustedmaclist config_init = [] \<and> cf_blockedmaclist config_init = []"
  by (simp add: config_init_def add_default_ruleset_def add_ruleset_def set_ruleset_policy_def
      get_ruleset_def upd_ruleset_def config_defaults_def)

lemma no_rules: "\<forall>rs \<in> set (cf_rulesets c). rs_rules rs = [] \<Longrightarrow> get_ruleset_list n c = []"
  by (auto simp: get_ruleset_list_def get_ruleset_def split: option.split dest: find_Some_mem)

lemma fw_init_good:
  assumes "cf_gw_interface (w_conf w) = Some ifc" "cf_gw_address (w_conf w) = Some addr"
    and "\<forall>rs \<in> set (cf_rulesets (w_conf w)). rs_rules rs = []"
    and "cf_macmechanism (w_conf w) = MAC_BLOCK" "cf_traffic_control (w_conf w) = 0"
    and "cf_trustedmaclist (w_conf w) = []" "cf_blockedmaclist (w_conf w) = []"
    and "distinct [0, cf_FW_MARK_AUTHENTICATED (w_conf w), cf_FW_MARK_BLOCKED (w_conf w), cf_FW_MARK_TRUSTED (w_conf w)]"
    and "works e"
  shows "\<exists>w'. iptables_fw_init e w = Ok (0, w')"
proof -
  let ?c = "w_conf w"
  let ?w1 = "w\<lparr>w_MARK_BLOCKED := cf_FW_MARK_BLOCKED ?c, w_MARK_TRUSTED := cf_FW_MARK_TRUSTED ?c,
    w_MARK_AUTHENTICATED := cf_FW_MARK_AUTHENTICATED ?c\<rparr>"
  have "fst (iptables_init_marks ?w1) = 0" using assms(8) by (simp add: iptables_init_marks_ok)
  then obtain w2 where m: "iptables_init_marks ?w1 = (0, w2)" by (metis prod.collapse)
  then have c2: "w_conf w2 = ?c" by (auto simp: iptables_init_marks_def split: if_splits)
  obtain r3 w3 where k: "iptables_check_mark_masking e w2 = (r3, w3)" by fastforce
  with check_mark_masking_view [OF k] c2 have c3: "r3 = 0" "w_conf w3 = ?c" by (auto simp: rule_view_def)
  obtain w4 where g: "or_all (iptables_do_command e) (mangle_cmds ifc (cf_gw_iprange ?c)) (0, w3) = (0, w4)"
    using works_ors(1) [OF assms(9)] by (metis prod.collapse)
  have c4: "w_conf w4 = ?c" using same_daemon_fields(1) [OF ipt.or_all_same [OF g]] c3 by simp
  then have f: "fw_init_macs e (0, w4) = (0, w4)"
    using assms(4,6,7) by (simp add: fw_init_macs_def)
  have em: "ruleset_cmds t n ch ?c = []" "is_empty_ruleset n ?c" for t n ch
    using no_rules [OF assms(3)] by (simp_all add: ruleset_cmds_def is_empty_ruleset_def)
  obtain cs where cs: "nat_cmds w4 ifc (cf_gw_iprange ?c) addr (sint (cf_gw_port ?c)) @
      filter_router_cmds w4 ifc (cf_gw_iprange ?c) (sint (cf_gw_port ?c)) @
      filter_forward_cmds w4 ifc (cf_gw_iprange ?c) = map Some cs"
    by (rule that [of "map the (nat_cmds w4 ifc (cf_gw_iprange ?c) addr (sint (cf_gw_port ?c)) @
      filter_router_cmds w4 ifc (cf_gw_iprange ?c) (sint (cf_gw_port ?c)) @
      filter_forward_cmds w4 ifc (cf_gw_iprange ?c))"])
      (simp add: nat_cmds_def filter_router_cmds_def filter_forward_cmds_def Let_def marked_ruleset_def c4 em)
  obtain w5 where "or_all (iptables_do_command e) cs (0, w4) = (0, w5)"
    using works_ors(1) [OF assms(9)] by (metis prod.collapse)
  then show ?thesis
    using assms(1,2,5) m k c3(1) g f cs
    by (simp add: iptables_fw_init_def Let_def all_some_map [THEN iffD2] del: or_all.simps)
qed

lemma iptables_fw_init_fails_closed_witness:
  "\<exists>w'. iptables_fw_init good_env sample_gateway = Ok (0, w') \<and>
     (\<exists>l. effects (w_log w') = l @ [ipt_cmd (reject_rest ''ndsNET'')])"
proof -
  have "distinct [0, cf_FW_MARK_AUTHENTICATED (w_conf sample_gateway), cf_FW_MARK_BLOCKED (w_conf sample_gateway),
      cf_FW_MARK_TRUSTED (w_conf sample_gateway)]"
    by (simp add: sample_gateway_def config_init_marks)
  then obtain w' where w': "iptables_fw_init good_env sample_gateway = Ok (0, w')"
    using fw_init_good [of sample_gateway "''br0''" "''10.0.0.1''" good_env] config_init_view
    by (auto simp: sample_gateway_def simp del: distinct.simps)
  from iptables_fw_init_fails_closed [OF this] obtain ifc mm pre mid where
    "effects (w_log w') = pre @ map ipt_cmd (net_head ifc (w_conf sample_gateway) mm) @ mid @
      [ipt_cmd (reject_rest ''ndsNET'')]" by blast
  with w' show ?thesis by (metis append.assoc)
qed

end
