(* ===== verification/Counters.thy ===== *)
theory Counters
  imports Iptables
begin

text \<open>
  The byte counters of \<^verbatim>\<open>src/fw_iptables.c\<close>: the update of the clients' counters from the
  listing of the chains, and the totals of the two directions. The loops over a listing
  are proved equal to handling its usable lines one by one, and these to updates of the
  abstract client list.
\<close>

section \<open>Counters\<close>

text \<open>
  \<^verbatim>\<open>inet_aton\<close> on a string of digits and dots: one to four numbers, octal after a
  leading zero, the last one filling the bytes that are left.
\<close>

definition octval :: "string \<Rightarrow> nat option" where
  "octval s = (if list_all (\<lambda>c. cc c - 48 < 8) s then Some (foldl (\<lambda>a c. 8 * a + (cc c - 48)) 0 s) else None)"

definition aton_part :: "string \<Rightarrow> nat option" where
  "aton_part s = (if s = [] then None else if hd s = CHR ''0'' then octval s else Some (decval s))"

definition part_below :: "nat \<Rightarrow> nat option \<Rightarrow> bool" where
  "part_below n p = (case p of None \<Rightarrow> False | Some v \<Rightarrow> v < n)"

definition inet_aton_ok :: "string \<Rightarrow> bool" where
  "inet_aton_ok s =
     (let ps = map aton_part (strsep_all (\<lambda>c. c = CHR ''.'') s); n = length ps
      in n \<le> 4 \<and> list_all (part_below 256) (butlast ps) \<and> part_below (256 ^ (5 - n)) (last ps))"

text \<open>The character class \<^verbatim>\<open>[0-9.]\<close>.\<close>

definition ipchar :: "char \<Rightarrow> bool" where
  "ipchar c \<longleftrightarrow> isdigit c \<or> c = CHR ''.''"

definition out_format :: "scan_dir list" where
  "out_format = [SSkip, SWs, SUns, SWs, SStr, SWs, SSkip, SWs, SSkip, SWs, SSkip, SWs, SSkip, SWs, SSet 15 ipchar]"

definition inc_format :: "scan_dir list" where
  "inc_format = [SSkip, SWs, SUns, SWs, SStr, SWs, SSkip, SWs, SSkip, SWs, SSkip, SWs, SSkip, SWs, SSkip, SWs,
     SSet 15 ipchar]"

definition upd_world :: "addr \<Rightarrow> (t_client \<Rightarrow> t_client) \<Rightarrow> world \<Rightarrow> world result" where
  "upd_world a f w = rbind (upd_client a f (w_clients w)) (\<lambda>s. Ok (w\<lparr>w_clients := s\<rparr>))"

definition count_outgoing :: "64 word \<Rightarrow> int \<Rightarrow> t_client \<Rightarrow> t_client" where
  "count_outgoing counter now c =
     c\<lparr>c_outgoing := c_outgoing_history c + counter, c_last_updated := now\<rparr>"

definition count_incoming :: "64 word \<Rightarrow> t_client \<Rightarrow> t_client" where
  "count_incoming counter c = c\<lparr>c_incoming := c_incoming_history c + counter\<rparr>"

text \<open>The effect of one listed rule on the client with that address.\<close>

definition outgoing_entry :: "env \<Rightarrow> string \<Rightarrow> 64 word \<Rightarrow> world \<Rightarrow> world result" where
  "outgoing_entry e ip counter w =
     (if \<not> inet_aton_ok ip then Ok w
      else rbind (client_list_find_by_ip ip (w_clients w)) (\<lambda>p.
        case p of
          None \<Rightarrow> Ok w
        | Some a \<Rightarrow> (case hget (cl_heap (w_clients w)) a of
            None \<Rightarrow> Undef
          | Some c \<Rightarrow>
              if c_outgoing c - c_outgoing_history c < counter then
                (case time_now e w of (now, w1) \<Rightarrow> upd_world a (count_outgoing counter now) w1)
              else Ok w)))"

definition incoming_entry :: "string \<Rightarrow> 64 word \<Rightarrow> world \<Rightarrow> world result" where
  "incoming_entry ip counter w =
     (if \<not> inet_aton_ok ip then Ok w
      else rbind (client_list_find_by_ip ip (w_clients w)) (\<lambda>p.
        case p of
          None \<Rightarrow> Ok w
        | Some a \<Rightarrow> (case hget (cl_heap (w_clients w)) a of
            None \<Rightarrow> Undef
          | Some c \<Rightarrow>
              if c_incoming c - c_incoming_history c < counter
              then upd_world a (count_incoming counter) w else Ok w)))"

lemma skip_line_shorter: "skip_line s = (r, False) \<Longrightarrow> length r < length s"
proof -
  assume a: "skip_line s = (r, False)"
  then obtain c where "dropWhile (\<lambda>c. c \<noteq> nl) s = c # r"
    by (auto simp: skip_line_def split: list.splits)
  then have "Suc (length r) \<le> length s" using length_dropWhile_le [of "\<lambda>c. c \<noteq> nl" s] by simp
  then show ?thesis by simp
qed

text \<open>
  One line of a listing: the counter and the address, when three values were read and the
  target is the expected one.
\<close>

definition listed_entry :: "string \<Rightarrow> scan_val list \<Rightarrow> (64 word \<times> string) option" where
  "listed_entry tgt vals =
     (case vals of
        [VNum counter, VStr target, VStr ip] \<Rightarrow>
          if target = tgt then Some (word_of_int counter, ip) else None
      | _ \<Rightarrow> None)"

lemma listing_advances:
  "(vals, r, f) = scanf fmt s \<Longrightarrow> (s', False) = skip_line r \<Longrightarrow> length s' < length s"
  using scanf_shorter [of fmt s] skip_line_shorter [of r s'] by (cases "scanf fmt s") auto

text \<open>The loop: scan, eat the rest of the line, and hand a usable entry over.\<close>

function counters_loop ::
    "scan_dir list \<Rightarrow> string \<Rightarrow> (string \<Rightarrow> 64 word \<Rightarrow> world \<Rightarrow> world result) \<Rightarrow> string \<Rightarrow> bool \<Rightarrow> world \<Rightarrow>
     world result" where
  "counters_loop fmt tgt entry s eof w =
     (if eof then Ok w
      else case scanf fmt s of (vals, r, _) \<Rightarrow>
        case skip_line r of (s', eof') \<Rightarrow>
          (case listed_entry tgt vals of
             None \<Rightarrow> counters_loop fmt tgt entry s' eof' w
           | Some (counter, ip) \<Rightarrow>
               (case entry ip counter w of
                  Ok w' \<Rightarrow> counters_loop fmt tgt entry s' eof' w'
                | Exit c \<Rightarrow> Exit c
                | Undef \<Rightarrow> Undef)))"
  by pat_completeness auto

termination
  by (relation "measure (\<lambda>(f, t, g, s, eof, w). if eof then 0 else Suc (length s))")
     (auto dest: listing_advances)

declare counters_loop.simps [simp del]

definition counters_cmd :: "string \<Rightarrow> string" where
  "counters_cmd chain = ''iptables -v -n -x -t mangle -L '' @ chain"

definition iptables_fw_counters_update :: "env \<Rightarrow> world \<Rightarrow> (int \<times> world) result" where
  "iptables_fw_counters_update e w =
     (case popen e (counters_cmd ''ndsOUT'') w of (out, w1) \<Rightarrow>
        case out of
          None \<Rightarrow> Ok (-1, w1)
        | Some txt \<Rightarrow>
            rbind (counters_loop out_format ''MARK'' (outgoing_entry e) (fst (skip_two txt)) (snd (skip_two txt)) w1)
              (\<lambda>w2. case popen e (counters_cmd ''ndsINC'') w2 of (out2, w3) \<Rightarrow>
                 case out2 of
                   None \<Rightarrow> Ok (-1, w3)
                 | Some txt2 \<Rightarrow>
                     rbind (counters_loop inc_format ''ACCEPT'' incoming_entry (fst (skip_two txt2))
                              (snd (skip_two txt2)) w3) (\<lambda>w4. Ok (0, w4))))"

text \<open>The totals of the two directions, from the rule that jumps into our chain.\<close>

definition listed_total :: "string \<Rightarrow> scan_val list \<Rightarrow> 64 word option" where
  "listed_total tgt vals =
     (case vals of
        [VNum counter, VStr target] \<Rightarrow> if target = tgt then Some (word_of_int counter) else None
      | _ \<Rightarrow> None)"

function total_loop :: "scan_dir list \<Rightarrow> string \<Rightarrow> string \<Rightarrow> bool \<Rightarrow> 64 word" where
  "total_loop fmt tgt s eof =
     (if eof then 0
      else case scanf fmt s of (vals, r, _) \<Rightarrow>
        case skip_line r of (s', eof') \<Rightarrow>
          (case listed_total tgt vals of
             Some counter \<Rightarrow> counter
           | None \<Rightarrow> total_loop fmt tgt s' eof'))"
  by pat_completeness auto
termination
  by (relation "measure (\<lambda>(f, t, s, eof). if eof then 0 else Suc (length s))")
     (auto split: prod.split dest: listing_advances [OF _ sym])

declare total_loop.simps [simp del]

definition iptables_fw_total_upload :: "env \<Rightarrow> world \<Rightarrow> 64 word \<times> world" where
  "iptables_fw_total_upload e w =
     (case popen e ''iptables -v -n -x -t mangle -L PREROUTING'' w of (out, w1) \<Rightarrow>
        (case out of None \<Rightarrow> 0
         | Some txt \<Rightarrow> total_loop [SSkipInt, SWs, SUns, SWs, SStr, SWs] ''ndsOUT''
             (fst (skip_two txt)) (snd (skip_two txt)), w1))"

definition iptables_fw_total_download :: "env \<Rightarrow> world \<Rightarrow> 64 word \<times> world" where
  "iptables_fw_total_download e w =
     (case popen e ''iptables -v -n -x -t mangle -L POSTROUTING'' w of (out, w1) \<Rightarrow>
        (case out of None \<Rightarrow> 0
         | Some txt \<Rightarrow> total_loop [SSkip, SWs, SUns, SWs, SStr, SWs] ''ndsINC''
             (fst (skip_two txt)) (snd (skip_two txt)), w1))"

section \<open>Lemmas on counters\<close>

lemma update_first_find:
  "distinct as \<Longrightarrow> List.find (\<lambda>a. Q (g a)) as = Some a \<Longrightarrow>
   map (\<lambda>b. if b = a then f (g b) else g b) as = update_first Q f (map g as)"
proof (induction as)
  case (Cons b as)
  show ?case
  proof (cases "Q (g b)")
    case True
    with Cons.prems have "a = b" by simp
    moreover from this Cons.prems have "map (\<lambda>b. if b = a then f (g b) else g b) as = map g as"
      by (auto intro: map_cong)
    ultimately show ?thesis using True by simp
  next
    case False
    with Cons have "a \<in> set as" "a \<noteq> b" by (auto dest: find_Some_mem)
    with False Cons show ?thesis by simp
  qed
qed simp

text \<open>Updating the client a search found is updating the first match of the abstract list.\<close>

lemma upd_found:
  assumes "clist_inv s" "client_at s a \<noteq> None" "List.find Q (clients s) = client_at s a"
    and found: "of_opt (find_loop (cl_heap s) (\<lambda>c. Some (Q c)) (cl_first s)) = Ok (Some a)"
    and Q: "\<And>c. Q (c\<lparr>c_next := None\<rparr>) = Q c"
    and f: "\<And>c. c_next (f c) = c_next c" "\<And>c. c_idx (f c) = c_idx c"
      "\<And>c. (f c)\<lparr>c_next := None\<rparr> = f (c\<lparr>c_next := None\<rparr>)"
  shows "\<exists>s'. upd_client a f s = Ok s' \<and> clist_inv s' \<and> clients s' = update_first Q f (clients s) \<and>
    cl_arr s' = cl_arr s \<and> cl_addrs s' = cl_addrs s"
proof -
  from assms(1) obtain as where r: "cl_repr s as" "clients s = map (cell (cl_heap s)) as" "cl_addrs s = as"
    using clist_invE by metis
  have "of_opt (find_loop (cl_heap s) (\<lambda>c. Some (Q c)) (cl_first s)) =
      Ok (List.find (\<lambda>a. Q (cell (cl_heap s) a)) as)"
    by (rule client_find_repr [OF r(1)]) (simp add: cell_def Q)
  with found have fa: "List.find (\<lambda>a. Q (cell (cl_heap s) a)) as = Some a" by simp
  then have a: "a \<in> set as" by (auto dest: find_Some_mem)
  obtain s' where s': "upd_client a f s = Ok s'" "cl_repr s' as" "cl_arr s' = cl_arr s"
    "cell (cl_heap s') a = f (cell (cl_heap s) a)"
    "\<forall>b. b \<noteq> a \<longrightarrow> cell (cl_heap s') b = cell (cl_heap s) b"
    by (rule upd_client_repr [OF r(1) a f])
  have "clients s' = map (\<lambda>b. if b = a then f (cell (cl_heap s) b) else cell (cl_heap s) b) as"
    using s'(4,5) by (simp add: clients_repr [OF s'(2)])
  also have "\<dots> = update_first Q f (clients s)"
    using update_first_find [of as Q "cell (cl_heap s)" a f] r fa by (simp add: cl_repr_def)
  finally have cl: "clients s' = update_first Q f (clients s)" .
  show ?thesis
    using s'(1,3) cl cl_repr_inv [OF s'(2)] cl_repr_addrs [OF s'(2)] r(3) by (intro exI [of _ s']) simp
qed

text \<open>
  What the counters do to a client: they change nothing but the two counters and the time
  stamp, and neither counter falls below what it was over its history.
\<close>

definition ident :: "t_client \<Rightarrow> t_client" where
  "ident c = c\<lparr>c_incoming := 0, c_outgoing := 0, c_last_updated := 0\<rparr>"

definition grown :: "t_client \<Rightarrow> t_client \<Rightarrow> bool" where
  "grown c c' \<longleftrightarrow> ident c' = ident c \<and>
     c_outgoing c - c_outgoing_history c \<le> c_outgoing c' - c_outgoing_history c' \<and>
     c_incoming c - c_incoming_history c \<le> c_incoming c' - c_incoming_history c'"

definition counted :: "world \<Rightarrow> world \<Rightarrow> bool" where
  "counted w w' \<longleftrightarrow> clist_inv (w_clients w') \<and>
     list_all2 grown (clients (w_clients w)) (clients (w_clients w')) \<and>
     cl_arr (w_clients w') = cl_arr (w_clients w) \<and> cl_addrs (w_clients w') = cl_addrs (w_clients w) \<and>
     w' = w\<lparr>w_clients := w_clients w', w_clock := w_clock w'\<rparr>"

definition untimed :: "t_client \<Rightarrow> t_client" where
  "untimed c = c\<lparr>c_last_updated := 0\<rparr>"

lemma grown_refl [simp]: "grown c c"
  by (simp add: grown_def)

lemma grown_all_refl [simp]: "list_all2 grown cs cs"
  by (simp add: list.rel_refl)

lemma grown_trans: "grown a b \<Longrightarrow> grown b c \<Longrightarrow> grown a c"
  by (auto simp: grown_def)

lemma grown_ip: "grown c c' \<Longrightarrow> c_ip c' = c_ip c"
  by (cases c; cases c') (simp add: grown_def ident_def)

lemma counted_refl: "clist_inv (w_clients w) \<Longrightarrow> counted w w"
  by (simp add: counted_def)

lemma world_update_trans:
  "w' = w\<lparr>w_clients := c, w_clock := n\<rparr> \<Longrightarrow> w'' = w'\<lparr>w_clients := c', w_clock := n'\<rparr> \<Longrightarrow>
   w'' = w\<lparr>w_clients := c', w_clock := n'\<rparr>"
  by simp

lemma counted_trans: "counted w w' \<Longrightarrow> counted w' w'' \<Longrightarrow> counted w w''"
  unfolding counted_def using world_update_trans
  by (metis list_all2_trans [of grown grown grown] grown_trans)

lemma counted_tick: "clist_inv (w_clients w) \<Longrightarrow> counted w (tick w)"
  by (simp add: counted_def tick_def)

lemma grown_update_first: "(\<And>c. grown c (f c)) \<Longrightarrow> list_all2 grown cs (update_first Q f cs)"
  by (induction cs) auto

lemma map_untimed_update_first:
  "(\<And>c. untimed (f c) = g (untimed c)) \<Longrightarrow>
   map untimed (update_first (\<lambda>c. c_ip c = ip) f cs) = update_first (\<lambda>c. c_ip c = ip) g (map untimed cs)"
  by (induction cs) (auto simp: untimed_def)

text \<open>One listed counter, on the abstract list.\<close>

definition track_out :: "64 word \<Rightarrow> int \<Rightarrow> t_client \<Rightarrow> t_client" where
  "track_out counter now c =
     (if c_outgoing c - c_outgoing_history c < counter then count_outgoing counter now c else c)"

definition track_in :: "64 word \<Rightarrow> t_client \<Rightarrow> t_client" where
  "track_in counter c =
     (if c_incoming c - c_incoming_history c < counter then count_incoming counter c else c)"

lemma grown_track: "grown c (track_out n t c)" "grown c (track_in n c)"
  by (auto simp: grown_def ident_def track_out_def track_in_def count_outgoing_def count_incoming_def)

lemma untimed_track:
  "untimed (track_out n t c) = track_out n 0 (untimed c)" "untimed (track_in n c) = track_in n (untimed c)"
  by (auto simp: untimed_def track_out_def track_in_def count_outgoing_def count_incoming_def)

lemma update_first_found_id:
  "List.find Q cs = Some c \<Longrightarrow> f c = c \<Longrightarrow> update_first Q f cs = cs"
  by (induction cs) (auto split: if_splits)

lemma update_first_cong:
  "List.find Q cs = Some c \<Longrightarrow> f c = g c \<Longrightarrow> update_first Q f cs = update_first Q g cs"
  by (induction cs) (auto split: if_splits)

lemma upd_found_ip:
  assumes inv: "clist_inv s" and r: "client_list_find_by_ip ip s = Ok (Some a)"
  obtains c where "hget (cl_heap s) a = Some c" "List.find (\<lambda>c. c_ip c = ip) (clients s) = Some (c\<lparr>c_next := None\<rparr>)"
    "\<And>f. (\<And>c. c_next (f c) = c_next c) \<Longrightarrow> (\<And>c. c_idx (f c) = c_idx c) \<Longrightarrow>
      (\<And>c. (f c)\<lparr>c_next := None\<rparr> = f (c\<lparr>c_next := None\<rparr>)) \<Longrightarrow>
      \<exists>s'. upd_client a f s = Ok s' \<and> clist_inv s' \<and> clients s' = update_first (\<lambda>c. c_ip c = ip) f (clients s) \<and>
        cl_arr s' = cl_arr s \<and> cl_addrs s' = cl_addrs s"
proof -
  let ?Q = "\<lambda>c. c_ip c = ip"
  have fr: "client_at s a \<noteq> None \<and> List.find ?Q (clients s) = client_at s a"
    using find_refines [OF inv, of "\<lambda>c. Some (?Q c)" ?Q] r by (auto simp: client_list_find_by_ip_def)
  then obtain c where c: "hget (cl_heap s) a = Some c" by (auto simp: client_at_def)
  show thesis
  proof (rule that [OF c])
    show "List.find ?Q (clients s) = Some (c\<lparr>c_next := None\<rparr>)" using fr c by (simp add: client_at_def)
    fix f :: "t_client \<Rightarrow> t_client"
    assume f: "\<And>c. c_next (f c) = c_next c" "\<And>c. c_idx (f c) = c_idx c"
      "\<And>c. (f c)\<lparr>c_next := None\<rparr> = f (c\<lparr>c_next := None\<rparr>)"
    show "\<exists>s'. upd_client a f s = Ok s' \<and> clist_inv s' \<and> clients s' = update_first ?Q f (clients s) \<and>
        cl_arr s' = cl_arr s \<and> cl_addrs s' = cl_addrs s"
      using upd_found [OF inv, of a ?Q f] fr r f by (simp add: client_list_find_by_ip_def)
  qed
qed

lemma find_by_ip_None:
  "clist_inv s \<Longrightarrow> client_list_find_by_ip ip s = Ok None \<Longrightarrow> List.find (\<lambda>c. c_ip c = ip) (clients s) = None"
  using find_refines [of s "\<lambda>c. Some (c_ip c = ip)" "\<lambda>c. c_ip c = ip"] by (auto simp: client_list_find_by_ip_def)

lemma find_by_ip_total: "clist_inv s \<Longrightarrow> \<exists>r. client_list_find_by_ip ip s = Ok r"
  using find_refines [of s "\<lambda>c. Some (c_ip c = ip)" "\<lambda>c. c_ip c = ip"] by (auto simp: client_list_find_by_ip_def)

lemma outgoing_entry_refines:
  assumes inv: "clist_inv (w_clients w)" and ip: "inet_aton_ok ip"
  shows "\<exists>w'. outgoing_entry e ip counter w = Ok w' \<and> clist_inv (w_clients w') \<and>
    clients (w_clients w') = update_first (\<lambda>c. c_ip c = ip) (track_out counter (e_time e (w_clock w))) (clients (w_clients w)) \<and>
    counted w w'"
proof -
  let ?s = "w_clients w" and ?Q = "\<lambda>c. c_ip c = ip" and ?f = "track_out counter (e_time e (w_clock w))"
  obtain r where r: "client_list_find_by_ip ip ?s = Ok r" using find_by_ip_total [OF inv] by blast
  show ?thesis
  proof (cases r)
    case None
    with r find_by_ip_None [OF inv] have "update_first ?Q ?f (clients ?s) = clients ?s"
      by (intro update_first_id) (auto simp: find_None_iff)
    with r None ip inv show ?thesis by (simp add: outgoing_entry_def counted_refl)
  next
    case (Some a)
    with r obtain c where c: "hget (cl_heap ?s) a = Some c" "List.find ?Q (clients ?s) = Some (c\<lparr>c_next := None\<rparr>)"
      and upd: "\<And>f. (\<And>c. c_next (f c) = c_next c) \<Longrightarrow> (\<And>c. c_idx (f c) = c_idx c) \<Longrightarrow>
        (\<And>c. (f c)\<lparr>c_next := None\<rparr> = f (c\<lparr>c_next := None\<rparr>)) \<Longrightarrow>
        \<exists>s'. upd_client a f ?s = Ok s' \<and> clist_inv s' \<and> clients s' = update_first ?Q f (clients ?s) \<and>
          cl_arr s' = cl_arr ?s \<and> cl_addrs s' = cl_addrs ?s"
      using upd_found_ip [OF inv, of ip a] by metis
    show ?thesis
    proof (cases "c_outgoing c - c_outgoing_history c < counter")
      case True
      let ?g = "count_outgoing counter (e_time e (w_clock w))"
      obtain s' where s': "upd_client a ?g ?s = Ok s'" "clist_inv s'" "clients s' = update_first ?Q ?g (clients ?s)"
          "cl_arr s' = cl_arr ?s" "cl_addrs s' = cl_addrs ?s"
        using upd [of ?g] by (auto simp: count_outgoing_def)
      have "clients s' = update_first ?Q ?f (clients ?s)"
        using update_first_cong [OF c(2), of ?f ?g] True s'(3) by (simp add: track_out_def)
      moreover from this have "list_all2 grown (clients ?s) (clients s')"
        by (simp add: grown_update_first grown_track)
      ultimately show ?thesis
        using r Some ip c(1) True s' by (simp add: outgoing_entry_def time_now_def upd_world_def tick_def counted_def)
    next
      case False
      have "update_first ?Q ?f (clients ?s) = clients ?s"
        by (rule update_first_found_id [OF c(2)]) (use False in \<open>simp add: track_out_def\<close>)
      with r Some ip c(1) False inv show ?thesis by (simp add: outgoing_entry_def counted_refl)
    qed
  qed
qed

lemma incoming_entry_refines:
  assumes inv: "clist_inv (w_clients w)" and ip: "inet_aton_ok ip"
  shows "\<exists>w'. incoming_entry ip counter w = Ok w' \<and> clist_inv (w_clients w') \<and>
    clients (w_clients w') = update_first (\<lambda>c. c_ip c = ip) (track_in counter) (clients (w_clients w)) \<and>
    counted w w'"
proof -
  let ?s = "w_clients w" and ?Q = "\<lambda>c. c_ip c = ip" and ?f = "track_in counter"
  obtain r where r: "client_list_find_by_ip ip ?s = Ok r" using find_by_ip_total [OF inv] by blast
  show ?thesis
  proof (cases r)
    case None
    with r find_by_ip_None [OF inv] have "update_first ?Q ?f (clients ?s) = clients ?s"
      by (intro update_first_id) (auto simp: find_None_iff)
    with r None ip inv show ?thesis by (simp add: incoming_entry_def counted_refl)
  next
    case (Some a)
    with r obtain c where c: "hget (cl_heap ?s) a = Some c" "List.find ?Q (clients ?s) = Some (c\<lparr>c_next := None\<rparr>)"
      and upd: "\<And>f. (\<And>c. c_next (f c) = c_next c) \<Longrightarrow> (\<And>c. c_idx (f c) = c_idx c) \<Longrightarrow>
        (\<And>c. (f c)\<lparr>c_next := None\<rparr> = f (c\<lparr>c_next := None\<rparr>)) \<Longrightarrow>
        \<exists>s'. upd_client a f ?s = Ok s' \<and> clist_inv s' \<and> clients s' = update_first ?Q f (clients ?s) \<and>
          cl_arr s' = cl_arr ?s \<and> cl_addrs s' = cl_addrs ?s"
      using upd_found_ip [OF inv, of ip a] by metis
    show ?thesis
    proof (cases "c_incoming c - c_incoming_history c < counter")
      case True
      let ?g = "count_incoming counter"
      obtain s' where s': "upd_client a ?g ?s = Ok s'" "clist_inv s'" "clients s' = update_first ?Q ?g (clients ?s)"
          "cl_arr s' = cl_arr ?s" "cl_addrs s' = cl_addrs ?s"
        using upd [of ?g] by (auto simp: count_incoming_def)
      have "clients s' = update_first ?Q ?f (clients ?s)"
        using update_first_cong [OF c(2), of ?f ?g] True s'(3) by (simp add: track_in_def)
      moreover from this have "list_all2 grown (clients ?s) (clients s')"
        by (simp add: grown_update_first grown_track)
      ultimately show ?thesis
        using r Some ip c(1) True s' by (simp add: incoming_entry_def upd_world_def counted_def)
    next
      case False
      have "update_first ?Q ?f (clients ?s) = clients ?s"
        by (rule update_first_found_id [OF c(2)]) (use False in \<open>simp add: track_in_def\<close>)
      with r Some ip c(1) False inv show ?thesis by (simp add: incoming_entry_def counted_refl)
    qed
  qed
qed

text \<open>
  The loops hand over the usable entries of the listing one by one; on the abstract list
  an entry updates the first client with its address.
\<close>

function listing :: "scan_dir list \<Rightarrow> string \<Rightarrow> string \<Rightarrow> bool \<Rightarrow> (64 word \<times> string) list" where
  "listing fmt tgt s eof =
     (if eof then []
      else case scanf fmt s of (vals, r, _) \<Rightarrow>
        case skip_line r of (s', eof') \<Rightarrow>
          (case listed_entry tgt vals of
             None \<Rightarrow> listing fmt tgt s' eof'
           | Some ci \<Rightarrow> ci # listing fmt tgt s' eof'))"
  by pat_completeness auto
termination
  by (relation "measure (\<lambda>(f, t, s, eof). if eof then 0 else Suc (length s))")
     (auto split: prod.split dest: listing_advances [OF _ sym])

declare listing.simps [simp del]

fun each_entry :: "(string \<Rightarrow> 64 word \<Rightarrow> world \<Rightarrow> world result) \<Rightarrow> (64 word \<times> string) list \<Rightarrow> world \<Rightarrow> world result" where
  "each_entry entry [] w = Ok w"
| "each_entry entry ((n, ip) # l) w = rbind (entry ip n w) (each_entry entry l)"

lemma counters_loop_listing:
  "counters_loop fmt tgt entry s eof w = each_entry entry (listing fmt tgt s eof) w"
proof (induction fmt tgt entry s eof w rule: counters_loop.induct)
  case (1 fmt tgt entry s eof w)
  obtain vals r f where sc: "scanf fmt s = (vals, r, f)" by (cases "scanf fmt s")
  obtain s' eof' where sk: "skip_line r = (s', eof')" by (cases "skip_line r")
  show ?case
  proof (cases "eof \<or> listed_entry tgt vals = None")
    case True
    with 1 sc sk show ?thesis
      by (subst counters_loop.simps, subst listing.simps) auto
  next
    case False
    then obtain n ip where "listed_entry tgt vals = Some (n, ip)" "\<not> eof" by auto
    with 1 sc sk show ?thesis
      by (subst counters_loop.simps, subst listing.simps) (auto split: result.split)
  qed
qed

definition credit :: "(64 word \<Rightarrow> t_client \<Rightarrow> t_client) \<Rightarrow> 64 word \<times> string \<Rightarrow> t_client list \<Rightarrow> t_client list" where
  "credit track ci cs =
     (if inet_aton_ok (snd ci) then update_first (\<lambda>c. c_ip c = snd ci) (track (fst ci)) cs else cs)"

definition credit_out :: "64 word \<times> string \<Rightarrow> t_client list \<Rightarrow> t_client list" where
  "credit_out = credit (\<lambda>n. track_out n 0)"

definition credit_in :: "64 word \<times> string \<Rightarrow> t_client list \<Rightarrow> t_client list" where
  "credit_in = credit track_in"

lemma each_entry_credit:
  assumes entry: "\<And>ip n w. clist_inv (w_clients w) \<Longrightarrow> \<exists>w'. entry ip n w = Ok w' \<and> counted w w' \<and>
      map untimed (clients (w_clients w')) = f (n, ip) (map untimed (clients (w_clients w)))"
    and "clist_inv (w_clients w)"
  shows "\<exists>w'. each_entry entry l w = Ok w' \<and> counted w w' \<and>
    map untimed (clients (w_clients w')) = fold f l (map untimed (clients (w_clients w)))"
  using assms(2)
proof (induction l arbitrary: w)
  case Nil
  then show ?case by (simp add: counted_refl)
next
  case (Cons ci l)
  obtain n ip where ci: "ci = (n, ip)" by (cases ci)
  obtain w1 where w1: "entry ip n w = Ok w1" "counted w w1"
    "map untimed (clients (w_clients w1)) = f (n, ip) (map untimed (clients (w_clients w)))"
    using entry [OF Cons.prems] by blast
  then have "clist_inv (w_clients w1)" by (simp add: counted_def)
  from Cons.IH [OF this] obtain w2 where "each_entry entry l w1 = Ok w2" "counted w1 w2"
    "map untimed (clients (w_clients w2)) = fold f l (map untimed (clients (w_clients w1)))" by blast
  with w1 ci counted_trans [OF w1(2)] show ?case by simp
qed

lemma outgoing_entry_credit:
  assumes "clist_inv (w_clients w)"
  shows "\<exists>w'. outgoing_entry e ip n w = Ok w' \<and> counted w w' \<and>
    map untimed (clients (w_clients w')) = credit_out (n, ip) (map untimed (clients (w_clients w)))"
proof (cases "inet_aton_ok ip")
  case True
  show ?thesis
    using outgoing_entry_refines [OF assms True, of e n] True
    by (auto simp: credit_out_def credit_def map_untimed_update_first [where g = "track_out n 0", OF untimed_track(1)])
qed (simp add: outgoing_entry_def counted_refl assms credit_out_def credit_def)

lemma incoming_entry_credit:
  assumes "clist_inv (w_clients w)"
  shows "\<exists>w'. incoming_entry ip n w = Ok w' \<and> counted w w' \<and>
    map untimed (clients (w_clients w')) = credit_in (n, ip) (map untimed (clients (w_clients w)))"
proof (cases "inet_aton_ok ip")
  case True
  show ?thesis
    using incoming_entry_refines [OF assms True, of n] True
    by (auto simp: credit_in_def credit_def map_untimed_update_first [where g = "track_in n", OF untimed_track(2)])
qed (simp add: incoming_entry_def counted_refl assms credit_in_def credit_def)

text \<open>The entries of a whole listing.\<close>

definition out_entries :: "string \<Rightarrow> (64 word \<times> string) list" where
  "out_entries ls = listing out_format ''MARK'' (fst (skip_two ls)) (snd (skip_two ls))"

definition in_entries :: "string \<Rightarrow> (64 word \<times> string) list" where
  "in_entries ls = listing inc_format ''ACCEPT'' (fst (skip_two ls)) (snd (skip_two ls))"

lemma popen_counted: "clist_inv (w_clients w) \<Longrightarrow> popen e cmd w = (out, w') \<Longrightarrow>
  counted w w' \<and> w_clients w' = w_clients w \<and> clist_inv (w_clients w') \<and> out = e_popen e (w_clock w) cmd"
  using counted_tick [of w] by (auto simp: popen_def tick_def)

lemma counters_update_cases:
  assumes "clist_inv (w_clients w)"
  shows "\<exists>rc w'. iptables_fw_counters_update e w = Ok (rc, w') \<and> counted w w' \<and>
    (rc = -1 \<and> (\<exists>n chain. e_popen e n (counters_cmd chain) = None) \<or> rc = 0 \<and> (\<exists>ls ls2 n. e_popen e (w_clock w) (counters_cmd ''ndsOUT'') = Some ls \<and>
      e_popen e n (counters_cmd ''ndsINC'') = Some ls2 \<and>
      map untimed (clients (w_clients w')) =
        fold credit_in (in_entries ls2) (fold credit_out (out_entries ls) (map untimed (clients (w_clients w))))))"
proof -
  obtain out w1 where p1: "popen e (counters_cmd ''ndsOUT'') w = (out, w1)" by fastforce
  note c1 = popen_counted [OF assms p1]
  show ?thesis
  proof (cases out)
    case None
    with p1 c1 have "iptables_fw_counters_update e w = Ok (-1, w1)" "e_popen e (w_clock w) (counters_cmd ''ndsOUT'') = None"
      by (simp_all add: iptables_fw_counters_update_def)
    with c1 show ?thesis by blast
  next
    case (Some ls)
    from each_entry_credit [where entry = "outgoing_entry e" and l = "out_entries ls", OF outgoing_entry_credit, of w1]
    obtain w2 where w2: "each_entry (outgoing_entry e) (out_entries ls) w1 = Ok w2" "counted w1 w2"
      "map untimed (clients (w_clients w2)) = fold credit_out (out_entries ls) (map untimed (clients (w_clients w1)))"
      using c1 by blast
    then have i2: "clist_inv (w_clients w2)" by (simp add: counted_def)
    obtain out2 w3 where p2: "popen e (counters_cmd ''ndsINC'') w2 = (out2, w3)" by fastforce
    note c3 = popen_counted [OF i2 p2]
    have c03: "counted w w3" using counted_trans [OF _ counted_trans [OF w2(2)]] c1 c3 by blast
    show ?thesis
    proof (cases out2)
      case None
      with p1 Some w2 p2 c3 have "iptables_fw_counters_update e w = Ok (-1, w3)"
        "e_popen e (w_clock w2) (counters_cmd ''ndsINC'') = None"
        by (simp_all add: iptables_fw_counters_update_def counters_loop_listing out_entries_def)
      with c03 show ?thesis by blast
    next
      case out2: (Some ls2)
      from each_entry_credit [where entry = incoming_entry and l = "in_entries ls2", OF incoming_entry_credit, of w3]
      obtain w4 where w4: "each_entry incoming_entry (in_entries ls2) w3 = Ok w4" "counted w3 w4"
        "map untimed (clients (w_clients w4)) = fold credit_in (in_entries ls2) (map untimed (clients (w_clients w3)))"
        using c3 by blast
      have "iptables_fw_counters_update e w = Ok (0, w4)"
        using p1 Some w2(1) p2 out2 w4(1)
        by (simp add: iptables_fw_counters_update_def counters_loop_listing out_entries_def in_entries_def)
      moreover have "counted w w4" using counted_trans [OF c03 w4(2)] .
      moreover have "e_popen e (w_clock w) (counters_cmd ''ndsOUT'') = Some ls"
        "e_popen e (w_clock w2) (counters_cmd ''ndsINC'') = Some ls2" using c1 c3 Some out2 by auto
      moreover have "map untimed (clients (w_clients w4)) = fold credit_in (in_entries ls2)
          (fold credit_out (out_entries ls) (map untimed (clients (w_clients w))))"
        using c1 c3 w2(3) w4(3) by simp
      ultimately show ?thesis by blast
    qed
  qed
qed

section \<open>Properties\<close>

text \<open>
  C22. Updating the counters always returns, with 0, or with -1
  when a chain could not be listed. The clients stay the same but for
  their two counters and the time stamp, and no counter falls below what it was. When the
  result is 0, both chains were listed and the counters are those of the listings: each usable
  line of the outgoing, then of the incoming chain, in order, raises the counter of the first
  client with that address to the history of the client plus the bytes listed.
\<close>

theorem iptables_fw_counters_update_spec:
  assumes "clist_inv (w_clients w)"
  shows "\<exists>rc w'. iptables_fw_counters_update e w = Ok (rc, w') \<and> counted w w' \<and>
    (rc = -1 \<and> (\<exists>n chain. e_popen e n (counters_cmd chain) = None) \<or> rc = 0 \<and> (\<exists>ls ls2 n. e_popen e (w_clock w) (counters_cmd ''ndsOUT'') = Some ls \<and>
      e_popen e n (counters_cmd ''ndsINC'') = Some ls2 \<and>
      map untimed (clients (w_clients w')) =
        fold credit_in (in_entries ls2) (fold credit_out (out_entries ls) (map untimed (clients (w_clients w))))))"
  by (rule counters_update_cases [OF assms])

text \<open>A listing with one line that counts, of 600 bytes sent by the sample client.\<close>

definition sample_listing :: string where
  "sample_listing = ''h'' @ [nl] @ ''h'' @ [nl] @ ''5 600 MARK all -- br0 * 10.0.0.2 x'' @ [nl]"

definition list_env :: env where
  "list_env = sample_env\<lparr>e_popen := (\<lambda>n c. Some sample_listing)\<rparr>"

lemma sample_entries: "out_entries sample_listing = [(600, ''10.0.0.2'')]" "in_entries sample_listing = []"
  by code_simp+

lemma iptables_fw_counters_update_spec_witness:
  "\<exists>w'. iptables_fw_counters_update list_env sample_world = Ok (0, w') \<and> counted sample_world w' \<and>
    map untimed (clients (w_clients w')) = [(untimed sample_client)\<lparr>c_outgoing := 600\<rparr>]"
proof -
  have "inet_aton_ok ''10.0.0.2''" by code_simp
  moreover have "c_ip (untimed sample_client) = ''10.0.0.2''"
    by (simp add: untimed_def sample_client_def new_client_def)
  moreover have "track_out 600 0 (untimed sample_client) = (untimed sample_client)\<lparr>c_outgoing := 600\<rparr>"
    by (simp add: track_out_def count_outgoing_def untimed_def sample_client_def new_client_def)
  ultimately have "credit_out (600, ''10.0.0.2'') [untimed sample_client] = [(untimed sample_client)\<lparr>c_outgoing := 600\<rparr>]"
    by (simp add: credit_out_def credit_def)
  then show ?thesis
    using iptables_fw_counters_update_spec [of sample_world list_env] sample_entries
    by (auto simp: sample_world_def list_env_def)
qed

end
