(* ===== verification/Access.thy ===== *)
theory Access
  imports Counters
begin

text \<open>
  Clients and their access (\<^verbatim>\<open>src/firewall.c\<close>, \<^verbatim>\<open>src/auth.c\<close>): the ARP lookup, the entry of
  a client on the list at first contact, authentication and deauthentication, and the
  periodic refresh that throws out clients that were idle or connected for too long. The
  operations are tied together by a step relation whose reachable states keep the client
  list well formed and the mangle rules in line with the authenticated clients.
\<close>

section \<open>Lookup in the ARP cache\<close>

definition arp_format :: "scan_dir list" where
  "arp_format = [SWs, SSet 15 ipchar, SWs, SSkip, SWs, SSkip, SWs, SSet 17 macchar, SWs, SSkip, SWs, SSkip]"

lemma arp_advances: "scanf arp_format s = (v # vs, r, f) \<Longrightarrow> length r < length s"
  using scanf_shorter [of arp_format s] by simp

function arp_lines :: "string \<Rightarrow> string \<Rightarrow> string option" where
  "arp_lines req_ip s =
     (case scanf arp_format s of (vals, r, _) \<Rightarrow>
        case vals of
          [VStr ip, VStr mac] \<Rightarrow> if ip = req_ip then Some mac else arp_lines req_ip r
        | _ \<Rightarrow> None)"
  by pat_completeness auto
termination
  by (relation "measure (\<lambda>(i, s). length s)") (auto dest: arp_advances [OF sym])

declare arp_lines.simps [simp del]

definition arp_get :: "env \<Rightarrow> string \<Rightarrow> world \<Rightarrow> string option \<times> world" where
  "arp_get e req_ip w =
     (case e_arp e (w_clock w) of
        None \<Rightarrow> None
      | Some proc \<Rightarrow> arp_lines req_ip (fst (skip_line proc)), tick w)"

section \<open>First contact\<close>

text \<open>
  \<^verbatim>\<open>client_list_add_client\<close> in the daemon: the lookup, two random numbers and the time are
  drawn from the surroundings.
\<close>

definition http_nodogsplash_add_client :: "env \<Rightarrow> string \<Rightarrow> world \<Rightarrow> (addr option \<times> world) result" where
  "http_nodogsplash_add_client e clientAddr w =
     (case (if check_ip_format clientAddr then arp_get e clientAddr w else (None, w)) of (mac, w1) \<Rightarrow>
        rbind (client_list_add_client (cf_maxclients (w_conf w1)) (\<lambda>_. mac)
            (e_rand e (w_clock w1)) (e_rand e (Suc (w_clock w1))) (e_time e (Suc (Suc (w_clock w1))))
            clientAddr (w_clients w1))
          (\<lambda>(p, s). Ok (p, (tick (tick (tick w1)))\<lparr>w_clients := s\<rparr>)))"

section \<open>Authentication\<close>

text \<open>The rules of an authenticated client are taken down before the client is deleted.\<close>

definition drop_client :: "env \<Rightarrow> addr \<Rightarrow> t_client \<Rightarrow> world \<Rightarrow> world result" where
  "drop_client e a c w =
     (let w1 = (if c_fw_connection_state c = w_MARK_AUTHENTICATED w
                then snd (iptables_fw_access e AUTH_MAKE_DEAUTHENTICATED c w) else w)
      in rbind (client_list_delete a (w_clients w1)) (\<lambda>s. Ok (w1\<lparr>w_clients := s\<rparr>)))"

definition auth_client_action :: "env \<Rightarrow> string \<Rightarrow> string \<Rightarrow> t_authaction \<Rightarrow> world \<Rightarrow> world result" where
  "auth_client_action e ip mac action w =
     rbind (client_list_find ip mac (w_clients w)) (\<lambda>p.
       case p of
         None \<Rightarrow> Ok w
       | Some a \<Rightarrow> (case hget (cl_heap (w_clients w)) a of
           None \<Rightarrow> Undef
         | Some c \<Rightarrow>
             (case action of
                AUTH_MAKE_AUTHENTICATED \<Rightarrow>
                  if c_fw_connection_state c \<noteq> w_MARK_AUTHENTICATED w then
                    rbind (upd_world a (\<lambda>c. c\<lparr>c_fw_connection_state := w_MARK_AUTHENTICATED w\<rparr>) w) (\<lambda>w1.
                      let w2 = snd (iptables_fw_access e AUTH_MAKE_AUTHENTICATED
                                      (c\<lparr>c_fw_connection_state := w_MARK_AUTHENTICATED w\<rparr>) w1)
                      in Ok (w2\<lparr>w_authenticated_since_start := w_authenticated_since_start w2 + 1\<rparr>))
                  else Ok w
              | AUTH_MAKE_DEAUTHENTICATED \<Rightarrow> drop_client e a c w)))"

section \<open>The refresh\<close>

definition expired :: "s_config \<Rightarrow> int \<Rightarrow> t_client \<Rightarrow> bool" where
  "expired conf now c \<longleftrightarrow>
     c_last_updated c + s32 (cf_checkinterval conf * cf_clienttimeout conf) \<le> now \<or>
     c_added_time c + s32 (cf_checkinterval conf * cf_clientforceout conf) \<le> now"

definition refresh_one :: "env \<Rightarrow> string \<Rightarrow> string \<Rightarrow> world \<Rightarrow> world result" where
  "refresh_one e ip mac w =
     rbind (client_list_find ip mac (w_clients w)) (\<lambda>p.
       case p of
         None \<Rightarrow> Ok w
       | Some a \<Rightarrow> (case hget (cl_heap (w_clients w)) a of
           None \<Rightarrow> Undef
         | Some c \<Rightarrow> (case time_now e w of (now, w1) \<Rightarrow>
             if expired (w_conf w1) now c then drop_client e a c w1 else Ok w1)))"

text \<open>The next pointer is read before the client may be freed.\<close>

partial_function (option) refresh_loop :: "env \<Rightarrow> addr option \<Rightarrow> world \<Rightarrow> world option" where
  "refresh_loop e cp1 w =
     (case cp1 of
        None \<Rightarrow> Some w
      | Some a \<Rightarrow> (case hget (cl_heap (w_clients w)) a of
          None \<Rightarrow> None
        | Some c \<Rightarrow> (case refresh_one e (c_ip c) (c_mac c) w of
            Ok w' \<Rightarrow> refresh_loop e (c_next c) w'
          | Exit n \<Rightarrow> None
          | Undef \<Rightarrow> None)))"

definition fw_refresh_client_list :: "env \<Rightarrow> world \<Rightarrow> world result" where
  "fw_refresh_client_list e w =
     rbind (iptables_fw_counters_update e w) (\<lambda>(rc, w1).
       if rc = -1 then Ok w1
       else of_opt (refresh_loop e (client_get_first_client (w_clients w1)) w1))"

section \<open>Names\<close>

definition fw_connection_state_as_string :: "world \<Rightarrow> 32 word \<Rightarrow> string" where
  "fw_connection_state_as_string w mark =
     (if mark = w_MARK_PREAUTHENTICATED w then ''Preauthenticated''
      else if mark = w_MARK_AUTHENTICATED w then ''Authenticated''
      else if mark = w_MARK_TRUSTED w then ''Trusted''
      else if mark = w_MARK_BLOCKED w then ''Blocked''
      else ''ERROR: unrecognized mark'')"

definition fw_init :: "env \<Rightarrow> world \<Rightarrow> (int \<times> world) result" where
  "fw_init e w = iptables_fw_init e w"

definition fw_destroy :: "env \<Rightarrow> world \<Rightarrow> (int \<times> world) result" where
  "fw_destroy e w = iptables_fw_destroy e w"

section \<open>Rules and clients\<close>

text \<open>The fields the rules of a client depend on besides the client.\<close>

definition static :: "world \<Rightarrow> s_config \<times> 32 word list \<times> string list" where
  "static w = (w_conf w, [w_MARK_AUTHENTICATED w, w_MARK_BLOCKED w, w_MARK_TRUSTED w],
     [w_markop w, w_markmask w])"

lemma same_static: "same_daemon w w' \<Longrightarrow> static w' = static w"
  using same_daemon_fields by (simp add: static_def)

lemma static_updates [simp]:
  "static (w\<lparr>w_clients := s\<rparr>) = static w" "static (tick w) = static w"
  "static (w\<lparr>w_fw_quiet := q\<rparr>) = static w" "static (w\<lparr>w_authenticated_since_start := n\<rparr>) = static w"
  by (simp_all add: static_def tick_def)

definition rules_of :: "world \<Rightarrow> t_client \<Rightarrow> string \<Rightarrow> int" where
  "rules_of w c b = (if c_fw_connection_state c = w_MARK_AUTHENTICATED w
     then int (count_list (client_bodies w c) b) else 0)"

lemma rules_of_static: "static w' = static w \<Longrightarrow> rules_of w' = rules_of w"
  by (rule ext)+ (simp add: static_def rules_of_def client_bodies_def client_mark_def)

lemma rules_of_same:
  "c_ip c' = c_ip c \<Longrightarrow> c_mac c' = c_mac c \<Longrightarrow> c_idx c' = c_idx c \<Longrightarrow>
   c_fw_connection_state c' = c_fw_connection_state c \<Longrightarrow> rules_of w c' = rules_of w c"
  by (rule ext) (simp add: rules_of_def client_bodies_def)

text \<open>
  The rules in place, beyond those in \<open>k\<close>, are those of the authenticated clients.
\<close>

definition expected :: "world \<Rightarrow> string \<Rightarrow> int" where
  "expected w b = (\<Sum>c \<leftarrow> clients (w_clients w). rules_of w c b)"

definition ledger :: "(string \<Rightarrow> int) \<Rightarrow> world \<Rightarrow> bool" where
  "ledger k w \<longleftrightarrow> (\<forall>b. net (w_log w) b = k b + expected w b)"

lemma ledger_same:
  "static w' = static w \<Longrightarrow> w_clients w' = w_clients w \<Longrightarrow> w_log w' = w_log w \<Longrightarrow> ledger k w' = ledger k w"
  using rules_of_static [of w' w] by (simp add: ledger_def expected_def)

lemma tick_fields [simp]: "w_clients (tick w) = w_clients w" "w_log (tick w) = w_log w" "w_conf (tick w) = w_conf w"
  by (simp_all add: tick_def)

lemma drop_client_repr:
  assumes r: "cl_repr (w_clients w) (us @ a # ws)" and c: "hget (cl_heap (w_clients w)) a = Some c"
  obtains w' where "drop_client e a c w = Ok w'" "cl_repr (w_clients w') (us @ ws)"
    "length (cl_arr (w_clients w')) = length (cl_arr (w_clients w))"
    "\<forall>b \<in> set (us @ ws). cell (cl_heap (w_clients w')) b = cell (cl_heap (w_clients w)) b"
    "static w' = static w" "works e \<longrightarrow> ledger k w \<longrightarrow> ledger k w'"
proof -
  let ?h = "cl_heap (w_clients w)"
  let ?auth = "c_fw_connection_state c = w_MARK_AUTHENTICATED w"
  obtain rc w1 where acc: "iptables_fw_access e AUTH_MAKE_DEAUTHENTICATED c w = (rc, w1)" by fastforce
  define w2 where "w2 = (if ?auth then w1 else w)"
  have s2: "static w2 = static w" "w_clients w2 = w_clients w"
    using same_static [OF fw_access_same [OF acc]] same_daemon_fields(2) [OF fw_access_same [OF acc]]
    by (auto simp: w2_def)
  obtain s' where s': "client_list_delete a (w_clients w) = Ok s'" "cl_repr s' (us @ ws)"
    "length (cl_arr s') = length (cl_arr (w_clients w))"
    "\<forall>b \<in> set (us @ ws). cell (cl_heap s') b = cell ?h b"
    by (rule client_list_delete_repr [OF r])
  have cell: "rules_of w (cell ?h a) = rules_of w c" using c by (intro rules_of_same) (simp_all add: cell_def)
  have led: "ledger k (w2\<lparr>w_clients := s'\<rparr>)" if e: "works e" and k: "ledger k w"
    unfolding ledger_def
  proof
    fix b
    have "rc = 0" using fw_access_works [OF e, of AUTH_MAKE_DEAUTHENTICATED c w] acc by simp
    with fw_access_net [of e AUTH_MAKE_DEAUTHENTICATED c w w1 b] acc
    have n: "net (w_log w2) b = net (w_log w) b - rules_of w c b"
      by (simp add: w2_def rules_of_def)
    have "expected w b = expected (w2\<lparr>w_clients := s'\<rparr>) b + rules_of w c b"
      using s'(4) cell rules_of_static [of "w2\<lparr>w_clients := s'\<rparr>" w] s2(1)
      by (simp add: expected_def clients_repr [OF r] clients_repr [OF s'(2)] cong: map_cong)
    with n k show "net (w_log (w2\<lparr>w_clients := s'\<rparr>)) b = k b + expected (w2\<lparr>w_clients := s'\<rparr>) b"
      by (simp add: ledger_def)
  qed
  show thesis
  proof (rule that)
    show "drop_client e a c w = Ok (w2\<lparr>w_clients := s'\<rparr>)"
      using acc s'(1) s2(2) by (auto simp: drop_client_def w2_def Let_def)
  qed (use s' s2 led in auto)
qed

abbreviation ckey :: "t_client \<Rightarrow> string \<times> string" where
  "ckey c \<equiv> (c_ip c, c_mac c)"

lemma find_distinct_key:
  "distinct (map key xs) \<Longrightarrow> x \<in> set xs \<Longrightarrow> List.find (\<lambda>y. key y = key x) xs = Some x"
proof (induction xs)
  case (Cons y ys)
  show ?case
  proof (cases "y = x")
    case False
    with Cons.prems have x: "x \<in> set ys" by simp
    then have "key x \<in> key ` set ys" by (rule imageI)
    with Cons.prems have "key y \<noteq> key x" by auto
    with Cons x show ?thesis by simp
  qed simp
qed simp

lemma refresh_one_repr:
  assumes r: "cl_repr (w_clients w) (us @ a # ws)" and c: "hget (cl_heap (w_clients w)) a = Some c"
    and d: "distinct (map ckey (clients (w_clients w)))"
  obtains w' where "refresh_one e (c_ip c) (c_mac c) w = Ok w'"
    "cl_repr (w_clients w') (us @ (if expired (w_conf w) (e_time e (w_clock w)) (cell (cl_heap (w_clients w)) a)
       then ws else a # ws))"
    "length (cl_arr (w_clients w')) = length (cl_arr (w_clients w))"
    "\<forall>b \<in> set (us @ ws). cell (cl_heap (w_clients w')) b = cell (cl_heap (w_clients w)) b"
    "\<not> expired (w_conf w) (e_time e (w_clock w)) (cell (cl_heap (w_clients w)) a) \<longrightarrow>
       cell (cl_heap (w_clients w')) a = cell (cl_heap (w_clients w)) a"
    "static w' = static w" "works e \<longrightarrow> ledger k w \<longrightarrow> ledger k w'"
proof -
  let ?h = "cl_heap (w_clients w)" and ?as = "us @ a # ws"
  have "List.find (\<lambda>b. (ckey \<circ> cell ?h) b = (ckey \<circ> cell ?h) a) ?as = Some a"
    by (rule find_distinct_key) (use d in \<open>simp_all only: clients_repr [OF r] map_map in_set_conv_decomp, blast?\<close>)
  then have "List.find (\<lambda>b. (\<lambda>x. c_ip x = c_ip c \<and> c_mac x = c_mac c) (cell ?h b)) ?as = Some a"
    using c by simp
  then have fnd: "client_list_find (c_ip c) (c_mac c) (w_clients w) = Ok (Some a)"
    unfolding client_list_find_def
    by (subst client_find_repr [OF r, where Q = "\<lambda>x. c_ip x = c_ip c \<and> c_mac x = c_mac c"]) simp_all
  have ex: "expired (w_conf w) t c = expired (w_conf w) t (cell ?h a)" for t
    using c by (simp add: expired_def cell_def)
  show thesis
  proof (cases "expired (w_conf w) (e_time e (w_clock w)) (cell ?h a)")
    case True
    have r1: "cl_repr (w_clients (tick w)) (us @ a # ws)" "hget (cl_heap (w_clients (tick w))) a = Some c"
      using r c by simp_all
    from r1 obtain w' where w': "drop_client e a c (tick w) = Ok w'" "cl_repr (w_clients w') (us @ ws)"
      "length (cl_arr (w_clients w')) = length (cl_arr (w_clients w))"
      "\<forall>b \<in> set (us @ ws). cell (cl_heap (w_clients w')) b = cell (cl_heap (w_clients w)) b"
      "static w' = static w" "works e \<longrightarrow> ledger k (tick w) \<longrightarrow> ledger k w'"
      by (rule drop_client_repr [where e = e and k = k]) simp_all
    have "ledger k (tick w) = ledger k w" by (rule ledger_same) simp_all
    with w' True show thesis
      by (intro that [of w']) (auto simp: refresh_one_def fnd c time_now_def ex)
  next
    case False
    have "ledger k (tick w) = ledger k w" by (rule ledger_same) simp_all
    with r False show thesis
      by (intro that [of "tick w"]) (auto simp: refresh_one_def fnd c time_now_def ex)
  qed
qed

lemma path_start: "path h p as None \<Longrightarrow> p = (if as = [] then None else Some (hd as))"
  by (cases as) auto

text \<open>
  The refresh looks at every client once, at one reading of the clock each, and keeps
  those that have not expired then.
\<close>

lemma refresh_loop_repr:
  assumes "cl_repr (w_clients w) (us @ ws)" "path (cl_heap (w_clients w)) cp ws None"
    and "distinct (map ckey (clients (w_clients w)))"
  shows "\<exists>w' ts. refresh_loop e cp w = Some w' \<and> length ts = length ws \<and> set ts \<subseteq> range (e_time e) \<and>
    cl_repr (w_clients w') (us @ map fst (filter (\<lambda>(a, t). \<not> expired (w_conf w) t (cell (cl_heap (w_clients w)) a)) (zip ws ts))) \<and>
    length (cl_arr (w_clients w')) = length (cl_arr (w_clients w)) \<and>
    (\<forall>b \<in> set us \<union> {a. \<exists>t. (a, t) \<in> set (zip ws ts) \<and> \<not> expired (w_conf w) t (cell (cl_heap (w_clients w)) a)}.
       cell (cl_heap (w_clients w')) b = cell (cl_heap (w_clients w)) b) \<and>
    static w' = static w \<and> (works e \<longrightarrow> ledger k w \<longrightarrow> ledger k w')"
  using assms
proof (induction ws arbitrary: us w cp)
  case Nil
  then show ?case by (intro exI [of _ w] exI [of _ "[]"]) (simp add: refresh_loop.simps)
next
  case (Cons a ws)
  let ?h = "cl_heap (w_clients w)" and ?t = "e_time e (w_clock w)"
  let ?x = "expired (w_conf w) ?t (cell ?h a)"
  from Cons.prems(2) obtain c where c: "cp = Some a" "hget ?h a = Some c" "path ?h (c_next c) ws None" by auto
  obtain w1 where w1: "refresh_one e (c_ip c) (c_mac c) w = Ok w1"
    "cl_repr (w_clients w1) (us @ (if ?x then ws else a # ws))"
    "length (cl_arr (w_clients w1)) = length (cl_arr (w_clients w))"
    "\<forall>b \<in> set (us @ ws). cell (cl_heap (w_clients w1)) b = cell ?h b"
    "\<not> ?x \<longrightarrow> cell (cl_heap (w_clients w1)) a = cell ?h a"
    "static w1 = static w" "works e \<longrightarrow> ledger k w \<longrightarrow> ledger k w1"
    by (rule refresh_one_repr [OF Cons.prems(1) c(2) Cons.prems(3), where e = e and k = k])
  define us1 where "us1 = (if ?x then us else us @ [a])"
  have r1: "cl_repr (w_clients w1) (us1 @ ws)" using w1(2) by (simp add: us1_def split: if_splits)
  then have "path (cl_heap (w_clients w1)) (cl_first (w_clients w1)) (us1 @ ws) None" by (simp add: cl_repr_def)
  then obtain q where "path (cl_heap (w_clients w1)) q ws None" by (auto simp: path_append)
  with path_start [OF this] path_start [OF c(3)]
  have p1: "path (cl_heap (w_clients w1)) (c_next c) ws None" by simp
  have cells1: "\<forall>b \<in> set (us1 @ ws). cell (cl_heap (w_clients w1)) b = cell ?h b"
    using w1(4,5) by (auto simp: us1_def)
  let ?F = "\<lambda>b. ckey (cell ?h b)"
  have "map ckey (clients (w_clients w1)) = map ?F (us1 @ ws)"
    unfolding clients_repr [OF r1] map_map using cells1 by (intro map_cong) (auto simp del: cell_fields)
  moreover have "distinct (map ?F (us @ a # ws))"
    using Cons.prems(3) unfolding clients_repr [OF Cons.prems(1)] map_map comp_def .
  ultimately have d1: "distinct (map ckey (clients (w_clients w1)))"
    by (cases ?x) (auto simp: us1_def simp del: cell_fields)
  have conf: "w_conf w1 = w_conf w" using w1(6) by (simp add: static_def)
  from Cons.IH [OF r1 p1 d1] obtain w2 ts where w2: "refresh_loop e (c_next c) w1 = Some w2"
    "length ts = length ws" "set ts \<subseteq> range (e_time e)"
    "cl_repr (w_clients w2) (us1 @ map fst (filter (\<lambda>(a, t). \<not> expired (w_conf w1) t (cell (cl_heap (w_clients w1)) a)) (zip ws ts)))"
    "length (cl_arr (w_clients w2)) = length (cl_arr (w_clients w1))"
    "\<forall>b \<in> set us1 \<union> {a. \<exists>t. (a, t) \<in> set (zip ws ts) \<and> \<not> expired (w_conf w1) t (cell (cl_heap (w_clients w1)) a)}.
       cell (cl_heap (w_clients w2)) b = cell (cl_heap (w_clients w1)) b"
    "static w2 = static w1" "works e \<longrightarrow> ledger k w1 \<longrightarrow> ledger k w2"
    by blast
  have exw: "expired (w_conf w1) t (cell (cl_heap (w_clients w1)) b) = expired (w_conf w) t (cell ?h b)"
    if "b \<in> set ws" for b t using cells1 that conf by simp
  have flt: "filter (\<lambda>(a, t). \<not> expired (w_conf w1) t (cell (cl_heap (w_clients w1)) a)) (zip ws ts) =
      filter (\<lambda>(a, t). \<not> expired (w_conf w) t (cell ?h a)) (zip ws ts)"
    by (rule filter_cong) (auto simp: exw dest: set_zip_leftD)
  have "cl_repr (w_clients w2) (us @ map fst (filter (\<lambda>(a, t). \<not> expired (w_conf w) t (cell ?h a)) (zip (a # ws) (?t # ts))))"
    using w2(4) unfolding flt by (simp add: us1_def split: if_splits)
  moreover have "refresh_loop e cp w = Some w2"
    using c w1(1) w2(1) by (subst refresh_loop.simps) simp
  moreover have "\<forall>b \<in> set us \<union> {b. \<exists>t. (b, t) \<in> set (zip (a # ws) (?t # ts)) \<and> \<not> expired (w_conf w) t (cell ?h b)}.
       cell (cl_heap (w_clients w2)) b = cell ?h b"
  proof
    fix b assume b: "b \<in> set us \<union> {b. \<exists>t. (b, t) \<in> set (zip (a # ws) (?t # ts)) \<and> \<not> expired (w_conf w) t (cell ?h b)}"
    then have "b \<in> set us1 \<union> {b. \<exists>t. (b, t) \<in> set (zip ws ts) \<and> \<not> expired (w_conf w1) t (cell (cl_heap (w_clients w1)) b)}"
    proof
      assume "b \<in> {b. \<exists>t. (b, t) \<in> set (zip (a # ws) (?t # ts)) \<and> \<not> expired (w_conf w) t (cell ?h b)}"
      then obtain t where "(b, t) = (a, ?t) \<or> (b, t) \<in> set (zip ws ts)" "\<not> expired (w_conf w) t (cell ?h b)" by auto
      then show ?thesis using exw [of b t] by (auto simp: us1_def dest: set_zip_leftD)
    qed (auto simp: us1_def)
    then have "cell (cl_heap (w_clients w2)) b = cell (cl_heap (w_clients w1)) b" using w2(6) by blast
    moreover have "b \<in> set (us1 @ ws)" using b by (auto simp: us1_def dest: set_zip_leftD)
    ultimately show "cell (cl_heap (w_clients w2)) b = cell ?h b" using cells1 by simp
  qed
  ultimately show ?case
    using w2 w1 by (intro exI [of _ w2] exI [of _ "?t # ts"]) auto
qed

text \<open>Lists in which a key picks out one element.\<close>

lemma key_split: "distinct (map key (us @ x # ws)) \<Longrightarrow> y \<in> set us \<union> set ws \<Longrightarrow> key y \<noteq> key x"
  by (auto simp: image_iff)

lemma filter_key_split:
  "distinct (map key (us @ x # ws)) \<Longrightarrow> filter (\<lambda>y. key y \<noteq> key x) (us @ x # ws) = us @ ws"
  using key_split [of key us x ws] by (auto simp: filter_id_conv)

lemma update_first_skip: "\<forall>y \<in> set us. \<not> P y \<Longrightarrow> P x \<Longrightarrow> update_first P g (us @ x # ws) = us @ g x # ws"
  by (induction us) auto

lemma update_first_key_split:
  "distinct (map key (us @ x # ws)) \<Longrightarrow> update_first (\<lambda>y. key y = key x) g (us @ x # ws) = us @ g x # ws"
  by (rule update_first_skip) (use key_split [of key us x ws] in auto)

lemma client_at_hget: "client_at s a = Some x \<Longrightarrow> \<exists>c. hget (cl_heap s) a = Some c \<and> x = c\<lparr>c_next := None\<rparr>"
  by (auto simp: client_at_def)

lemma find_client_cases:
  assumes r: "cl_repr s as"
  obtains (absent) "client_list_find ip mac s = Ok None" "(ip, mac) \<notin> ckey ` set (clients s)"
  | (present) us a ws c where "client_list_find ip mac s = Ok (Some a)" "as = us @ a # ws"
      "hget (cl_heap s) a = Some c" "c_ip c = ip" "c_mac c = mac" "cell (cl_heap s) a = c\<lparr>c_next := None\<rparr>"
      "List.find (\<lambda>c. ckey c = (ip, mac)) (clients s) = Some (c\<lparr>c_next := None\<rparr>)"
proof -
  let ?Q = "\<lambda>c. c_ip c = ip \<and> c_mac c = mac"
  obtain p where p: "client_list_find ip mac s = Ok p"
    "case p of None \<Rightarrow> List.find ?Q (clients s) = None
     | Some a \<Rightarrow> client_at s a \<noteq> None \<and> List.find ?Q (clients s) = client_at s a"
    using find_refines [OF cl_repr_inv [OF r], of "\<lambda>c. Some (?Q c)" ?Q] by (auto simp: client_list_find_def)
  show thesis
  proof (cases p)
    case None
    with p absent show thesis by (auto simp: find_None_iff)
  next
    case (Some a)
    with p obtain x where x: "client_at s a = Some x" "List.find ?Q (clients s) = Some x" by auto
    from x(1) obtain c where c: "hget (cl_heap s) a = Some c" "x = c\<lparr>c_next := None\<rparr>" by (auto simp: client_at_def)
    from client_at_mem [OF r x(1)] obtain us ws where "as = us @ a # ws" "x = cell (cl_heap s) a"
      by (auto simp: in_set_conv_decomp)
    moreover have "c_ip c = ip" "c_mac c = mac" using find_Some_mem [OF x(2)] c by simp_all
    ultimately show thesis using present [of a us ws c] p(1) Some c x(2) by simp
  qed
qed

section \<open>The state of the daemon\<close>

text \<open>
  The client list is well formed and has the capacity the configuration says, no pair of
  addresses is on it twice, and every client has a token and one of the two states.
\<close>

definition client_ok :: "32 word \<Rightarrow> t_client \<Rightarrow> bool" where
  "client_ok m c \<longleftrightarrow> c_token c \<noteq> None \<and> c_fw_connection_state c \<in> {FW_MARK_PREAUTHENTICATED, m}"

definition daemon_inv :: "world \<Rightarrow> bool" where
  "daemon_inv w \<longleftrightarrow> clist_inv (w_clients w) \<and>
     nat (cf_maxclients (w_conf w)) = length (cl_arr (w_clients w)) \<and>
     distinct (map ckey (clients (w_clients w))) \<and>
     list_all (client_ok (w_MARK_AUTHENTICATED w)) (clients (w_clients w))"

text \<open>What every operation of the daemon keeps.\<close>

definition keeps :: "env \<Rightarrow> (string \<Rightarrow> int) \<Rightarrow> world \<Rightarrow> world \<Rightarrow> bool" where
  "keeps e k w w' \<longleftrightarrow> static w' = static w \<and> daemon_inv w' \<and> (works e \<longrightarrow> ledger k w \<longrightarrow> ledger k w')"

lemma keeps_refl: "daemon_inv w \<Longrightarrow> keeps e k w w"
  by (simp add: keeps_def)

lemma keeps_trans: "keeps e k w w' \<Longrightarrow> keeps e k w' w'' \<Longrightarrow> keeps e k w w''"
  by (auto simp: keeps_def)

lemma static_mark: "static w' = static w \<Longrightarrow> w_MARK_AUTHENTICATED w' = w_MARK_AUTHENTICATED w \<and> w_conf w' = w_conf w"
  by (simp add: static_def)

text \<open>An operation that only loses clients keeps the invariant.\<close>

lemma daemon_inv_fewer:
  assumes "daemon_inv w" "static w' = static w" "cl_repr (w_clients w') as"
    and "length (cl_arr (w_clients w')) = length (cl_arr (w_clients w))"
    and "distinct (map ckey (clients (w_clients w')))" "set (clients (w_clients w')) \<subseteq> set (clients (w_clients w))"
  shows "daemon_inv w'"
  using assms static_mark [OF assms(2)] cl_repr_inv [OF assms(3)]
  by (auto simp: daemon_inv_def list_all_iff)

lemma drop_client_keeps:
  assumes inv: "daemon_inv w" and r: "cl_repr (w_clients w) (us @ a # ws)"
    and c: "hget (cl_heap (w_clients w)) a = Some c"
  shows "\<exists>w'. drop_client e a c w = Ok w' \<and> keeps e k w w' \<and>
    clients (w_clients w') = filter (\<lambda>x. ckey x \<noteq> ckey c) (clients (w_clients w))"
proof -
  let ?h = "cl_heap (w_clients w)"
  obtain w' where w': "drop_client e a c w = Ok w'" "cl_repr (w_clients w') (us @ ws)"
    "length (cl_arr (w_clients w')) = length (cl_arr (w_clients w))"
    "\<forall>b \<in> set (us @ ws). cell (cl_heap (w_clients w')) b = cell ?h b"
    "static w' = static w" "works e \<longrightarrow> ledger k w \<longrightarrow> ledger k w'"
    by (rule drop_client_repr [OF r c, where e = e and k = k])
  have cs: "clients (w_clients w') = map (cell ?h) us @ map (cell ?h) ws"
    using w'(4) by (simp add: clients_repr [OF w'(2)])
  have cw: "clients (w_clients w) = map (cell ?h) us @ cell ?h a # map (cell ?h) ws"
    by (simp add: clients_repr [OF r])
  have kc: "ckey (cell ?h a) = ckey c" using c by simp
  have d: "distinct (map ckey (clients (w_clients w)))" using inv by (simp add: daemon_inv_def)
  have f: "clients (w_clients w') = filter (\<lambda>x. ckey x \<noteq> ckey c) (clients (w_clients w))"
    using filter_key_split [OF d [unfolded cw]] unfolding cs cw kc by simp
  have "daemon_inv w'"
    by (rule daemon_inv_fewer [OF inv w'(5) w'(2,3)]) (use d in \<open>simp_all add: f distinct_map_filter\<close>)
  with w' f show ?thesis by (auto simp: keeps_def)
qed

text \<open>A client is authenticated: its state changes and its rules go in.\<close>

lemma authenticate_keeps:
  assumes inv: "daemon_inv w" and r: "cl_repr (w_clients w) (us @ a # ws)"
    and c: "hget (cl_heap (w_clients w)) a = Some c" "c_fw_connection_state c \<noteq> w_MARK_AUTHENTICATED w"
  defines "g \<equiv> \<lambda>c. c\<lparr>c_fw_connection_state := w_MARK_AUTHENTICATED w\<rparr>"
  shows "\<exists>w1 rc w2. upd_world a g w = Ok w1 \<and> iptables_fw_access e AUTH_MAKE_AUTHENTICATED (g c) w1 = (rc, w2) \<and>
    w_authenticated_since_start w2 = w_authenticated_since_start w \<and>
    keeps e k w (w2\<lparr>w_authenticated_since_start := n\<rparr>) \<and>
    clients (w_clients w2) = update_first (\<lambda>x. ckey x = ckey c) g (clients (w_clients w))"
proof -
  let ?h = "cl_heap (w_clients w)"
  obtain s' where s': "upd_client a g (w_clients w) = Ok s'" "cl_repr s' (us @ a # ws)"
    "cl_arr s' = cl_arr (w_clients w)" "cell (cl_heap s') a = g (cell ?h a)"
    "\<forall>b. b \<noteq> a \<longrightarrow> cell (cl_heap s') b = cell ?h b"
    by (rule upd_client_repr [OF r, of a g]) (simp_all add: g_def)
  let ?w1 = "w\<lparr>w_clients := s'\<rparr>"
  obtain rc w2 where acc: "iptables_fw_access e AUTH_MAKE_AUTHENTICATED (g c) ?w1 = (rc, w2)" by fastforce
  note same = fw_access_same [OF acc]
  have st: "static w2 = static w" "w_clients w2 = s'"
    "w_authenticated_since_start w2 = w_authenticated_since_start w"
    using same_static [OF same] same_daemon_fields [OF same] by simp_all
  have na: "a \<notin> set us" "a \<notin> set ws" using r by (auto simp: cl_repr_def)
  have cs: "clients s' = map (cell ?h) us @ g (cell ?h a) # map (cell ?h) ws"
    using s'(4,5) na by (auto simp: clients_repr [OF s'(2)])
  have cw: "clients (w_clients w) = map (cell ?h) us @ cell ?h a # map (cell ?h) ws"
    by (simp add: clients_repr [OF r])
  have kc: "ckey (cell ?h a) = ckey c" using c by simp
  have d: "distinct (map ckey (clients (w_clients w)))" using inv by (simp add: daemon_inv_def)
  have upd: "clients s' = update_first (\<lambda>x. ckey x = ckey c) g (clients (w_clients w))"
    using update_first_key_split [OF d [unfolded cw]] unfolding cs cw kc by simp
  have "map ckey (clients s') = map ckey (clients (w_clients w))" by (simp add: cs cw g_def)
  moreover have "list_all (client_ok (w_MARK_AUTHENTICATED w)) (clients s')"
    using inv by (simp add: daemon_inv_def cs cw g_def client_ok_def)
  ultimately have inv2: "daemon_inv (w2\<lparr>w_authenticated_since_start := n\<rparr>)"
    using inv st static_mark [OF st(1)] cl_repr_inv [OF s'(2)] s'(3) by (simp add: daemon_inv_def)
  have led: "ledger k (w2\<lparr>w_authenticated_since_start := n\<rparr>)" if e: "works e" and l: "ledger k w"
    unfolding ledger_def
  proof
    fix b
    have "rc = 0" using fw_access_works [OF e, of AUTH_MAKE_AUTHENTICATED "g c" ?w1] acc by simp
    with fw_access_net [of e AUTH_MAKE_AUTHENTICATED "g c" ?w1 w2 b] acc
    have nt: "net (w_log w2) b = net (w_log w) b + int (count_list (client_bodies w c) b)"
      by (simp add: g_def client_bodies_def client_mark_def)
    have "rules_of w (cell ?h a) = rules_of w c" using c by (intro rules_of_same) (simp_all add: cell_def)
    then have r0: "rules_of w (cell ?h a) b = 0" using c(2) by (simp add: rules_of_def)
    have r1: "rules_of w (g (cell ?h a)) b = int (count_list (client_bodies w c) b)"
      using c(1) by (simp add: rules_of_def g_def client_bodies_def cell_def)
    have "rules_of (w2\<lparr>w_authenticated_since_start := n\<rparr>) = rules_of w" by (rule rules_of_static) (simp add: st)
    then have "expected (w2\<lparr>w_authenticated_since_start := n\<rparr>) b = expected w b + int (count_list (client_bodies w c) b)"
      using r0 r1 by (simp add: expected_def st(2) cs cw)
    with nt l show "net (w_log (w2\<lparr>w_authenticated_since_start := n\<rparr>)) b =
        k b + expected (w2\<lparr>w_authenticated_since_start := n\<rparr>) b"
      by (simp add: ledger_def)
  qed
  show ?thesis
    using s'(1) acc st inv2 led upd by (auto simp: upd_world_def keeps_def)
qed

lemma auth_client_action_keeps:
  assumes inv: "daemon_inv w"
  shows "\<exists>w'. auth_client_action e ip mac act w = Ok w' \<and> keeps e k w w' \<and>
    (case List.find (\<lambda>c. ckey c = (ip, mac)) (clients (w_clients w)) of
       None \<Rightarrow> w' = w
     | Some c \<Rightarrow> (case act of
         AUTH_MAKE_AUTHENTICATED \<Rightarrow>
           clients (w_clients w') = update_first (\<lambda>x. ckey x = (ip, mac))
             (\<lambda>c. c\<lparr>c_fw_connection_state := w_MARK_AUTHENTICATED w\<rparr>) (clients (w_clients w)) \<and>
           w_authenticated_since_start w' = w_authenticated_since_start w +
             (if c_fw_connection_state c = w_MARK_AUTHENTICATED w then 0 else 1) \<and>
           (c_fw_connection_state c = w_MARK_AUTHENTICATED w \<longrightarrow> w' = w)
       | AUTH_MAKE_DEAUTHENTICATED \<Rightarrow>
           clients (w_clients w') = filter (\<lambda>x. ckey x \<noteq> (ip, mac)) (clients (w_clients w))))"
proof -
  from inv obtain as where r: "cl_repr (w_clients w) as" by (auto simp: daemon_inv_def elim: clist_invE)
  show ?thesis
  proof (cases rule: find_client_cases [OF r, of ip mac])
    case 1
    then have "List.find (\<lambda>c. ckey c = (ip, mac)) (clients (w_clients w)) = None" by (auto simp: find_None_iff)
    with 1(1) inv show ?thesis by (simp add: auth_client_action_def keeps_refl)
  next
    case (2 us a ws c)
    note r' = r [unfolded 2(2)]
    have kc: "ckey c = (ip, mac)" using 2 by simp
    show ?thesis
    proof (cases act)
      case AUTH_MAKE_DEAUTHENTICATED
      obtain w' where "drop_client e a c w = Ok w'" "keeps e k w w'"
        "clients (w_clients w') = filter (\<lambda>x. ckey x \<noteq> ckey c) (clients (w_clients w))"
        using drop_client_keeps [OF inv r' 2(3), of e k] by blast
      with 2 AUTH_MAKE_DEAUTHENTICATED show ?thesis by (auto simp: auth_client_action_def kc)
    next
      case AUTH_MAKE_AUTHENTICATED
      show ?thesis
      proof (cases "c_fw_connection_state c = w_MARK_AUTHENTICATED w")
        case True
        have "update_first (\<lambda>x. ckey x = (ip, mac)) (\<lambda>c. c\<lparr>c_fw_connection_state := w_MARK_AUTHENTICATED w\<rparr>)
            (clients (w_clients w)) = clients (w_clients w)"
          by (rule update_first_found_id [OF 2(7)]) (use True in simp)
        with 2 AUTH_MAKE_AUTHENTICATED True inv show ?thesis by (simp add: auth_client_action_def keeps_refl)
      next
        case False
        from authenticate_keeps [OF inv r' 2(3) False, of e k "w_authenticated_since_start w + 1"]
        obtain w1 rc w2 where a: "upd_world a (\<lambda>c. c\<lparr>c_fw_connection_state := w_MARK_AUTHENTICATED w\<rparr>) w = Ok w1"
          "iptables_fw_access e AUTH_MAKE_AUTHENTICATED (c\<lparr>c_fw_connection_state := w_MARK_AUTHENTICATED w\<rparr>) w1 = (rc, w2)"
          "w_authenticated_since_start w2 = w_authenticated_since_start w"
          "keeps e k w (w2\<lparr>w_authenticated_since_start := w_authenticated_since_start w + 1\<rparr>)"
          "clients (w_clients w2) = update_first (\<lambda>x. ckey x = ckey c)
             (\<lambda>c. c\<lparr>c_fw_connection_state := w_MARK_AUTHENTICATED w\<rparr>) (clients (w_clients w))"
          by blast
        with 2 AUTH_MAKE_AUTHENTICATED False show ?thesis by (simp add: auth_client_action_def kc)
      qed
    qed
  qed
qed

section \<open>First contact and refresh keep the invariant\<close>

lemma new_client_ok: "client_ok m (new_client ip mac (Some t) now i)"
  by (simp add: client_ok_def new_client_def)

lemma expected_preauth:
  assumes "w_MARK_AUTHENTICATED w \<noteq> 0" "clients (w_clients w') = clients (w_clients w) @ [new_client ip mac t now i]"
    "static w' = static w"
  shows "expected w' = expected w"
proof -
  have "rules_of w (new_client ip mac t now i) b = 0" for b
    using assms(1) by (simp add: rules_of_def new_client_def FW_MARK_PREAUTHENTICATED_def)
  then show ?thesis using assms(2) rules_of_static [OF assms(3)] by (simp add: expected_def fun_eq_iff)
qed

lemma list_add_client_result:
  assumes "clist_inv s" "nat maxclients = length (cl_arr s)" "distinct (map ckey (clients s))"
  shows "\<exists>p s'. client_list_add_client maxclients arp ra rb now ip s = Ok (p, s') \<and>
    (s' = s \<or> (\<exists>mac t i. clist_inv s' \<and> length (cl_arr s') = length (cl_arr s) \<and>
       clients s' = clients s @ [new_client ip mac (Some t) now i] \<and> distinct (map ckey (clients s'))))"
  using add_client_cases [OF assms, where ip = ip and arp = arp and ra = ra and rb = rb and now = now]
  by (auto split: option.splits if_splits) blast+

lemma add_client_keeps:
  assumes inv: "daemon_inv w" and m: "w_MARK_AUTHENTICATED w \<noteq> 0"
  shows "\<exists>p w'. http_nodogsplash_add_client e ip w = Ok (p, w') \<and> keeps e k w w' \<and> w_log w' = w_log w \<and>
    (clients (w_clients w') = clients (w_clients w) \<or>
     (\<exists>mac t now i. clients (w_clients w') = clients (w_clients w) @ [new_client ip mac (Some t) now i]))"
proof -
  obtain mac w1 where l: "(if check_ip_format ip then arp_get e ip w else (None, w)) = (mac, w1)" by fastforce
  have w1: "static w1 = static w" "w_clients w1 = w_clients w" "w_log w1 = w_log w" "w_conf w1 = w_conf w"
    using l by (auto simp: arp_get_def split: if_splits)
  let ?now = "e_time e (Suc (Suc (w_clock w1)))"
  obtain p s' where s': "client_list_add_client (cf_maxclients (w_conf w)) (\<lambda>_. mac) (e_rand e (w_clock w1))
      (e_rand e (Suc (w_clock w1))) ?now ip (w_clients w) = Ok (p, s')"
    "s' = w_clients w \<or> (\<exists>mac t i. clist_inv s' \<and> length (cl_arr s') = length (cl_arr (w_clients w)) \<and>
       clients s' = clients (w_clients w) @ [new_client ip mac (Some t) ?now i] \<and> distinct (map ckey (clients s')))"
    using list_add_client_result [of "w_clients w" "cf_maxclients (w_conf w)"] inv
    unfolding daemon_inv_def by blast
  let ?w' = "(tick (tick (tick w1)))\<lparr>w_clients := s'\<rparr>"
  have st: "static ?w' = static w" by (simp add: w1)
  have run: "http_nodogsplash_add_client e ip w = Ok (p, ?w')"
    using l s'(1) w1 by (simp add: http_nodogsplash_add_client_def)
  from s'(2) show ?thesis
  proof
    assume s: "s' = w_clients w"
    have "daemon_inv ?w'" using inv static_mark [OF st] by (simp add: daemon_inv_def s)
    moreover have "ledger k ?w' = ledger k w" by (rule ledger_same) (simp_all add: st s w1)
    ultimately have "keeps e k w ?w'" using st by (simp add: keeps_def)
    with run s w1(3) show ?thesis by (intro exI [of _ p] exI [of _ ?w']) simp
  next
    assume "\<exists>mac t i. clist_inv s' \<and> length (cl_arr s') = length (cl_arr (w_clients w)) \<and>
       clients s' = clients (w_clients w) @ [new_client ip mac (Some t) ?now i] \<and> distinct (map ckey (clients s'))"
    then obtain mac' t i where s: "clist_inv s'" "length (cl_arr s') = length (cl_arr (w_clients w))"
      "clients s' = clients (w_clients w) @ [new_client ip mac' (Some t) ?now i]" "distinct (map ckey (clients s'))"
      by blast
    have "list_all (client_ok (w_MARK_AUTHENTICATED w)) (clients s')"
      using inv by (simp add: s(3) daemon_inv_def new_client_ok)
    with s inv static_mark [OF st] have "daemon_inv ?w'" by (simp add: daemon_inv_def)
    moreover have "expected ?w' = expected w" by (rule expected_preauth [OF m _ st]) (simp add: s)
    ultimately have "keeps e k w ?w'" using st by (simp add: keeps_def ledger_def w1)
    with run s(3) w1(3) show ?thesis by (intro exI [of _ p] exI [of _ ?w']) auto
  qed
qed

lemma grown_fields:
  assumes "grown c c'"
  shows "c_ip c' = c_ip c" "c_mac c' = c_mac c" "c_idx c' = c_idx c" "c_token c' = c_token c"
    "c_fw_connection_state c' = c_fw_connection_state c" "c_added_time c' = c_added_time c"
  using assms by (cases c; cases c'; simp add: grown_def ident_def)+

lemma counted_keeps:
  assumes "daemon_inv w" "counted w w'"
  shows "keeps e k w w'"
proof -
  let ?cs = "clients (w_clients w)" and ?cs' = "clients (w_clients w')"
  have w': "w' = w\<lparr>w_clients := w_clients w', w_clock := w_clock w'\<rparr>" and g: "list_all2 grown ?cs ?cs'"
    using assms(2) by (simp_all add: counted_def)
  have st: "static w' = static w" "w_log w' = w_log w" by (subst w', simp add: static_def)+
  have k: "map ckey ?cs' = map ckey ?cs"
    using g by (induction rule: list_all2_induct) (auto simp: grown_fields)
  have ok: "list_all (client_ok (w_MARK_AUTHENTICATED w)) ?cs'"
    using g assms(1) [unfolded daemon_inv_def, THEN conjunct2, THEN conjunct2, THEN conjunct2]
    by (induction rule: list_all2_induct) (auto simp: client_ok_def grown_fields)
  have r: "map (rules_of w) ?cs' = map (rules_of w) ?cs"
    using g by (induction rule: list_all2_induct) (auto intro: rules_of_same simp: grown_fields)
  have "expected w' b = expected w b" for b
  proof -
    have "expected w' b = (\<Sum>f \<leftarrow> map (rules_of w) ?cs'. f b)"
      by (simp add: expected_def rules_of_static [OF st(1)] comp_def)
    also have "\<dots> = expected w b" by (simp add: r expected_def comp_def)
    finally show ?thesis .
  qed
  with st have "ledger k w' = ledger k w" by (simp add: ledger_def)
  with st k ok assms static_mark [OF st(1)] show ?thesis
    by (simp add: keeps_def daemon_inv_def counted_def)
qed

text \<open>The clients that have not expired, each at its own reading of the clock.\<close>

fun survivors :: "s_config \<Rightarrow> t_client list \<Rightarrow> int list \<Rightarrow> t_client list" where
  "survivors conf (c # cs) (t # ts) =
     (if t < c_last_updated c + s32 (cf_checkinterval conf * cf_clienttimeout conf) \<and>
         t < c_added_time c + s32 (cf_checkinterval conf * cf_clientforceout conf)
      then c # survivors conf cs ts else survivors conf cs ts)"
| "survivors conf [] ts = []"
| "survivors conf cs [] = []"

lemma set_survivors: "set (survivors conf cs ts) \<subseteq> set cs"
  by (induction conf cs ts rule: survivors.induct) auto

lemma distinct_survivors: "distinct (map key cs) \<Longrightarrow> distinct (map key (survivors conf cs ts))"
proof (induction conf cs ts rule: survivors.induct)
  case (1 conf c cs t ts)
  then show ?case using set_survivors [of conf cs ts] by auto
qed auto

lemma survivors_filter:
  "length ts = length as \<Longrightarrow>
   map f (map fst (filter (\<lambda>(a, t). \<not> expired conf t (f a)) (zip as ts))) = survivors conf (map f as) ts"
  by (induction as ts rule: list_induct2') (auto simp: expired_def)

text \<open>The refresh on the abstract list: the counters, then one reading of the clock per client.\<close>

lemma sweep_keeps:
  assumes inv: "daemon_inv w"
  shows "\<exists>w' ts. refresh_loop e (client_get_first_client (w_clients w)) w = Some w' \<and> keeps e k w w' \<and>
    length ts = length (clients (w_clients w)) \<and> set ts \<subseteq> range (e_time e) \<and>
    clients (w_clients w') = survivors (w_conf w) (clients (w_clients w)) ts"
proof -
  from inv obtain as where r: "cl_repr (w_clients w) as" by (auto simp: daemon_inv_def elim: clist_invE)
  let ?h = "cl_heap (w_clients w)" and ?cp = "client_get_first_client (w_clients w)"
  have "path ?h ?cp as None" using r by (simp add: cl_repr_def client_get_first_client_def)
  from refresh_loop_repr [of w "[]" as ?cp e k] this r inv
  obtain w2 ts where w2: "refresh_loop e ?cp w = Some w2" "length ts = length as" "set ts \<subseteq> range (e_time e)"
    "cl_repr (w_clients w2) (map fst (filter (\<lambda>(a, t). \<not> expired (w_conf w) t (cell ?h a)) (zip as ts)))"
    "length (cl_arr (w_clients w2)) = length (cl_arr (w_clients w))"
    "\<forall>b \<in> {a. \<exists>t. (a, t) \<in> set (zip as ts) \<and> \<not> expired (w_conf w) t (cell ?h a)}.
       cell (cl_heap (w_clients w2)) b = cell ?h b"
    "static w2 = static w" "works e \<longrightarrow> ledger k w \<longrightarrow> ledger k w2"
    by (auto simp: daemon_inv_def)
  let ?kept = "filter (\<lambda>(a, t). \<not> expired (w_conf w) t (cell ?h a)) (zip as ts)"
  have "clients (w_clients w2) = map (cell ?h) (map fst ?kept)"
    unfolding clients_repr [OF w2(4)] using w2(6) by (intro map_cong) auto
  also have "\<dots> = survivors (w_conf w) (clients (w_clients w)) ts"
    using survivors_filter [OF w2(2), of "cell ?h"] by (simp add: clients_repr [OF r])
  finally have cs: "clients (w_clients w2) = survivors (w_conf w) (clients (w_clients w)) ts" .
  have "daemon_inv w2"
  proof (rule daemon_inv_fewer [OF inv w2(7) w2(4,5)])
    show "distinct (map ckey (clients (w_clients w2)))"
      unfolding cs using inv by (intro distinct_survivors) (simp add: daemon_inv_def)
    show "set (clients (w_clients w2)) \<subseteq> set (clients (w_clients w))"
      unfolding cs by (rule set_survivors)
  qed
  then have "keeps e k w w2" using w2(7,8) by (simp add: keeps_def)
  moreover have "length ts = length (clients (w_clients w))" using w2(2) by (simp add: clients_repr [OF r])
  ultimately show ?thesis using w2(1,3) cs by blast
qed

lemma refresh_keeps:
  assumes inv: "daemon_inv w"
  shows "\<exists>w'. fw_refresh_client_list e w = Ok w' \<and> keeps e k w w' \<and>
    (\<exists>rc w1. iptables_fw_counters_update e w = Ok (rc, w1) \<and> counted w w1 \<and>
      (if rc = -1 then w' = w1
       else \<exists>ts. length ts = length (clients (w_clients w1)) \<and> set ts \<subseteq> range (e_time e) \<and>
         clients (w_clients w') = survivors (w_conf w) (clients (w_clients w1)) ts))"
proof -
  have ci: "clist_inv (w_clients w)" using inv by (simp add: daemon_inv_def)
  obtain rc w1 where u: "iptables_fw_counters_update e w = Ok (rc, w1)" "counted w w1"
    using counters_update_cases [OF ci, of e] by blast
  have k1: "keeps e k w w1" by (rule counted_keeps [OF inv u(2)])
  then have i1: "daemon_inv w1" and st1: "static w1 = static w" by (simp_all add: keeps_def)
  have c1: "w_conf w1 = w_conf w" using static_mark [OF st1] by blast
  show ?thesis
  proof (cases "rc = -1")
    case True
    with u k1 show ?thesis
      by (intro exI [of _ w1]) (simp add: fw_refresh_client_list_def)
  next
    case False
    obtain w2 ts where w2: "refresh_loop e (client_get_first_client (w_clients w1)) w1 = Some w2" "keeps e k w1 w2"
      "length ts = length (clients (w_clients w1))" "set ts \<subseteq> range (e_time e)"
      "clients (w_clients w2) = survivors (w_conf w) (clients (w_clients w1)) ts"
      using sweep_keeps [OF i1, of e k] unfolding c1 by blast
    have "fw_refresh_client_list e w = Ok w2" using u(1) w2(1) False by (simp add: fw_refresh_client_list_def)
    moreover have "if rc = -1 then w2 = w1 else \<exists>ts. length ts = length (clients (w_clients w1)) \<and>
        set ts \<subseteq> range (e_time e) \<and> clients (w_clients w2) = survivors (w_conf w) (clients (w_clients w1)) ts"
      unfolding if_not_P [OF False] using w2(3-5) by blast
    ultimately show ?thesis using keeps_trans [OF k1 w2(2)] u by blast
  qed
qed

section \<open>The daemon as a state machine\<close>

text \<open>
  The operations that the web server and the timer run, and readings of the clock or of a file
  in between, each as one step. (\<open>Gateway\<close> cuts them where a thread gives up the mutex of
  the client list.)
\<close>

lemma tick_keeps:
  assumes "daemon_inv w"
  shows "keeps e k w (tick w)"
proof -
  have "ledger k (tick w) = ledger k w" by (rule ledger_same) simp_all
  with assms static_mark [of "tick w" w] show ?thesis by (simp add: keeps_def daemon_inv_def)
qed

inductive daemon_step :: "env \<Rightarrow> world \<Rightarrow> world \<Rightarrow> bool" for e :: env where
  contact: "http_nodogsplash_add_client e ip w = Ok (p, w') \<Longrightarrow> daemon_step e w w'"
| access: "auth_client_action e ip mac action w = Ok w' \<Longrightarrow> daemon_step e w w'"
| refresh: "fw_refresh_client_list e w = Ok w' \<Longrightarrow> daemon_step e w w'"
| idle: "daemon_step e w (tick w)"

inductive_cases daemon_stepE: "daemon_step e w w'"

inductive reachable :: "env \<Rightarrow> world \<Rightarrow> world \<Rightarrow> bool" for e :: env and w0 :: world where
  start: "reachable e w0 w0"
| step: "reachable e w0 w \<Longrightarrow> daemon_step e w w' \<Longrightarrow> reachable e w0 w'"

lemma step_keeps:
  assumes "daemon_step e w w'" "daemon_inv w" "w_MARK_AUTHENTICATED w \<noteq> 0"
  shows "keeps e k w w'"
  using assms(1)
proof cases
  case (contact ip p)
  with add_client_keeps [OF assms(2,3), of e ip k] show ?thesis by auto
next
  case (access ip mac action)
  with auth_client_action_keeps [OF assms(2), of e ip mac action k] show ?thesis by auto
next
  case refresh
  with refresh_keeps [OF assms(2), of e k] show ?thesis by auto
next
  case idle
  then show ?thesis using assms(2) by (simp add: tick_keeps)
qed

interpretation daemon: kept_steps "daemon_step e" "\<lambda>w. daemon_inv w \<and> w_MARK_AUTHENTICATED w \<noteq> 0" "keeps e k" for e k
proof (unfold_locales, goal_cases)
  case (3 w w')
  then show ?case using static_mark [of w' w] by (simp add: keeps_def)
qed (blast intro: keeps_refl keeps_trans step_keeps)+

lemma reachable_run: "reachable e w0 w \<Longrightarrow> (daemon_step e)\<^sup>*\<^sup>* w0 w"
  by (induction rule: reachable.induct) auto

lemma reachable_keeps:
  "reachable e w0 w \<Longrightarrow> daemon_inv w0 \<Longrightarrow> w_MARK_AUTHENTICATED w0 \<noteq> 0 \<Longrightarrow> keeps e k w0 w"
  by (blast intro: daemon.run_kept reachable_run)

section \<open>Reading back the ARP table\<close>

text \<open>An entry of the ARP table as the kernel prints it.\<close>

definition arp_entry :: "string \<Rightarrow> string \<Rightarrow> string" where
  "arp_entry ip mac = ip @ ''  0x1  0x2  '' @ mac @ ''  *  br0'' @ [nl]"

definition arp_word :: "nat \<Rightarrow> (char \<Rightarrow> bool) \<Rightarrow> string \<Rightarrow> bool" where
  "arp_word n P s \<longleftrightarrow> s \<noteq> [] \<and> length s \<le> n \<and> list_all P s"

lemma class_no_space: "ipchar c \<Longrightarrow> \<not> isspace c" "macchar c \<Longrightarrow> \<not> isspace c"
  by (auto simp: ipchar_def macchar_def isdigit_def isxdigit_def isspace_def)
     (auto simp: cc_def)

lemma scanf_word:
  assumes "arp_word n P s" "\<not> P c" "\<And>c. P c \<Longrightarrow> \<not> isspace c"
  shows "scanf (SWs # SSet n P # ds) (s @ c # r) = apfst (\<lambda>vs. VStr s # vs) (scanf ds (c # r))"
proof -
  have s: "skip_ws (s @ c # r) = s @ c # r"
    using assms by (cases s) (auto simp: arp_word_def skip_ws_def)
  have "takeWhile P (take n (s @ c # r)) = s"
    using assms(1,2) by (auto simp: arp_word_def list_all_iff take_Cons' takeWhile_tail)
  with s assms(1) show ?thesis by (simp add: scanf.simps Let_def arp_word_def)
qed

lemma scanf_arp_entry:
  assumes "arp_word 15 ipchar ip" "arp_word 17 macchar mac"
  shows "scanf arp_format (arp_entry ip mac @ s) = ([VStr ip, VStr mac], nl # s, False)"
proof -
  have sp: "\<not> ipchar (CHR '' '')" "\<not> macchar (CHR '' '')"
    by (simp_all add: ipchar_def macchar_def isdigit_def isxdigit_def cc_def)
  have t: "scanf [SWs, SSkip, SWs, SSkip] (''  *  br0'' @ nl # s) = ([], nl # s, False)"
    by (simp add: scanf.simps Let_def skip_ws_def isspace_def cc_def nl_def)
  have m: "scanf (SWs # SSet 17 macchar # [SWs, SSkip, SWs, SSkip]) (mac @ ''  *  br0'' @ nl # s) =
      ([VStr mac], nl # s, False)"
    using scanf_word [OF assms(2) sp(2) class_no_space(2), of "[SWs, SSkip, SWs, SSkip]" "'' *  br0'' @ nl # s"] t
    by simp
  have "skip_ws (mac @ x) = mac @ x" for x
    using assms(2) class_no_space(2) by (cases mac) (auto simp: arp_word_def skip_ws_def)
  then have "scanf (SWs # SSkip # SWs # SSkip # SWs # SSet 17 macchar # [SWs, SSkip, SWs, SSkip])
      (''  0x1  0x2  '' @ mac @ ''  *  br0'' @ nl # s) = ([VStr mac], nl # s, False)"
    using m by (simp add: scanf.simps(2,4) Let_def skip_ws_def isspace_def cc_def)
  with scanf_word [OF assms(1) sp(1) class_no_space(1),
      of "SWs # SSkip # SWs # SSkip # SWs # SSet 17 macchar # [SWs, SSkip, SWs, SSkip]"
         "'' 0x1  0x2  '' @ mac @ ''  *  br0'' @ nl # s"]
  show ?thesis by (simp add: arp_format_def arp_entry_def)
qed

text \<open>The scan leaves the newline behind; the next one skips it.\<close>

lemma arp_lines_nl: "arp_lines ip (nl # s) = arp_lines ip s"
proof -
  have "scanf arp_format (nl # s) = scanf arp_format s"
    by (simp add: arp_format_def scanf.simps(2) skip_ws_def nl_def isspace_def cc_def)
  then show ?thesis by (simp add: arp_lines.simps [of ip "nl # s"] arp_lines.simps [of ip s])
qed

lemma arp_lines_table:
  "\<forall>(i, m) \<in> set es. arp_word 15 ipchar i \<and> arp_word 17 macchar m \<Longrightarrow>
   arp_lines ip (concat (map (\<lambda>(i, m). arp_entry i m) es)) = map_of es ip"
proof (induction es)
  case Nil
  then show ?case by (simp add: arp_lines.simps arp_format_def scanf.simps skip_ws_def)
next
  case (Cons x es)
  obtain i m where x: "x = (i, m)" by (cases x)
  with Cons show ?case
    by (subst arp_lines.simps) (simp add: scanf_arp_entry arp_lines_nl)
qed

text \<open>Looking an address up in the whole table.\<close>

lemma arp_get_table:
  assumes "e_arp e (w_clock w) = Some (heading @ [nl] @ concat (map (\<lambda>(i, m). arp_entry i m) es))"
    and "nl \<notin> set heading" "\<forall>(i, m) \<in> set es. arp_word 15 ipchar i \<and> arp_word 17 macchar m"
  shows "arp_get e ip w = (map_of es ip, tick w)"
proof -
  have "dropWhile (\<lambda>c. c \<noteq> nl) (heading @ nl # s) = nl # s" for s
    using assms(2) by (induction heading) auto
  then have "fst (skip_line (heading @ [nl] @ s)) = s" for s by (simp add: skip_line_def)
  then show ?thesis using assms(1) arp_lines_table [OF assms(3)] by (simp add: arp_get_def)
qed

section \<open>Properties\<close>

text \<open>
  C11. In every state the daemon reaches by first contacts, authentications,
  deauthentications and refreshes in any order, whatever iptables, the ARP cache and the
  clock answer, the client list is well formed and within its capacity, no client is on it
  twice, every client has a token and is preauthenticated or authenticated, the
  configuration and the marks are the ones at start, and none of the operations touches
  freed memory, exits or fails to return.
\<close>

theorem reachable_safe:
  assumes "reachable e w0 w" "daemon_inv w0" "w_MARK_AUTHENTICATED w0 \<noteq> 0"
  shows "clist_inv (w_clients w) \<and> int (length (clients (w_clients w))) \<le> max 0 (cf_maxclients (w_conf w)) \<and>
    distinct (map (\<lambda>c. (c_ip c, c_mac c)) (clients (w_clients w))) \<and>
    list_all (client_ok (w_MARK_AUTHENTICATED w)) (clients (w_clients w)) \<and> static w = static w0 \<and>
    is_ok (http_nodogsplash_add_client e ip w) \<and> is_ok (auth_client_action e ip mac action w) \<and>
    is_ok (fw_refresh_client_list e w)"
proof -
  have k: "static w = static w0" "daemon_inv w"
    using reachable_keeps [OF assms, of "\<lambda>_. 0"] by (simp_all add: keeps_def)
  have m: "w_MARK_AUTHENTICATED w \<noteq> 0" using assms(3) static_mark [OF k(1)] by simp
  have "length (clients (w_clients w)) \<le> length (cl_arr (w_clients w))"
    using k(2) reg.size_ok by (simp add: daemon_inv_def)
  moreover have "nat (cf_maxclients (w_conf w)) = length (cl_arr (w_clients w))" using k(2) by (simp add: daemon_inv_def)
  ultimately have "int (length (clients (w_clients w))) \<le> max 0 (cf_maxclients (w_conf w))" by linarith
  moreover have "is_ok (http_nodogsplash_add_client e ip w)" using add_client_keeps [OF k(2) m, of e ip "\<lambda>_. 0"] unfolding is_ok_iff by blast
  moreover have "is_ok (auth_client_action e ip mac action w)"
    using auth_client_action_keeps [OF k(2), of e ip mac action "\<lambda>_. 0"] unfolding is_ok_iff by blast
  moreover have "is_ok (fw_refresh_client_list e w)" using refresh_keeps [OF k(2), of e "\<lambda>_. 0"] unfolding is_ok_iff by blast
  ultimately show ?thesis using k by (simp add: daemon_inv_def)
qed

text \<open>The sample client on a list of two, before anything happened.\<close>

definition sample_daemon :: world where
  "sample_daemon = sample_world\<lparr>w_conf := config_defaults\<lparr>cf_maxclients := 2\<rparr>\<rparr>"

lemma sample_daemon_inv:
  "daemon_inv sample_daemon" "w_MARK_AUTHENTICATED sample_daemon = 0x400" "w_log sample_daemon = []"
  "clients (w_clients sample_daemon) = [sample_client]" "w_markop sample_daemon = ''--or-mark''"
  by (simp_all add: sample_daemon_def sample_world_def daemon_inv_def client_ok_def sample_client_def new_client_def)

lemma sample_authenticated:
  "\<exists>w. auth_client_action good_env ''10.0.0.2'' ''00:1a:22:33:44:5f'' AUTH_MAKE_AUTHENTICATED sample_daemon = Ok w \<and>
     reachable good_env sample_daemon w \<and> daemon_inv w \<and>
     clients (w_clients w) = [sample_client\<lparr>c_fw_connection_state := 0x400\<rparr>]"
proof -
  obtain w where w: "auth_client_action good_env ''10.0.0.2'' ''00:1a:22:33:44:5f'' AUTH_MAKE_AUTHENTICATED sample_daemon = Ok w"
    "keeps good_env (\<lambda>_. 0) sample_daemon w" "clients (w_clients w) = [sample_client\<lparr>c_fw_connection_state := 0x400\<rparr>]"
    using auth_client_action_keeps [OF sample_daemon_inv(1), of good_env "''10.0.0.2''" "''00:1a:22:33:44:5f''"
        AUTH_MAKE_AUTHENTICATED "\<lambda>_. 0"]
    by (auto simp: sample_daemon_inv sample_client_def new_client_def)
  then have "reachable good_env sample_daemon w"
    by (intro reachable.step [OF reachable.start]) (rule daemon_step.access)
  with w show ?thesis by (auto simp: keeps_def)
qed

lemma reachable_safe_witness:
  "\<exists>w. reachable good_env sample_daemon w \<and> list_all (client_ok 0x400) (clients (w_clients w)) \<and>
     is_ok (fw_refresh_client_list good_env w)"
proof -
  obtain w where r: "reachable good_env sample_daemon w" using sample_authenticated by blast
  have "static w = static sample_daemon"
    using reachable_safe [OF r sample_daemon_inv(1)] sample_daemon_inv(2) by simp
  with reachable_safe [OF r sample_daemon_inv(1)] r show ?thesis
    using static_mark [of w sample_daemon] by (auto simp: sample_daemon_inv)
qed

text \<open>The rules due: those of the authenticated clients on the list.\<close>

definition rules_due :: "world \<Rightarrow> string \<Rightarrow> int" where
  "rules_due w b =
     (\<Sum>c \<leftarrow> filter (\<lambda>c. c_fw_connection_state c = w_MARK_AUTHENTICATED w) (clients (w_clients w)).
        int (count_list (client_bodies w c) b))"

lemma expected_due: "expected w b = rules_due w b"
proof -
  have "(\<Sum>c \<leftarrow> cs. rules_of w c b) =
      (\<Sum>c \<leftarrow> filter (\<lambda>c. c_fw_connection_state c = w_MARK_AUTHENTICATED w) cs. int (count_list (client_bodies w c) b))" for cs
    by (induction cs) (auto simp: rules_of_def)
  then show ?thesis by (simp add: expected_def rules_due_def)
qed

text \<open>
  C12. As long as every command of iptables works, in every reachable state the mangle rules
  put in place since the start are those of the authenticated clients on the list, each as
  often as the client has it: no client that was deauthenticated, timed out or forced out
  keeps a rule, and no authenticated client lacks one.
\<close>

theorem reachable_rules:
  assumes "reachable e w0 w" "daemon_inv w0" "w_MARK_AUTHENTICATED w0 \<noteq> 0" "works e"
  shows "net (w_log w) b - rules_due w b = net (w_log w0) b - rules_due w0 b"
proof -
  have "ledger (\<lambda>b. net (w_log w0) b - expected w0 b) w0" by (simp add: ledger_def)
  then have "ledger (\<lambda>b. net (w_log w0) b - expected w0 b) w"
    using reachable_keeps [OF assms(1-3), of "\<lambda>b. net (w_log w0) b - expected w0 b"] assms(4) by (simp add: keeps_def)
  then show ?thesis by (simp add: ledger_def expected_due)
qed

lemma reachable_rules_witness:
  "\<exists>w. reachable good_env sample_daemon w \<and> net (w_log w) ''ndsINC -d 10.0.0.2 -j ACCEPT'' = 1"
proof -
  obtain w where w: "reachable good_env sample_daemon w"
      "clients (w_clients w) = [sample_client\<lparr>c_fw_connection_state := 0x400\<rparr>]"
    using sample_authenticated by blast
  have m: "w_MARK_AUTHENTICATED sample_daemon \<noteq> 0" by (simp add: sample_daemon_inv)
  have st: "static w = static sample_daemon"
    using reachable_keeps [OF w(1) sample_daemon_inv(1) m, of "\<lambda>_. 0"] by (simp add: keeps_def)
  have "rules_due w ''ndsINC -d 10.0.0.2 -j ACCEPT'' = 1"
    using st w(2) sample_daemon_inv(2,5)
    by (simp add: static_def rules_due_def client_bodies_def client_mark_def sample_client_def new_client_def)
  moreover have "rules_due sample_daemon b = 0" for b
    by (simp add: rules_due_def sample_daemon_inv sample_client_def new_client_def FW_MARK_PREAUTHENTICATED_def)
  moreover have "net [] b = 0" for b by (simp add: net_def effects_def)
  ultimately show ?thesis
    using reachable_rules [OF w(1) sample_daemon_inv(1) m works_good_env, of "''ndsINC -d 10.0.0.2 -j ACCEPT''"] w(1)
    by (intro exI [of _ w]) (simp add: sample_daemon_inv(3))
qed

text \<open>
  C17. One refresh: the counters are updated; when that fails nothing else happens, and
  otherwise each client is looked at once, at one reading of the clock, and stays exactly
  if by then it has been active within the timeout and connected within the limit. The
  survivors keep their order, their fields and their slots.
\<close>

theorem fw_refresh_client_list_spec:
  assumes "daemon_inv w"
  shows "\<exists>w' rc w1. fw_refresh_client_list e w = Ok w' \<and> iptables_fw_counters_update e w = Ok (rc, w1) \<and>
    counted w w1 \<and> daemon_inv w' \<and>
    (if rc = -1 then w' = w1
     else \<exists>ts. length ts = length (clients (w_clients w1)) \<and> set ts \<subseteq> range (e_time e) \<and>
       clients (w_clients w') = survivors (w_conf w) (clients (w_clients w1)) ts)"
  using refresh_keeps [OF assms, of e "\<lambda>_. 0", unfolded keeps_def] by blast

text \<open>Surroundings in which it is late.\<close>

definition late_env :: env where
  "late_env = list_env\<lparr>e_time := (\<lambda>n. 1000000)\<rparr>"

lemma fw_refresh_client_list_spec_witness:
  "\<exists>w'. fw_refresh_client_list late_env sample_daemon = Ok w' \<and> clients (w_clients w') = []"
proof -
  obtain w' rc w1 where r: "fw_refresh_client_list late_env sample_daemon = Ok w'"
    "iptables_fw_counters_update late_env sample_daemon = Ok (rc, w1)" "counted sample_daemon w1"
    "if rc = -1 then w' = w1
     else \<exists>ts. length ts = length (clients (w_clients w1)) \<and> set ts \<subseteq> range (e_time late_env) \<and>
       clients (w_clients w') = survivors (w_conf sample_daemon) (clients (w_clients w1)) ts"
    using fw_refresh_client_list_spec [OF sample_daemon_inv(1), of late_env] by blast
  have "rc \<noteq> -1"
    using counters_update_cases [of sample_daemon late_env] r(2) sample_daemon_inv(1)
    by (auto simp: daemon_inv_def late_env_def list_env_def)
  moreover obtain c where "clients (w_clients w1) = [c]" "grown sample_client c"
    using r(3) by (auto simp: counted_def sample_daemon_inv list_all2_Cons1)
  moreover have "expired (w_conf sample_daemon) 1000000 c" if "grown sample_client c"
    using grown_fields(6) [OF that]
    by (simp add: expired_def sample_daemon_def config_defaults_def sample_client_def new_client_def s32_def)
  ultimately obtain ts where "length ts = 1" "set ts \<subseteq> {1000000}"
      "clients (w_clients w') = survivors (w_conf sample_daemon) [c] ts" "expired (w_conf sample_daemon) 1000000 c"
    using r(4) by (auto simp: late_env_def)
  then have "clients (w_clients w') = []" by (auto simp: length_Suc_conv expired_def)
  with r(1) show ?thesis by blast
qed

text \<open>
  C18. \<^verbatim>\<open>auth_client_action\<close> on every branch: a pair of addresses that is not on the list
  changes nothing; authenticating a client sets its state, counts one authentication and
  leaves the others alone, and on an authenticated client it does nothing at all;
  deauthenticating takes exactly that client off the list.
\<close>

theorem auth_client_action_spec:
  assumes "daemon_inv w"
  shows "\<exists>w'. auth_client_action e ip mac act w = Ok w' \<and> daemon_inv w' \<and> static w' = static w \<and>
    (case List.find (\<lambda>c. ckey c = (ip, mac)) (clients (w_clients w)) of
       None \<Rightarrow> w' = w
     | Some c \<Rightarrow> (case act of
         AUTH_MAKE_AUTHENTICATED \<Rightarrow>
           clients (w_clients w') = update_first (\<lambda>x. ckey x = (ip, mac))
             (\<lambda>c. c\<lparr>c_fw_connection_state := w_MARK_AUTHENTICATED w\<rparr>) (clients (w_clients w)) \<and>
           w_authenticated_since_start w' = w_authenticated_since_start w +
             (if c_fw_connection_state c = w_MARK_AUTHENTICATED w then 0 else 1) \<and>
           (c_fw_connection_state c = w_MARK_AUTHENTICATED w \<longrightarrow> w' = w)
       | AUTH_MAKE_DEAUTHENTICATED \<Rightarrow>
           clients (w_clients w') = filter (\<lambda>x. ckey x \<noteq> (ip, mac)) (clients (w_clients w))))"
  using auth_client_action_keeps [OF assms, of e ip mac act "\<lambda>_. 0", unfolded keeps_def] by blast

lemma auth_client_action_spec_witness:
  "\<exists>w. auth_client_action good_env ''10.0.0.2'' ''00:1a:22:33:44:5f'' AUTH_MAKE_DEAUTHENTICATED sample_daemon = Ok w \<and>
     clients (w_clients w) = []"
  using auth_client_action_spec [OF sample_daemon_inv(1), of good_env "''10.0.0.2''" "''00:1a:22:33:44:5f''"
      AUTH_MAKE_DEAUTHENTICATED]
  by (auto simp: sample_daemon_inv sample_client_def new_client_def)

text \<open>
  Reading the ARP table back: under a heading line and any number of entries, the lookup
  gives the MAC address of the first entry with the address asked for, and nothing when there
  is none. It changes nothing but the clock.
\<close>

theorem arp_get_roundtrip:
  assumes "e_arp e (w_clock w) = Some (heading @ [nl] @ concat (map (\<lambda>(i, m). arp_entry i m) es))"
    and "nl \<notin> set heading" "\<forall>(i, m) \<in> set es. arp_word 15 ipchar i \<and> arp_word 17 macchar m"
  shows "arp_get e ip w = (map_of es ip, tick w)"
  by (rule arp_get_table [OF assms])

definition arp_env :: env where
  "arp_env = good_env\<lparr>e_arp := (\<lambda>n. Some (''IP address'' @ [nl] @
     concat (map (\<lambda>(i, m). arp_entry i m) [(''10.0.0.2'', ''00:1a''), (''10.0.0.3'', ''00:1b'')])))\<rparr>"

lemma arp_get_roundtrip_witness: "arp_get arp_env ''10.0.0.3'' sample_world = (Some ''00:1b'', tick sample_world)"
proof -
  have w: "\<forall>(i, m) \<in> set [(''10.0.0.2'', ''00:1a''), (''10.0.0.3'', ''00:1b'')].
      arp_word 15 ipchar i \<and> arp_word 17 macchar m"
    by (simp add: arp_word_def ipchar_def macchar_def isdigit_def isxdigit_def cc_def)
  show ?thesis
    using arp_get_roundtrip [OF _ _ w, of arp_env sample_world "''IP address''" "''10.0.0.3''"]
    by (simp add: arp_env_def nl_def)
qed

end
