(* ===== verification/Status.thy ===== *)
theory Status
  imports Access
begin

text \<open>
  The two reports of \<^verbatim>\<open>src/util.c\<close>: the status page and the machine-readable list of
  clients, written piece by piece into a buffer of \<^verbatim>\<open>STATUS_BUF_SIZ\<close> bytes, and the
  printing of durations. The version string, the printing of averages (\<^verbatim>\<open>%.6g\<close> of a
  quotient of doubles) and of dates (\<^verbatim>\<open>ctime_r\<close>) are parameters.
\<close>

section \<open>Durations\<close>

text \<open>
  The seconds are \<^verbatim>\<open>unsigned long\<close>, the four numbers and the products taken off
  are \<^verbatim>\<open>unsigned int\<close>.
\<close>

definition format_time :: "64 word \<Rightarrow> string" where
  "format_time secs =
     (let days = ucast (secs div 86400) :: 32 word; s1 = secs - ucast (days * 86400);
          hours = ucast (s1 div 3600) :: 32 word; s2 = s1 - ucast (hours * 3600);
          minutes = ucast (s2 div 60) :: 32 word; s3 = s2 - ucast (minutes * 60);
          seconds = ucast s3 :: 32 word
      in udec (unat days) @ ''d '' @ udec (unat hours) @ ''h '' @ udec (unat minutes) @ ''m '' @
         udec (unat seconds) @ ''s'')"

section \<open>The buffer\<close>

definition STATUS_BUF_SIZ :: nat where
  "STATUS_BUF_SIZ = 16384"

text \<open>\<^verbatim>\<open>snprintf(buffer + len, sizeof(buffer) - len, ...)\<close> with \<^verbatim>\<open>len\<close> the text so far.\<close>

definition app :: "string \<Rightarrow> string \<Rightarrow> string" where
  "app buf s = buf @ snprintf_s (STATUS_BUF_SIZ - length buf) s"

record status_env =
  s_version :: string
  s_started_time :: int
  s_created_httpd_threads :: int
  s_current_httpd_threads :: int
  s_avg :: "64 word \<Rightarrow> 64 word \<Rightarrow> string"
  s_ctime :: "int \<Rightarrow> string"

definition line :: "string \<Rightarrow> string" where
  "line s = s @ [nl]"

definition str_opt :: "string option \<Rightarrow> string" where
  "str_opt s = (case s of None \<Rightarrow> ''(null)'' | Some t \<Rightarrow> t)"

definition get_uptime_string :: "status_env \<Rightarrow> env \<Rightarrow> world \<Rightarrow> string \<times> world" where
  "get_uptime_string v e w = (case time_now e w of (now, w1) \<Rightarrow> (format_time (word_of_int (now - s_started_time v)), w1))"

section \<open>The status page\<close>

definition status_head :: "status_env \<Rightarrow> int \<Rightarrow> s_config \<Rightarrow> string list" where
  "status_head v now c =
     [line ''=================='' @ line ''NoDogSplash Status'' @ line ''===='',
      ''Version: '' @ line (s_version v),
      ''Uptime: '' @ line (format_time (word_of_int (now - s_started_time v))),
      ''Gateway Name: '' @ line (cf_gw_name c),
      ''Managed interface: '' @ line (str_opt (cf_gw_interface c)),
      ''Managed IP range: '' @ line (cf_gw_iprange c),
      ''Server listening: '' @ str_opt (cf_gw_address c) @ '':'' @ line (fmt_d (sint (cf_gw_port c)))] @
     (if cf_authenticate_immediately c \<noteq> 0 then [line ''Authenticate immediately: yes'']
      else [''Splashpage: '' @ cf_webroot c @ ''/'' @ line (cf_splashpage c)]) @
     (case cf_redirectURL c of None \<Rightarrow> [] | Some u \<Rightarrow> [''Redirect URL: '' @ line u]) @
     (if cf_passwordauth c \<noteq> 0 then [''Gateway password: '' @ line (str_opt (cf_password c))] else []) @
     (if cf_usernameauth c \<noteq> 0 then [''Gateway username: '' @ line (str_opt (cf_username c))] else []) @
     [''Traffic control: '' @ line (if cf_traffic_control c \<noteq> 0 then ''yes'' else ''no'')] @
     (if cf_traffic_control c \<noteq> 0 then
        [if cf_download_limit c > 0 then ''Download rate limit: '' @ fmt_d (cf_download_limit c) @ line '' kbit/s''
         else line ''Download rate limit: none'',
         if cf_upload_limit c > 0 then ''Upload rate limit: '' @ fmt_d (cf_upload_limit c) @ line '' kbit/s''
         else line ''Upload rate limit: none'']
      else [])"

definition udiv1000 :: "64 word \<Rightarrow> string" where
  "udiv1000 n = udec (unat n div 1000)"

definition status_totals :: "status_env \<Rightarrow> 64 word \<Rightarrow> 64 word \<Rightarrow> 64 word \<Rightarrow> world \<Rightarrow> string list" where
  "status_totals v uptime down up w =
     [''Total download: '' @ udiv1000 down @ '' kByte'', ''; avg: '' @ s_avg v down uptime @ line '' kbit/s'',
      ''Total upload: '' @ udiv1000 up @ '' kByte'', ''; avg: '' @ s_avg v up uptime @ line '' kbit/s'',
      line ''===='',
      ''Client authentications since start: '' @ line (udec (unat (w_authenticated_since_start w))),
      ''Httpd request threads created/current: '' @ fmt_d (s_created_httpd_threads v) @ ''/'' @
        line (fmt_d (s_current_httpd_threads v))] @
     (if cf_decongest_httpd_threads (w_conf w) \<noteq> 0 then
        [''Httpd thread decongest threshold: '' @ fmt_d (cf_httpd_thread_threshold (w_conf w)) @ line '' threads'',
         ''Httpd thread decongest delay: '' @ fmt_d (cf_httpd_thread_delay_ms (w_conf w)) @ line '' ms'']
      else [])"

definition status_client :: "status_env \<Rightarrow> int \<Rightarrow> world \<Rightarrow> nat \<Rightarrow> t_client \<Rightarrow> string list" where
  "status_client v now w indx c =
     (let dur = word_of_int (now - c_added_time c) :: 64 word in
      [''Client '' @ line (udec indx),
       ''  IP: '' @ c_ip c @ '' MAC: '' @ line (c_mac c),
       ''  Added:   '' @ s_ctime v (c_added_time c),
       ''  Active:  '' @ s_ctime v (c_last_updated c),
       ''  Active duration: '' @ line (format_time (word_of_int (c_last_updated c - c_added_time c))),
       ''  Added duration:  '' @ line (format_time dur),
       ''  Token: '' @ line (case c_token c of None \<Rightarrow> ''none'' | Some t \<Rightarrow> t),
       ''  State: '' @ line (fw_connection_state_as_string w (c_fw_connection_state c)),
       ''  Download: '' @ udiv1000 (c_incoming c) @ '' kByte; avg: '' @ s_avg v (c_incoming c) dur @ line '' kbit/s'' @
       ''  Upload:   '' @ udiv1000 (c_outgoing c) @ '' kByte; avg: '' @ s_avg v (c_outgoing c) dur @
         line (line '' kbit/s'')])"

text \<open>The loop over the list, by its pointers.\<close>

partial_function (option) client_loop ::
    "(nat \<Rightarrow> t_client \<Rightarrow> string list) \<Rightarrow> heap \<Rightarrow> nat \<Rightarrow> addr option \<Rightarrow> string \<Rightarrow> string option" where
  "client_loop pieces h indx p buf =
     (case p of
        None \<Rightarrow> Some buf
      | Some a \<Rightarrow> (case hget h a of
          None \<Rightarrow> None
        | Some c \<Rightarrow> client_loop pieces h (Suc indx) (c_next c) (foldl app buf (pieces indx c))))"

definition mac_lines :: "string list \<Rightarrow> string list" where
  "mac_lines l = (if l = [] then [line '' none''] else line [] # map (\<lambda>m. ''  '' @ line m) l)"

definition status_macs :: "s_config \<Rightarrow> string list" where
  "status_macs c =
     [line ''===='', ''Blocked MAC addresses:''] @
     (if cf_macmechanism c = MAC_ALLOW then [line '' N/A''] else mac_lines (cf_blockedmaclist c)) @
     [''Allowed MAC addresses:''] @
     (if cf_macmechanism c = MAC_BLOCK then [line '' N/A''] else mac_lines (cf_allowedmaclist c)) @
     [''Trusted MAC addresses:''] @ mac_lines (cf_trustedmaclist c) @ [line ''========'']"

definition client_count :: "string \<Rightarrow> world \<Rightarrow> string list" where
  "client_count label w = (label @ line (fmt_d (get_client_list_length (w_clients w)))) #
     (if client_get_first_client (w_clients w) \<noteq> None then [line []] else [])"

definition get_status_text :: "status_env \<Rightarrow> env \<Rightarrow> world \<Rightarrow> (string \<times> world) result" where
  "get_status_text v e w =
     (case time_now e w of (now, w1) \<Rightarrow>
      case iptables_fw_total_download e w1 of (down, w2) \<Rightarrow>
      case iptables_fw_total_upload e w2 of (up, w3) \<Rightarrow>
        let uptime = word_of_int (now - s_started_time v) in
        rbind (iptables_fw_counters_update e w3) (\<lambda>(rc, w4).
          rbind (of_opt (client_loop (status_client v now w4) (cl_heap (w_clients w4)) 0
              (client_get_first_client (w_clients w4))
              (foldl app [] (status_head v now (w_conf w) @ status_totals v uptime down up w3 @
                 client_count ''Current clients: '' w4))))
            (\<lambda>buf. Ok (foldl app buf (status_macs (w_conf w4)), w4))))"

section \<open>The list of clients\<close>

definition clients_entry :: "status_env \<Rightarrow> int \<Rightarrow> world \<Rightarrow> nat \<Rightarrow> t_client \<Rightarrow> string list" where
  "clients_entry v now w indx c =
     (let dur = word_of_int (now - c_added_time c) :: 64 word in
      [''client_id='' @ line (udec indx),
       ''ip='' @ line (c_ip c) @ ''mac='' @ line (c_mac c),
       ''added='' @ line (fmt_d (c_added_time c)),
       ''active='' @ line (fmt_d (c_last_updated c)),
       ''duration='' @ line (udec (unat dur)),
       ''token='' @ line (case c_token c of None \<Rightarrow> ''none'' | Some t \<Rightarrow> t),
       ''state='' @ line (fw_connection_state_as_string w (c_fw_connection_state c)),
       ''downloaded='' @ line (udiv1000 (c_incoming c)) @ ''avg_down_speed='' @ line (s_avg v (c_incoming c) dur) @
       ''uploaded='' @ line (udiv1000 (c_outgoing c)) @ ''avg_up_speed='' @ line (line (s_avg v (c_outgoing c) dur))])"

definition get_clients_text :: "status_env \<Rightarrow> env \<Rightarrow> world \<Rightarrow> (string \<times> world) result" where
  "get_clients_text v e w =
     (case time_now e w of (now, w1) \<Rightarrow>
        rbind (iptables_fw_counters_update e w1) (\<lambda>(rc, w2).
          rbind (of_opt (client_loop (clients_entry v now w2) (cl_heap (w_clients w2)) 0
              (client_get_first_client (w_clients w2)) (foldl app [] (client_count [] w2))))
            (\<lambda>buf. Ok (buf, w2))))"

section \<open>Lemmas\<close>

text \<open>What fits the buffer.\<close>

definition cut :: "string \<Rightarrow> string" where
  "cut t = take (STATUS_BUF_SIZ - 1) t"

lemma length_cut: "length (cut t) < STATUS_BUF_SIZ"
  by (simp add: cut_def STATUS_BUF_SIZ_def)

lemma cut_Nil [simp]: "cut [] = []"
  by (simp add: cut_def)

lemma app_take: "length buf < STATUS_BUF_SIZ \<Longrightarrow> app buf s = cut (buf @ s)"
  by (simp add: app_def snprintf_s_def cut_def)

lemma app_cut: "app (cut t) s = cut (t @ s)"
proof (cases "length t \<le> STATUS_BUF_SIZ - 1")
  case True
  then have "cut t = t" by (simp add: cut_def)
  with app_take [OF length_cut, of t s] show ?thesis by simp
next
  case False
  then have "length (cut t) = STATUS_BUF_SIZ - 1" by (simp add: cut_def)
  then have "cut (cut t @ s) = cut t" by (simp add: cut_def)
  with False show ?thesis unfolding app_take [OF length_cut] by (simp add: cut_def)
qed

text \<open>Writing the pieces one by one is writing them all and cutting off what does not fit.\<close>

lemma foldl_app: "foldl app (cut t) ps = cut (t @ concat ps)"
  by (induction ps arbitrary: t) (simp_all add: app_cut)

lemma foldl_app_Nil: "foldl app [] ps = cut (concat ps)"
  using foldl_app [of "[]" ps] by simp

fun listed :: "(nat \<Rightarrow> t_client \<Rightarrow> string list) \<Rightarrow> nat \<Rightarrow> t_client list \<Rightarrow> string" where
  "listed pieces i [] = []"
| "listed pieces i (c # cs) = concat (pieces i c) @ listed pieces (Suc i) cs"

lemma client_loop_path:
  "path h p as None \<Longrightarrow> (\<And>i c. pieces i (c\<lparr>c_next := None\<rparr>) = pieces i c) \<Longrightarrow>
   client_loop pieces h i p (cut t) = Some (cut (t @ listed pieces i (map (cell h) as)))"
proof (induction as arbitrary: p i t)
  case Nil
  then show ?case by (subst client_loop.simps) simp
next
  case (Cons a as)
  then obtain c where c: "p = Some a" "hget h a = Some c" "path h (c_next c) as None" by auto
  have "pieces i (cell h a) = pieces i c" using c Cons.prems(2) by (simp add: cell_def)
  with c Cons show ?case by (subst client_loop.simps) (simp add: foldl_app)
qed

lemma client_loop_clients:
  assumes "clist_inv s" "\<And>i c. pieces i (c\<lparr>c_next := None\<rparr>) = pieces i c"
  shows "client_loop pieces (cl_heap s) i (client_get_first_client s) (cut t) =
    Some (cut (t @ listed pieces i (clients s)))"
proof -
  from assms(1) obtain as where "cl_repr s as" "clients s = map (cell (cl_heap s)) as" by (rule clist_invE)
  then show ?thesis
    using client_loop_path [of "cl_heap s" "cl_first s" as pieces] assms(2)
    by (simp add: cl_repr_def client_get_first_client_def)
qed

lemma pieces_next:
  "status_client v now w i (c\<lparr>c_next := None\<rparr>) = status_client v now w i c"
  "clients_entry v now w i (c\<lparr>c_next := None\<rparr>) = clients_entry v now w i c"
  by (simp_all add: status_client_def clients_entry_def)

lemma totals_tick:
  "snd (iptables_fw_total_download e w) = tick w"
  "snd (iptables_fw_total_upload e w) = tick w"
  by (simp_all add: iptables_fw_total_download_def iptables_fw_total_upload_def popen_def)

lemma counted_conf:
  assumes "counted w w'"
  shows "w_conf w' = w_conf w"
proof -
  from assms have "w' = w\<lparr>w_clients := w_clients w', w_clock := w_clock w'\<rparr>" by (simp add: counted_def)
  then have "w_conf w' = w_conf (w\<lparr>w_clients := w_clients w', w_clock := w_clock w'\<rparr>)" by (rule arg_cong)
  then show ?thesis by simp
qed

lemma client_count_clients:
  assumes "clist_inv (w_clients w)"
  shows "client_count label w = (label @ line (fmt_d (int (length (clients (w_clients w)))))) #
    (if clients (w_clients w) = [] then [] else [line []])"
proof -
  from assms obtain as where r: "cl_repr (w_clients w) as"
    "clients (w_clients w) = map (cell (cl_heap (w_clients w))) as" by (rule clist_invE)
  then have "client_get_first_client (w_clients w) = None \<longleftrightarrow> as = []"
    by (cases as) (auto simp: cl_repr_def client_get_first_client_def)
  with r show ?thesis by (simp add: client_count_def cl_repr_def get_client_list_length_def)
qed

definition sample_status :: status_env where
  "sample_status = \<lparr>s_version = ''1.0'', s_started_time = 0, s_created_httpd_threads = 3, s_current_httpd_threads = 1,
     s_avg = (\<lambda>bytes secs. ''0''), s_ctime = (\<lambda>t. line ''Thu Jan  1 00:00:00 1970'')\<rparr>"

lemma sample_world_inv: "clist_inv (w_clients sample_world)"
  by (simp add: sample_world_def)

section \<open>Properties\<close>

lemma hms_sum: "s = d * 86400 + r \<Longrightarrow> r = h * 3600 + q \<Longrightarrow> q = m * 60 + x \<Longrightarrow>
    ((d * 24 + h) * 60 + m) * 60 + x = (s :: nat)"
  by simp

lemma hms: "(((s :: nat) div 86400 * 24 + s mod 86400 div 3600) * 60 + s mod 86400 mod 3600 div 60) * 60 +
    s mod 86400 mod 60 = s"
proof -
  have m: "s mod 86400 mod 60 = s mod 86400 mod 3600 mod 60" by (simp add: mod_mod_cancel)
  show ?thesis unfolding m by (rule hms_sum) (simp_all only: div_mult_mod_eq)
qed

lemma hms_bounds: "(s :: nat) mod 86400 div 3600 < 24" "s mod 86400 mod 3600 div 60 < 60"
  by (simp_all add: less_mult_imp_div_less)

text \<open>One round: the quotient fits 32 bits, and the rest is what it should be.\<close>

lemma take_off:
  assumes "unat secs < 2 ^ 32" "0 < k" "k < 2 ^ 32"
  shows "unat (ucast (secs div word_of_nat k :: 64 word) :: 32 word) = unat secs div k"
    "unat (secs - ucast ((ucast (secs div word_of_nat k) :: 32 word) * word_of_nat k)) = unat secs mod k"
proof -
  let ?q = "unat secs div k"
  have k: "unat (word_of_nat k :: 64 word) = k" "unat (word_of_nat k :: 32 word) = k"
    using assms(3) by (simp_all add: unat_of_nat)
  have q: "?q * k < 2 ^ 32" "?q < 2 ^ 32"
    using assms(1) by (meson div_times_less_eq_dividend le_less_trans, meson div_le_dividend le_less_trans)
  then show d: "unat (ucast (secs div word_of_nat k) :: 32 word) = ?q"
    by (simp add: unsigned_ucast_eq take_bit_eq_mod unat_div k)
  have "unat ((ucast (secs div word_of_nat k) :: 32 word) * word_of_nat k) = ?q * k"
    using q(1) by (simp add: unat_word_ariths d k)
  then have p: "unat (ucast ((ucast (secs div word_of_nat k) :: 32 word) * word_of_nat k) :: 64 word) = ?q * k"
    using q(1) by (simp add: unsigned_ucast_eq take_bit_eq_mod)
  then show "unat (secs - ucast ((ucast (secs div word_of_nat k) :: 32 word) * word_of_nat k)) = unat secs mod k"
    by (simp add: unat_sub_if_size minus_div_mult_eq_mod)
qed

text \<open>The first round may go past 32 bits by less than a day.\<close>

lemma take_off_days:
  assumes "unat secs < 4295030400"
  shows "unat (ucast (secs div 86400 :: 64 word) :: 32 word) = unat secs div 86400"
    "unat (secs - ucast ((ucast (secs div 86400) :: 32 word) * 86400)) = unat secs mod 86400"
proof -
  let ?q = "unat secs div 86400"
  have q: "?q \<le> 49710" using assms by (simp add: less_mult_imp_div_less flip: less_Suc_eq_le)
  then show d: "unat (ucast (secs div 86400) :: 32 word) = ?q"
    by (simp add: unsigned_ucast_eq take_bit_eq_mod unat_div)
  have "unat ((ucast (secs div 86400) :: 32 word) * 86400) = ?q * 86400"
    using q by (simp add: unat_word_ariths d)
  then have p: "unat (ucast ((ucast (secs div 86400) :: 32 word) * 86400) :: 64 word) = ?q * 86400"
    using q by (simp add: unsigned_ucast_eq take_bit_eq_mod)
  then show "unat (secs - ucast ((ucast (secs div 86400) :: 32 word) * 86400)) = unat secs mod 86400"
    by (simp add: unat_sub_if_size minus_div_mult_eq_mod)
qed

text \<open>
  A duration of less than 49711 days is printed in four numbers that add up to it, with less
  than 24 hours, 60 minutes and 60 seconds. From there on the product of days and seconds wraps.
\<close>

lemma format_time_spec:
  assumes "unat secs < 4295030400"
  shows "\<exists>d h m s. format_time secs = udec d @ ''d '' @ udec h @ ''h '' @ udec m @ ''m '' @ udec s @ ''s'' \<and>
    h < 24 \<and> m < 60 \<and> s < 60 \<and> ((d * 24 + h) * 60 + m) * 60 + s = unat secs"
proof -
  let ?s = "unat secs"
  note d = take_off_days [OF assms]
  define s1 where "s1 = secs - ucast ((ucast (secs div 86400) :: 32 word) * 86400)"
  define s2 where "s2 = s1 - ucast ((ucast (s1 div 3600) :: 32 word) * 3600)"
  define s3 where "s3 = s2 - ucast ((ucast (s2 div 60) :: 32 word) * 60)"
  have u1: "unat s1 = ?s mod 86400" using d(2) by (simp add: s1_def)
  then have b1: "unat s1 < 2 ^ 32" by (simp add: order.strict_trans [of _ 86400])
  note h = take_off [OF b1, of 3600, simplified, folded s2_def]
  have b2: "unat s2 < 2 ^ 32" by (simp add: h(2) order.strict_trans [of _ 3600])
  note m = take_off [OF b2, of 60, simplified, folded s3_def]
  have b3: "unat s3 < 2 ^ 32" by (simp add: m(2) order.strict_trans [of _ 60])
  have s: "unat (ucast s3 :: 32 word) = unat s3" using b3 by (simp add: unsigned_ucast_eq take_bit_eq_mod)
  have "format_time secs = udec (?s div 86400) @ ''d '' @ udec (?s mod 86400 div 3600) @ ''h '' @
      udec (?s mod 86400 mod 3600 div 60) @ ''m '' @ udec (?s mod 86400 mod 3600 mod 60) @ ''s''"
    unfolding format_time_def Let_def s1_def [symmetric] s2_def [symmetric] s3_def [symmetric] d(1) h(1) m(1) s m(2) h(2) u1 ..
  moreover have "?s mod 86400 mod 3600 mod 60 = ?s mod 86400 mod 60" by (simp add: mod_mod_cancel)
  ultimately show ?thesis using hms [of ?s] hms_bounds [of ?s] by (metis mod_less_divisor zero_less_numeral)
qed

text \<open>From 49711 days on the hours show it.\<close>

lemma format_time_wraps: "format_time 4295030400 = ''49711d 1193046h 28m 16s''"
  by (simp add: format_time_def udec_step udec_small char_of_def bit_0)

lemma format_time_spec_witness:
  "\<exists>d h m s. format_time 90061 = udec d @ ''d '' @ udec h @ ''h '' @ udec m @ ''m '' @ udec s @ ''s'' \<and>
     h < 24 \<and> m < 60 \<and> s < 60 \<and> ((d * 24 + h) * 60 + m) * 60 + s = 90061"
  using format_time_spec [of 90061] by simp

lemma clients_text_result:
  assumes "clist_inv (w_clients w)"
  shows "\<exists>t rc w'. get_clients_text v e w = Ok (t, w') \<and> counted w w' \<and> length t < STATUS_BUF_SIZ \<and>
    iptables_fw_counters_update e (tick w) = Ok (rc, w') \<and>
    t = take (STATUS_BUF_SIZ - 1) (line (fmt_d (int (length (clients (w_clients w'))))) @
      (if clients (w_clients w') = [] then [] else line []) @
      listed (clients_entry v (e_time e (w_clock w)) w') 0 (clients (w_clients w')))"
proof -
  have "clist_inv (w_clients (tick w))" using assms by (simp add: tick_def)
  from counters_update_cases [OF this, of e] obtain rc w' where
    u: "iptables_fw_counters_update e (tick w) = Ok (rc, w')" "counted (tick w) w'"
    by blast
  then have inv: "clist_inv (w_clients w')" by (simp add: counted_def)
  let ?t = "concat (client_count [] w') @
    listed (clients_entry v (e_time e (w_clock w)) w') 0 (clients (w_clients w'))"
  have "get_clients_text v e w = Ok (cut ?t, w')"
    using client_loop_clients [OF inv, of "clients_entry v (e_time e (w_clock w)) w'"]
    by (simp add: get_clients_text_def time_now_def u pieces_next foldl_app_Nil)
  with counted_trans [OF counted_tick [OF assms] u(2)] show ?thesis
    using length_cut [of ?t] u(1) by (auto simp: client_count_clients [OF inv] cut_def)
qed

text \<open>
  C31. The machine-readable list always fits its buffer and is, up to that size, the number
  of clients, then one record per client in the order of the list, numbered from 0, as they
  are after the update of the counters that the report runs first. The state it leaves is
  the one this update leaves, with nothing changed but the counters.
\<close>

theorem get_clients_text_spec:
  assumes "clist_inv (w_clients w)"
  shows "\<exists>t rc w'. get_clients_text v e w = Ok (t, w') \<and> counted w w' \<and> length t < STATUS_BUF_SIZ \<and>
    iptables_fw_counters_update e (tick w) = Ok (rc, w') \<and>
    t = take (STATUS_BUF_SIZ - 1) (line (fmt_d (int (length (clients (w_clients w'))))) @
      (if clients (w_clients w') = [] then [] else line []) @
      listed (clients_entry v (e_time e (w_clock w)) w') 0 (clients (w_clients w')))"
  by (rule clients_text_result [OF assms])

lemma get_clients_text_spec_witness:
  "\<exists>t w'. get_clients_text sample_status list_env sample_world = Ok (t, w') \<and> counted sample_world w' \<and> length t < STATUS_BUF_SIZ"
  using get_clients_text_spec [of sample_world sample_status list_env] sample_world_inv by blast

lemma status_text_result:
  assumes "clist_inv (w_clients w)"
  shows "\<exists>t rc w' down up. get_status_text v e w = Ok (t, w') \<and> counted w w' \<and> length t < STATUS_BUF_SIZ \<and>
    iptables_fw_counters_update e (tick (tick (tick w))) = Ok (rc, w') \<and>
    down = fst (iptables_fw_total_download e (tick w)) \<and>
    up = fst (iptables_fw_total_upload e (tick (tick w))) \<and>
    t = take (STATUS_BUF_SIZ - 1) (concat (
      status_head v (e_time e (w_clock w)) (w_conf w) @
      status_totals v (word_of_int (e_time e (w_clock w) - s_started_time v)) down up w @
      [''Current clients: '' @ line (fmt_d (int (length (clients (w_clients w')))))] @
      (if clients (w_clients w') = [] then [] else [line []]) @
      [listed (status_client v (e_time e (w_clock w)) w') 0 (clients (w_clients w'))] @
      status_macs (w_conf w)))"
proof -
  have "clist_inv (w_clients (tick (tick (tick w))))" using assms by (simp add: tick_def)
  from counters_update_cases [OF this, of e] obtain rc w' where
    u: "iptables_fw_counters_update e (tick (tick (tick w))) = Ok (rc, w')" "counted (tick (tick (tick w))) w'"
    by blast
  then have inv: "clist_inv (w_clients w')" by (simp add: counted_def)
  have c: "counted w w'"
    using counted_trans [OF counted_tick [OF assms] counted_trans [OF counted_tick counted_trans [OF counted_tick u(2)]]]
      assms by (simp add: tick_def)
  then have conf: "w_conf w' = w_conf w" by (rule counted_conf)
  have "iptables_fw_total_download e (tick w) = (fst (iptables_fw_total_download e (tick w)), tick (tick w))"
    "iptables_fw_total_upload e (tick (tick w)) = (fst (iptables_fw_total_upload e (tick (tick w))), tick (tick (tick w)))"
    by (simp_all add: prod_eq_iff totals_tick)
  then obtain down up where d: "iptables_fw_total_download e (tick w) = (down, tick (tick w))"
    and up: "iptables_fw_total_upload e (tick (tick w)) = (up, tick (tick (tick w)))" by blast
  let ?now = "e_time e (w_clock w)"
  let ?h = "status_head v ?now (w_conf w) @ status_totals v (word_of_int (?now - s_started_time v)) down up w @
    client_count ''Current clients: '' w'"
  have tot: "status_totals v n x y (tick (tick (tick w))) = status_totals v n x y w" for n x y
    by (simp add: status_totals_def tick_def)
  let ?t = "(concat ?h @ listed (status_client v ?now w') 0 (clients (w_clients w'))) @ concat (status_macs (w_conf w))"
  have "client_loop (status_client v ?now w') (cl_heap (w_clients w')) 0
      (client_get_first_client (w_clients w')) (cut (concat ?h)) =
      Some (cut (concat ?h @ listed (status_client v ?now w') 0 (clients (w_clients w'))))"
    using client_loop_clients [OF inv, of "status_client v ?now w'"] pieces_next(1) by blast
  then have "get_status_text v e w = Ok (cut ?t, w')"
    unfolding get_status_text_def time_now_def prod.case d up u Let_def rbind.simps tot foldl_app_Nil
    by (simp only: of_opt.simps rbind.simps foldl_app conf)
  with c d up u(1) show ?thesis
    using length_cut [of ?t] by (auto simp: client_count_clients [OF inv] cut_def)
qed

lemma clients_text_counted:
  "clist_inv (w_clients w) \<Longrightarrow> \<exists>t w'. get_clients_text v e w = Ok (t, w') \<and> counted w w'"
  using clients_text_result by blast

lemma status_text_counted:
  "clist_inv (w_clients w) \<Longrightarrow> \<exists>t w'. get_status_text v e w = Ok (t, w') \<and> counted w w'"
  using status_text_result by blast

text \<open>
  C30. The status page always fits its buffer and is, up to that size, the settings, the
  totals of the two listings, the number of clients, one paragraph per client in the order
  of the list, and the three MAC lists. The counters are those of an update it runs after
  reading the totals, and it changes nothing else.
\<close>

theorem get_status_text_spec:
  assumes "clist_inv (w_clients w)"
  shows "\<exists>t rc w' down up. get_status_text v e w = Ok (t, w') \<and> counted w w' \<and> length t < STATUS_BUF_SIZ \<and>
    iptables_fw_counters_update e (tick (tick (tick w))) = Ok (rc, w') \<and>
    down = fst (iptables_fw_total_download e (tick w)) \<and>
    up = fst (iptables_fw_total_upload e (tick (tick w))) \<and>
    t = take (STATUS_BUF_SIZ - 1) (concat (
      status_head v (e_time e (w_clock w)) (w_conf w) @
      status_totals v (word_of_int (e_time e (w_clock w) - s_started_time v)) down up w @
      [''Current clients: '' @ line (fmt_d (int (length (clients (w_clients w')))))] @
      (if clients (w_clients w') = [] then [] else [line []]) @
      [listed (status_client v (e_time e (w_clock w)) w') 0 (clients (w_clients w'))] @
      status_macs (w_conf w)))"
  by (rule status_text_result [OF assms])

lemma get_status_text_spec_witness:
  "\<exists>t w'. get_status_text sample_status list_env sample_world = Ok (t, w') \<and> counted sample_world w' \<and> length t < STATUS_BUF_SIZ"
  using get_status_text_spec [of sample_world sample_status list_env] sample_world_inv by blast

end
