(* ===== verification/Ndsctl.thy ===== *)
theory Ndsctl
  imports Status
begin

text \<open>
  The daemon's side of the control socket (\<^verbatim>\<open>src/ndsctl_thread.c\<close>): a request is read from
  the connection byte by byte into a buffer of \<^verbatim>\<open>MAX_BUF\<close> bytes, the command is recognised
  by its first letters, and its handler runs and replies. The connection is a parameter:
  \<open>rd n k\<close> is what the \<open>n\<close>-th \<^verbatim>\<open>read\<close> of at most \<open>k\<close> bytes gives, \<open>None\<close> for an error and
  the empty string at the end of the stream.
\<close>

section \<open>Reading a request\<close>

definition eol :: "char \<Rightarrow> bool" where
  "eol c \<longleftrightarrow> c = CHR 0x0D \<or> c = CHR 0x0A"

definition end_line :: "char \<Rightarrow> char" where
  "end_line c = (if eol c then NUL else c)"

text \<open>The bytes \<open>s\<close> stored into the buffer from index \<open>i\<close> on.\<close>

definition store :: "nat \<Rightarrow> string \<Rightarrow> string \<Rightarrow> string" where
  "store i s buf = take i buf @ s @ drop (i + length s) buf"

text \<open>
  The loop of \<^verbatim>\<open>thread_ndsctl_handler\<close>. \<open>pos\<close> is \<^verbatim>\<open>read_bytes\<close>: an error of \<^verbatim>\<open>read\<close> adds
  \<open>-1\<close> to it, and compared with an unsigned size a negative value ends the loop.
\<close>

partial_function (option) read_request ::
    "(nat \<Rightarrow> nat \<Rightarrow> string option) \<Rightarrow> nat \<Rightarrow> int \<Rightarrow> bool \<Rightarrow> string \<Rightarrow> (string \<times> bool) option" where
  "read_request rd n pos fin buf =
     (if \<not> fin \<and> 0 \<le> pos \<and> pos < int (MAX_BUF - 1) then
        (case rd n (MAX_BUF - nat pos) of
           None \<Rightarrow> read_request rd (Suc n) (pos - 1) fin buf
         | Some s \<Rightarrow> read_request rd (Suc n) (pos + int (length s)) (list_ex eol s)
             (store (nat pos) (map end_line s) buf))
      else Some (buf, fin))"

text \<open>The C string at an offset of the buffer; without a terminator it runs past the end.\<close>

definition cstr :: "nat \<Rightarrow> string \<Rightarrow> string option" where
  "cstr i buf = (if NUL \<in> set (drop i buf) then Some (takeWhile (\<lambda>c. c \<noteq> NUL) (drop i buf)) else None)"

section \<open>The handlers\<close>

text \<open>
  A handler gives the reply written to the connection, the signal the process sends itself,
  and the state.
\<close>

type_synonym handled = "(string \<times> int option \<times> world) result"

definition SIGINT :: int where
  "SIGINT = 2"

definition ndsctl_status :: "status_env \<Rightarrow> env \<Rightarrow> world \<Rightarrow> handled" where
  "ndsctl_status v e w = rbind (get_status_text v e w) (\<lambda>(t, w'). Ok (t, None, w'))"

definition ndsctl_clients :: "status_env \<Rightarrow> env \<Rightarrow> world \<Rightarrow> handled" where
  "ndsctl_clients v e w = rbind (get_clients_text v e w) (\<lambda>(t, w'). Ok (t, None, w'))"

definition ndsctl_stop :: "world \<Rightarrow> handled" where
  "ndsctl_stop w = Ok ([], Some SIGINT, w)"

definition client_keys :: "addr \<Rightarrow> world \<Rightarrow> (string \<times> string) result" where
  "client_keys a w = of_opt (map_option ckey (hget (cl_heap (w_clients w)) a))"

definition ndsctl_auth :: "env \<Rightarrow> string \<Rightarrow> world \<Rightarrow> handled" where
  "ndsctl_auth e arg w =
     rbind (http_nodogsplash_add_client e arg w) (\<lambda>(client, w1).
       case client of
         None \<Rightarrow> Ok (''No'', None, w1)
       | Some a \<Rightarrow> rbind (client_keys a w1) (\<lambda>(ip, mac).
           rbind (auth_client_action e ip mac AUTH_MAKE_AUTHENTICATED w1) (\<lambda>w2. Ok (''Yes'', None, w2))))"

definition ndsctl_deauth :: "env \<Rightarrow> string \<Rightarrow> world \<Rightarrow> handled" where
  "ndsctl_deauth e arg w =
     rbind (client_list_find_by_ip arg (w_clients w)) (\<lambda>by_ip.
     rbind (if by_ip \<noteq> None then Ok by_ip else client_list_find_by_mac arg (w_clients w)) (\<lambda>client.
       case client of
         None \<Rightarrow> Ok (''No'', None, w)
       | Some a \<Rightarrow> rbind (client_keys a w) (\<lambda>(ip, mac).
           rbind (auth_client_action e ip mac AUTH_MAKE_DEAUTHENTICATED w) (\<lambda>w2. Ok (''Yes'', None, w2)))))"

text \<open>
  \<^verbatim>\<open>!update(arg) && !iptables(arg)\<close>: the rule is only touched when the list could be changed,
  and a failure of the rule leaves the list changed.
\<close>

definition mac_command ::
    "(string \<Rightarrow> s_config \<Rightarrow> int \<times> s_config) \<Rightarrow> (env \<Rightarrow> string \<Rightarrow> world \<Rightarrow> int \<times> world) \<Rightarrow>
     env \<Rightarrow> string \<Rightarrow> world \<Rightarrow> handled" where
  "mac_command update rule e arg w =
     (case update arg (w_conf w) of (r, c) \<Rightarrow>
        if r \<noteq> 0 then Ok (''No'', None, w\<lparr>w_conf := c\<rparr>)
        else case rule e arg (w\<lparr>w_conf := c\<rparr>) of (r2, w2) \<Rightarrow>
          Ok (if r2 = 0 then ''Yes'' else ''No'', None, w2))"

definition ndsctl_block :: "env \<Rightarrow> string \<Rightarrow> world \<Rightarrow> handled" where
  "ndsctl_block = mac_command add_to_blocked_mac_list iptables_block_mac"

definition ndsctl_unblock :: "env \<Rightarrow> string \<Rightarrow> world \<Rightarrow> handled" where
  "ndsctl_unblock = mac_command remove_from_blocked_mac_list iptables_unblock_mac"

definition ndsctl_allow :: "env \<Rightarrow> string \<Rightarrow> world \<Rightarrow> handled" where
  "ndsctl_allow = mac_command add_to_allowed_mac_list iptables_allow_mac"

definition ndsctl_unallow :: "env \<Rightarrow> string \<Rightarrow> world \<Rightarrow> handled" where
  "ndsctl_unallow = mac_command remove_from_allowed_mac_list iptables_unallow_mac"

definition ndsctl_trust :: "env \<Rightarrow> string \<Rightarrow> world \<Rightarrow> handled" where
  "ndsctl_trust = mac_command add_to_trusted_mac_list iptables_trust_mac"

definition ndsctl_untrust :: "env \<Rightarrow> string \<Rightarrow> world \<Rightarrow> handled" where
  "ndsctl_untrust = mac_command remove_from_trusted_mac_list iptables_untrust_mac"

definition set_command :: "(s_config \<Rightarrow> int \<times> s_config) \<Rightarrow> world \<Rightarrow> handled" where
  "set_command setter w = (case setter (w_conf w) of (r, c) \<Rightarrow>
     Ok (if r = 0 then ''Yes'' else ''No'', None, w\<lparr>w_conf := c\<rparr>))"

definition ndsctl_loglevel :: "string \<Rightarrow> world \<Rightarrow> handled" where
  "ndsctl_loglevel arg = set_command (set_log_level (atoi arg))"

definition ndsctl_password :: "string \<Rightarrow> world \<Rightarrow> handled" where
  "ndsctl_password arg = set_command (set_password (Some arg))"

definition ndsctl_username :: "string \<Rightarrow> world \<Rightarrow> handled" where
  "ndsctl_username arg = set_command (set_username (Some arg))"

section \<open>Dispatch\<close>

text \<open>\<^verbatim>\<open>strncmp(request, cmd, strlen(cmd)) == 0\<close>, the commands tried in the order of the code.\<close>

definition ndsctl_dispatch :: "status_env \<Rightarrow> env \<Rightarrow> string \<Rightarrow> world \<Rightarrow> handled" where
  "ndsctl_dispatch v e request w =
     (let starts = (\<lambda>cmd n. strncmp_eq request cmd n); arg = (\<lambda>i. of_opt (cstr i request)) in
      if starts ''status'' 6 then ndsctl_status v e w
      else if starts ''clients'' 7 then ndsctl_clients v e w
      else if starts ''stop'' 4 then ndsctl_stop w
      else if starts ''block'' 5 then rbind (arg 6) (\<lambda>a. ndsctl_block e a w)
      else if starts ''unblock'' 7 then rbind (arg 8) (\<lambda>a. ndsctl_unblock e a w)
      else if starts ''allow'' 5 then rbind (arg 6) (\<lambda>a. ndsctl_allow e a w)
      else if starts ''unallow'' 7 then rbind (arg 8) (\<lambda>a. ndsctl_unallow e a w)
      else if starts ''trust'' 5 then rbind (arg 6) (\<lambda>a. ndsctl_trust e a w)
      else if starts ''untrust'' 7 then rbind (arg 8) (\<lambda>a. ndsctl_untrust e a w)
      else if starts ''auth'' 4 then rbind (arg 5) (\<lambda>a. ndsctl_auth e a w)
      else if starts ''deauth'' 6 then rbind (arg 7) (\<lambda>a. ndsctl_deauth e a w)
      else if starts ''loglevel'' 8 then rbind (arg 9) (\<lambda>a. ndsctl_loglevel a w)
      else if starts ''password'' 8 then rbind (arg 9) (\<lambda>a. ndsctl_password a w)
      else if starts ''username'' 8 then rbind (arg 9) (\<lambda>a. ndsctl_username a w)
      else Ok ([], None, w))"

definition thread_ndsctl_handler ::
    "status_env \<Rightarrow> env \<Rightarrow> (nat \<Rightarrow> nat \<Rightarrow> string option) \<Rightarrow> world \<Rightarrow> handled" where
  "thread_ndsctl_handler v e rd w =
     rbind (of_opt (read_request rd 0 0 False (replicate MAX_BUF NUL)))
       (\<lambda>(request, _). ndsctl_dispatch v e request w)"

section \<open>Lemmas on reading\<close>

text \<open>The buffer after the bytes \<open>s\<close>.\<close>

definition image :: "string \<Rightarrow> string" where
  "image s = map end_line s @ replicate (MAX_BUF - length s) NUL"

lemma image_Nil: "image [] = replicate MAX_BUF NUL"
  by (simp add: image_def)

lemma store_image:
  "length p + length s \<le> MAX_BUF \<Longrightarrow> store (length p) (map end_line s) (image p) = image (p @ s)"
  by (simp add: store_def image_def diff_diff_left)

text \<open>
  A peer that sends the chunks \<open>cs\<close>, one per \<^verbatim>\<open>read\<close> as far as the room goes, from the
  \<open>n\<close>-th on, and then closes its side.
\<close>

definition serves :: "(nat \<Rightarrow> nat \<Rightarrow> string option) \<Rightarrow> nat \<Rightarrow> string list \<Rightarrow> bool" where
  "serves rd n cs \<longleftrightarrow> (\<forall>i k. rd (n + i) k = Some (if i < length cs then take k (cs ! i) else []))"

definition peer :: "string list \<Rightarrow> nat \<Rightarrow> nat \<Rightarrow> string option" where
  "peer cs i k = Some (if i < length cs then take k (cs ! i) else [])"

lemma serves_peer: "serves (peer cs) 0 cs"
  by (simp add: serves_def peer_def)

lemma serves_Nil: "serves rd n [] \<Longrightarrow> rd n k = Some [] \<and> serves rd (Suc n) []"
  by (simp add: serves_def) (metis add.right_neutral add_Suc add_Suc_right)

lemma serves_Cons: "serves rd n (c # cs) \<Longrightarrow> rd n k = Some (take k c) \<and> serves rd (Suc n) cs"
  unfolding serves_def
  by (intro conjI allI) (drule spec [of _ 0], simp, drule_tac x = "Suc i" in spec, simp)

lemma read_request_closed:
  assumes "serves rd n []" "0 \<le> pos" "pos < int (MAX_BUF - 1)"
  shows "read_request rd n pos False buf = None"
proof -
  have never: "\<not> (serves rd n [] \<and> 0 \<le> pos \<and> pos < int (MAX_BUF - 1) \<and> \<not> fin)"
    if "read_request rd n pos fin buf = Some r" for n pos fin buf r
  proof (rule read_request.raw_induct [where P = "\<lambda>rd n pos fin buf r.
      \<not> (serves rd n [] \<and> 0 \<le> pos \<and> pos < int (MAX_BUF - 1) \<and> \<not> fin)", OF _ that], goal_cases)
    case (1 f rd n pos fin buf r)
    show ?case
    proof
      assume a: "serves rd n [] \<and> 0 \<le> pos \<and> pos < int (MAX_BUF - 1) \<and> \<not> fin"
      then have "f rd (Suc n) pos False (store (nat pos) [] buf) = Some r"
        using 1(2) serves_Nil [of rd n] by simp
      from 1(1) [OF this] a serves_Nil [of rd n] show False by blast
    qed
  qed
  show ?thesis
  proof (cases "read_request rd n pos False buf")
    case (Some r)
    from never [OF this] assms show ?thesis by blast
  qed
qed

text \<open>
  The loop returns exactly when an end of line comes, or when all but the last byte of the
  buffer has been filled; the buffer then holds a prefix of what was sent.
\<close>

lemma read_request_chunks:
  assumes "serves rd n cs" "length p < MAX_BUF - 1"
  shows "if list_ex eol (concat cs) \<or> MAX_BUF - 1 \<le> length p + length (concat cs)
    then \<exists>k \<le> length (concat cs). length p + k \<le> MAX_BUF \<and>
      read_request rd n (int (length p)) False (image p) =
        Some (image (p @ take k (concat cs)), list_ex eol (take k (concat cs))) \<and>
      (list_ex eol (take k (concat cs)) \<or> MAX_BUF - 1 \<le> length p + k)
    else read_request rd n (int (length p)) False (image p) = None"
  using assms
proof (induction cs arbitrary: n p)
  case Nil
  then show ?case by (simp add: read_request_closed)
next
  case (Cons c cs)
  let ?s = "take (MAX_BUF - length p) c"
  have rd: "rd n k = Some (take k c)" "serves rd (Suc n) cs" for k
    using serves_Cons [OF Cons.prems(1)] by simp_all
  have len: "length p + length ?s \<le> MAX_BUF" using Cons.prems(2) by simp
  have lt: "int (length p) < int MAX_BUF - 1" using Cons.prems(2) by linarith
  have step: "read_request rd n (int (length p)) False (image p) =
      read_request rd (Suc n) (int (length (p @ ?s))) (list_ex eol ?s) (image (p @ ?s))"
    using lt rd(1) store_image [OF len] by (subst read_request.simps) simp
  have tk: "take (length ?s) (concat (c # cs)) = ?s" by (cases "length c \<le> MAX_BUF - length p") simp_all
  show ?case
  proof (cases "list_ex eol ?s \<or> MAX_BUF - 1 \<le> length (p @ ?s)")
    case True
    then have "read_request rd n (int (length p)) False (image p) = Some (image (p @ ?s), list_ex eol ?s)"
      unfolding step by (subst read_request.simps) auto
    moreover have "list_ex eol ?s \<Longrightarrow> list_ex eol c" by (auto simp: list_ex_iff dest: in_set_takeD)
    ultimately show ?thesis using True len tk
      by (auto intro!: exI [of _ "length ?s"])
  next
    case False
    then have s: "?s = c" by auto
    show ?thesis
    proof (cases "list_ex eol (concat cs) \<or> MAX_BUF - 1 \<le> length (p @ c) + length (concat cs)")
      case True
      with Cons.IH [OF rd(2), of "p @ c"] False s obtain k where k: "k \<le> length (concat cs)"
        "length (p @ c) + k \<le> MAX_BUF"
        "read_request rd (Suc n) (int (length (p @ c))) False (image (p @ c)) =
          Some (image ((p @ c) @ take k (concat cs)), list_ex eol (take k (concat cs)))"
        "list_ex eol (take k (concat cs)) \<or> MAX_BUF - 1 \<le> length (p @ c) + k" by auto
      with True False show ?thesis unfolding step s
        by (auto intro!: exI [of _ "length c + k"])
    next
      case F: False
      with Cons.IH [OF rd(2), of "p @ c"] False s
      have "read_request rd (Suc n) (int (length (p @ c))) False (image (p @ c)) = None" by auto
      with F False show ?thesis unfolding step s by auto
    qed
  qed
qed

section \<open>Lemmas on the handlers\<close>

lemma client_keys_at: "client_keys a w = of_opt (map_option ckey (client_at (w_clients w) a))"
  by (simp add: client_keys_def client_at_def option.map_comp comp_def)

text \<open>Adding a client by its address, with what it says of the client it returns.\<close>

lemma add_client_returns:
  assumes inv: "daemon_inv w"
  shows "\<exists>p w'. http_nodogsplash_add_client e ip w = Ok (p, w') \<and>
    (case p of None \<Rightarrow> clients (w_clients w') = clients (w_clients w)
     | Some a \<Rightarrow> \<exists>c. client_at (w_clients w') a = Some c \<and> c_ip c = ip \<and> c \<in> set (clients (w_clients w')) \<and>
         filter (\<lambda>x. ckey x \<noteq> ckey c) (clients (w_clients w')) = filter (\<lambda>x. ckey x \<noteq> ckey c) (clients (w_clients w)))"
proof -
  obtain mac w1 where l: "(if check_ip_format ip then arp_get e ip w else (None, w)) = (mac, w1)" by fastforce
  have w1: "w_clients w1 = w_clients w" "w_conf w1 = w_conf w"
    using l by (auto simp: arp_get_def split: if_splits)
  let ?now = "e_time e (Suc (Suc (w_clock w1)))"
  note c = add_client_cases [where s = "w_clients w" and maxclients = "cf_maxclients (w_conf w)" and ip = ip
      and arp = "\<lambda>_. mac" and ra = "e_rand e (w_clock w1)" and rb = "e_rand e (Suc (w_clock w1))" and now = ?now]
  have "\<exists>p s'. client_list_add_client (cf_maxclients (w_conf w)) (\<lambda>_. mac) (e_rand e (w_clock w1))
      (e_rand e (Suc (w_clock w1))) ?now ip (w_clients w) = Ok (p, s') \<and>
    (case p of None \<Rightarrow> clients s' = clients (w_clients w)
     | Some a \<Rightarrow> \<exists>c. client_at s' a = Some c \<and> c_ip c = ip \<and> c \<in> set (clients s') \<and>
         filter (\<lambda>x. ckey x \<noteq> ckey c) (clients s') = filter (\<lambda>x. ckey x \<noteq> ckey c) (clients (w_clients w)))"
  proof (cases "if check_ip_format ip then mac else None")
    case None
    with c inv show ?thesis by (auto simp: daemon_inv_def)
  next
    case (Some m)
    show ?thesis
    proof (cases "List.find (\<lambda>c. c_ip c = ip \<and> c_mac c = m) (clients (w_clients w))")
      case None
      with c inv Some show ?thesis
        by (auto simp: daemon_inv_def new_client_def split: if_splits)
    next
      case (Some c)
      with c inv \<open>(if check_ip_format ip then mac else None) = Some m\<close> find_Some_mem [OF Some]
      show ?thesis by (auto simp: daemon_inv_def)
    qed
  qed
  then obtain p s' where "client_list_add_client (cf_maxclients (w_conf w)) (\<lambda>_. mac) (e_rand e (w_clock w1))
      (e_rand e (Suc (w_clock w1))) ?now ip (w_clients w) = Ok (p, s')"
    "case p of None \<Rightarrow> clients s' = clients (w_clients w)
     | Some a \<Rightarrow> \<exists>c. client_at s' a = Some c \<and> c_ip c = ip \<and> c \<in> set (clients s') \<and>
         filter (\<lambda>x. ckey x \<noteq> ckey c) (clients s') = filter (\<lambda>x. ckey x \<noteq> ckey c) (clients (w_clients w))" by blast
  then show ?thesis
    using l w1 by (intro exI [of _ p] exI [of _ "(tick (tick (tick w1)))\<lparr>w_clients := s'\<rparr>"])
      (simp add: http_nodogsplash_add_client_def split: option.splits)
qed

lemma filter_update_first:
  "(\<And>x. P x \<Longrightarrow> \<not> Q x \<and> \<not> Q (f x)) \<Longrightarrow> filter Q (update_first P f xs) = filter Q xs"
  by (induction xs) auto

lemma update_first_mem: "x \<in> set xs \<Longrightarrow> P x \<Longrightarrow> \<exists>y \<in> set xs. P y \<and> f y \<in> set (update_first P f xs)"
  by (induction xs) auto

lemma find_key_mem:
  assumes "c \<in> set cs"
  shows "\<exists>d \<in> set cs. List.find (\<lambda>x. ckey x = ckey c) cs = Some d \<and> ckey d = ckey c"
  using assms by (cases "List.find (\<lambda>x. ckey x = ckey c) cs") (auto simp: find_None_iff dest: find_Some_mem)

lemma mark_static: "static w' = static w \<Longrightarrow> w_MARK_AUTHENTICATED w \<noteq> 0 \<Longrightarrow> w_MARK_AUTHENTICATED w' \<noteq> 0"
  using static_mark by metis

text \<open>The fields of the configuration the clients depend on are not touched by the MAC lists.\<close>

lemma mac_shape_rejected:
  "fst (mac_add en get put s c) \<noteq> 0 \<Longrightarrow> snd (mac_add en get put s c) = c"
  "fst (mac_remove en get put s c) \<noteq> 0 \<Longrightarrow> snd (mac_remove en get put s c) = c"
  by (auto simp: mac_shape_defs split: if_splits)

lemma mac_ops_frame:
  fixes c :: s_config
  shows "(\<And>l c. g (cf_trustedmaclist_update (\<lambda>_. l) c) = g c) \<Longrightarrow> g (snd (add_to_trusted_mac_list s c)) = g c"
    "(\<And>l c. g (cf_trustedmaclist_update (\<lambda>_. l) c) = g c) \<Longrightarrow> g (snd (remove_from_trusted_mac_list s c)) = g c"
    "(\<And>l c. g (cf_blockedmaclist_update (\<lambda>_. l) c) = g c) \<Longrightarrow> g (snd (add_to_blocked_mac_list s c)) = g c"
    "(\<And>l c. g (cf_blockedmaclist_update (\<lambda>_. l) c) = g c) \<Longrightarrow> g (snd (remove_from_blocked_mac_list s c)) = g c"
    "(\<And>l c. g (cf_allowedmaclist_update (\<lambda>_. l) c) = g c) \<Longrightarrow> g (snd (add_to_allowed_mac_list s c)) = g c"
    "(\<And>l c. g (cf_allowedmaclist_update (\<lambda>_. l) c) = g c) \<Longrightarrow> g (snd (remove_from_allowed_mac_list s c)) = g c"
  unfolding trusted_shape blocked_shape allowed_shape
  by (intro mac_add_frame mac_remove_frame; assumption)+

abbreviation mac_updates :: "(string \<Rightarrow> s_config \<Rightarrow> int \<times> s_config) set" where
  "mac_updates \<equiv> {add_to_trusted_mac_list, remove_from_trusted_mac_list, add_to_blocked_mac_list,
     remove_from_blocked_mac_list, add_to_allowed_mac_list, remove_from_allowed_mac_list}"

lemma mac_update_maxclients: "update \<in> mac_updates \<Longrightarrow> cf_maxclients (snd (update s c)) = cf_maxclients c"
  by (elim insertE emptyE) (simp_all add: mac_ops_frame [where g = cf_maxclients])

lemma mac_update_rejected: "update \<in> mac_updates \<Longrightarrow> fst (update s c) \<noteq> 0 \<Longrightarrow> snd (update s c) = c"
  unfolding trusted_shape blocked_shape allowed_shape
  by (elim insertE emptyE; hypsubst; erule mac_shape_rejected)

lemmas mac_list_frames = mac_ops_frame [where g = cf_trustedmaclist] mac_ops_frame [where g = cf_blockedmaclist]
  mac_ops_frame [where g = cf_allowedmaclist]

lemma mac_update_inv:
  assumes "update \<in> mac_updates" "mac_lists_inv c"
  shows "mac_lists_inv (snd (update s c))"
proof -
  have i: "mac_list_inv (cf_trustedmaclist c)" "mac_list_inv (cf_blockedmaclist c)" "mac_list_inv (cf_allowedmaclist c)"
    using assms(2) by (simp_all add: mac_lists_inv_def)
  note invs = trusted.add_inv [OF i(1)] trusted.remove_inv [OF i(1)] blocked.add_inv [OF i(2)]
    blocked.remove_inv [OF i(2)] allowed.add_inv [OF i(3)] allowed.remove_inv [OF i(3)]
  show ?thesis using assms(1)
    by (elim insertE emptyE) (simp_all add: mac_lists_inv_def mac_list_frames invs i)
qed

section \<open>Requests keep the daemon's state well formed\<close>

text \<open>What no request changes: the marks, the capacity of the client list and its validity.\<close>

definition sound :: "world \<Rightarrow> world \<Rightarrow> bool" where
  "sound w w' \<longleftrightarrow> daemon_inv w' \<and> mac_lists_inv (w_conf w') \<and>
     w_MARK_AUTHENTICATED w' = w_MARK_AUTHENTICATED w \<and> cf_maxclients (w_conf w') = cf_maxclients (w_conf w)"

lemma keeps_sound: "keeps e k w w' \<Longrightarrow> mac_lists_inv (w_conf w) \<Longrightarrow> sound w w'"
  by (auto simp: keeps_def sound_def dest: static_mark)

lemma reconfigured_sound:
  assumes "daemon_inv w" "mac_lists_inv c" "cf_maxclients c = cf_maxclients (w_conf w)"
    "same_daemon (w\<lparr>w_conf := c\<rparr>) w'"
  shows "sound w w'"
  using assms same_daemon_fields [OF assms(4)] by (simp add: sound_def daemon_inv_def)

text \<open>A MAC command on every branch.\<close>

lemma mac_command_result:
  assumes up: "update \<in> mac_updates" and rule: "\<And>w. rule e arg w = iptables_do_command e (body w) w"
  shows "\<exists>reply w'. mac_command update rule e arg w = Ok (reply, None, w') \<and> reply \<in> {''Yes'', ''No''} \<and>
    same_daemon (w\<lparr>w_conf := snd (update arg (w_conf w))\<rparr>) w' \<and>
    effects (w_log w') = effects (w_log w) @
      (if reply = ''Yes'' then [ipt_cmd (body (w\<lparr>w_conf := snd (update arg (w_conf w))\<rparr>))] else []) \<and>
    (fst (update arg (w_conf w)) \<noteq> 0 \<longrightarrow> reply = ''No'' \<and> w' = w) \<and>
    (fst (update arg (w_conf w)) = 0 \<longrightarrow> works e \<longrightarrow> reply = ''Yes'')"
proof -
  obtain r c where u: "update arg (w_conf w) = (r, c)" by fastforce
  show ?thesis
  proof (cases "r = 0")
    case False
    with mac_update_rejected [OF up, of arg "w_conf w"] u have "c = w_conf w" by simp
    with u False show ?thesis by (simp add: mac_command_def)
  next
    case True
    let ?w1 = "w\<lparr>w_conf := c\<rparr>"
    obtain r2 w2 where i: "iptables_do_command e (body ?w1) ?w1 = (r2, w2)" by fastforce
    have "r2 = 0" if "works e" using works_runs(2) [OF that, of "body ?w1" ?w1] i by simp
    with u True ipt.run_same [OF i] ipt.run_effects [OF i] rule [of ?w1] i show ?thesis
      by (simp add: mac_command_def)
  qed
qed

lemma mac_command_sound:
  assumes "update \<in> mac_updates" "\<And>w. rule e arg w = iptables_do_command e (body w) w"
    "daemon_inv w" "mac_lists_inv (w_conf w)"
  shows "\<exists>reply w'. mac_command update rule e arg w = Ok (reply, None, w') \<and> sound w w'"
proof -
  from mac_command_result [of update rule e arg body w] assms(1,2) obtain reply w'
    where "mac_command update rule e arg w = Ok (reply, None, w')"
      "same_daemon (w\<lparr>w_conf := snd (update arg (w_conf w))\<rparr>) w'" by blast
  with reconfigured_sound [OF assms(3) mac_update_inv [OF assms(1,4)] mac_update_maxclients [OF assms(1)]]
  show ?thesis by blast
qed

lemma mac_rules_are_commands:
  "\<exists>body. \<forall>w. iptables_block_mac e arg w = iptables_do_command e (body w) w"
  "\<exists>body. \<forall>w. iptables_unblock_mac e arg w = iptables_do_command e (body w) w"
  "\<exists>body. \<forall>w. iptables_allow_mac e arg w = iptables_do_command e (body w) w"
  "\<exists>body. \<forall>w. iptables_unallow_mac e arg w = iptables_do_command e (body w) w"
  "\<exists>body. \<forall>w. iptables_trust_mac e arg w = iptables_do_command e (body w) w"
  "\<exists>body. \<forall>w. iptables_untrust_mac e arg w = iptables_do_command e (body w) w"
  by (intro exI allI, rule iptables_block_mac_def) (intro exI allI, rule iptables_unblock_mac_def,
    intro exI allI, rule iptables_allow_mac_def, intro exI allI, rule iptables_unallow_mac_def,
    intro exI allI, rule iptables_trust_mac_def, intro exI allI, rule iptables_untrust_mac_def)

lemmas mac_rule_defs = iptables_block_mac_def iptables_unblock_mac_def iptables_allow_mac_def
  iptables_unallow_mac_def iptables_trust_mac_def iptables_untrust_mac_def

lemmas mac_handler_defs = ndsctl_block_def ndsctl_unblock_def ndsctl_allow_def ndsctl_unallow_def
  ndsctl_trust_def ndsctl_untrust_def

lemma ndsctl_auth_result:
  assumes inv: "daemon_inv w" and m: "w_MARK_AUTHENTICATED w \<noteq> 0"
  shows "\<exists>reply w'. ndsctl_auth e arg w = Ok (reply, None, w') \<and> keeps e k w w' \<and>
    (reply = ''No'' \<and> clients (w_clients w') = clients (w_clients w) \<or>
     reply = ''Yes'' \<and> (\<exists>c \<in> set (clients (w_clients w')). c_ip c = arg \<and>
       c_fw_connection_state c = w_MARK_AUTHENTICATED w \<and>
       filter (\<lambda>x. ckey x \<noteq> ckey c) (clients (w_clients w')) = filter (\<lambda>x. ckey x \<noteq> ckey c) (clients (w_clients w))))"
proof -
  obtain p w1 where a: "http_nodogsplash_add_client e arg w = Ok (p, w1)"
    "case p of None \<Rightarrow> clients (w_clients w1) = clients (w_clients w)
     | Some a \<Rightarrow> \<exists>c. client_at (w_clients w1) a = Some c \<and> c_ip c = arg \<and> c \<in> set (clients (w_clients w1)) \<and>
         filter (\<lambda>x. ckey x \<noteq> ckey c) (clients (w_clients w1)) = filter (\<lambda>x. ckey x \<noteq> ckey c) (clients (w_clients w))"
    using add_client_returns [OF inv, of e arg] by blast
  have k1: "keeps e k w w1" using add_client_keeps [OF inv m, of e arg k] a(1) by auto
  show ?thesis
  proof (cases p)
    case None
    with a k1 show ?thesis by (simp add: ndsctl_auth_def)
  next
    case (Some x)
    with a(2) obtain c where c: "client_at (w_clients w1) x = Some c" "c_ip c = arg" "c \<in> set (clients (w_clients w1))"
      "filter (\<lambda>x. ckey x \<noteq> ckey c) (clients (w_clients w1)) = filter (\<lambda>x. ckey x \<noteq> ckey c) (clients (w_clients w))" by auto
    let ?g = "\<lambda>c. c\<lparr>c_fw_connection_state := w_MARK_AUTHENTICATED w\<rparr>"
    have st: "static w1 = static w" "daemon_inv w1" using k1 by (simp_all add: keeps_def)
    obtain d where d: "List.find (\<lambda>x. ckey x = ckey c) (clients (w_clients w1)) = Some d"
      using find_key_mem [OF c(3)] by blast
    obtain w2 where w2: "auth_client_action e (c_ip c) (c_mac c) AUTH_MAKE_AUTHENTICATED w1 = Ok w2" "keeps e k w1 w2"
      "clients (w_clients w2) = update_first (\<lambda>x. ckey x = ckey c) ?g (clients (w_clients w1))"
      using auth_client_action_keeps [OF st(2), of e "c_ip c" "c_mac c" AUTH_MAKE_AUTHENTICATED k] d
        static_mark [OF st(1)] by auto
    have "ndsctl_auth e arg w = Ok (''Yes'', None, w2)"
      using a(1) Some c(1) w2(1) by (simp add: ndsctl_auth_def client_keys_at)
    moreover have "\<exists>y \<in> set (clients (w_clients w1)). ckey y = ckey c \<and> ?g y \<in> set (clients (w_clients w2))"
      unfolding w2(3) by (rule update_first_mem [OF c(3)]) simp
    then obtain y where "ckey y = ckey c" "?g y \<in> set (clients (w_clients w2))" by blast
    moreover have "filter (\<lambda>x. ckey x \<noteq> ckey c) (clients (w_clients w2)) = filter (\<lambda>x. ckey x \<noteq> ckey c) (clients (w_clients w))"
      unfolding w2(3) c(4) [symmetric] by (rule filter_update_first) simp
    ultimately show ?thesis
      using keeps_trans [OF k1 w2(2)] c(2)
      by (intro exI [of _ "''Yes''"] exI [of _ w2]) (auto intro!: bexI [of _ "?g y"])
  qed
qed

lemma ndsctl_deauth_result:
  assumes inv: "daemon_inv w"
  shows "\<exists>reply w'. ndsctl_deauth e arg w = Ok (reply, None, w') \<and> keeps e k w w' \<and>
    (case (case List.find (\<lambda>c. c_ip c = arg) (clients (w_clients w)) of
        Some c \<Rightarrow> Some c | None \<Rightarrow> List.find (\<lambda>c. c_mac c = arg) (clients (w_clients w))) of
      None \<Rightarrow> reply = ''No'' \<and> w' = w
    | Some c \<Rightarrow> reply = ''Yes'' \<and>
        clients (w_clients w') = filter (\<lambda>x. ckey x \<noteq> ckey c) (clients (w_clients w)))"
proof -
  have ci: "clist_inv (w_clients w)" using inv by (simp add: daemon_inv_def)
  obtain p where p: "client_list_find_by_ip arg (w_clients w) = Ok p"
    "case p of None \<Rightarrow> List.find (\<lambda>c. c_ip c = arg) (clients (w_clients w)) = None
     | Some a \<Rightarrow> client_at (w_clients w) a \<noteq> None \<and>
         List.find (\<lambda>c. c_ip c = arg) (clients (w_clients w)) = client_at (w_clients w) a"
    using find_refines [OF ci, of "\<lambda>c. Some (c_ip c = arg)" "\<lambda>c. c_ip c = arg"] by (auto simp: client_list_find_by_ip_def)
  obtain q where q: "client_list_find_by_mac arg (w_clients w) = Ok q"
    "case q of None \<Rightarrow> List.find (\<lambda>c. c_mac c = arg) (clients (w_clients w)) = None
     | Some a \<Rightarrow> client_at (w_clients w) a \<noteq> None \<and>
         List.find (\<lambda>c. c_mac c = arg) (clients (w_clients w)) = client_at (w_clients w) a"
    using find_refines [OF ci, of "\<lambda>c. Some (c_mac c = arg)" "\<lambda>c. c_mac c = arg"] by (auto simp: client_list_find_by_mac_def)
  let ?found = "if p \<noteq> None then p else q"
  have f: "(case List.find (\<lambda>c. c_ip c = arg) (clients (w_clients w)) of
        Some c \<Rightarrow> Some c | None \<Rightarrow> List.find (\<lambda>c. c_mac c = arg) (clients (w_clients w))) =
      Option.bind ?found (client_at (w_clients w))"
    and nn: "\<And>a. ?found = Some a \<Longrightarrow> client_at (w_clients w) a \<noteq> None"
    using p(2) q(2) by (auto split: option.splits)
  have run: "ndsctl_deauth e arg w = (case ?found of None \<Rightarrow> Ok (''No'', None, w)
     | Some a \<Rightarrow> rbind (client_keys a w) (\<lambda>(ip, mac).
         rbind (auth_client_action e ip mac AUTH_MAKE_DEAUTHENTICATED w) (\<lambda>w2. Ok (''Yes'', None, w2))))"
    using p(1) q(1) by (cases p) (simp_all add: ndsctl_deauth_def)
  show ?thesis
  proof (cases ?found)
    case None
    then have "ndsctl_deauth e arg w = Ok (''No'', None, w)" unfolding run by simp
    with None inv show ?thesis unfolding f by (simp add: keeps_refl)
  next
    case (Some a)
    from nn [OF Some] obtain c where c: "client_at (w_clients w) a = Some c" by blast
    have mem: "c \<in> set (clients (w_clients w))"
    proof -
      from ci obtain as where r: "cl_repr (w_clients w) as" "clients (w_clients w) = map (cell (cl_heap (w_clients w))) as"
        by (rule clist_invE)
      with client_at_mem [OF r(1) c] show ?thesis by simp
    qed
    obtain d where "List.find (\<lambda>x. ckey x = ckey c) (clients (w_clients w)) = Some d"
      using find_key_mem [OF mem] by blast
    then obtain w' where w': "auth_client_action e (c_ip c) (c_mac c) AUTH_MAKE_DEAUTHENTICATED w = Ok w'" "keeps e k w w'"
      "clients (w_clients w') = filter (\<lambda>x. ckey x \<noteq> ckey c) (clients (w_clients w))"
      using auth_client_action_keeps [OF inv, of e "c_ip c" "c_mac c" AUTH_MAKE_DEAUTHENTICATED k] by auto
    then have "ndsctl_deauth e arg w = Ok (''Yes'', None, w')"
      unfolding run Some by (simp add: client_keys_at c)
    with w' Some c show ?thesis unfolding f by simp
  qed
qed

section \<open>Every request\<close>

text \<open>The request was handled: the signal raised is \<open>sg\<close>, and only the call that raises none may change anything.\<close>

definition handled_ok :: "int option \<Rightarrow> world \<Rightarrow> handled \<Rightarrow> bool" where
  "handled_ok sg w r \<longleftrightarrow> (\<exists>reply w'. r = Ok (reply, sg, w') \<and> sound w w' \<and> (sg \<noteq> None \<longrightarrow> w' = w))"

lemma handled_okI: "r = Ok (reply, None, w') \<Longrightarrow> sound w w' \<Longrightarrow> handled_ok None w r"
  by (auto simp: handled_ok_def)

lemma handlers_ok:
  assumes inv: "daemon_inv w" "mac_lists_inv (w_conf w)" and m: "w_MARK_AUTHENTICATED w \<noteq> 0"
  shows "handled_ok None w (ndsctl_status v e w)" "handled_ok None w (ndsctl_clients v e w)" "handled_ok (Some SIGINT) w (ndsctl_stop w)"
    "handled_ok None w (ndsctl_block e arg w)" "handled_ok None w (ndsctl_unblock e arg w)"
    "handled_ok None w (ndsctl_allow e arg w)" "handled_ok None w (ndsctl_unallow e arg w)"
    "handled_ok None w (ndsctl_trust e arg w)" "handled_ok None w (ndsctl_untrust e arg w)"
    "handled_ok None w (ndsctl_auth e arg w)" "handled_ok None w (ndsctl_deauth e arg w)"
    "handled_ok None w (ndsctl_loglevel arg w)" "handled_ok None w (ndsctl_password arg w)" "handled_ok None w (ndsctl_username arg w)"
proof -
  have ci: "clist_inv (w_clients w)" using inv by (simp add: daemon_inv_def)
  obtain t w' where t: "get_status_text v e w = Ok (t, w')" "counted w w'"
    using status_text_counted [OF ci] by blast
  then show "handled_ok None w (ndsctl_status v e w)"
    using keeps_sound [OF counted_keeps [OF inv(1) t(2)] inv(2)] by (auto simp: ndsctl_status_def intro: handled_okI)
  obtain t w' where t: "get_clients_text v e w = Ok (t, w')" "counted w w'"
    using clients_text_counted [OF ci] by blast
  then show "handled_ok None w (ndsctl_clients v e w)"
    using keeps_sound [OF counted_keeps [OF inv(1) t(2)] inv(2)] by (auto simp: ndsctl_clients_def intro: handled_okI)
  have s: "sound w w" using inv by (simp add: sound_def)
  then show "handled_ok (Some SIGINT) w (ndsctl_stop w)" by (simp add: ndsctl_stop_def handled_ok_def)
  have mc: "handled_ok None w (mac_command update rule e arg w)"
    if up: "update \<in> mac_updates" and "\<exists>body. \<forall>w. rule e arg w = iptables_do_command e (body w) w" for update rule
  proof -
    from that(2) obtain body where "\<And>w. rule e arg w = iptables_do_command e (body w) w" by blast
    from mac_command_sound [of update rule e arg body w, OF up this inv] show ?thesis using handled_okI by blast
  qed
  show "handled_ok None w (ndsctl_block e arg w)" "handled_ok None w (ndsctl_unblock e arg w)"
    "handled_ok None w (ndsctl_allow e arg w)" "handled_ok None w (ndsctl_unallow e arg w)"
    "handled_ok None w (ndsctl_trust e arg w)" "handled_ok None w (ndsctl_untrust e arg w)"
    unfolding mac_handler_defs
    by (rule mc, simp, rule mac_rules_are_commands)+
  show "handled_ok None w (ndsctl_auth e arg w)"
    using ndsctl_auth_result [OF inv(1) m, of e arg "\<lambda>_. 0"] keeps_sound [OF _ inv(2)] handled_okI by blast
  show "handled_ok None w (ndsctl_deauth e arg w)"
    using ndsctl_deauth_result [OF inv(1), of e arg "\<lambda>_. 0"] keeps_sound [OF _ inv(2)] handled_okI by blast
  have c: "handled_ok None w (Ok (reply, None, w\<lparr>w_conf := c\<rparr>))"
    if "cf_maxclients c = cf_maxclients (w_conf w)" "mac_lists_inv c" for reply c
    using reconfigured_sound [OF inv(1) that(2,1) same_daemon_refl] by (auto intro: handled_okI)
  show "handled_ok None w (ndsctl_loglevel arg w)" "handled_ok None w (ndsctl_password arg w)" "handled_ok None w (ndsctl_username arg w)"
    using inv(2) by (auto simp: ndsctl_loglevel_def ndsctl_password_def ndsctl_username_def set_command_def
        set_log_level_def set_password_def set_username_def mac_lists_inv_def intro!: c)
qed

text \<open>The argument of a command is a string when the buffer is terminated behind it.\<close>

lemma cstr_terminated: "NUL \<in> set (drop j buf) \<Longrightarrow> i \<le> j \<Longrightarrow> \<exists>s. cstr i buf = Some s"
  using set_drop_subset_set_drop [of i j buf] by (auto simp: cstr_def)

lemma dispatch_ok:
  assumes "daemon_inv w" "mac_lists_inv (w_conf w)" "w_MARK_AUTHENTICATED w \<noteq> 0" "NUL \<in> set (drop 9 request)"
  shows "handled_ok (if take 4 request = ''stop'' then Some SIGINT else None) w (ndsctl_dispatch v e request w)"
proof -
  have arg: "handled_ok None w (rbind (of_opt (cstr i request)) f)" if "i \<le> 9" "\<And>a. handled_ok None w (f a)" for i f
    using cstr_terminated [OF assms(4) that(1)] that(2) by auto
  have none: "handled_ok None w (Ok ([], None, w))"
    by (rule handled_okI [OF refl]) (use assms in \<open>simp add: sound_def\<close>)
  show ?thesis
  proof (cases "take 4 request = ''stop''")
    case True
    then have "take 4 (take 6 request) = ''stop''" "take 4 (take 7 request) = ''stop''" by simp_all
    then have "take 6 request \<noteq> ''status''" "take 7 request \<noteq> ''clients''" by force+
    with True handlers_ok(3) [OF assms(1-3)] show ?thesis by (simp add: ndsctl_dispatch_def Let_def strncmp_eq_def)
  next
    case False
    then have "\<not> strncmp_eq request ''stop'' 4" by (simp add: strncmp_eq_def)
    with False show ?thesis
      unfolding ndsctl_dispatch_def Let_def
      by (simp only: if_False) (intro if_split [where P = "handled_ok None w", THEN iffD2] conjI impI arg none
        handlers_ok [OF assms(1-3)], simp_all)
  qed
qed

text \<open>The request starts with the command exactly when what was sent does.\<close>

lemma image_stop:
  assumes "list_ex eol (take k s)"
  shows "take 4 (image (take k s)) = ''stop'' \<longleftrightarrow> take 4 s = ''stop''"
proof
  assume a: "take 4 (image (take k s)) = ''stop''"
  have z: "end_line c = CHR ''s'' \<longleftrightarrow> c = CHR ''s''" "end_line c = CHR ''t'' \<longleftrightarrow> c = CHR ''t''"
    "end_line c = CHR ''o'' \<longleftrightarrow> c = CHR ''o''" "end_line c = CHR ''p'' \<longleftrightarrow> c = CHR ''p''" for c
    by (auto simp: end_line_def NUL_def eol_def)
  have "take 4 (map end_line (take k s)) = ''stop''"
  proof (rule ccontr)
    assume n: "take 4 (map end_line (take k s)) \<noteq> ''stop''"
    have "\<exists>i < 4. take 4 (image (take k s)) ! i = NUL"
    proof (cases "length (take k s) < 4")
      case True
      then show ?thesis unfolding image_def
        by (intro exI [of _ "length (take k s)"]) (simp add: nth_append MAX_BUF_def)
    next
      case False
      then have "4 - length (take k s) = 0" by arith
      with a n show ?thesis unfolding image_def by (simp del: length_take)
    qed
    then show False unfolding a by (auto simp: NUL_def less_Suc_eq numeral_eq_Suc)
  qed
  then have m: "map end_line (take 4 (take k s)) = ''stop''" by (simp add: take_map)
  then have "take 4 (take k s) = ''stop''" by (auto simp: z map_eq_Cons_conv)
  then have t: "take (min 4 k) s = ''stop''" by (simp add: take_take)
  have "min (length s) (min 4 k) = 4" using arg_cong [OF t, of length] by simp
  then have "min 4 k = 4" by linarith
  with t show "take 4 s = ''stop''" by simp
next
  assume a: "take 4 s = ''stop''"
  have "4 < k"
  proof (rule ccontr)
    assume "\<not> 4 < k"
    then have "set (take k s) \<subseteq> set (take 4 s)" using set_take_subset_set_take [of k 4 s] by simp
    with a assms show False by (auto simp: list_ex_iff eol_def)
  qed
  moreover have "4 \<le> length s" using arg_cong [OF a, of length] by simp
  ultimately have "take 4 (image (take k s)) = map end_line (take 4 s)"
    by (simp add: image_def take_map min_def)
  also have "\<dots> = ''stop''" unfolding a by (simp add: end_line_def eol_def)
  finally show "take 4 (image (take k s)) = ''stop''" .
qed

section \<open>Properties\<close>

lemma buffer_room: "length ([] :: string) < MAX_BUF - 1"
  by (simp add: MAX_BUF_def)

lemma read_request_start:
  assumes "list_ex eol (concat cs) \<or> MAX_BUF - 1 \<le> length (concat cs)"
  shows "\<exists>k \<le> length (concat cs). k \<le> MAX_BUF \<and>
    read_request (peer cs) 0 0 False (replicate MAX_BUF NUL) =
      Some (image (take k (concat cs)), list_ex eol (take k (concat cs))) \<and>
    (list_ex eol (take k (concat cs)) \<or> MAX_BUF - 1 \<le> k)"
  using read_request_chunks [OF serves_peer buffer_room, of cs] assms by (simp add: image_Nil)

lemma read_request_stuck:
  assumes "\<not> (list_ex eol (concat cs) \<or> MAX_BUF - 1 \<le> length (concat cs))"
  shows "read_request (peer cs) 0 0 False (replicate MAX_BUF NUL) = None"
  using read_request_chunks [OF serves_peer buffer_room, of cs] assms by (simp add: image_Nil)

text \<open>
  C34. Whatever a peer sends, in whatever pieces, before it closes the connection, the loop
  that reads a request returns exactly when an end of line is among it or it fills all but
  the last byte of the buffer; a peer that closes earlier leaves the thread in the loop for
  ever, since the end of the stream is not looked for.
\<close>

theorem read_request_ends:
  "read_request (peer cs) 0 0 False (replicate MAX_BUF NUL) \<noteq> None \<longleftrightarrow>
     (\<exists>c \<in> set (concat cs). c = CHR 0x0D \<or> c = CHR 0x0A) \<or> MAX_BUF - 1 \<le> length (concat cs)"
proof -
  have "list_ex eol (concat cs) \<longleftrightarrow> (\<exists>c \<in> set (concat cs). c = CHR 0x0D \<or> c = CHR 0x0A)"
    by (simp add: list_ex_iff eol_def)
  then show ?thesis using read_request_start [of cs] read_request_stuck [of cs] by fastforce
qed

text \<open>
  C32. Any request short of the end of the buffer, well formed or not, is handled without
  touching memory it must not touch: the client list stays well formed and within its
  capacity, the MAC lists stay free of duplicates, the marks and the capacity stay what
  they are, and a signal is raised exactly by a request that starts with \<open>stop\<close>, which
  changes nothing.
\<close>

theorem ndsctl_request_safe:
  assumes "daemon_inv w" "mac_lists_inv (w_conf w)" "w_MARK_AUTHENTICATED w \<noteq> 0"
    and "list_ex eol (concat cs)" "length (concat cs) + 10 \<le> MAX_BUF"
  shows "\<exists>reply sig w'. thread_ndsctl_handler v e (peer cs) w = Ok (reply, sig, w') \<and>
    daemon_inv w' \<and> mac_lists_inv (w_conf w') \<and> w_MARK_AUTHENTICATED w' = w_MARK_AUTHENTICATED w \<and>
    cf_maxclients (w_conf w') = cf_maxclients (w_conf w) \<and>
    sig = (if take 4 (concat cs) = ''stop'' then Some SIGINT else None) \<and> (sig \<noteq> None \<longrightarrow> w' = w)"
proof -
  obtain k where k: "k \<le> length (concat cs)"
    "read_request (peer cs) 0 0 False (replicate MAX_BUF NUL) = Some (image (take k (concat cs)), list_ex eol (take k (concat cs)))"
    and el: "list_ex eol (take k (concat cs))"
    using read_request_start [of cs] assms(4,5) by (auto simp: MAX_BUF_def)
  have "NUL \<in> set (drop 9 (image (take k (concat cs))))" using k(1) assms(5) by (auto simp: image_def)
  from dispatch_ok [OF assms(1-3) this, of v e]
  show ?thesis using k(2) unfolding image_stop [OF el]
    by (auto simp: thread_ndsctl_handler_def handled_ok_def sound_def)
qed

lemma sample_daemon_lists: "mac_lists_inv (w_conf sample_daemon)"
  by (simp add: sample_daemon_def sample_world_def mac_lists_inv_def config_defaults_def)

lemma ndsctl_request_safe_witness:
  "\<exists>reply sig w'. thread_ndsctl_handler sample_status good_env (peer [''stat'', ''us'' @ [CHR 0x0D, CHR 0x0A]]) sample_daemon =
     Ok (reply, sig, w') \<and> daemon_inv w' \<and> sig = None"
  using ndsctl_request_safe [OF sample_daemon_inv(1) sample_daemon_lists,
      of "[''stat'', ''us'' @ [CHR 0x0D, CHR 0x0A]]" sample_status good_env]
  by (auto simp: sample_daemon_inv eol_def MAX_BUF_def)

text \<open>
  C35. Each of the six MAC commands: when the list refuses the address the answer is No and
  nothing happens; otherwise the list is changed and the rule of the chain run, and the
  answer is Yes exactly when the rule took effect. When iptables fails the answer is No and
  the list stays changed.
\<close>

theorem ndsctl_mac_commands_spec:
  assumes "(handler, update, body) \<in>
     {(ndsctl_block, add_to_blocked_mac_list, ''-A ndsBLK -m mac --mac-source '' @ arg @ mark_rule w (w_MARK_BLOCKED w)),
      (ndsctl_unblock, remove_from_blocked_mac_list, ''-D ndsBLK -m mac --mac-source '' @ arg @ mark_rule w (w_MARK_BLOCKED w)),
      (ndsctl_allow, add_to_allowed_mac_list, ''-I ndsBLK -m mac --mac-source '' @ arg @ '' -j RETURN''),
      (ndsctl_unallow, remove_from_allowed_mac_list, ''-D ndsBLK -m mac --mac-source '' @ arg @ '' -j RETURN''),
      (ndsctl_trust, add_to_trusted_mac_list, ''-A ndsTRU -m mac --mac-source '' @ arg @ mark_rule w (w_MARK_TRUSTED w)),
      (ndsctl_untrust, remove_from_trusted_mac_list, ''-D ndsTRU -m mac --mac-source '' @ arg @ mark_rule w (w_MARK_TRUSTED w))}"
  shows "\<exists>reply w'. handler e arg w = Ok (reply, None, w') \<and> reply \<in> {''Yes'', ''No''} \<and>
    w_conf w' = snd (update arg (w_conf w)) \<and> w_clients w' = w_clients w \<and>
    effects (w_log w') = effects (w_log w) @ (if reply = ''Yes'' then [''iptables -t mangle '' @ body] else []) \<and>
    (fst (update arg (w_conf w)) \<noteq> 0 \<longrightarrow> reply = ''No'' \<and> w' = w) \<and>
    (fst (update arg (w_conf w)) = 0 \<longrightarrow> works e \<longrightarrow> reply = ''Yes'')"
proof -
  have r: "\<exists>reply w'. mac_command update rule e arg w = Ok (reply, None, w') \<and> reply \<in> {''Yes'', ''No''} \<and>
    w_conf w' = snd (update arg (w_conf w)) \<and> w_clients w' = w_clients w \<and>
    effects (w_log w') = effects (w_log w) @ (if reply = ''Yes'' then [''iptables -t mangle '' @ body] else []) \<and>
    (fst (update arg (w_conf w)) \<noteq> 0 \<longrightarrow> reply = ''No'' \<and> w' = w) \<and>
    (fst (update arg (w_conf w)) = 0 \<longrightarrow> works e \<longrightarrow> reply = ''Yes'')"
    if up: "update \<in> mac_updates" and rule: "\<And>w. rule e arg w = iptables_do_command e (b w) w"
      and b: "\<And>c. ipt_cmd (b (w\<lparr>w_conf := c\<rparr>)) = ''iptables -t mangle '' @ body" for update rule b body
  proof -
    from mac_command_result [of update rule e arg b w, OF up rule] obtain reply w' where
      "mac_command update rule e arg w = Ok (reply, None, w')" "reply \<in> {''Yes'', ''No''}"
      "same_daemon (w\<lparr>w_conf := snd (update arg (w_conf w))\<rparr>) w'"
      "effects (w_log w') = effects (w_log w) @
        (if reply = ''Yes'' then [ipt_cmd (b (w\<lparr>w_conf := snd (update arg (w_conf w))\<rparr>))] else [])"
      "fst (update arg (w_conf w)) \<noteq> 0 \<longrightarrow> reply = ''No'' \<and> w' = w"
      "fst (update arg (w_conf w)) = 0 \<longrightarrow> works e \<longrightarrow> reply = ''Yes''" by blast
    then show ?thesis
      using same_daemon_fields(1,2) [of "w\<lparr>w_conf := snd (update arg (w_conf w))\<rparr>" w']
      by (intro exI [of _ reply] exI [of _ w'] conjI) (simp_all add: b)
  qed
  from assms show ?thesis
    unfolding mac_handler_defs
    apply (elim insertE emptyE; clarify)
    apply (rule r, simp, rule iptables_block_mac_def, simp add: ipt_cmd_def mark_rule_def)
    apply (rule r, simp, rule iptables_unblock_mac_def, simp add: ipt_cmd_def mark_rule_def)
    apply (rule r, simp, rule iptables_allow_mac_def, simp add: ipt_cmd_def)
    apply (rule r, simp, rule iptables_unallow_mac_def, simp add: ipt_cmd_def)
    apply (rule r, simp, rule iptables_trust_mac_def, simp add: ipt_cmd_def mark_rule_def)
    apply (rule r, simp, rule iptables_untrust_mac_def, simp add: ipt_cmd_def mark_rule_def)
    done
qed

lemma sample_block: "fst (add_to_trusted_mac_list ''00:1a:22:33:44:5F'' (w_conf sample_daemon)) = 0"
  "cf_trustedmaclist (snd (add_to_trusted_mac_list ''00:1a:22:33:44:5F'' (w_conf sample_daemon))) = [''00:1a:22:33:44:5F'']"
  by (simp_all add: add_to_trusted_mac_list_def sample_mac sample_daemon_def config_defaults_def)

lemma ndsctl_mac_commands_spec_witness:
  "\<exists>w'. ndsctl_trust good_env ''00:1a:22:33:44:5F'' sample_daemon = Ok (''Yes'', None, w') \<and>
     cf_trustedmaclist (w_conf w') = [''00:1a:22:33:44:5F'']"
proof -
  obtain reply w' where r: "ndsctl_trust good_env ''00:1a:22:33:44:5F'' sample_daemon = Ok (reply, None, w')"
    "w_conf w' = snd (add_to_trusted_mac_list ''00:1a:22:33:44:5F'' (w_conf sample_daemon))"
    "fst (add_to_trusted_mac_list ''00:1a:22:33:44:5F'' (w_conf sample_daemon)) = 0 \<longrightarrow> works good_env \<longrightarrow> reply = ''Yes''"
    using ndsctl_mac_commands_spec [of ndsctl_trust add_to_trusted_mac_list _ "''00:1a:22:33:44:5F''" sample_daemon good_env]
    by blast
  then show ?thesis using sample_block works_good_env by simp
qed

text \<open>
  The auth command adds the client with the given address if it is not on the list and
  authenticates it: the answer Yes means that a client with that address is on the list in
  the authenticated state and that the other clients are the ones from before; the answer No
  that the clients are the ones from before.
\<close>

theorem ndsctl_auth_spec:
  assumes "daemon_inv w" "w_MARK_AUTHENTICATED w \<noteq> 0"
  shows "\<exists>reply w'. ndsctl_auth e arg w = Ok (reply, None, w') \<and> daemon_inv w' \<and> static w' = static w \<and>
    (reply = ''No'' \<and> clients (w_clients w') = clients (w_clients w) \<or>
     reply = ''Yes'' \<and> (\<exists>c \<in> set (clients (w_clients w')). c_ip c = arg \<and>
       c_fw_connection_state c = w_MARK_AUTHENTICATED w \<and>
       filter (\<lambda>x. ckey x \<noteq> ckey c) (clients (w_clients w')) = filter (\<lambda>x. ckey x \<noteq> ckey c) (clients (w_clients w))))"
  using ndsctl_auth_result [OF assms, of e arg "\<lambda>_. 0", unfolded keeps_def] by blast

lemma ndsctl_auth_spec_witness:
  "\<exists>reply w'. ndsctl_auth arp_env ''10.0.0.3'' sample_daemon = Ok (reply, None, w') \<and> daemon_inv w'"
  using ndsctl_auth_spec [OF sample_daemon_inv(1), of arp_env "''10.0.0.3''"] by (auto simp: sample_daemon_inv)

text \<open>
  The deauth command takes exactly one client off the list: the first with the given IP
  address or, when there is none, the first with the given MAC address; without either the
  answer is No and nothing happens.
\<close>

theorem ndsctl_deauth_spec:
  assumes "daemon_inv w"
  shows "\<exists>reply w'. ndsctl_deauth e arg w = Ok (reply, None, w') \<and> daemon_inv w' \<and> static w' = static w \<and>
    (case (case List.find (\<lambda>c. c_ip c = arg) (clients (w_clients w)) of
        Some c \<Rightarrow> Some c | None \<Rightarrow> List.find (\<lambda>c. c_mac c = arg) (clients (w_clients w))) of
      None \<Rightarrow> reply = ''No'' \<and> w' = w
    | Some c \<Rightarrow> reply = ''Yes'' \<and>
        clients (w_clients w') = filter (\<lambda>x. ckey x \<noteq> ckey c) (clients (w_clients w)))"
  using ndsctl_deauth_result [OF assms, of e arg "\<lambda>_. 0", unfolded keeps_def] by blast

lemma ndsctl_deauth_spec_witness:
  "\<exists>w'. ndsctl_deauth good_env ''00:1a:22:33:44:5f'' sample_daemon = Ok (''Yes'', None, w') \<and> clients (w_clients w') = []"
  using ndsctl_deauth_spec [OF sample_daemon_inv(1), of good_env "''00:1a:22:33:44:5f''"]
  by (auto simp: sample_daemon_inv sample_client_def new_client_def)

end
