(* ===== verification/HttpdRead.thy ===== *)
theory HttpdRead
  imports HttpdRequest
begin

text \<open>
  Reading from the connection as the code does it (\<^verbatim>\<open>_httpd_readChar\<close>, \<^verbatim>\<open>_httpd_readLine\<close> and
  \<^verbatim>\<open>_httpd_readBuf\<close> in \<^verbatim>\<open>libhttpd/protocol.c\<close>): through a buffer of 4096 bytes that is filled by
  whatever a read returns. The other theories read from one string of bytes; this one shows that
  it makes no difference.
\<close>

section \<open>The buffer\<close>

definition HTTP_READ_BUF_LEN :: nat where
  "HTTP_READ_BUF_LEN = 4096"

text \<open>
  \<^verbatim>\<open>readBufRemain\<close>, the bytes from \<^verbatim>\<open>readBufPtr\<close> on, and the number of reads made. \<open>rd n len\<close> is
  the result of the \<open>n\<close>-th read: \<open>None\<close> for an error, \<open>Some []\<close> for the end or the time limit.
\<close>

record read_state =
  rd_remain :: int
  rd_ptr :: string
  rd_calls :: nat

type_synonym reads = "nat \<Rightarrow> nat \<Rightarrow> string option"

text \<open>After an error no caller reads again; it would go through the old pointer.\<close>

definition httpd_readChar :: "reads \<Rightarrow> read_state \<Rightarrow> (char option \<times> read_state) result" where
  "httpd_readChar rd st =
     (if rd_remain st = 0 then
        (let st1 = st\<lparr>rd_calls := Suc (rd_calls st)\<rparr> in
         case rd (rd_calls st) HTTP_READ_BUF_LEN of
           None \<Rightarrow> Ok (None, st1\<lparr>rd_remain := -1\<rparr>)
         | Some [] \<Rightarrow> Ok (None, st1)
         | Some (c # s) \<Rightarrow> Ok (Some c, st1\<lparr>rd_remain := int (length (c # s)) - 1, rd_ptr := s\<rparr>))
      else case rd_ptr st of
        [] \<Rightarrow> Undef
      | c # s \<Rightarrow> Ok (Some c, st\<lparr>rd_remain := rd_remain st - 1, rd_ptr := s\<rparr>))"

text \<open>
  Carriage returns are not counted, so a peer that sends nothing else keeps the loop busy. A line
  that fills the buffer is terminated behind it.
\<close>

partial_function (option) read_line :: "reads \<Rightarrow> string \<Rightarrow> read_state \<Rightarrow> (string option \<times> read_state) result option" where
  "read_line rd dst st =
     (if length dst < HTTP_MAX_LEN then
        (case httpd_readChar rd st of
           Ok (None, st1) \<Rightarrow> Some (Ok (None, st1))
         | Ok (Some c, st1) \<Rightarrow>
             if c = nl \<or> 128 \<le> cc c then Some (Ok (Some (c_string dst), st1))
             else if c = CHR 0x0D then read_line rd dst st1
             else read_line rd (dst @ [c]) st1
         | Exit n \<Rightarrow> Some (Exit n)
         | Undef \<Rightarrow> Some Undef)
      else Some Undef)"

fun httpd_readBuf :: "reads \<Rightarrow> nat \<Rightarrow> read_state \<Rightarrow> (string option \<times> read_state) result" where
  "httpd_readBuf rd 0 st = Ok (Some [], st)"
| "httpd_readBuf rd (Suc len) st =
     rbind (httpd_readChar rd st) (\<lambda>(c, st1). case c of
         None \<Rightarrow> Ok (None, st1)
       | Some c \<Rightarrow> rbind (httpd_readBuf rd len st1) (\<lambda>(s, st2). Ok (map_option ((#) c) s, st2)))"

section \<open>What is still to be read\<close>

text \<open>The peer sends \<open>inp\<close> in pieces of any size from the \<open>n\<close>-th read on, then closes or falls silent.\<close>

inductive delivers :: "reads \<Rightarrow> nat \<Rightarrow> string \<Rightarrow> bool" for rd :: reads where
  ends: "rd n HTTP_READ_BUF_LEN \<in> {None, Some []} \<Longrightarrow> delivers rd n []"
| piece: "rd n HTTP_READ_BUF_LEN = Some s \<Longrightarrow> s \<noteq> [] \<Longrightarrow> delivers rd (Suc n) inp \<Longrightarrow> delivers rd n (s @ inp)"

inductive_cases delivers_NilE: "delivers rd n []"
inductive_cases delivers_ConsE: "delivers rd n (c # inp)"

definition pending :: "reads \<Rightarrow> read_state \<Rightarrow> string \<Rightarrow> bool" where
  "pending rd st inp \<longleftrightarrow> rd_remain st = int (length (rd_ptr st)) \<and>
     (\<exists>later. inp = rd_ptr st @ later \<and> delivers rd (rd_calls st) later)"

lemma readChar_end:
  assumes "pending rd st []"
  shows "\<exists>st'. httpd_readChar rd st = Ok (None, st')"
proof -
  from assms have "rd_remain st = 0" "delivers rd (rd_calls st) []" by (auto simp: pending_def)
  from this(2) have "rd (rd_calls st) HTTP_READ_BUF_LEN \<in> {None, Some []}" by (rule delivers_NilE) auto
  with \<open>rd_remain st = 0\<close> show ?thesis by (auto simp: httpd_readChar_def Let_def)
qed

lemma readChar_next:
  assumes "pending rd st (c # inp)"
  shows "\<exists>st'. httpd_readChar rd st = Ok (Some c, st') \<and> pending rd st' inp"
proof (cases "rd_ptr st")
  case Nil
  with assms have z: "rd_remain st = 0" and d: "delivers rd (rd_calls st) (c # inp)" by (auto simp: pending_def)
  from d obtain s later where s: "rd (rd_calls st) HTTP_READ_BUF_LEN = Some s" "s \<noteq> []" "c # inp = s @ later"
    "delivers rd (Suc (rd_calls st)) later" by (rule delivers_ConsE) auto
  then obtain s' where s': "s = c # s'" "inp = s' @ later" by (cases s) auto
  with z s(1,4) show ?thesis by (auto simp: httpd_readChar_def pending_def)
next
  case (Cons b s)
  with assms show ?thesis by (auto simp: httpd_readChar_def pending_def)
qed

section \<open>Reading a line\<close>

definition line_read :: "reads \<Rightarrow> (string \<times> string) option result \<Rightarrow> (string option \<times> read_state) result option \<Rightarrow> bool" where
  "line_read rd spec r \<longleftrightarrow>
     (case spec of
        Ok None \<Rightarrow> (\<exists>st'. r = Some (Ok (None, st')))
      | Ok (Some (l, inp')) \<Rightarrow> (\<exists>st'. r = Some (Ok (Some l, st')) \<and> pending rd st' inp')
      | Exit n \<Rightarrow> False
      | Undef \<Rightarrow> r = Some Undef)"

lemma read_line_refines: "pending rd st inp \<Longrightarrow> line_read rd (httpd_readLine inp dst) (read_line rd dst st)"
proof (induction inp dst arbitrary: st rule: httpd_readLine.induct)
  case (1 dst)
  from readChar_end [OF 1] show ?case by (subst read_line.simps) (auto simp: line_read_def)
next
  case (2 c inp dst)
  obtain st' where st': "httpd_readChar rd st = Ok (Some c, st')" "pending rd st' inp" using readChar_next [OF 2(3)] by blast
  show ?case
  proof (cases "length dst < HTTP_MAX_LEN")
    case True
    with st' 2 show ?thesis by (subst read_line.simps) (auto simp: line_read_def)
  qed (subst read_line.simps, simp add: line_read_def)
qed

lemma readBuf_refines:
  "pending rd st inp \<Longrightarrow>
     (if length inp < len then \<exists>st'. httpd_readBuf rd len st = Ok (None, st')
      else \<exists>st'. httpd_readBuf rd len st = Ok (Some (take len inp), st') \<and> pending rd st' (drop len inp))"
proof (induction len arbitrary: st inp)
  case 0
  then show ?case by simp
next
  case (Suc len)
  show ?case
  proof (cases inp)
    case Nil
    with readChar_end Suc.prems show ?thesis by fastforce
  next
    case (Cons c rest)
    obtain st' where st': "httpd_readChar rd st = Ok (Some c, st')" "pending rd st' rest"
      using readChar_next Suc.prems Cons by blast
    from Suc.IH [OF st'(2)] st'(1) Cons show ?thesis by (auto split: if_splits)
  qed
qed

section \<open>Reading a request\<close>

partial_function (option) read_headers :: "reads \<Rightarrow> read_state \<Rightarrow> http_request \<Rightarrow> http_request result option" where
  "read_headers rd st r =
     (case read_line rd [] st of
        None \<Rightarrow> None
      | Some l \<Rightarrow> (case l of
          Ok (None, st1) \<Rightarrow> Some (Ok r)
        | Ok (Some buf, st1) \<Rightarrow>
            if buf = [] then Some (Ok r)
            else (case set_credentials buf r of
                Ok r1 \<Rightarrow> read_headers rd st1
                  (if strncasecmp_eq buf ''Host: '' 6 then r1\<lparr>rq_host := take (HTTP_MAX_URL - 1) (drop 6 buf)\<rparr> else r1)
              | Exit c \<Rightarrow> Some (Exit c)
              | Undef \<Rightarrow> Some Undef)
        | Exit c \<Rightarrow> Some (Exit c)
        | Undef \<Rightarrow> Some Undef))"

text \<open>\<^verbatim>\<open>httpdReadRequest\<close> on a request whose buffer is empty.\<close>

definition read_state_init :: read_state where
  "read_state_init = \<lparr>rd_remain = 0, rd_ptr = [], rd_calls = 0\<rparr>"

definition buffered_request :: "reads \<Rightarrow> http_request \<Rightarrow> (int \<times> http_request) result option" where
  "buffered_request rd r =
     (case read_line rd [] read_state_init of
        None \<Rightarrow> None
      | Some l \<Rightarrow> (case l of
          Ok (None, st1) \<Rightarrow> Some (Ok (0, split_query r))
        | Ok (Some buf, st1) \<Rightarrow> (case first_line buf of
            Ok None \<Rightarrow> Some (Ok (-1, r\<lparr>rs_sent := rs_sent r @ HTTP_METHOD_ERROR @ takeWhile isalpha buf\<rparr>))
          | Ok (Some (m, path)) \<Rightarrow>
              map_option (\<lambda>h. rbind h (\<lambda>r'. Ok (0, split_query r'))) (read_headers rd st1 (r\<lparr>rq_method := m, rq_path := path\<rparr>))
          | Exit c \<Rightarrow> Some (Exit c)
          | Undef \<Rightarrow> Some Undef)
        | Exit c \<Rightarrow> Some (Exit c)
        | Undef \<Rightarrow> Some Undef))"

text \<open>The three ways a line is read.\<close>

lemma read_line_cases:
  assumes "pending rd st inp"
  obtains st1 where "httpd_readLine inp [] = Ok None" "read_line rd [] st = Some (Ok (None, st1))"
    | l inp' st1 where "httpd_readLine inp [] = Ok (Some (l, inp'))" "read_line rd [] st = Some (Ok (Some l, st1))" "pending rd st1 inp'"
    | "httpd_readLine inp [] = Undef" "read_line rd [] st = Some Undef"
  using read_line_refines [OF assms, of "[]"] that
  by (auto simp: line_read_def split: result.splits option.splits)

lemma read_headers_refines: "pending rd st inp \<Longrightarrow> read_headers rd st r = Some (header_lines inp r)"
proof (induction inp r arbitrary: st rule: header_lines.induct)
  case (1 inp r)
  from "1.prems" show ?case
  proof (cases rule: read_line_cases)
    case (1 st1)
    then show ?thesis by (subst read_headers.simps) (simp add: header_lines.simps [of inp])
  next
    case (2 l inp' st1)
    show ?thesis
    proof (cases "l = []")
      case True
      with 2 show ?thesis by (subst read_headers.simps) (simp add: header_lines.simps [of inp])
    next
      case False
      note IH = "1.IH" [OF 2(1) refl refl False _ 2(3)]
      show ?thesis
        using 2(1,2) False IH by (subst read_headers.simps) (simp add: header_lines.simps [of inp] split: result.split)
    qed
  next
    case 3
    then show ?thesis by (subst read_headers.simps) (simp add: header_lines.simps [of inp])
  qed
qed

lemma buffered_request_refines:
  assumes "delivers rd 0 inp"
  shows "buffered_request rd r = Some (httpdReadRequest inp r)"
proof -
  have "pending rd read_state_init inp" using assms by (simp add: pending_def read_state_init_def)
  then show ?thesis
  proof (cases rule: read_line_cases)
    case (2 l inp' st1)
    then show ?thesis
      by (simp add: buffered_request_def httpdReadRequest_def read_headers_refines split: result.split option.split prod.split)
  qed (simp_all add: buffered_request_def httpdReadRequest_def)
qed

text \<open>Whatever the peer sends, its address stays.\<close>

lemma read_headers_addr:
  assumes "read_headers rd st r = Some (Ok r')"
  shows "rq_clientAddr r' = rq_clientAddr r"
proof -
  have "\<forall>r''. Ok r' = Ok r'' \<longrightarrow> rq_clientAddr r'' = rq_clientAddr r"
  proof (rule read_headers.raw_induct [where P = "\<lambda>rd st r q. \<forall>r''. q = Ok r'' \<longrightarrow> rq_clientAddr r'' = rq_clientAddr r",
        OF _ assms], goal_cases)
    case (1 f rd st r q)
    from 1(2) show ?case
      by (auto split: option.splits result.splits prod.splits if_splits dest!: set_credentials_addr 1(1))
  qed
  then show ?thesis by simp
qed

lemma buffered_request_addr: "buffered_request rd r = Some (Ok (rc, r')) \<Longrightarrow> rq_clientAddr r' = rq_clientAddr r"
  by (auto simp: buffered_request_def split_query_addr rbind_Ok_iff split: option.splits result.splits prod.splits
      dest!: read_headers_addr)

section \<open>Properties\<close>

text \<open>
  C40. However the bytes of a request are cut into pieces on their way, reading it through the
  buffer of the connection gives what reading it from the whole string gives: the same method,
  path, variables and credentials, the same error, or the same overrun of a line.
\<close>

theorem request_in_pieces:
  assumes "delivers rd 0 inp"
  shows "buffered_request rd r = Some (httpdReadRequest inp r)"
  using assms by (rule buffered_request_refines)

definition sample_pieces :: reads where
  "sample_pieces n k = Some (if n = 0 then ''GE'' else if n = 1 then ''T / HTTP/1.0'' @ [CHR 0x0D] else
     if n = 2 then [nl, CHR 0x0D, nl] else [])"

lemma request_in_pieces_witness:
  "\<exists>r. buffered_request sample_pieces (request_init ''10.0.0.2'') = Some (Ok (0, r)) \<and> rq_method r = HTTP_GET \<and> rq_path r = ''/''"
proof -
  have "delivers sample_pieces 3 []" by (rule delivers.ends) (simp add: sample_pieces_def)
  then have "delivers sample_pieces 0 (''GE'' @ (''T / HTTP/1.0'' @ [CHR 0x0D]) @ [nl, CHR 0x0D, nl] @ [])"
    by (intro delivers.piece) (simp_all add: sample_pieces_def eval_nat_numeral)
  from request_in_pieces [OF this, of "request_init ''10.0.0.2''"]
  have b: "buffered_request sample_pieces (request_init ''10.0.0.2'') =
      Some (httpdReadRequest (''GET '' @ ''/'' @ '' HTTP/1.0'' @ [CHR 0x0D, nl, CHR 0x0D, nl]) (request_init ''10.0.0.2''))" by simp
  have "httpd_sanitiseUrl ''/'' = ''/''" by (simp add: httpd_sanitiseUrl_def merge_slashes.simps drop_dots.simps drop_dotdots.simps dotdot_def)
  then show ?thesis using read_get [of "''/''" "request_init ''10.0.0.2''"] unfolding b
    by (simp add: url_char_def HTTP_MAX_URL_def cc_def NUL_def nl_def split_query_def)
qed

end
