(* ===== verification/Http.thy ===== *)
theory Http
  imports Ndsctl HttpdRead CenterServer
begin

text \<open>
  The pages of the portal (\<^verbatim>\<open>src/http.c\<close>): first contact and redirection to the
  authentication server, the links that carry the token of a client, the verification of a
  token, authentication and revocation, the check of user name and password, and the
  handling of one request from its first byte to its response (\<^verbatim>\<open>src/httpd_thread.c\<close>).
  The version, the current time, the files of the web root (their content, and their size and time
  of modification), when the server was started, and the network are parameters, and so is
  \<open>h_unset\<close>, what a caller finds when \<^verbatim>\<open>token_verify\<close> returns without a value.
\<close>

record http_env =
  h_status :: status_env
  h_now :: int
  h_file :: "string \<Rightarrow> string option"
  h_stat :: "string \<Rightarrow> (int \<times> int) option"
  h_startTime :: int
  h_net :: net
  h_unset :: int

definition h_date :: "http_env \<Rightarrow> string" where
  "h_date h = httpd_formatTimeString (h_now h) 0"

section \<open>Links\<close>

record t_auth_target =
  at_ip :: string
  at_port :: "32 word"
  at_authdir :: string
  at_denydir :: string
  at_authaction :: string
  at_denyaction :: string
  at_authtarget :: string
  at_token :: string
  at_redir :: string
  at_voucher :: "string option"
  at_username :: "string option"
  at_password :: "string option"
  at_info :: "string option"

definition http_nodogsplash_make_authtarget :: "s_config \<Rightarrow> string \<Rightarrow> string \<Rightarrow> t_auth_target result" where
  "http_nodogsplash_make_authtarget c token redir =
     rbind (of_opt (cf_gw_address c)) (\<lambda>ip.
       let base = ''http://'' @ ip @ '':'' @ fmt_d (sint (cf_gw_port c)) @ ''/'';
           authaction = base @ cf_authdir c @ ''/''
       in Ok \<lparr>at_ip = ip, at_port = cf_gw_port c, at_authdir = cf_authdir c, at_denydir = cf_denydir c,
            at_authaction = authaction, at_denyaction = base @ cf_denydir c @ ''/'',
            at_authtarget = authaction @ ''?redir='' @ httpdUrlEncode redir @ ''&tok='' @ httpdUrlEncode token,
            at_token = token, at_redir = redir, at_voucher = None, at_username = None, at_password = None,
            at_info = None\<rparr>)"

definition var_or_empty :: "http_request \<Rightarrow> string \<Rightarrow> string" where
  "var_or_empty r name = (case httpdGetVariableByName (rq_variables r) name of None \<Rightarrow> [] | Some v \<Rightarrow> v)"

definition http_nodogsplash_decode_authtarget :: "s_config \<Rightarrow> http_request \<Rightarrow> t_auth_target result" where
  "http_nodogsplash_decode_authtarget c r =
     rbind (http_nodogsplash_make_authtarget c (var_or_empty r ''tok'') (var_or_empty r ''redir'')) (\<lambda>t.
       let get = httpdGetVariableByName (rq_variables r)
       in Ok (t\<lparr>at_username := get ''nodoguser'', at_password := get ''nodogpass'', at_info := get ''info'',
                at_voucher := get ''voucher''\<rparr>))"

definition http_nodogsplash_make_redir :: "s_config \<Rightarrow> string \<Rightarrow> string" where
  "http_nodogsplash_make_redir c origurl = (case cf_redirectURL c of Some u \<Rightarrow> u | None \<Rightarrow> origurl)"

section \<open>Pages\<close>

definition http_nodogsplash_405 :: "http_env \<Rightarrow> http_request \<Rightarrow> http_request" where
  "http_nodogsplash_405 h r =
     httpdPrintf (h_date h) ''405 Method Not Allowed'' (httpdSetResponse ''405 Method Not Allowed'' r)"

definition add_variables :: "(string \<times> string) list \<Rightarrow> http_request \<Rightarrow> http_request" where
  "add_variables l r = r\<lparr>rq_variables := fold (\<lambda>(n, v). httpdAddVariable n v) l (rq_variables r)\<rparr>"

text \<open>The lines of a file, each with its variables replaced.\<close>

function output_file :: "http_env \<Rightarrow> string \<Rightarrow> http_request \<Rightarrow> http_request result" where
  "output_file h fd r =
     (case fgets MAX_BUF fd of
        None \<Rightarrow> Ok r
      | Some (l, fd') \<Rightarrow>
          (case httpdOutput (h_date h) l r of
             Ok r' \<Rightarrow> output_file h fd' r'
           | Exit c \<Rightarrow> Exit c
           | Undef \<Rightarrow> Undef))"
  by pat_completeness auto
termination
  by (relation "measure (\<lambda>(h, fd, r). length fd)") (auto dest: fgets_decreases)

declare output_file.simps [simp del]

definition http_nodogsplash_serve_info ::
    "http_env \<Rightarrow> s_config \<Rightarrow> string \<Rightarrow> string \<Rightarrow> http_request \<Rightarrow> http_request result" where
  "http_nodogsplash_serve_info h c title content r =
     (let r1 = add_variables
            [(''gatewayname'', cf_gw_name c), (''version'', s_version (h_status h)), (''title'', title),
             (''content'', content), (''imagesdir'', ''/'' @ cf_imagesdir c), (''pagesdir'', ''/'' @ cf_pagesdir c)] r
      in case h_file h (cf_webroot c @ ''/'' @ cf_infoskelpage c) of
           None \<Rightarrow> Ok r1
         | Some fd \<Rightarrow> output_file h fd r1)"

definition http_callback_about :: "http_env \<Rightarrow> s_config \<Rightarrow> http_request \<Rightarrow> http_request result" where
  "http_callback_about h c r = http_nodogsplash_serve_info h c ''Nodogsplash Info''
     (''This is Nodogsplash version <b>'' @ s_version (h_status h) @ ''</b>'') r"

definition http_callback_status :: "http_env \<Rightarrow> env \<Rightarrow> http_request \<Rightarrow> world \<Rightarrow> (http_request \<times> world) result" where
  "http_callback_status h e r w =
     rbind (get_status_text (h_status h) e w) (\<lambda>(status, w1).
       rbind (http_nodogsplash_serve_info h (w_conf w1) ''Nodogsplash Status''
           (''<pre>'' @ [nl] @ status @ [nl] @ ''</pre>'') r) (\<lambda>r1. Ok (r1, w1)))"

definition http_nodogsplash_redirect :: "http_env \<Rightarrow> string \<Rightarrow> http_request \<Rightarrow> http_request" where
  "http_nodogsplash_redirect h url r =
     httpdPrintf (h_date h) (''<html><head></head><body><a href='' @ [CHR 0x27] @ url @ [CHR 0x27] @
         ''>Click here to continue to<br>'' @ url @ ''</a></body></html>'')
       (httpdAddHeader (''Location: http://'' @ url) (httpdSetResponse (''302 Found'' @ [nl]) r))"

definition remote_auth_url :: "s_config \<Rightarrow> t_auth_target \<Rightarrow> t_client \<Rightarrow> string" where
  "remote_auth_url c t client =
     str_opt (cf_auth_server c) @ '':'' @ fmt_d (sint (cf_auth_port c)) @ cptr_str (cf_auth_path c) @
     ''?uid='' @ fmt_d (cf_uid c) @ ''&authaction='' @ httpdUrlEncode (at_authaction t) @
     ''&redir='' @ httpdUrlEncode (at_redir t) @ ''&tok='' @ httpdUrlEncode (at_token t) @
     ''&mac='' @ httpdUrlEncode (c_mac client)"

definition http_nodogsplash_redirect_remote_auth ::
    "http_env \<Rightarrow> s_config \<Rightarrow> t_auth_target \<Rightarrow> t_client \<Rightarrow> http_request \<Rightarrow> http_request" where
  "http_nodogsplash_redirect_remote_auth h c t client r = http_nodogsplash_redirect h (remote_auth_url c t client) r"

definition splash_variables :: "s_config \<Rightarrow> t_auth_target \<Rightarrow> t_client \<Rightarrow> string \<Rightarrow> string \<Rightarrow> int \<Rightarrow> string \<Rightarrow> (string \<times> string) list" where
  "splash_variables c t client error_msg gw_mac nclients uptime =
     [(''error_msg'', error_msg), (''gatewayname'', cf_gw_name c), (''tok'', at_token t), (''redir'', at_redir t),
      (''authaction'', at_authaction t), (''denyaction'', at_denyaction t), (''authtarget'', at_authtarget t),
      (''clientip'', c_ip client), (''clientmac'', c_mac client), (''gatewaymac'', gw_mac),
      (''nclients'', fmt_d nclients), (''maxclients'', fmt_d (cf_maxclients c)), (''uptime'', uptime),
      (''imagesdir'', ''/'' @ cf_imagesdir c), (''pagesdir'', ''/'' @ cf_pagesdir c)]"

definition http_nodogsplash_serve_splash ::
    "http_env \<Rightarrow> env \<Rightarrow> t_auth_target \<Rightarrow> t_client \<Rightarrow> string \<Rightarrow> http_request \<Rightarrow> world \<Rightarrow> (http_request \<times> world) result" where
  "http_nodogsplash_serve_splash h e t client error_msg r w =
     (let c = w_conf w in
      if cf_remote_auth_action c \<noteq> None then Ok (http_nodogsplash_redirect_remote_auth h c t client r, w)
      else rbind (of_opt (cf_gw_mac c)) (\<lambda>gw_mac.
        case get_uptime_string (h_status h) e w of (uptime, w1) \<Rightarrow>
          let r1 = add_variables
                (splash_variables c t client error_msg gw_mac (get_client_list_length (w_clients w)) uptime) r
          in rbind (case h_file h (cf_webroot c @ ''/'' @ cf_splashpage c) of
                 None \<Rightarrow> http_nodogsplash_serve_info h c ''Nodogsplash Error'' ''Failed to open splash page'' r1
               | Some fd \<Rightarrow> output_file h fd r1)
               (\<lambda>r2. Ok (r2, w1))))"

section \<open>First contact\<close>

definition http_nodogsplash_first_contact :: "http_env \<Rightarrow> env \<Rightarrow> http_request \<Rightarrow> world \<Rightarrow> (http_request \<times> world) result" where
  "http_nodogsplash_first_contact h e r w =
     (if rq_method r \<noteq> HTTP_GET then Ok (http_nodogsplash_405 h r, w)
      else rbind (http_nodogsplash_add_client e (rq_clientAddr r) w) (\<lambda>(client, w1).
        case client of
          None \<Rightarrow> Ok (r, w1)
        | Some a \<Rightarrow> rbind (of_opt (hget (cl_heap (w_clients w1)) a)) (\<lambda>c.
            let origurl = rq_host r @ rq_path r @ (if rq_query r \<noteq> [] then ''?'' else []) @ rq_query r;
                redir = http_nodogsplash_make_redir (w_conf w1) origurl
            in rbind (of_opt (c_token c)) (\<lambda>token.
               rbind (http_nodogsplash_make_authtarget (w_conf w1) token redir) (\<lambda>t.
                 http_nodogsplash_serve_splash h e t c [] r w1)))))"

section \<open>Verification of a token\<close>

text \<open>
  \<^verbatim>\<open>token_verify\<close>: \<open>-1\<close> when the server cannot be reached, 1 when the body of its response
  is exactly the digit 1, and 0 otherwise. A response without an empty line leads to a
  \<^verbatim>\<open>return\<close> without a value; what the caller then finds is \<open>unset\<close>.
\<close>

definition verify_query :: "s_config \<Rightarrow> string \<Rightarrow> string \<Rightarrow> string" where
  "verify_query c request_token mac =
     snprintf_s 128 (''?uid='' @ fmt_d (cf_uid c) @ ''&token='' @ request_token @ ''&mac='' @ mac)"

definition token_verify :: "net \<Rightarrow> int \<Rightarrow> s_config \<Rightarrow> string \<Rightarrow> string \<Rightarrow> string \<Rightarrow> int result" where
  "token_verify n unset c version request_token mac =
     rbind (of_opt (cf_auth_server c)) (\<lambda>server.
     rbind (of_opt (resolve_host n server)) (\<lambda>res.
       case res of
         None \<Rightarrow> Ok (-1)
       | Some ip \<Rightarrow>
           (case http_get_request n (take 15 ip) (sint (cf_auth_port c)) (cf_token_verify_path c)
                 (verify_query c request_token mac) version MAX_BUF of
              None \<Rightarrow> Ok (-1)
            | Some buf \<Rightarrow> (case strstr buf (crlf @ crlf) of
                None \<Rightarrow> Ok unset
              | Some result \<Rightarrow> Ok (if drop 4 result = ''1'' then 1 else 0)))))"

section \<open>Authentication and revocation\<close>

definition http_nodogsplash_callback_action ::
    "http_env \<Rightarrow> env \<Rightarrow> http_request \<Rightarrow> t_auth_target \<Rightarrow> t_authaction \<Rightarrow> world \<Rightarrow> (http_request \<times> world) result" where
  "http_nodogsplash_callback_action h e r t action w =
     (let ip = rq_clientAddr r in
      case arp_get e ip w of
        (None, w1) \<Rightarrow> Ok (r, w1)
      | (Some mac, w1) \<Rightarrow>
          rbind (client_list_find ip mac (w_clients w1)) (\<lambda>client.
            case client of
              None \<Rightarrow> rbind (http_nodogsplash_serve_info h (w_conf w1) ''Nodogsplash Error''
                  ''You are not on the client list.'' r) (\<lambda>r1. Ok (r1, w1))
            | Some a \<Rightarrow> rbind (of_opt (hget (cl_heap (w_clients w1)) a)) (\<lambda>c.
                if c_token c = None then Ok (r, w1)
                else rbind (token_verify (h_net h) (h_unset h) (w_conf w1) (s_version (h_status h)) (at_token t) mac) (\<lambda>verified.
                  if verified \<le> 0 then rbind (http_nodogsplash_serve_info h (w_conf w1) ''Nodogsplash Error''
                      ''Tokens do not match.'' r) (\<lambda>r1. Ok (r1, w1))
                  else rbind (auth_client_action e ip mac action w1) (\<lambda>w2.
                    case action of
                      AUTH_MAKE_AUTHENTICATED \<Rightarrow> Ok (http_nodogsplash_redirect h (at_redir t) r, w2)
                    | AUTH_MAKE_DEAUTHENTICATED \<Rightarrow>
                        rbind (http_nodogsplash_serve_info h (w_conf w2) ''Nodogsplash Deny''
                          ''Authentication revoked.'' r) (\<lambda>r1. Ok (r1, w2)))))))"

definition http_nodogsplash_callback_auth :: "http_env \<Rightarrow> env \<Rightarrow> http_request \<Rightarrow> world \<Rightarrow> (http_request \<times> world) result" where
  "http_nodogsplash_callback_auth h e r w =
     rbind (http_nodogsplash_add_client e (rq_clientAddr r) w) (\<lambda>(client, w1).
       if client = None then Ok (r, w1)
       else rbind (http_nodogsplash_decode_authtarget (w_conf w1) r) (\<lambda>t.
         http_nodogsplash_callback_action h e r t AUTH_MAKE_AUTHENTICATED w1))"

definition http_nodogsplash_callback_deny :: "http_env \<Rightarrow> env \<Rightarrow> http_request \<Rightarrow> world \<Rightarrow> (http_request \<times> world) result" where
  "http_nodogsplash_callback_deny h e r w =
     rbind (http_nodogsplash_decode_authtarget (w_conf w) r) (\<lambda>t.
       http_nodogsplash_callback_action h e r t AUTH_MAKE_DEAUTHENTICATED w)"

text \<open>Every character a letter or a digit.\<close>

definition http_isAlphaNum :: "string \<Rightarrow> bool" where
  "http_isAlphaNum str \<longleftrightarrow> list_all isalnum str"

text \<open>
  The times and limits in the answer of a voucher program: the seconds, and the limits kept
  with the client.
\<close>

definition data_extract_bw :: "string \<Rightarrow> t_client \<Rightarrow> int \<times> t_client" where
  "data_extract_bw buff client =
     (let vals = map (\<lambda>v. case v of VNum n \<Rightarrow> s32 n | VStr _ \<Rightarrow> 0) (fst (scanf [SInt, SWs, SInt, SWs, SInt] buff));
          num = (\<lambda>i. if i < length vals then vals ! i else 0);
          seconds = num 0; upload = num 1; download = num 2
      in if vals = [] \<or> seconds < 1 \<or> upload < 0 \<or> download < 0
         then (0, client\<lparr>c_download_limit := 0, c_upload_limit := 0\<rparr>)
         else (seconds, client\<lparr>c_download_limit := download, c_upload_limit := upload\<rparr>))"

section \<open>User name and password\<close>

text \<open>\<^verbatim>\<open>strcmp\<close> of a configured value that may be missing and a given one.\<close>

definition matches :: "int \<Rightarrow> string option \<Rightarrow> string option \<Rightarrow> bool result" where
  "matches needed configured given =
     (if needed = 0 then Ok True
      else case given of
        None \<Rightarrow> Ok False
      | Some g \<Rightarrow> rbind (of_opt configured) (\<lambda>s. Ok (s = g)))"

definition http_nodogsplash_check_userpass ::
    "env \<Rightarrow> http_request \<Rightarrow> t_auth_target \<Rightarrow> world \<Rightarrow> (int \<times> world) result" where
  "http_nodogsplash_check_userpass e r t w =
     (let conf = w_conf w; ip = rq_clientAddr r in
      if cf_passwordauth conf = 0 \<and> cf_usernameauth conf = 0 then Ok (1, w)
      else case arp_get e ip w of
        (None, w1) \<Rightarrow> Ok (0, w1)
      | (Some mac, w1) \<Rightarrow>
          rbind (client_list_find ip mac (w_clients w1)) (\<lambda>client.
            case client of
              None \<Rightarrow> Ok (0, w1)
            | Some a \<Rightarrow> rbind (of_opt (hget (cl_heap (w_clients w1)) a)) (\<lambda>c.
                let attempts = s32 (c_attempts c + 1) in
                rbind (upd_world a (\<lambda>c. c\<lparr>c_attempts := attempts\<rparr>) w1) (\<lambda>w2.
                  if attempts > cf_passwordattempts conf then Ok (0, w2)
                  else rbind (matches (cf_usernameauth conf) (cf_username conf) (at_username t)) (\<lambda>u.
                    if \<not> u then Ok (0, w2)
                    else rbind (matches (cf_passwordauth conf) (cf_password conf) (at_password t)) (\<lambda>p.
                      Ok (if p then 1 else 0, w2)))))))"

section \<open>One request\<close>

datatype http_handler = H_index | H_auth | H_deny

text \<open>The content \<^verbatim>\<open>main_loop\<close> registers (\<^verbatim>\<open>src/gateway.c\<close>).\<close>

definition web_content :: "s_config \<Rightarrow> http_handler http_dirs" where
  "web_content c =
     httpdAddCWildcardContent (cf_denydir c) H_deny (httpdAddCWildcardContent (cf_authdir c) H_auth
       (httpdAddCContent ''/'' [] False H_index
         (httpdAddWildcardContent (cf_webroot c) (cf_pagesdir c) (cf_pagesdir c)
           (httpdAddWildcardContent (cf_webroot c) (cf_imagesdir c) (cf_imagesdir c) [([], [])]))))"

definition http_nodogsplash_callback_404 :: "http_env \<Rightarrow> env \<Rightarrow> http_request \<Rightarrow> world \<Rightarrow> (http_request \<times> world) result" where
  "http_nodogsplash_callback_404 h e r w = http_nodogsplash_first_contact h e r w"

definition http_nodogsplash_callback_index :: "http_env \<Rightarrow> env \<Rightarrow> http_request \<Rightarrow> world \<Rightarrow> (http_request \<times> world) result" where
  "http_nodogsplash_callback_index h e r w = http_nodogsplash_first_contact h e r w"

fun run_handler :: "http_handler \<Rightarrow> http_env \<Rightarrow> env \<Rightarrow> http_request \<Rightarrow> world \<Rightarrow> (http_request \<times> world) result" where
  "run_handler H_index = http_nodogsplash_callback_index"
| "run_handler H_auth = http_nodogsplash_callback_auth"
| "run_handler H_deny = http_nodogsplash_callback_deny"

definition serve_request :: "http_handler http_dirs \<Rightarrow> http_env \<Rightarrow> env \<Rightarrow> http_request \<Rightarrow> world \<Rightarrow> (http_request \<times> world) result" where
  "serve_request content h e r w =
     (let r0 = r\<lparr>rs_responseLength := 0\<rparr> in
      case httpdProcessRequest content (rq_path r) of
        Run f \<Rightarrow> run_handler f h e r0 w
      | Send_file p \<Rightarrow>
          (case httpd_sendFile (h_now h) p (h_stat h p) (case h_file h p of None \<Rightarrow> [] | Some bytes \<Rightarrow> bytes) r0 of
             Some r1 \<Rightarrow> Ok (r1, w)
           | None \<Rightarrow> http_nodogsplash_callback_404 h e (r0\<lparr>rs_contentType := content_type p (rs_contentType r0)\<rparr>) w)
      | Send_static data \<Rightarrow> rbind (httpd_sendStatic (h_now h) (h_startTime h) data r0) (\<lambda>r1. Ok (r1, w))
      | Not_found \<Rightarrow> http_nodogsplash_callback_404 h e r0 w
      | Invalid_path \<Rightarrow> Ok (r0, w))"

text \<open>One thread: what the peer at \<open>addr\<close> sends, and what it is sent.\<close>

definition thread_httpd :: "http_handler http_dirs \<Rightarrow> http_env \<Rightarrow> env \<Rightarrow> string \<Rightarrow> string \<Rightarrow> world \<Rightarrow> (string \<times> world) result" where
  "thread_httpd content h e addr input w =
     rbind (httpdReadRequest input (request_init addr)) (\<lambda>(rc, r).
       if rc = 0 then rbind (serve_request content h e r w) (\<lambda>(r', w'). Ok (rs_sent r', w'))
       else Ok (rs_sent r, w))"

text \<open>
  The same with the reads of the connection. It does not return while the peer sends carriage
  returns and nothing else, or headers without an end.
\<close>

definition httpd_thread :: "http_handler http_dirs \<Rightarrow> http_env \<Rightarrow> env \<Rightarrow> string \<Rightarrow> reads \<Rightarrow> world \<Rightarrow> (string \<times> world) result option" where
  "httpd_thread content h e addr rd w =
     map_option (\<lambda>q. rbind q (\<lambda>(rc, r).
       if rc = 0 then rbind (serve_request content h e r w) (\<lambda>(r', w'). Ok (rs_sent r', w'))
       else Ok (rs_sent r, w))) (buffered_request rd (request_init addr))"

lemma httpd_thread_pieces:
  "delivers rd 0 inp \<Longrightarrow> httpd_thread content h e addr rd w = Some (thread_httpd content h e addr inp w)"
  by (simp add: httpd_thread_def thread_httpd_def buffered_request_refines)

section \<open>What a request does to the daemon\<close>

lemma arp_get_tick: "arp_get e ip w = (m, w1) \<Longrightarrow> w1 = tick w"
  by (simp add: arp_get_def split: option.splits)

lemma serve_splash_clock:
  "http_nodogsplash_serve_splash h e t client msg r w = Ok (r', w') \<Longrightarrow> w' = w \<or> w' = tick w"
  by (auto simp: http_nodogsplash_serve_splash_def get_uptime_string_def time_now_def Let_def rbind_Ok_iff
      split: if_splits option.splits prod.splits)

lemma first_contact_effect:
  assumes "http_nodogsplash_first_contact h e r w = Ok (r', w')"
  shows "w' = w \<or> (\<exists>p w1. http_nodogsplash_add_client e (rq_clientAddr r) w = Ok (p, w1) \<and> (w' = w1 \<or> w' = tick w1))"
  using assms by (auto simp: http_nodogsplash_first_contact_def Let_def rbind_Ok_iff
      split: if_splits option.splits dest: serve_splash_clock)

text \<open>
  The token of a client counts as verified: what \<^verbatim>\<open>token_verify\<close> returns, or what the caller
  finds where it returns nothing, is positive.
\<close>

definition verdict :: "http_env \<Rightarrow> s_config \<Rightarrow> string \<Rightarrow> string \<Rightarrow> bool" where
  "verdict h c token mac \<longleftrightarrow>
     (\<exists>v. token_verify (h_net h) (h_unset h) c (s_version (h_status h)) token mac = Ok v \<and> 0 < v)"

lemma callback_action_effect:
  assumes "http_nodogsplash_callback_action h e r t action w = Ok (r', w')"
  shows "w' = tick w \<or> (\<exists>mac. fst (arp_get e (rq_clientAddr r) w) = Some mac \<and>
    verdict h (w_conf w) (at_token t) mac \<and> auth_client_action e (rq_clientAddr r) mac action (tick w) = Ok w')"
proof -
  obtain m w1 where a: "arp_get e (rq_clientAddr r) w = (m, w1)" by fastforce
  then have w1: "w1 = tick w" by (rule arp_get_tick)
  show ?thesis
  proof (cases m)
    case None
    with assms a w1 show ?thesis by (simp add: http_nodogsplash_callback_action_def)
  next
    case (Some mac)
    with assms a w1 show ?thesis
      by (cases action)
        (auto simp: http_nodogsplash_callback_action_def Let_def rbind_Ok_iff verdict_def
          split: option.splits if_splits)
  qed
qed

text \<open>Everything one request can do to the daemon.\<close>

definition web_effect :: "http_env \<Rightarrow> env \<Rightarrow> string \<Rightarrow> world \<Rightarrow> world \<Rightarrow> bool" where
  "web_effect h e addr w w' \<longleftrightarrow> w' \<in> {w, tick w} \<or>
     (\<exists>token mac. verdict h (w_conf w) token mac \<and> auth_client_action e addr mac AUTH_MAKE_DEAUTHENTICATED (tick w) = Ok w') \<or>
     (\<exists>p w1. http_nodogsplash_add_client e addr w = Ok (p, w1) \<and> (w' \<in> {w1, tick w1} \<or>
       (\<exists>token mac. verdict h (w_conf w1) token mac \<and> auth_client_action e addr mac AUTH_MAKE_AUTHENTICATED (tick w1) = Ok w')))"

lemma callback_auth_effect:
  "http_nodogsplash_callback_auth h e r w = Ok (r', w') \<Longrightarrow> web_effect h e (rq_clientAddr r) w w'"
  unfolding web_effect_def
  by (auto simp: http_nodogsplash_callback_auth_def rbind_Ok_iff split: if_splits dest!: callback_action_effect)

lemma callback_deny_effect:
  "http_nodogsplash_callback_deny h e r w = Ok (r', w') \<Longrightarrow> web_effect h e (rq_clientAddr r) w w'"
  unfolding web_effect_def
  by (auto simp: http_nodogsplash_callback_deny_def rbind_Ok_iff dest!: callback_action_effect)

lemma contact_effect:
  "http_nodogsplash_first_contact h e r w = Ok (r', w') \<Longrightarrow> web_effect h e (rq_clientAddr r) w w'"
  unfolding web_effect_def by (drule first_contact_effect) blast

lemma run_handler_effect:
  "run_handler f h e r w = Ok (r', w') \<Longrightarrow> web_effect h e (rq_clientAddr r) w w'"
  by (cases f) (simp_all add: http_nodogsplash_callback_index_def callback_auth_effect callback_deny_effect contact_effect)

lemma serve_request_effect:
  assumes "serve_request content h e r w = Ok (r', w')"
  shows "web_effect h e (rq_clientAddr r) w w'"
proof -
  let ?r = "r\<lparr>rs_responseLength := 0\<rparr>"
  have fc: "web_effect h e (rq_clientAddr r) w w'" if "http_nodogsplash_first_contact h e ?r w = Ok (r', w')"
    using contact_effect [OF that] by simp
  show ?thesis
  proof (cases "httpdProcessRequest content (rq_path r)")
    case (Run f)
    with assms run_handler_effect [of f h e ?r w] show ?thesis by (simp add: serve_request_def)
  next
    case (Send_file p)
    show ?thesis
    proof (cases "h_stat h p")
      case None
      with Send_file assms contact_effect [of h e "?r\<lparr>rs_contentType := content_type p (rs_contentType r)\<rparr>" w r' w']
      show ?thesis by (simp add: serve_request_def httpd_sendFile_def http_nodogsplash_callback_404_def)
    next
      case (Some st)
      with Send_file assms show ?thesis
        by (auto simp: serve_request_def httpd_sendFile_def web_effect_def Let_def split: prod.splits if_splits)
    qed
  next
    case (Send_static data)
    with assms show ?thesis by (auto simp: serve_request_def rbind_Ok_iff web_effect_def)
  next
    case Not_found
    with assms fc show ?thesis by (simp add: serve_request_def http_nodogsplash_callback_404_def)
  next
    case Invalid_path
    with assms show ?thesis by (simp add: serve_request_def web_effect_def)
  qed
qed

lemma header_lines_addr: "header_lines inp r = Ok r' \<Longrightarrow> rq_clientAddr r' = rq_clientAddr r"
proof (induction inp r arbitrary: r' rule: header_lines.induct)
  case (1 inp r)
  show ?case
  proof (cases "httpd_readLine inp []")
    case (Ok l)
    show ?thesis
    proof (cases l)
      case None
      with Ok "1.prems" show ?thesis by (simp add: header_lines.simps [of inp])
    next
      case (Some bi)
      obtain buf inp' where bi: "bi = (buf, inp')" by fastforce
      show ?thesis
      proof (cases "buf = []")
        case True
        with Ok Some bi "1.prems" show ?thesis by (simp add: header_lines.simps [of inp])
      next
        case buf: False
        show ?thesis
        proof (cases "set_credentials buf r")
          case r1: (Ok r1)
          have "header_lines inp' (if strncasecmp_eq buf ''Host: '' 6 then r1\<lparr>rq_host := take (HTTP_MAX_URL - 1) (drop 6 buf)\<rparr>
              else r1) = Ok r'"
            using "1.prems" Ok Some bi buf r1 by (simp add: header_lines.simps [of inp])
          from "1.IH" [OF Ok Some bi [symmetric] buf r1 this] set_credentials_addr [OF r1] show ?thesis by (simp split: if_splits)
        qed (use Ok Some bi buf "1.prems" in \<open>simp_all add: header_lines.simps [of inp]\<close>)
      qed
    qed
  qed (use "1.prems" in \<open>simp_all add: header_lines.simps [of inp]\<close>)
qed

lemma readRequest_addr: "httpdReadRequest inp r = Ok (rc, r') \<Longrightarrow> rq_clientAddr r' = rq_clientAddr r"
  by (auto simp: httpdReadRequest_def rbind_Ok_iff split_query_addr split: option.splits dest!: header_lines_addr)

lemma thread_effect:
  "thread_httpd content h e addr inp w = Ok (out, w') \<Longrightarrow> web_effect h e addr w w'"
  by (auto simp: thread_httpd_def rbind_Ok_iff request_init_def split: if_splits
      dest!: readRequest_addr serve_request_effect intro: web_effect_def [THEN iffD2])

lemma httpd_thread_effect:
  "httpd_thread content h e addr rd w = Some (Ok (out, w')) \<Longrightarrow> web_effect h e addr w w'"
  by (auto simp: httpd_thread_def rbind_Ok_iff request_init_def split: if_splits
      dest!: buffered_request_addr serve_request_effect intro: web_effect_def [THEN iffD2])

lemma web_effect_reachable:
  assumes "web_effect h e addr w w'"
  shows "reachable e w w'"
proof -
  have t: "reachable e w v \<Longrightarrow> reachable e w (tick v)" for v by (blast intro: reachable.step daemon_step.idle)
  have a: "reachable e w v \<Longrightarrow> auth_client_action e addr mac act (tick v) = Ok w' \<Longrightarrow> reachable e w w'" for v mac act
    using t by (blast intro: reachable.step daemon_step.access)
  have c: "http_nodogsplash_add_client e addr w = Ok (p, w1) \<Longrightarrow> reachable e w w1" for p w1
    by (rule reachable.step [OF reachable.start]) (rule daemon_step.contact)
  show ?thesis using assms t a c reachable.start unfolding web_effect_def by blast
qed

text \<open>The addresses of the authenticated clients.\<close>

definition authenticated :: "world \<Rightarrow> (string \<times> string) set" where
  "authenticated w = ckey ` {c \<in> set (clients (w_clients w)). c_fw_connection_state c = w_MARK_AUTHENTICATED w}"

lemma add_client_authenticated:
  assumes "daemon_inv w" "w_MARK_AUTHENTICATED w \<noteq> 0" "http_nodogsplash_add_client e ip w = Ok (p, w1)"
  shows "authenticated w1 = authenticated w"
proof -
  from add_client_keeps [OF assms(1,2), of e ip "\<lambda>_. 0"] assms(3)
  have k: "static w1 = static w" "clients (w_clients w1) = clients (w_clients w) \<or>
      (\<exists>mac t now i. clients (w_clients w1) = clients (w_clients w) @ [new_client ip mac (Some t) now i])"
    by (auto simp: keeps_def)
  from k(2) static_mark [OF k(1)] assms(2) show ?thesis
    by (auto simp: authenticated_def new_client_def FW_MARK_PREAUTHENTICATED_def)
qed

lemma tick_authenticated [simp]: "authenticated (tick w) = authenticated w"
  by (simp add: authenticated_def tick_def)

lemma auth_action_authenticated:
  assumes "daemon_inv w" "auth_client_action e ip mac act w = Ok w'"
  shows "authenticated w' \<subseteq> authenticated w \<union> (if act = AUTH_MAKE_AUTHENTICATED then {(ip, mac)} else {})"
proof (cases "List.find (\<lambda>c. ckey c = (ip, mac)) (clients (w_clients w))")
  case None
  then have "w' = w" using auth_client_action_keeps [OF assms(1), of e ip mac act "\<lambda>_. 0"] assms(2) by simp
  then show ?thesis by simp
next
  case (Some c)
  have "static w' = static w"
    using auth_client_action_keeps [OF assms(1), of e ip mac act "\<lambda>_. 0"] assms(2) by (auto simp: keeps_def)
  then have k: "w_MARK_AUTHENTICATED w' = w_MARK_AUTHENTICATED w" using static_mark by blast
  show ?thesis
  proof (cases act)
    case AUTH_MAKE_AUTHENTICATED
    then have cs: "clients (w_clients w') = update_first (\<lambda>x. ckey x = (ip, mac))
        (\<lambda>c. c\<lparr>c_fw_connection_state := w_MARK_AUTHENTICATED w\<rparr>) (clients (w_clients w))"
      using auth_client_action_keeps [OF assms(1), of e ip mac act "\<lambda>_. 0"] assms(2) Some by auto
    have "x \<in> set (update_first P f xs) \<Longrightarrow> x \<in> set xs \<or> (\<exists>y. P y \<and> x = f y)" for x :: t_client and P f xs
      by (induction xs) (auto split: if_splits)
    from this [of _ "\<lambda>x. ckey x = (ip, mac)"] show ?thesis
      unfolding authenticated_def cs k using AUTH_MAKE_AUTHENTICATED by fastforce
  next
    case AUTH_MAKE_DEAUTHENTICATED
    then have "clients (w_clients w') = filter (\<lambda>x. ckey x \<noteq> (ip, mac)) (clients (w_clients w))"
      using auth_client_action_keeps [OF assms(1), of e ip mac act "\<lambda>_. 0"] assms(2) Some by auto
    then show ?thesis unfolding authenticated_def k by auto
  qed
qed

lemma web_effect_authenticated:
  assumes "web_effect h e addr w w'" "daemon_inv w" "w_MARK_AUTHENTICATED w \<noteq> 0" "(ip, mac) \<in> authenticated w'"
    "(ip, mac) \<notin> authenticated w"
  shows "ip = addr \<and> (\<exists>token. verdict h (w_conf w) token mac)"
proof -
  have i: "daemon_inv (tick v)" if "daemon_inv v" for v using tick_keeps [OF that, of e] by (simp add: keeps_def)
  from assms(1) consider "w' \<in> {w, tick w}"
    | mac' where "auth_client_action e addr mac' AUTH_MAKE_DEAUTHENTICATED (tick w) = Ok w'"
    | p w1 where "http_nodogsplash_add_client e addr w = Ok (p, w1)" "w' \<in> {w1, tick w1}"
    | p w1 token mac' where "http_nodogsplash_add_client e addr w = Ok (p, w1)" "verdict h (w_conf w1) token mac'"
      "auth_client_action e addr mac' AUTH_MAKE_AUTHENTICATED (tick w1) = Ok w'"
    unfolding web_effect_def by blast
  then show ?thesis
  proof cases
    case 1
    with assms(4,5) show ?thesis by auto
  next
    case 2
    from auth_action_authenticated [OF i [OF assms(2)] 2] assms(4,5) show ?thesis by auto
  next
    case 3
    with add_client_authenticated [OF assms(2,3) 3(1)] assms(4,5) show ?thesis by auto
  next
    case 4
    have k: "static w1 = static w" "daemon_inv w1"
      using add_client_keeps [OF assms(2,3), of e addr "\<lambda>_. 0"] 4(1) by (auto simp: keeps_def)
    from auth_action_authenticated [OF i [OF k(2)] 4(3)] add_client_authenticated [OF assms(2,3) 4(1)] assms(4,5)
    have "ip = addr" "mac = mac'" by auto
    with 4(2) static_mark [OF k(1)] show ?thesis by auto
  qed
qed

text \<open>What the authentication server answered to the query for a token and a MAC address.\<close>

definition verify_response :: "http_env \<Rightarrow> s_config \<Rightarrow> string \<Rightarrow> string \<Rightarrow> string \<Rightarrow> bool" where
  "verify_response h c token mac response \<longleftrightarrow> (\<exists>server ip. cf_auth_server c = Some server \<and>
     resolve_host (h_net h) server = Some (Some ip) \<and>
     http_get_request (h_net h) (take 15 ip) (sint (cf_auth_port c)) (cf_token_verify_path c)
       (verify_query c token mac) (s_version (h_status h)) MAX_BUF = Some response)"

lemma verdict_response:
  assumes "verdict h c token mac"
  shows "\<exists>response. verify_response h c token mac response \<and>
    (strstr response (crlf @ crlf) = Some (crlf @ crlf @ ''1'') \<or>
     strstr response (crlf @ crlf) = None \<and> 0 < h_unset h)"
proof -
  from assms obtain server ip response where *: "cf_auth_server c = Some server"
    "resolve_host (h_net h) server = Some (Some ip)"
    "http_get_request (h_net h) (take 15 ip) (sint (cf_auth_port c)) (cf_token_verify_path c)
      (verify_query c token mac) (s_version (h_status h)) MAX_BUF = Some response"
    "case strstr response (crlf @ crlf) of None \<Rightarrow> 0 < h_unset h | Some result \<Rightarrow> drop 4 result = ''1''"
    unfolding verdict_def token_verify_def rbind_Ok_iff by (fastforce split: option.splits if_splits)
  show ?thesis
  proof (cases "strstr response (crlf @ crlf)")
    case (Some result)
    have "take 4 result = crlf @ crlf" using strstr_SomeD [OF Some] by (auto simp: crlf_def eval_nat_numeral)
    with *(4) Some have "result = crlf @ crlf @ ''1''" using append_take_drop_id [of 4 result] by simp
    with * Some show ?thesis by (auto simp: verify_response_def)
  qed (use * in \<open>auto simp: verify_response_def\<close>)
qed

section \<open>Logging in\<close>

lemma contact_present:
  assumes inv: "daemon_inv w" and m: "w_MARK_AUTHENTICATED w \<noteq> 0" and ip: "check_ip_format ip" "fst (arp_get e ip w) = Some mac"
    and room: "(ip, mac) \<in> ckey ` set (clients (w_clients w)) \<or> int (length (clients (w_clients w))) < cf_maxclients (w_conf w)"
  shows "\<exists>a w1 c. http_nodogsplash_add_client e ip w = Ok (Some a, w1) \<and> client_at (w_clients w1) a = Some c \<and>
    ckey c = (ip, mac) \<and> c \<in> set (clients (w_clients w1))"
proof -
  have l: "(if check_ip_format ip then arp_get e ip w else (None, w)) = (Some mac, tick w)"
    using ip by (auto simp: arp_get_def)
  let ?Q = "\<lambda>c. c_ip c = ip \<and> c_mac c = mac"
  have fits: "List.find ?Q (clients (w_clients w)) = None \<Longrightarrow> \<not> cf_maxclients (w_conf w) \<le> int (length (clients (w_clients w)))"
    using room by (auto simp: find_None_iff)
  have "\<exists>a s c. client_list_add_client (cf_maxclients (w_conf w)) (\<lambda>_. Some mac) (e_rand e (w_clock (tick w)))
      (e_rand e (Suc (w_clock (tick w)))) (e_time e (Suc (Suc (w_clock (tick w))))) ip (w_clients w) = Ok (Some a, s) \<and>
      client_at s a = Some c \<and> ckey c = (ip, mac)"
    using add_client_cases [where s = "w_clients w" and maxclients = "cf_maxclients (w_conf w)" and ip = ip
        and arp = "\<lambda>_. Some mac" and ra = "e_rand e (w_clock (tick w))" and rb = "e_rand e (Suc (w_clock (tick w)))"
        and now = "e_time e (Suc (Suc (w_clock (tick w))))"] inv ip(1) fits
    by (auto simp: daemon_inv_def new_client_def split: option.splits if_splits dest!: find_Some_mem)
  then obtain a s c where c: "client_list_add_client (cf_maxclients (w_conf w)) (\<lambda>_. Some mac) (e_rand e (w_clock (tick w)))
      (e_rand e (Suc (w_clock (tick w)))) (e_time e (Suc (Suc (w_clock (tick w))))) ip (w_clients w) = Ok (Some a, s)"
      "client_at s a = Some c" "ckey c = (ip, mac)" by blast
  let ?w1 = "(tick (tick (tick (tick w))))\<lparr>w_clients := s\<rparr>"
  have run: "http_nodogsplash_add_client e ip w = Ok (Some a, ?w1)"
    using l c(1) by (simp add: http_nodogsplash_add_client_def)
  with add_client_returns [OF inv, of e ip] c(2) have "c \<in> set (clients (w_clients ?w1))" by auto
  with run c(2,3) show ?thesis by (intro exI [of _ a] exI [of _ ?w1] exI [of _ c]) simp
qed

lemma find_present:
  assumes inv: "daemon_inv w" and c: "c \<in> set (clients (w_clients w))" "ckey c = (ip, mac)"
  shows "\<exists>a d. client_list_find ip mac (w_clients w) = Ok (Some a) \<and> hget (cl_heap (w_clients w)) a = Some d \<and> c_token d \<noteq> None"
proof -
  have ci: "clist_inv (w_clients w)" using inv by (simp add: daemon_inv_def)
  obtain p where p: "client_list_find ip mac (w_clients w) = Ok p"
    "case p of None \<Rightarrow> List.find (\<lambda>c. c_ip c = ip \<and> c_mac c = mac) (clients (w_clients w)) = None
     | Some a \<Rightarrow> client_at (w_clients w) a \<noteq> None \<and>
         List.find (\<lambda>c. c_ip c = ip \<and> c_mac c = mac) (clients (w_clients w)) = client_at (w_clients w) a"
    using find_refines [OF ci, of "\<lambda>c. Some (c_ip c = ip \<and> c_mac c = mac)" "\<lambda>c. c_ip c = ip \<and> c_mac c = mac"]
    by (auto simp: client_list_find_def)
  from c p(2) obtain a d where d: "p = Some a" "client_at (w_clients w) a = Some d"
    "List.find (\<lambda>c. c_ip c = ip \<and> c_mac c = mac) (clients (w_clients w)) = Some d"
    by (cases p) (auto simp: find_None_iff)
  have "c_token d \<noteq> None"
    using find_Some_mem [OF d(3)] inv by (auto simp: daemon_inv_def list_all_iff client_ok_def)
  with client_at_hget [OF d(2)] p(1) d(1) show ?thesis by auto
qed

lemma authenticate_present:
  assumes inv: "daemon_inv w" and c: "c \<in> set (clients (w_clients w))" "ckey c = (ip, mac)"
  shows "\<exists>w'. auth_client_action e ip mac AUTH_MAKE_AUTHENTICATED w = Ok w' \<and> (ip, mac) \<in> authenticated w'"
proof -
  let ?g = "\<lambda>c. c\<lparr>c_fw_connection_state := w_MARK_AUTHENTICATED w\<rparr>"
  obtain d where "List.find (\<lambda>x. ckey x = (ip, mac)) (clients (w_clients w)) = Some d"
    using find_key_mem [OF c(1)] c(2) by auto
  then obtain w' where w': "auth_client_action e ip mac AUTH_MAKE_AUTHENTICATED w = Ok w'" "keeps e (\<lambda>_. 0) w w'"
    "clients (w_clients w') = update_first (\<lambda>x. ckey x = (ip, mac)) ?g (clients (w_clients w))"
    using auth_client_action_keeps [OF inv, of e ip mac AUTH_MAKE_AUTHENTICATED "\<lambda>_. 0"]
    by (elim exE conjE) (simp only: option.case t_authaction.case)
  have "\<exists>y \<in> set (clients (w_clients w)). ckey y = (ip, mac) \<and> ?g y \<in> set (clients (w_clients w'))"
    unfolding w'(3) by (rule update_first_mem [OF c(1)]) (rule c(2))
  then obtain y where "ckey y = (ip, mac)" "?g y \<in> set (clients (w_clients w'))"
    by (elim bexE conjE) (rule that)
  moreover have "w_MARK_AUTHENTICATED w' = w_MARK_AUTHENTICATED w" using w'(2) static_mark [of w' w] by (simp add: keeps_def)
  ultimately have "?g y \<in> {c \<in> set (clients (w_clients w')). c_fw_connection_state c = w_MARK_AUTHENTICATED w'}"
    "(ip, mac) = ckey (?g y)" by simp_all
  then have "(ip, mac) \<in> authenticated w'" unfolding authenticated_def by (rule rev_image_eqI)
  with w'(1) show ?thesis by blast
qed

lemma callback_auth_succeeds:
  assumes inv: "daemon_inv w" and m: "w_MARK_AUTHENTICATED w \<noteq> 0"
    and ip: "check_ip_format (rq_clientAddr r)" "\<And>v. fst (arp_get e (rq_clientAddr r) v) = Some mac"
    and room: "(rq_clientAddr r, mac) \<in> ckey ` set (clients (w_clients w)) \<or>
      int (length (clients (w_clients w))) < cf_maxclients (w_conf w)"
    and t: "http_nodogsplash_decode_authtarget (w_conf w) r = Ok t" "verdict h (w_conf w) (at_token t) mac"
  shows "\<exists>w'. http_nodogsplash_callback_auth h e r w = Ok (http_nodogsplash_redirect h (at_redir t) r, w') \<and>
    (rq_clientAddr r, mac) \<in> authenticated w'"
proof -
  obtain a w1 c where c: "http_nodogsplash_add_client e (rq_clientAddr r) w = Ok (Some a, w1)"
    "c \<in> set (clients (w_clients w1))" "ckey c = (rq_clientAddr r, mac)"
    using contact_present [OF inv m ip(1) ip(2) room] by blast
  have k: "static w1 = static w" "daemon_inv w1"
    using add_client_keeps [OF inv m, of e "rq_clientAddr r" "\<lambda>_. 0"] c(1) by (auto simp: keeps_def)
  have i: "daemon_inv (tick w1)" "c \<in> set (clients (w_clients (tick w1)))"
    using tick_keeps [OF k(2), of e] c(2) by (simp_all add: keeps_def)
  have arp: "arp_get e (rq_clientAddr r) w1 = (Some mac, tick w1)"
    using ip(2) [of w1] by (simp add: arp_get_def)
  from find_present [OF i c(3)] obtain b d where d: "client_list_find (rq_clientAddr r) mac (w_clients (tick w1)) = Ok (Some b)"
    "hget (cl_heap (w_clients (tick w1))) b = Some d" "c_token d \<noteq> None" by blast
  from d(3) obtain tok where tok: "c_token d = Some tok" by blast
  from authenticate_present [OF i c(3), of e] obtain w' where
    w': "auth_client_action e (rq_clientAddr r) mac AUTH_MAKE_AUTHENTICATED (tick w1) = Ok w'"
      "(rq_clientAddr r, mac) \<in> authenticated w'" by blast
  have conf: "w_conf w1 = w_conf w" using static_mark [OF k(1)] by simp
  obtain v where v: "token_verify (h_net h) (h_unset h) (w_conf w) (s_version (h_status h)) (at_token t) mac = Ok v" "\<not> v \<le> 0"
    using t(2) by (auto simp: verdict_def)
  have "http_nodogsplash_callback_action h e r t AUTH_MAKE_AUTHENTICATED w1 = Ok (http_nodogsplash_redirect h (at_redir t) r, w')"
    using arp d(1,2) tok w'(1) v conf by (simp add: http_nodogsplash_callback_action_def)
  then have "http_nodogsplash_callback_auth h e r w = Ok (http_nodogsplash_redirect h (at_redir t) r, w')"
    using c(1) t(1) conf by (simp add: http_nodogsplash_callback_auth_def)
  with w'(2) show ?thesis by blast
qed

section \<open>Links\<close>

text \<open>
  What the decoder makes of an escaped string: plus signs have become blanks. A C string has
  no NUL character to end it early.
\<close>

definition as_decoded :: "string \<Rightarrow> string" where
  "as_decoded s = c_string (map (\<lambda>c. if c = CHR ''+'' then CHR '' '' else c) s)"

text \<open>What a browser sends for a path.\<close>

definition browser_get :: "string \<Rightarrow> string" where
  "browser_get url = ''GET '' @ url @ '' HTTP/1.0'' @ crlf @ crlf"

definition link_path :: "s_config \<Rightarrow> string \<Rightarrow> string \<Rightarrow> string" where
  "link_path c token redir =
     ''/'' @ cf_authdir c @ ''/?redir='' @ httpdUrlEncode redir @ ''&tok='' @ httpdUrlEncode token"

lemma authtarget_link:
  assumes "http_nodogsplash_make_authtarget c token redir = Ok t"
  shows "\<exists>ip. cf_gw_address c = Some ip \<and>
    at_authtarget t = ''http://'' @ ip @ '':'' @ fmt_d (sint (cf_gw_port c)) @ link_path c token redir"
  using assms by (auto simp: http_nodogsplash_make_authtarget_def link_path_def rbind_Ok_iff Let_def)

lemma link_variables:
  "httpdGetVariableByName (httpd_storeData (''redir='' @ httpdUrlEncode redir @ ''&tok='' @ httpdUrlEncode token) []) m =
     (if m = ''redir'' then Some (as_decoded redir) else if m = ''tok'' then Some (as_decoded token) else None)"
proof -
  have n: "query_safe ''redir''" "query_safe ''tok''" "NUL \<notin> set ''redir''" "NUL \<notin> set ''tok''"
    by (simp_all add: query_safe_def NUL_def)
  have "httpd_storeData (''redir'' @ CHR ''='' # httpd_escape redir @ CHR ''&'' # ''tok'' @ CHR ''='' # httpd_escape token) [] =
      httpdAddVariable ''tok'' (as_decoded token) (httpdAddVariable ''redir'' (as_decoded redir) [])"
    using store_two_fields [OF n(1) escape_query_safe n(2) escape_query_safe n(3,4)]
    by (simp add: httpd_unescape_def unescape_escape as_decoded_def)
  then show ?thesis
    by (simp add: url_encode_escape vars.get_add isblank_def cc_def)
qed

lemma link_request:
  assumes "plain_name (cf_authdir c)" "length (link_path c token redir) < HTTP_MAX_URL"
  shows "\<exists>r. httpdReadRequest (browser_get (link_path c token redir)) (request_init addr) = Ok (0, r) \<and>
    rq_method r = HTTP_GET \<and> rq_clientAddr r = addr \<and> rq_path r = ''/'' @ cf_authdir c @ ''/'' \<and>
    rs_headers r = rs_headers (request_init addr) \<and> \<not> rs_headersSent r \<and> rs_sent r = [] \<and>
    (\<forall>m. httpdGetVariableByName (rq_variables r) m =
      (if m = ''redir'' then Some (as_decoded redir) else if m = ''tok'' then Some (as_decoded token) else None))"
proof -
  let ?q = "''redir='' @ httpdUrlEncode redir @ ''&tok='' @ httpdUrlEncode token"
  let ?r = "(request_init addr)\<lparr>rq_method := HTTP_GET, rq_path := link_path c token redir\<rparr>"
  have p: "link_path c token redir = ''/'' @ cf_authdir c @ ''/?'' @ ?q" by (simp add: link_path_def)
  have q: "list_all url_char ?q" "CHR ''/'' \<notin> set ?q"
    using escape_chars by (auto simp: url_encode_escape list_all_iff url_char_def cc_def NUL_def nl_def)
  have "list_all url_char (link_path c token redir)"
    using q(1) assms(1) unfolding p by (simp add: plain_name_def url_char_def cc_def NUL_def nl_def)
  moreover have "take 1 (link_path c token redir) = ''/''" by (simp add: p)
  moreover have "httpd_sanitiseUrl (link_path c token redir) = link_path c token redir"
    unfolding p by (rule sanitise_dir_query [OF assms(1) q(2)])
  ultimately have "httpdReadRequest (browser_get (link_path c token redir)) (request_init addr) = Ok (0, split_query ?r)"
    using read_get [OF _ _ assms(2), of "request_init addr"] by (simp add: browser_get_def crlf_def nl_def)
  moreover have "split_query ?r = ?r\<lparr>rq_path := ''/'' @ cf_authdir c @ ''/'', rq_query := take (HTTP_MAX_URL - 1) ?q,
      rq_variables := httpd_storeData ?q []\<rparr>"
    using split_dir_query [OF assms(1), of ?r ?q] by (simp add: p request_init_def)
  ultimately show ?thesis
    using link_variables by (simp add: request_init_def)
qed

lemma path_names_dir:
  assumes "plain_name d" "length d < HTTP_MAX_URL - 1"
  shows "path_names (CHR ''/'' # d) = [d]" "path_names d = [d]"
proof -
  have s: "CHR ''/'' \<notin> set x \<Longrightarrow> strsep_all (\<lambda>c. c = CHR ''/'') x = [x]" for x by (induction x) auto
  have "take (HTTP_MAX_URL - 1) d = d" "take (HTTP_MAX_URL - 1) (CHR ''/'' # d) = CHR ''/'' # d"
    using assms(2) by simp_all
  then show "path_names (CHR ''/'' # d) = [d]" "path_names d = [d]"
    using s [of d] assms(1) by (simp_all add: path_names_def plain_name_def)
qed

lemma route_auth:
  assumes "plain_name (cf_authdir c)" "path_names (cf_denydir c) \<noteq> [cf_authdir c]" "length (cf_authdir c) + 2 < HTTP_MAX_URL"
  shows "httpdProcessRequest (web_content c) (''/'' @ cf_authdir c @ ''/'') = Run H_auth"
proof -
  have "take (HTTP_MAX_URL - 1) (''/'' @ cf_authdir c @ ''/'') = ''/'' @ cf_authdir c @ ''/''" using assms(3) by simp
  moreover have "split_path (''/'' @ cf_authdir c @ ''/'') = Some (CHR ''/'' # cf_authdir c, [])"
    by (simp add: split_path_def)
  moreover have "length (cf_authdir c) < HTTP_MAX_URL - 1" using assms(3) by simp
  note path_names_dir [OF assms(1) this]
  ultimately show ?thesis
    using assms(2) by (simp add: httpdProcessRequest_def web_content_def httpdAddCWildcardContent_def add_content_def
        httpd_findContentDir_def)
qed

section \<open>Redirections\<close>

text \<open>Nothing has been sent, and the headers are the initial ones.\<close>

definition fresh :: "http_request \<Rightarrow> bool" where
  "fresh r \<longleftrightarrow> rs_headers r = rs_headers (request_init []) \<and> \<not> rs_headersSent r \<and> rs_sent r = []"

text \<open>
  The answer is a redirection to an address. The header that names it is cut where the buffer
  of the headers, of \<^verbatim>\<open>HTTP_MAX_HEADERS\<close> bytes, is full.
\<close>

definition server_header :: string where
  "server_header = ''Server: Hughes Technologies Embedded Server'' @ [nl]"

definition location_line :: "string \<Rightarrow> string" where
  "location_line url =
     (let loc = take (HTTP_MAX_HEADERS - 2 - length server_header) (''Location: http://'' @ url)
      in if last loc = nl then loc else loc @ [nl])"

definition redirects_to :: "string \<Rightarrow> string \<Rightarrow> bool" where
  "redirects_to url out \<longleftrightarrow> prefix (''HTTP/1.0 302 Found'' @ [nl] @ server_header @ location_line url @ ''Date: '') out"

text \<open>An address of up to 961 characters is named in full.\<close>

lemma location_whole:
  assumes "length url \<le> 961" "nl \<notin> set url"
  shows "location_line url = ''Location: http://'' @ url @ [nl]"
proof -
  have "length server_header = 44" by (simp add: server_header_def)
  then have "take (HTTP_MAX_HEADERS - 2 - length server_header) (''Location: http://'' @ url) = ''Location: http://'' @ url"
    using assms(1) by (intro take_all) (simp add: HTTP_MAX_HEADERS_def)
  moreover have "last (''Location: http://'' @ url) \<noteq> nl"
  proof (cases "url = []")
    case False
    have "last url \<noteq> nl" using assms(2) last_in_set [OF False] by metis
    with False show ?thesis by simp
  qed (simp add: nl_def)
  ultimately show ?thesis by (simp add: location_line_def Let_def del: append_Cons)
qed

lemma add_header_cut:
  assumes "2 + length (rs_headers r) < HTTP_MAX_HEADERS" "msg \<noteq> []"
  shows "rs_headers (httpdAddHeader msg r) = rs_headers r @
    (let l = take (HTTP_MAX_HEADERS - 2 - length (rs_headers r)) msg in if last l = nl then l else l @ [nl])"
proof -
  have n: "nat (int HTTP_MAX_HEADERS - 2 - int (length (rs_headers r))) = HTTP_MAX_HEADERS - 2 - length (rs_headers r)" by arith
  have "take (HTTP_MAX_HEADERS - 2 - length (rs_headers r)) msg \<noteq> []" using assms by simp
  with assms(1) show ?thesis unfolding httpdAddHeader_def Let_def n by simp
qed

lemma redirect_sent:
  assumes "fresh r"
  shows "redirects_to url (rs_sent (http_nodogsplash_redirect h url r))"
proof -
  let ?l = "''Location: http://'' @ url"
  have h: "rs_headers r = server_header" "\<not> rs_headersSent r" "rs_sent r = []"
    using assms by (simp_all add: fresh_def request_init_def server_header_def)
  let ?r = "httpdAddHeader ?l (httpdSetResponse (''302 Found'' @ [nl]) r)"
  have sr: "rs_headers (httpdSetResponse (''302 Found'' @ [nl]) r) = server_header"
    using h(1) by (simp add: httpdSetResponse_def)
  have hd: "rs_headers ?r = server_header @ location_line url"
    using add_header_cut [of "httpdSetResponse (''302 Found'' @ [nl]) r" ?l, unfolded sr]
    by (simp add: location_line_def HTTP_MAX_HEADERS_def) (simp add: server_header_def)
  have r: "rs_response ?r = ''302 Found'' @ [nl]" "\<not> rs_headersSent ?r" "rs_sent ?r = []"
    using h by (simp_all add: httpdAddHeader_def httpdSetResponse_def Let_def HTTP_MAX_URL_def)
  obtain body where "rs_sent (http_nodogsplash_redirect h url r) = ''HTTP/1.0 '' @ rs_response ?r @ rs_headers ?r @ ''Date: '' @ body"
    using r(2,3) by (simp add: http_nodogsplash_redirect_def httpdPrintf_def httpdSendHeaders_def httpd_sendHeaders_def
        net_write_def Let_def)
  then show ?thesis unfolding redirects_to_def r(1) hd by simp
qed

text \<open>The address a client asked for.\<close>

definition requested_url :: "http_request \<Rightarrow> string" where
  "requested_url r = rq_host r @ rq_path r @ (if rq_query r \<noteq> [] then ''?'' else []) @ rq_query r"

lemma contact_redirects:
  assumes inv: "daemon_inv w" and m: "w_MARK_AUTHENTICATED w \<noteq> 0" and r: "rq_method r = HTTP_GET" "fresh r"
    and conf: "cf_remote_auth_action (w_conf w) \<noteq> None" "cf_gw_address (w_conf w) = Some gw"
  shows "\<exists>p r' w'. http_nodogsplash_first_contact h e r w = Ok (r', w') \<and>
    http_nodogsplash_add_client e (rq_clientAddr r) w = Ok (p, w') \<and> authenticated w' = authenticated w \<and>
    (case p of None \<Rightarrow> r' = r
     | Some a \<Rightarrow> \<exists>c token t. client_at (w_clients w') a = Some c \<and> c \<in> set (clients (w_clients w')) \<and>
         c_ip c = rq_clientAddr r \<and> c_token c = Some token \<and>
         http_nodogsplash_make_authtarget (w_conf w) token (http_nodogsplash_make_redir (w_conf w) (requested_url r)) = Ok t \<and>
         redirects_to (remote_auth_url (w_conf w) t c) (rs_sent r'))"
proof -
  obtain p w' where a: "http_nodogsplash_add_client e (rq_clientAddr r) w = Ok (p, w')"
    "case p of None \<Rightarrow> clients (w_clients w') = clients (w_clients w)
     | Some a \<Rightarrow> \<exists>c. client_at (w_clients w') a = Some c \<and> c_ip c = rq_clientAddr r \<and> c \<in> set (clients (w_clients w')) \<and>
         filter (\<lambda>x. ckey x \<noteq> ckey c) (clients (w_clients w')) = filter (\<lambda>x. ckey x \<noteq> ckey c) (clients (w_clients w))"
    using add_client_returns [OF inv, of e "rq_clientAddr r"] by blast
  have k: "static w' = static w" "daemon_inv w'"
    using add_client_keeps [OF inv m, of e "rq_clientAddr r" "\<lambda>_. 0"] a(1) by (auto simp: keeps_def)
  note au = add_client_authenticated [OF inv m a(1)]
  have cw: "w_conf w' = w_conf w" using static_mark [OF k(1)] by simp
  show ?thesis
  proof (cases p)
    case None
    with a(1) r au show ?thesis by (simp add: http_nodogsplash_first_contact_def)
  next
    case (Some x)
    with a(2) obtain c where c: "client_at (w_clients w') x = Some c" "c_ip c = rq_clientAddr r" "c \<in> set (clients (w_clients w'))"
      by auto
    from client_at_hget [OF c(1)] obtain d where d: "hget (cl_heap (w_clients w')) x = Some d" "c = d\<lparr>c_next := None\<rparr>" by blast
    from c(3) k(2) obtain token where tok: "c_token c = Some token" by (auto simp: daemon_inv_def list_all_iff client_ok_def)
    let ?redir = "http_nodogsplash_make_redir (w_conf w) (requested_url r)"
    obtain t where t: "http_nodogsplash_make_authtarget (w_conf w) token ?redir = Ok t"
      using conf(2) by (simp add: http_nodogsplash_make_authtarget_def Let_def)
    have u: "remote_auth_url (w_conf w) t d = remote_auth_url (w_conf w) t c" by (simp add: remote_auth_url_def d(2))
    have "http_nodogsplash_first_contact h e r w =
        Ok (http_nodogsplash_redirect h (remote_auth_url (w_conf w) t c) r, w')"
      using a(1) Some d tok t r(1) conf(1) cw u
      by (simp add: http_nodogsplash_first_contact_def http_nodogsplash_serve_splash_def
          http_nodogsplash_redirect_remote_auth_def requested_url_def Let_def del: append.simps)
    with a(1) Some c tok t au redirect_sent [OF r(2)] show ?thesis by simp
  qed
qed

lemma follow_link:
  assumes inv: "daemon_inv w" and m: "w_MARK_AUTHENTICATED w \<noteq> 0"
    and conf: "cf_gw_address (w_conf w) = Some gw" "plain_name (cf_authdir (w_conf w))"
      "path_names (cf_denydir (w_conf w)) \<noteq> [cf_authdir (w_conf w)]"
      "length (link_path (w_conf w) token redir) < HTTP_MAX_URL"
    and ip: "check_ip_format addr" "\<And>v. fst (arp_get e addr v) = Some mac"
    and room: "(addr, mac) \<in> ckey ` set (clients (w_clients w)) \<or>
      int (length (clients (w_clients w))) < cf_maxclients (w_conf w)"
    and server: "verdict h (w_conf w) (as_decoded token) mac"
  shows "\<exists>out w'. thread_httpd (web_content (w_conf w)) h e addr (browser_get (link_path (w_conf w) token redir)) w = Ok (out, w') \<and>
    redirects_to (as_decoded redir) out \<and> (addr, mac) \<in> authenticated w'"
proof -
  obtain r where r: "httpdReadRequest (browser_get (link_path (w_conf w) token redir)) (request_init addr) = Ok (0, r)"
    "rq_clientAddr r = addr" "rq_path r = ''/'' @ cf_authdir (w_conf w) @ ''/''"
    "rs_headers r = rs_headers (request_init addr)" "\<not> rs_headersSent r" "rs_sent r = []"
    "\<And>m. httpdGetVariableByName (rq_variables r) m =
      (if m = ''redir'' then Some (as_decoded redir) else if m = ''tok'' then Some (as_decoded token) else None)"
    using link_request [OF conf(2,4), of addr] by blast
  let ?r = "r\<lparr>rs_responseLength := 0\<rparr>"
  obtain t where t: "http_nodogsplash_decode_authtarget (w_conf w) ?r = Ok t" "at_token t = as_decoded token" "at_redir t = as_decoded redir"
    using conf(1) r(7) by (simp add: http_nodogsplash_decode_authtarget_def http_nodogsplash_make_authtarget_def var_or_empty_def Let_def)
  obtain w' where w': "http_nodogsplash_callback_auth h e ?r w = Ok (http_nodogsplash_redirect h (at_redir t) ?r, w')"
    "(addr, mac) \<in> authenticated w'"
    using callback_auth_succeeds [OF inv m _ _ _ t(1), of e mac h] ip room server t(2) r(2) by auto
  have "length (cf_authdir (w_conf w)) + 2 < HTTP_MAX_URL" using conf(4) by (simp add: link_path_def)
  then have "httpdProcessRequest (web_content (w_conf w)) (rq_path r) = Run H_auth"
    unfolding r(3) by (rule route_auth [OF conf(2,3)])
  with w'(1) have "serve_request (web_content (w_conf w)) h e r w = Ok (http_nodogsplash_redirect h (at_redir t) ?r, w')"
    by (simp add: serve_request_def)
  with r(1) have "thread_httpd (web_content (w_conf w)) h e addr (browser_get (link_path (w_conf w) token redir)) w =
      Ok (rs_sent (http_nodogsplash_redirect h (at_redir t) ?r), w')"
    by (simp add: thread_httpd_def)
  moreover have "fresh ?r" using r(4-6) by (simp add: fresh_def request_init_def)
  ultimately show ?thesis using w'(2) redirect_sent [of ?r] t(3) by auto
qed

section \<open>A sample gateway\<close>

text \<open>
  The sample client is on the list and in the ARP cache, and the authentication server
  answers every query with the digit 1.
\<close>

definition gateway_world :: world where
  "gateway_world = sample_daemon\<lparr>w_conf := config_defaults\<lparr>cf_maxclients := 2, cf_gw_address := Some ''10.0.0.1''\<rparr>\<rparr>"

definition gateway_env :: env where
  "gateway_env = good_env\<lparr>e_arp := (\<lambda>n. Some (''IP address'' @ [nl] @
     concat (map (\<lambda>(i, m). arp_entry i m) [(''10.0.0.2'', ''00:1a:22:33:44:5f'')])))\<rparr>"

definition gateway_http :: http_env where
  "gateway_http = \<lparr>h_status = sample_status, h_now = 0, h_file = (\<lambda>p. None), h_stat = (\<lambda>p. None), h_startTime = 0,
     h_net = \<lparr>n_dns = (\<lambda>n h. Some ''10.1.1.1''), n_socket = (\<lambda>n. True), n_connect = (\<lambda>n ip port. True),
       n_read = (\<lambda>n k. Some (if n = 0 then ''HTTP/1.0 200 OK'' @ crlf @ crlf @ ''1'' else []))\<rparr>, h_unset = 0\<rparr>"

lemma gateway_inv:
  "daemon_inv gateway_world" "w_MARK_AUTHENTICATED gateway_world = 0x400" "w_conf gateway_world =
     config_defaults\<lparr>cf_maxclients := 2, cf_gw_address := Some ''10.0.0.1''\<rparr>"
  "clients (w_clients gateway_world) = [sample_client]"
  using sample_daemon_inv by (simp_all add: gateway_world_def daemon_inv_def)
     (simp add: sample_daemon_def sample_world_def)

lemma gateway_arp: "fst (arp_get gateway_env ''10.0.0.2'' v) = Some ''00:1a:22:33:44:5f''"
proof -
  have w: "\<forall>(i, m) \<in> set [(''10.0.0.2'', ''00:1a:22:33:44:5f'')]. arp_word 15 ipchar i \<and> arp_word 17 macchar m"
    by (simp add: arp_word_def ipchar_def macchar_def isdigit_def isxdigit_def cc_def)
  show ?thesis
    using arp_get_table [OF _ _ w, of gateway_env v "''IP address''" "''10.0.0.2''"]
    by (simp add: gateway_env_def nl_def)
qed

lemma gateway_conf:
  "plain_name (cf_authdir (w_conf gateway_world))"
  "path_names (cf_denydir (w_conf gateway_world)) \<noteq> [cf_authdir (w_conf gateway_world)]"
  "length (link_path (w_conf gateway_world) ''beef'' ''a.b/c'') < 900"
  "check_ip_format ''10.0.0.2''"
proof -
  have e: "httpd_escape ''beef'' = ''beef''" "httpd_escape ''a.b/c'' = ''a.b%2Fc''"
    by (simp_all add: ACCEPTABLE_def URL_XPALPHAS_def isAcceptable_def hex_digits_def cc_def)
  then show "length (link_path (w_conf gateway_world) ''beef'' ''a.b/c'') < 900"
    by (simp add: link_path_def url_encode_escape gateway_inv config_defaults_def)
  show "check_ip_format ''10.0.0.2''"
    using check_ip_dotted [of 10 0 0 2] by (simp add: udec_step udec_small char_of_def bit_0)
qed (simp_all add: gateway_inv config_defaults_def plain_name_def url_char_def cc_def NUL_def nl_def path_names_def
    HTTP_MAX_URL_def)

lemma gateway_verdict: "token_verify (h_net gateway_http) (h_unset gateway_http) (w_conf gateway_world) (s_version (h_status gateway_http)) token mac = Ok 1"
proof -
  let ?n = "h_net gateway_http" and ?b = "''HTTP/1.0 200 OK'' @ crlf @ crlf @ ''1''"
  have r: "resolve_host ?n server = Some (Some ''10.1.1.1'')" for server
    by (simp add: resolve_host_def resolve_loop.simps [of _ 0] gateway_http_def)
  have "read_response (n_read ?n) (Suc 0) MAX_BUF ?b = Some ?b"
    by (simp add: read_response.simps [of _ "Suc 0"] gateway_http_def)
  then have "read_response (n_read ?n) 0 MAX_BUF [] = Some ?b"
    by (simp add: read_response.simps [of _ 0] gateway_http_def MAX_BUF_def crlf_def)
  moreover have "connect_auth_server ?n ip port" for ip port
    by (simp add: connect_auth_server_def connect_once_def gateway_http_def eval_nat_numeral)
  moreover have "c_string ?b = ?b" by (simp add: c_string_def crlf_def NUL_def)
  ultimately have g: "http_get_request ?n ip port p q v MAX_BUF = Some ?b" for ip port p q v
    by (simp add: http_get_request_def del: append.simps)
  have "strstr ?b (crlf @ crlf) = Some (crlf @ crlf @ ''1'')" by (simp add: crlf_def strstr_eval)
  then show ?thesis
    by (simp add: token_verify_def r g gateway_inv config_defaults_def crlf_def)
qed

lemma gateway_login:
  "\<exists>out w'. thread_httpd (web_content (w_conf gateway_world)) gateway_http gateway_env ''10.0.0.2''
     (browser_get (link_path (w_conf gateway_world) ''beef'' ''a.b/c'')) gateway_world = Ok (out, w') \<and>
     redirects_to ''a.b/c'' out \<and> (''10.0.0.2'', ''00:1a:22:33:44:5f'') \<in> authenticated w'"
proof -
  have l: "length (link_path (w_conf gateway_world) ''beef'' ''a.b/c'') < HTTP_MAX_URL"
    using gateway_conf(3) by (simp add: HTTP_MAX_URL_def)
  have g: "cf_gw_address (w_conf gateway_world) = Some ''10.0.0.1''" by (simp add: gateway_inv)
  have c: "(''10.0.0.2'', ''00:1a:22:33:44:5f'') \<in> ckey ` set (clients (w_clients gateway_world)) \<or>
      int (length (clients (w_clients gateway_world))) < cf_maxclients (w_conf gateway_world)"
    by (simp add: gateway_inv)
  have m: "w_MARK_AUTHENTICATED gateway_world \<noteq> 0" by (simp add: gateway_inv)
  have v: "verdict gateway_http (w_conf gateway_world) (as_decoded ''beef'') ''00:1a:22:33:44:5f''"
    by (simp add: verdict_def gateway_verdict)
  from follow_link [OF gateway_inv(1) m g gateway_conf(1,2) l gateway_conf(4) gateway_arp c v]
  show ?thesis by (simp add: as_decoded_def c_string_def NUL_def)
qed

lemma gateway_unset: "\<not> 0 < h_unset gateway_http"
  by (simp add: gateway_http_def)

section \<open>Properties\<close>

text \<open>
  Whatever a peer sends to the web server, when its thread ends the daemon is in a state
  it can reach by first contacts, authentications, deauthentications and the passing of
  time: no request, however malformed, takes it anywhere else.
\<close>

theorem web_request_reachable:
  assumes "thread_httpd content h e addr inp w = Ok (out, w')"
  shows "reachable e w w'"
  using assms by (blast intro: web_effect_reachable thread_effect)

lemma web_request_reachable_witness:
  "\<exists>out w'. thread_httpd (web_content (w_conf gateway_world)) gateway_http gateway_env ''10.0.0.2''
     (browser_get (link_path (w_conf gateway_world) ''beef'' ''a.b/c'')) gateway_world = Ok (out, w') \<and>
     reachable gateway_env gateway_world w'"
proof -
  obtain out w' where o: "thread_httpd (web_content (w_conf gateway_world)) gateway_http gateway_env ''10.0.0.2''
     (browser_get (link_path (w_conf gateway_world) ''beef'' ''a.b/c'')) gateway_world = Ok (out, w')"
    using gateway_login by blast
  with web_request_reachable [OF o] show ?thesis by blast
qed

text \<open>
  C13. A client is authenticated through the web only on an answer of the authentication
  server: if an address pair is authenticated after a request and was not before, it is the
  peer's own address, the server's name was resolved, and it answered a query made of some token
  and the pair's MAC address, cut to 127 characters, so that a long token leaves no room for the
  MAC address. The answer was a header followed by the digit 1 alone, or one without an empty
  line: for that \<^verbatim>\<open>token_verify\<close> returns no value, and what the caller found instead was positive.
\<close>

theorem web_auth_needs_verdict:
  assumes "thread_httpd content h e addr inp w = Ok (out, w')"
    and "daemon_inv w" "w_MARK_AUTHENTICATED w \<noteq> 0"
    and "(ip, mac) \<in> authenticated w'" "(ip, mac) \<notin> authenticated w"
  shows "ip = addr \<and> (\<exists>token server server_ip response.
    cf_auth_server (w_conf w) = Some server \<and> resolve_host (h_net h) server = Some (Some server_ip) \<and>
    http_get_request (h_net h) (take 15 server_ip) (sint (cf_auth_port (w_conf w))) (cf_token_verify_path (w_conf w))
      (take 127 (''?uid='' @ fmt_d (cf_uid (w_conf w)) @ ''&token='' @ token @ ''&mac='' @ mac))
      (s_version (h_status h)) MAX_BUF = Some response \<and>
    (strstr response (crlf @ crlf) = Some (crlf @ crlf @ ''1'') \<or>
     strstr response (crlf @ crlf) = None \<and> 0 < h_unset h))"
proof -
  from web_effect_authenticated [OF thread_effect [OF assms(1)] assms(2-5)]
  obtain token where t: "ip = addr" "verdict h (w_conf w) token mac" by blast
  have "verify_query (w_conf w) token mac = take 127 (''?uid='' @ fmt_d (cf_uid (w_conf w)) @ ''&token='' @ token @ ''&mac='' @ mac)"
    by (simp add: verify_query_def snprintf_s_def)
  with verdict_response [OF t(2)] t(1) show ?thesis unfolding verify_response_def by metis
qed

lemma web_auth_needs_verdict_witness:
  "\<exists>out w' token server_ip response. thread_httpd (web_content (w_conf gateway_world)) gateway_http gateway_env ''10.0.0.2''
     (browser_get (link_path (w_conf gateway_world) ''beef'' ''a.b/c'')) gateway_world = Ok (out, w') \<and>
     authenticated gateway_world = {} \<and> (''10.0.0.2'', ''00:1a:22:33:44:5f'') \<in> authenticated w' \<and>
     http_get_request (h_net gateway_http) (take 15 server_ip) (sint (cf_auth_port (w_conf gateway_world)))
      (cf_token_verify_path (w_conf gateway_world)) (take 127 (''?uid='' @ fmt_d (cf_uid (w_conf gateway_world)) @ ''&token='' @ token @ ''&mac='' @ ''00:1a:22:33:44:5f''))
      (s_version (h_status gateway_http)) MAX_BUF = Some response \<and>
     strstr response (crlf @ crlf) = Some (crlf @ crlf @ ''1'')"
proof -
  have n: "authenticated gateway_world = {}"
    by (simp add: authenticated_def gateway_inv sample_client_def new_client_def FW_MARK_PREAUTHENTICATED_def)
  obtain out w' where o: "thread_httpd (web_content (w_conf gateway_world)) gateway_http gateway_env ''10.0.0.2''
     (browser_get (link_path (w_conf gateway_world) ''beef'' ''a.b/c'')) gateway_world = Ok (out, w')"
    "(''10.0.0.2'', ''00:1a:22:33:44:5f'') \<in> authenticated w'"
    using gateway_login by blast
  have m: "w_MARK_AUTHENTICATED gateway_world \<noteq> 0" by (simp add: gateway_inv)
  have "(''10.0.0.2'', ''00:1a:22:33:44:5f'') \<notin> authenticated gateway_world" by (simp add: n)
  from web_auth_needs_verdict [OF o(1) gateway_inv(1) m o(2) this] o n
    gateway_unset show ?thesis by blast
qed



text \<open>
  C16. First contact with the remote authentication on: a GET request always gets its answer.
  Either the client could not be added and nothing is sent, or the client is on the list with
  a token and is redirected to the page of the authentication server, the address of which
  carries the address it asked for and the token, in this order. The header with the address is
  cut to the 978 characters the buffer has left, so that a long address loses the token and the
  MAC address at its end. Nobody is authenticated by it.
\<close>

theorem first_contact_redirects:
  assumes "daemon_inv w" "w_MARK_AUTHENTICATED w \<noteq> 0" "rq_method r = HTTP_GET" "fresh r"
    and "cf_remote_auth_action (w_conf w) \<noteq> None" "cf_gw_address (w_conf w) = Some gw"
  shows "\<exists>p r' w'. http_nodogsplash_first_contact h e r w = Ok (r', w') \<and>
    http_nodogsplash_add_client e (rq_clientAddr r) w = Ok (p, w') \<and> authenticated w' = authenticated w \<and>
    (case p of None \<Rightarrow> r' = r
     | Some a \<Rightarrow> \<exists>c token t. client_at (w_clients w') a = Some c \<and> c \<in> set (clients (w_clients w')) \<and>
         c_ip c = rq_clientAddr r \<and> c_token c = Some token \<and>
         http_nodogsplash_make_authtarget (w_conf w) token (http_nodogsplash_make_redir (w_conf w) (requested_url r)) = Ok t \<and>
         redirects_to (remote_auth_url (w_conf w) t c) (rs_sent r'))"
  by (rule contact_redirects [OF assms])

lemma first_contact_redirects_witness:
  "\<exists>r' w' c t. http_nodogsplash_first_contact gateway_http gateway_env
      ((request_init ''10.0.0.2'')\<lparr>rq_method := HTTP_GET, rq_host := ''a.b'', rq_path := ''/c''\<rparr>) gateway_world = Ok (r', w') \<and>
    c_ip c = ''10.0.0.2'' \<and> c_token c \<noteq> None \<and> redirects_to (remote_auth_url (w_conf gateway_world) t c) (rs_sent r')"
proof -
  let ?r = "(request_init ''10.0.0.2'')\<lparr>rq_method := HTTP_GET, rq_host := ''a.b'', rq_path := ''/c''\<rparr>"
  have m: "w_MARK_AUTHENTICATED gateway_world \<noteq> 0" by (simp add: gateway_inv)
  have r: "rq_method ?r = HTTP_GET" "fresh ?r" "rq_clientAddr ?r = ''10.0.0.2''" by (simp_all add: fresh_def request_init_def)
  have c: "cf_remote_auth_action (w_conf gateway_world) \<noteq> None" "cf_gw_address (w_conf gateway_world) = Some ''10.0.0.1''"
    by (simp_all add: gateway_inv config_defaults_def)
  have room: "(''10.0.0.2'', ''00:1a:22:33:44:5f'') \<in> ckey ` set (clients (w_clients gateway_world)) \<or>
      int (length (clients (w_clients gateway_world))) < cf_maxclients (w_conf gateway_world)"
    by (simp add: gateway_inv)
  obtain a w1 where a: "http_nodogsplash_add_client gateway_env ''10.0.0.2'' gateway_world = Ok (Some a, w1)"
    using contact_present [OF gateway_inv(1) m gateway_conf(4) gateway_arp room] by blast
  from first_contact_redirects [OF gateway_inv(1) m r(1,2) c, of gateway_http gateway_env] a r(3)
  show ?thesis by (auto simp del: append.simps)
qed

text \<open>
  C14. Logging in works: a client in the ARP cache that is on the list, or for which there is
  room, and that follows a link whose token the authentication server confirms, is
  authenticated when its request has been served, and redirected to the destination of the
  link, as far as the buffer of the headers has room for it.
\<close>

theorem web_auth_succeeds:
  assumes "daemon_inv w" "w_MARK_AUTHENTICATED w \<noteq> 0"
    and "cf_gw_address (w_conf w) = Some gw" "plain_name (cf_authdir (w_conf w))"
      "path_names (cf_denydir (w_conf w)) \<noteq> [cf_authdir (w_conf w)]"
      "length (link_path (w_conf w) token redir) < HTTP_MAX_URL"
    and "check_ip_format addr" "\<And>v. fst (arp_get e addr v) = Some mac"
    and "(addr, mac) \<in> ckey ` set (clients (w_clients w)) \<or>
      int (length (clients (w_clients w))) < cf_maxclients (w_conf w)"
    and "token_verify (h_net h) (h_unset h) (w_conf w) (s_version (h_status h)) (as_decoded token) mac = Ok 1"
  shows "\<exists>out w'. thread_httpd (web_content (w_conf w)) h e addr (browser_get (link_path (w_conf w) token redir)) w = Ok (out, w') \<and>
    redirects_to (as_decoded redir) out \<and> (addr, mac) \<in> authenticated w'"
  using follow_link [OF assms(1-9)] assms(10) zero_less_one unfolding verdict_def by blast

lemma web_auth_succeeds_witness:
  "\<exists>out w'. thread_httpd (web_content (w_conf gateway_world)) gateway_http gateway_env ''10.0.0.2''
     (browser_get (link_path (w_conf gateway_world) ''beef'' ''a.b/c'')) gateway_world = Ok (out, w') \<and>
     redirects_to ''a.b/c'' out \<and> (''10.0.0.2'', ''00:1a:22:33:44:5f'') \<in> authenticated w'"
proof -
  have l: "length (link_path (w_conf gateway_world) ''beef'' ''a.b/c'') < HTTP_MAX_URL"
    using gateway_conf(3) by (simp add: HTTP_MAX_URL_def)
  have g: "cf_gw_address (w_conf gateway_world) = Some ''10.0.0.1''" by (simp add: gateway_inv)
  have c: "(''10.0.0.2'', ''00:1a:22:33:44:5f'') \<in> ckey ` set (clients (w_clients gateway_world)) \<or>
      int (length (clients (w_clients gateway_world))) < cf_maxclients (w_conf gateway_world)"
    by (simp add: gateway_inv)
  have m: "w_MARK_AUTHENTICATED gateway_world \<noteq> 0" by (simp add: gateway_inv)
  from web_auth_succeeds [OF gateway_inv(1) m g gateway_conf(1,2) l gateway_conf(4) gateway_arp c gateway_verdict]
  show ?thesis by (simp add: as_decoded_def c_string_def NUL_def)
qed

end
