(* ===== verification/Threads.thy ===== *)
theory Threads
  imports Http
begin

text \<open>
  The threads piece by piece. A thread of the web server, the timer and the handler of a control
  request give up the mutex of the client list between their accesses to it, and other threads run
  in between. Each piece is one locked section (\<^verbatim>\<open>LOCK_CLIENT_LIST\<close> to
  \<^verbatim>\<open>UNLOCK_CLIENT_LIST\<close>), one access made without the mutex, or a wait for the peer or
  for the authentication server. Run without interruption the pieces are the functions of
  \<open>Http\<close>, \<open>Access\<close> and \<open>Ndsctl\<close>.
\<close>

section \<open>A request of the web server\<close>

text \<open>
  What the thread holds between two pieces. After a first contact it keeps the pointer to the
  client that \<^verbatim>\<open>client_list_add_client\<close> returned, and goes through it twice without the
  mutex: for the token, and for the MAC address when the page or the redirection is made.
\<close>

datatype web_phase =
    Web_open
  | Web_serve http_request
  | Web_client http_request addr
  | Web_splash http_request t_auth_target addr
  | Web_lookup http_request t_auth_target t_authaction
  | Web_find http_request t_auth_target t_authaction string
  | Web_verify http_request t_auth_target t_authaction string
  | Web_act http_request t_auth_target t_authaction string

datatype web_next = Web_goes web_phase | Web_ends string

type_synonym web_result = "(web_next \<times> world) result"

definition contact_piece :: "http_env \<Rightarrow> env \<Rightarrow> http_request \<Rightarrow> world \<Rightarrow> web_result" where
  "contact_piece h e r w =
     (if rq_method r \<noteq> HTTP_GET then Ok (Web_ends (rs_sent (http_nodogsplash_405 h r)), w)
      else rbind (http_nodogsplash_add_client e (rq_clientAddr r) w) (\<lambda>(client, w1).
        Ok (case client of None \<Rightarrow> Web_ends (rs_sent r) | Some a \<Rightarrow> Web_goes (Web_client r a), w1)))"

definition auth_piece :: "env \<Rightarrow> http_request \<Rightarrow> world \<Rightarrow> web_result" where
  "auth_piece e r w =
     rbind (http_nodogsplash_add_client e (rq_clientAddr r) w) (\<lambda>(client, w1).
       if client = None then Ok (Web_ends (rs_sent r), w1)
       else rbind (http_nodogsplash_decode_authtarget (w_conf w1) r) (\<lambda>t.
         Ok (Web_goes (Web_lookup r t AUTH_MAKE_AUTHENTICATED), w1)))"

definition deny_piece :: "http_request \<Rightarrow> world \<Rightarrow> web_result" where
  "deny_piece r w = rbind (http_nodogsplash_decode_authtarget (w_conf w) r) (\<lambda>t.
     Ok (Web_goes (Web_lookup r t AUTH_MAKE_DEAUTHENTICATED), w))"

fun handler_piece :: "http_handler \<Rightarrow> http_env \<Rightarrow> env \<Rightarrow> http_request \<Rightarrow> world \<Rightarrow> web_result" where
  "handler_piece H_index h e r w = contact_piece h e r w"
| "handler_piece H_auth h e r w = auth_piece e r w"
| "handler_piece H_deny h e r w = deny_piece r w"

definition serve_piece :: "http_handler http_dirs \<Rightarrow> http_env \<Rightarrow> env \<Rightarrow> http_request \<Rightarrow> world \<Rightarrow> web_result" where
  "serve_piece content h e r w =
     (let r0 = r\<lparr>rs_responseLength := 0\<rparr> in
      case httpdProcessRequest content (rq_path r) of
        Run f \<Rightarrow> handler_piece f h e r0 w
      | Send_file p \<Rightarrow>
          (case httpd_sendFile (h_now h) p (h_stat h p) (case h_file h p of None \<Rightarrow> [] | Some bytes \<Rightarrow> bytes) r0 of
             Some r1 \<Rightarrow> Ok (Web_ends (rs_sent r1), w)
           | None \<Rightarrow> contact_piece h e (r0\<lparr>rs_contentType := content_type p (rs_contentType r0)\<rparr>) w)
      | Send_static data \<Rightarrow> rbind (httpd_sendStatic (h_now h) (h_startTime h) data r0) (\<lambda>r1. Ok (Web_ends (rs_sent r1), w))
      | Not_found \<Rightarrow> contact_piece h e r0 w
      | Invalid_path \<Rightarrow> Ok (Web_ends (rs_sent r0), w))"

text \<open>The token is read through the pointer; the memory may have been freed since.\<close>

definition client_piece :: "http_request \<Rightarrow> addr \<Rightarrow> world \<Rightarrow> web_result" where
  "client_piece r a w =
     rbind (of_opt (hget (cl_heap (w_clients w)) a)) (\<lambda>c.
       let origurl = rq_host r @ rq_path r @ (if rq_query r \<noteq> [] then ''?'' else []) @ rq_query r;
           redir = http_nodogsplash_make_redir (w_conf w) origurl
       in rbind (of_opt (c_token c)) (\<lambda>token.
          rbind (http_nodogsplash_make_authtarget (w_conf w) token redir) (\<lambda>t. Ok (Web_goes (Web_splash r t a), w))))"

definition splash_piece :: "http_env \<Rightarrow> env \<Rightarrow> http_request \<Rightarrow> t_auth_target \<Rightarrow> addr \<Rightarrow> world \<Rightarrow> web_result" where
  "splash_piece h e r t a w =
     rbind (of_opt (hget (cl_heap (w_clients w)) a)) (\<lambda>c.
     rbind (http_nodogsplash_serve_splash h e t c [] r w) (\<lambda>(r1, w1). Ok (Web_ends (rs_sent r1), w1)))"

definition info_end :: "http_env \<Rightarrow> string \<Rightarrow> string \<Rightarrow> http_request \<Rightarrow> world \<Rightarrow> web_result" where
  "info_end h title content r w =
     rbind (http_nodogsplash_serve_info h (w_conf w) title content r) (\<lambda>r1. Ok (Web_ends (rs_sent r1), w))"

text \<open>The parts of \<^verbatim>\<open>http_nodogsplash_callback_action\<close>.\<close>

definition lookup_piece :: "env \<Rightarrow> http_request \<Rightarrow> t_auth_target \<Rightarrow> t_authaction \<Rightarrow> world \<Rightarrow> web_result" where
  "lookup_piece e r t action w =
     (case arp_get e (rq_clientAddr r) w of
        (None, w1) \<Rightarrow> Ok (Web_ends (rs_sent r), w1)
      | (Some mac, w1) \<Rightarrow> Ok (Web_goes (Web_find r t action mac), w1))"

definition find_piece :: "http_env \<Rightarrow> http_request \<Rightarrow> t_auth_target \<Rightarrow> t_authaction \<Rightarrow> string \<Rightarrow> world \<Rightarrow> web_result" where
  "find_piece h r t action mac w =
     rbind (client_list_find (rq_clientAddr r) mac (w_clients w)) (\<lambda>client.
       case client of
         None \<Rightarrow> info_end h ''Nodogsplash Error'' ''You are not on the client list.'' r w
       | Some a \<Rightarrow> rbind (of_opt (hget (cl_heap (w_clients w)) a)) (\<lambda>c.
           Ok (if c_token c = None then Web_ends (rs_sent r) else Web_goes (Web_verify r t action mac), w)))"

definition verify_piece :: "http_env \<Rightarrow> http_request \<Rightarrow> t_auth_target \<Rightarrow> t_authaction \<Rightarrow> string \<Rightarrow> world \<Rightarrow> web_result" where
  "verify_piece h r t action mac w =
     rbind (token_verify (h_net h) (h_unset h) (w_conf w) (s_version (h_status h)) (at_token t) mac) (\<lambda>verified.
       if verified \<le> 0 then info_end h ''Nodogsplash Error'' ''Tokens do not match.'' r w
       else Ok (Web_goes (Web_act r t action mac), w))"

definition act_piece :: "http_env \<Rightarrow> env \<Rightarrow> http_request \<Rightarrow> t_auth_target \<Rightarrow> t_authaction \<Rightarrow> string \<Rightarrow> world \<Rightarrow> web_result" where
  "act_piece h e r t action mac w =
     rbind (auth_client_action e (rq_clientAddr r) mac action w) (\<lambda>w1.
       case action of
         AUTH_MAKE_AUTHENTICATED \<Rightarrow> Ok (Web_ends (rs_sent (http_nodogsplash_redirect h (at_redir t) r)), w1)
       | AUTH_MAKE_DEAUTHENTICATED \<Rightarrow> info_end h ''Nodogsplash Deny'' ''Authentication revoked.'' r w1)"

text \<open>
  One piece. The first reads the request of the peer at \<open>addr\<close> and does not return while
  the peer keeps it waiting or sends headers without an end.
\<close>

fun web_step :: "http_handler http_dirs \<Rightarrow> http_env \<Rightarrow> env \<Rightarrow> string \<Rightarrow> reads \<Rightarrow> web_phase \<Rightarrow> world \<Rightarrow> web_result option" where
  "web_step content h e addr rd Web_open w = map_option (\<lambda>q. rbind q (\<lambda>(rc, r).
     Ok (if rc = 0 then Web_goes (Web_serve r) else Web_ends (rs_sent r), w))) (buffered_request rd (request_init addr))"
| "web_step content h e addr rd (Web_serve r) w = Some (serve_piece content h e r w)"
| "web_step content h e addr rd (Web_client r a) w = Some (client_piece r a w)"
| "web_step content h e addr rd (Web_splash r t a) w = Some (splash_piece h e r t a w)"
| "web_step content h e addr rd (Web_lookup r t action) w = Some (lookup_piece e r t action w)"
| "web_step content h e addr rd (Web_find r t action mac) w = Some (find_piece h r t action mac w)"
| "web_step content h e addr rd (Web_verify r t action mac) w = Some (verify_piece h r t action mac w)"
| "web_step content h e addr rd (Web_act r t action mac) w = Some (act_piece h e r t action mac w)"

text \<open>At most \<open>n\<close> pieces one after the other, with nothing in between; six are enough for any request.\<close>

fun web_run :: "nat \<Rightarrow> http_handler http_dirs \<Rightarrow> http_env \<Rightarrow> env \<Rightarrow> string \<Rightarrow> reads \<Rightarrow> web_phase \<Rightarrow> world \<Rightarrow>
    (string \<times> world) result option" where
  "web_run 0 content h e addr rd ph w = None"
| "web_run (Suc n) content h e addr rd ph w =
     (case web_step content h e addr rd ph w of
        None \<Rightarrow> None
      | Some (Exit c) \<Rightarrow> Some (Exit c)
      | Some Undef \<Rightarrow> Some Undef
      | Some (Ok (Web_ends out, w')) \<Rightarrow> Some (Ok (out, w'))
      | Some (Ok (Web_goes ph', w')) \<Rightarrow> web_run n content h e addr rd ph' w')"

section \<open>The update of the counters\<close>

text \<open>
  The two listings of \<^verbatim>\<open>iptables_fw_counters_update\<close>, what is left of each and whether its
  end was hit. The mutex is taken for one line at a time.
\<close>

datatype count_phase = Count_start | Count_out string bool | Count_in string bool | Count_done bool

definition count_line ::
    "scan_dir list \<Rightarrow> string \<Rightarrow> (string \<Rightarrow> 64 word \<Rightarrow> world \<Rightarrow> world result) \<Rightarrow> string \<Rightarrow> world \<Rightarrow>
     ((string \<times> bool) \<times> world) result" where
  "count_line fmt tgt entry s w =
     (case scanf fmt s of (vals, r, _) \<Rightarrow>
        (case listed_entry tgt vals of
           None \<Rightarrow> Ok (skip_line r, w)
         | Some (counter, ip) \<Rightarrow> rbind (entry ip counter w) (\<lambda>w'. Ok (skip_line r, w'))))"

fun count_step :: "env \<Rightarrow> count_phase \<Rightarrow> world \<Rightarrow> (count_phase \<times> world) result" where
  "count_step e Count_start w =
     (case popen e (counters_cmd ''ndsOUT'') w of (out, w1) \<Rightarrow>
        Ok (case out of None \<Rightarrow> Count_done False | Some ls \<Rightarrow> Count_out (fst (skip_two ls)) (snd (skip_two ls)), w1))"
| "count_step e (Count_out s eof) w =
     (if eof then case popen e (counters_cmd ''ndsINC'') w of (out, w1) \<Rightarrow>
        Ok (case out of None \<Rightarrow> Count_done False | Some ls \<Rightarrow> Count_in (fst (skip_two ls)) (snd (skip_two ls)), w1)
      else rbind (count_line out_format ''MARK'' (outgoing_entry e) s w) (\<lambda>((s', eof'), w1). Ok (Count_out s' eof', w1)))"
| "count_step e (Count_in s eof) w =
     (if eof then Ok (Count_done True, w)
      else rbind (count_line inc_format ''ACCEPT'' incoming_entry s w) (\<lambda>((s', eof'), w1). Ok (Count_in s' eof', w1)))"
| "count_step e (Count_done ok) w = Ok (Count_done ok, w)"

section \<open>The timer\<close>

text \<open>
  \<^verbatim>\<open>fw_refresh_client_list\<close>: the counters, then the list is gone through under the mutex,
  unless the counters could not be had; then the timer sleeps.
\<close>

fun timer_step :: "env \<Rightarrow> count_phase \<Rightarrow> world \<Rightarrow> (count_phase \<times> world) result" where
  "timer_step e (Count_done ok) w =
     (if ok then rbind (of_opt (refresh_loop e (client_get_first_client (w_clients w)) w)) (\<lambda>w1. Ok (Count_start, w1))
      else Ok (Count_start, w))"
| "timer_step e ph w = count_step e ph w"

section \<open>Control requests\<close>

text \<open>
  The requests whose handlers give up the mutex in between: \<^verbatim>\<open>auth\<close> and \<^verbatim>\<open>deauth\<close>
  copy the addresses of the client before they act on it, the two reports update the counters line
  by line before they write the clients down.
\<close>

datatype control_job = Job_act string string t_authaction | Job_report count_phase

definition takes_turns :: "string \<Rightarrow> bool" where
  "takes_turns request \<longleftrightarrow> strncmp_eq request ''status'' 6 \<or> strncmp_eq request ''clients'' 7 \<or>
     strncmp_eq request ''auth'' 4 \<or> strncmp_eq request ''deauth'' 6"

definition ndsctl_begin :: "env \<Rightarrow> string \<Rightarrow> world \<Rightarrow> (control_job option \<times> world) result" where
  "ndsctl_begin e request w =
     (let starts = (\<lambda>cmd n. strncmp_eq request cmd n); arg = (\<lambda>i. of_opt (cstr i request)) in
      if starts ''status'' 6 \<or> starts ''clients'' 7 then Ok (Some (Job_report Count_start), w)
      else if starts ''auth'' 4 then rbind (arg 5) (\<lambda>a.
        rbind (http_nodogsplash_add_client e a w) (\<lambda>(client, w1).
          case client of
            None \<Rightarrow> Ok (None, w1)
          | Some c \<Rightarrow> rbind (client_keys c w1) (\<lambda>(ip, mac). Ok (Some (Job_act ip mac AUTH_MAKE_AUTHENTICATED), w1))))
      else if starts ''deauth'' 6 then rbind (arg 7) (\<lambda>a.
        rbind (client_list_find_by_ip a (w_clients w)) (\<lambda>by_ip.
        rbind (if by_ip \<noteq> None then Ok by_ip else client_list_find_by_mac a (w_clients w)) (\<lambda>client.
          case client of
            None \<Rightarrow> Ok (None, w)
          | Some c \<Rightarrow> rbind (client_keys c w) (\<lambda>(ip, mac). Ok (Some (Job_act ip mac AUTH_MAKE_DEAUTHENTICATED), w)))))
      else Ok (None, w))"

fun job_step :: "env \<Rightarrow> control_job \<Rightarrow> world \<Rightarrow> (control_job option \<times> world) result" where
  "job_step e (Job_act ip mac action) w = rbind (auth_client_action e ip mac action w) (\<lambda>w1. Ok (None, w1))"
| "job_step e (Job_report (Count_done ok)) w = Ok (None, w)"
| "job_step e (Job_report ph) w = rbind (count_step e ph w) (\<lambda>(ph', w1). Ok (Some (Job_report ph'), w1))"

section \<open>The pieces make up the functions\<close>

definition web_cont :: "nat \<Rightarrow> http_handler http_dirs \<Rightarrow> http_env \<Rightarrow> env \<Rightarrow> string \<Rightarrow> reads \<Rightarrow> web_result \<Rightarrow>
    (string \<times> world) result option" where
  "web_cont n content h e addr rd res =
     (case res of
        Exit c \<Rightarrow> Some (Exit c)
      | Undef \<Rightarrow> Some Undef
      | Ok nw \<Rightarrow> (case nw of (Web_ends out, w') \<Rightarrow> Some (Ok (out, w'))
          | (Web_goes ph', w') \<Rightarrow> web_run n content h e addr rd ph' w'))"

lemma web_run_cont:
  "web_run (Suc n) content h e addr rd ph w = Option.bind (web_step content h e addr rd ph w) (web_cont n content h e addr rd)"
  by (auto simp: web_cont_def split: option.split result.split prod.split web_next.split)

definition thread_out :: "(http_request \<times> world) result \<Rightarrow> (string \<times> world) result" where
  "thread_out res = rbind res (\<lambda>(r', w'). Ok (rs_sent r', w'))"

lemma thread_out_simps [simp]:
  "thread_out (Ok (r, w)) = Ok (rs_sent r, w)" "thread_out (Exit c) = Exit c" "thread_out Undef = Undef"
  by (simp_all add: thread_out_def)

lemma web_cont_simps [simp]:
  "web_cont n content h e addr rd (Ok (Web_ends out, w)) = Some (Ok (out, w))"
  "web_cont n content h e addr rd (Ok (Web_goes ph, w)) = web_run n content h e addr rd ph w"
  "web_cont n content h e addr rd (Exit c) = Some (Exit c)" "web_cont n content h e addr rd Undef = Some Undef"
  by (simp_all add: web_cont_def)

declare web_run.simps(2) [simp del]

lemma info_end_cont:
  "web_cont n content h e addr rd (info_end h' title text r w) =
     Some (thread_out (rbind (http_nodogsplash_serve_info h' (w_conf w) title text r) (\<lambda>r1. Ok (r1, w))))"
  by (cases "http_nodogsplash_serve_info h' (w_conf w) title text r") (simp_all add: info_end_def)

lemma contact_run:
  "web_cont (Suc (Suc n)) content h e addr rd (contact_piece h e r w) = Some (thread_out (http_nodogsplash_first_contact h e r w))"
proof (cases "rq_method r = HTTP_GET")
  case True
  show ?thesis
  proof (cases "http_nodogsplash_add_client e (rq_clientAddr r) w")
    case (Ok pw)
    obtain p w1 where pw: "pw = (p, w1)" by fastforce
    show ?thesis
    proof (cases p)
      case (Some a)
      show ?thesis
      proof (cases "hget (cl_heap (w_clients w1)) a")
        case c: (Some c)
        let ?redir = "http_nodogsplash_make_redir (w_conf w1) (requested_url r)"
        show ?thesis
        proof (cases "c_token c")
          case tok: (Some token)
          show ?thesis
          proof (cases "http_nodogsplash_make_authtarget (w_conf w1) token ?redir")
            case t: (Ok t)
            obtain res where res: "res = http_nodogsplash_serve_splash h e t c [] r w1" by blast
            have "web_run (Suc n) content h e addr rd (Web_splash r t a) w1 = Some (thread_out res)"
              by (cases res) (auto simp: web_run_cont splash_piece_def c res [symmetric])
            with True Ok pw Some c tok t res show ?thesis
              by (simp add: contact_piece_def http_nodogsplash_first_contact_def web_run_cont client_piece_def requested_url_def)
          qed (use True Ok pw Some c tok in \<open>simp_all add: contact_piece_def http_nodogsplash_first_contact_def web_run_cont
              client_piece_def requested_url_def\<close>)
        qed (use True Ok pw Some c in \<open>simp add: contact_piece_def http_nodogsplash_first_contact_def web_run_cont client_piece_def\<close>)
      qed (use True Ok pw Some in \<open>simp add: contact_piece_def http_nodogsplash_first_contact_def web_run_cont client_piece_def\<close>)
    qed (use True Ok pw in \<open>simp add: contact_piece_def http_nodogsplash_first_contact_def\<close>)
  qed (use True in \<open>simp_all add: contact_piece_def http_nodogsplash_first_contact_def\<close>)
qed (simp add: contact_piece_def http_nodogsplash_first_contact_def)

lemma act_run:
  "web_run (Suc n) content h e addr rd (Web_act r t action mac) w = Some (thread_out (rbind (auth_client_action e (rq_clientAddr r) mac action w) (\<lambda>w2.
     case action of
       AUTH_MAKE_AUTHENTICATED \<Rightarrow> Ok (http_nodogsplash_redirect h (at_redir t) r, w2)
     | AUTH_MAKE_DEAUTHENTICATED \<Rightarrow>
         rbind (http_nodogsplash_serve_info h (w_conf w2) ''Nodogsplash Deny'' ''Authentication revoked.'' r) (\<lambda>r1. Ok (r1, w2)))))"
  by (cases "auth_client_action e (rq_clientAddr r) mac action w"; cases action)
     (simp_all add: web_run_cont act_piece_def info_end_cont)

lemma action_run:
  "web_run (Suc (Suc (Suc (Suc n)))) content h e addr rd (Web_lookup r t action) w =
     Some (thread_out (http_nodogsplash_callback_action h e r t action w))"
proof -
  obtain m w1 where m: "arp_get e (rq_clientAddr r) w = (m, w1)" by fastforce
  show ?thesis
  proof (cases m)
    case (Some mac)
    show ?thesis
    proof (cases "client_list_find (rq_clientAddr r) mac (w_clients w1)")
      case (Ok p)
      show ?thesis
      proof (cases p)
        case None
        with m Some Ok show ?thesis
          by (simp add: http_nodogsplash_callback_action_def web_run_cont lookup_piece_def find_piece_def info_end_cont)
      next
        case a: (Some a)
        show ?thesis
        proof (cases "hget (cl_heap (w_clients w1)) a")
          case c: (Some c)
          show ?thesis
          proof (cases "c_token c")
            case tok: (Some tok)
            let ?v = "token_verify (h_net h) (h_unset h) (w_conf w1) (s_version (h_status h)) (at_token t) mac"
            have l: "web_run (Suc (Suc (Suc (Suc n)))) content h e addr rd (Web_lookup r t action) w =
                web_cont (Suc n) content h e addr rd (verify_piece h r t action mac w1)"
              using m Some Ok a c tok by (simp add: web_run_cont [of "Suc (Suc (Suc n))"] web_run_cont [of "Suc (Suc n)"]
                  web_run_cont [of "Suc n"] lookup_piece_def find_piece_def)
            have r: "http_nodogsplash_callback_action h e r t action w = rbind ?v (\<lambda>verified.
                  if verified \<le> 0 then rbind (http_nodogsplash_serve_info h (w_conf w1) ''Nodogsplash Error''
                      ''Tokens do not match.'' r) (\<lambda>r1. Ok (r1, w1))
                  else rbind (auth_client_action e (rq_clientAddr r) mac action w1) (\<lambda>w2.
                    case action of
                      AUTH_MAKE_AUTHENTICATED \<Rightarrow> Ok (http_nodogsplash_redirect h (at_redir t) r, w2)
                    | AUTH_MAKE_DEAUTHENTICATED \<Rightarrow>
                        rbind (http_nodogsplash_serve_info h (w_conf w2) ''Nodogsplash Deny''
                          ''Authentication revoked.'' r) (\<lambda>r1. Ok (r1, w2))))"
              using m Some Ok a c tok by (simp add: http_nodogsplash_callback_action_def)
            show ?thesis unfolding l r
              by (cases ?v) (simp_all add: verify_piece_def info_end_cont act_run)
          qed (use m Some Ok a c in \<open>simp add: http_nodogsplash_callback_action_def web_run_cont lookup_piece_def find_piece_def\<close>)
        qed (use m Some Ok a in \<open>simp add: http_nodogsplash_callback_action_def web_run_cont lookup_piece_def find_piece_def\<close>)
      qed
    qed (use m Some in \<open>simp_all add: http_nodogsplash_callback_action_def web_run_cont lookup_piece_def find_piece_def\<close>)
  qed (use m in \<open>simp add: http_nodogsplash_callback_action_def web_run_cont lookup_piece_def\<close>)
qed

lemma handler_run:
  "web_cont (Suc (Suc (Suc (Suc n)))) content h e addr rd (handler_piece f h e r w) = Some (thread_out (run_handler f h e r w))"
proof (cases f)
  case H_auth
  show ?thesis
  proof (cases "http_nodogsplash_add_client e (rq_clientAddr r) w")
    case (Ok pw)
    then show ?thesis
      by (cases pw; cases "http_nodogsplash_decode_authtarget (w_conf (snd pw)) r")
        (simp_all add: H_auth auth_piece_def http_nodogsplash_callback_auth_def action_run)
  qed (simp_all add: H_auth auth_piece_def http_nodogsplash_callback_auth_def)
next
  case H_deny
  then show ?thesis
    by (cases "http_nodogsplash_decode_authtarget (w_conf w) r")
      (simp_all add: deny_piece_def http_nodogsplash_callback_deny_def action_run)
qed (simp add: http_nodogsplash_callback_index_def contact_run)

lemma serve_run:
  "web_cont (Suc (Suc (Suc (Suc n)))) content h e addr rd (serve_piece content h e r w) = Some (thread_out (serve_request content h e r w))"
proof (cases "httpdProcessRequest content (rq_path r)")
  case (Send_static data)
  then show ?thesis
    by (cases "httpd_sendStatic (h_now h) (h_startTime h) data (r\<lparr>rs_responseLength := 0\<rparr>)")
      (simp_all add: serve_piece_def serve_request_def)
qed (simp_all add: serve_piece_def serve_request_def handler_run contact_run http_nodogsplash_callback_404_def Let_def
    split: option.split)

text \<open>A thread that nothing interrupts does what \<open>httpd_thread\<close> does.\<close>

lemma web_pieces_thread: "web_run 6 content h e addr rd Web_open w = httpd_thread content h e addr rd w"
proof (cases "buffered_request rd (request_init addr)")
  case (Some q)
  show ?thesis
  proof (cases q)
    case (Ok rcr)
    obtain rc r where rcr: "rcr = (rc, r)" by fastforce
    have "web_run (Suc 4) content h e addr rd (Web_serve r) w = Some (thread_out (serve_request content h e r w))"
      using serve_run [of 0 content h e addr rd r w] by (simp add: web_run_cont eval_nat_numeral)
    with Some Ok rcr show ?thesis
      by (simp add: web_run_cont [of 5, simplified] httpd_thread_def thread_out_def)
  qed (use Some in \<open>simp_all add: web_run_cont [of 5, simplified] httpd_thread_def\<close>)
qed (simp add: web_run_cont [of 5, simplified] httpd_thread_def)

text \<open>A refresh that nothing interrupts does what \<open>fw_refresh_client_list\<close> does.\<close>

definition timer_moves :: "env \<Rightarrow> count_phase \<times> world \<Rightarrow> count_phase \<times> world \<Rightarrow> bool" where
  "timer_moves e s s' \<longleftrightarrow> timer_step e (fst s) (snd s) = Ok s'"

lemma count_line_Ok:
  assumes "scanf fmt s = (vals, r, f)" "skip_line r = (s', eof')"
  shows "count_line fmt tgt entry s w =
    (case listed_entry tgt vals of None \<Rightarrow> Ok ((s', eof'), w)
     | Some (counter, ip) \<Rightarrow> rbind (entry ip counter w) (\<lambda>w'. Ok ((s', eof'), w')))"
  using assms by (cases "listed_entry tgt vals") (auto simp: count_line_def)

lemma out_lines_moves:
  "counters_loop out_format ''MARK'' (outgoing_entry e) s eof w = Ok w' \<Longrightarrow>
   \<exists>s'. (timer_moves e)\<^sup>*\<^sup>* (Count_out s eof, w) (Count_out s' True, w')"
proof (induction out_format "''MARK''" "outgoing_entry e" s eof w rule: counters_loop.induct)
  case (1 s eof w)
  obtain vals r f where sc: "scanf out_format s = (vals, r, f)" by (cases "scanf out_format s")
  obtain s1 eof1 where sk: "skip_line r = (s1, eof1)" by fastforce
  show ?case
  proof (cases eof)
    case True
    with "1.prems" show ?thesis by (auto simp: counters_loop.simps [of _ _ _ s])
  next
    case False
    show ?thesis
    proof (cases "listed_entry ''MARK'' vals")
      case None
      with False sc sk "1.prems" have "counters_loop out_format ''MARK'' (outgoing_entry e) s1 eof1 w = Ok w'"
        by (simp add: counters_loop.simps [of _ _ _ s])
      from "1.hyps"(1) [OF False sc [symmetric] refl sk [symmetric] None this]
      obtain s' where "(timer_moves e)\<^sup>*\<^sup>* (Count_out s1 eof1, w) (Count_out s' True, w')" by blast
      moreover have "timer_moves e (Count_out s eof, w) (Count_out s1 eof1, w)"
        using False None by (simp add: timer_moves_def count_line_Ok [OF sc sk])
      ultimately show ?thesis by (blast intro: converse_rtranclp_into_rtranclp)
    next
      case (Some ci)
      obtain counter ip where ci: "ci = (counter, ip)" by fastforce
      with Some False sc sk "1.prems" obtain w1 where w1: "outgoing_entry e ip counter w = Ok w1"
        "counters_loop out_format ''MARK'' (outgoing_entry e) s1 eof1 w1 = Ok w'"
        by (auto simp: counters_loop.simps [of _ _ _ s] split: result.splits)
      from "1.hyps"(2) [OF False sc [symmetric] refl sk [symmetric] Some ci [symmetric] w1]
      obtain s' where "(timer_moves e)\<^sup>*\<^sup>* (Count_out s1 eof1, w1) (Count_out s' True, w')" by blast
      moreover have "timer_moves e (Count_out s eof, w) (Count_out s1 eof1, w1)"
        using False Some ci w1(1) by (simp add: timer_moves_def count_line_Ok [OF sc sk])
      ultimately show ?thesis by (blast intro: converse_rtranclp_into_rtranclp)
    qed
  qed
qed

lemma in_lines_moves:
  "counters_loop inc_format ''ACCEPT'' incoming_entry s eof w = Ok w' \<Longrightarrow>
   \<exists>s'. (timer_moves e)\<^sup>*\<^sup>* (Count_in s eof, w) (Count_in s' True, w')"
proof (induction inc_format "''ACCEPT''" incoming_entry s eof w rule: counters_loop.induct)
  case (1 s eof w)
  obtain vals r f where sc: "scanf inc_format s = (vals, r, f)" by (cases "scanf inc_format s")
  obtain s1 eof1 where sk: "skip_line r = (s1, eof1)" by fastforce
  show ?case
  proof (cases eof)
    case True
    with "1.prems" show ?thesis by (auto simp: counters_loop.simps [of _ _ _ s])
  next
    case False
    show ?thesis
    proof (cases "listed_entry ''ACCEPT'' vals")
      case None
      with False sc sk "1.prems" have "counters_loop inc_format ''ACCEPT'' incoming_entry s1 eof1 w = Ok w'"
        by (simp add: counters_loop.simps [of _ _ _ s])
      from "1.hyps"(1) [OF False sc [symmetric] refl sk [symmetric] None this]
      obtain s' where "(timer_moves e)\<^sup>*\<^sup>* (Count_in s1 eof1, w) (Count_in s' True, w')" by blast
      moreover have "timer_moves e (Count_in s eof, w) (Count_in s1 eof1, w)"
        using False None by (simp add: timer_moves_def count_line_Ok [OF sc sk])
      ultimately show ?thesis by (blast intro: converse_rtranclp_into_rtranclp)
    next
      case (Some ci)
      obtain counter ip where ci: "ci = (counter, ip)" by fastforce
      with Some False sc sk "1.prems" obtain w1 where w1: "incoming_entry ip counter w = Ok w1"
        "counters_loop inc_format ''ACCEPT'' incoming_entry s1 eof1 w1 = Ok w'"
        by (auto simp: counters_loop.simps [of _ _ _ s] split: result.splits)
      from "1.hyps"(2) [OF False sc [symmetric] refl sk [symmetric] Some ci [symmetric] w1]
      obtain s' where "(timer_moves e)\<^sup>*\<^sup>* (Count_in s1 eof1, w1) (Count_in s' True, w')" by blast
      moreover have "timer_moves e (Count_in s eof, w) (Count_in s1 eof1, w1)"
        using False Some ci w1(1) by (simp add: timer_moves_def count_line_Ok [OF sc sk])
      ultimately show ?thesis by (blast intro: converse_rtranclp_into_rtranclp)
    qed
  qed
qed

lemma timer_moves_trans: "(timer_moves e)\<^sup>*\<^sup>* s s1 \<Longrightarrow> timer_moves e s1 s2 \<Longrightarrow> (timer_moves e)\<^sup>*\<^sup>* s2 s3 \<Longrightarrow> (timer_moves e)\<^sup>*\<^sup>* s s3"
  by (meson rtranclp.rtrancl_into_rtrancl rtranclp_trans)

lemma timer_pieces_refresh:
  assumes "fw_refresh_client_list e w = Ok w'"
  shows "(timer_moves e)\<^sup>+\<^sup>+ (Count_start, w) (Count_start, w')"
proof -
  from assms obtain rc w1 where u: "iptables_fw_counters_update e w = Ok (rc, w1)"
    and f: "if rc = -1 then w' = w1 else refresh_loop e (client_get_first_client (w_clients w1)) w1 = Some w'"
    by (auto simp: fw_refresh_client_list_def rbind_Ok_iff of_opt_Ok_iff split: if_splits)
  obtain out v1 where p: "popen e (counters_cmd ''ndsOUT'') w = (out, v1)" by fastforce
  have fail: "(timer_moves e)\<^sup>*\<^sup>* (Count_done False, v) (Count_start, v)" for v
    by (rule r_into_rtranclp) (simp add: timer_moves_def)
  have "\<exists>ph v. timer_moves e (Count_start, w) (ph, v) \<and> (timer_moves e)\<^sup>*\<^sup>* (ph, v) (Count_start, w')"
  proof (cases out)
    case None
    with p u f have "w' = v1" by (simp add: iptables_fw_counters_update_def split: if_splits)
    with None p fail show ?thesis by (intro exI [of _ "Count_done False"] exI [of _ v1]) (simp add: timer_moves_def)
  next
    case (Some ls)
    obtain v2 where v2: "counters_loop out_format ''MARK'' (outgoing_entry e) (fst (skip_two ls)) (snd (skip_two ls)) v1 = Ok v2"
      using u p Some by (auto simp: iptables_fw_counters_update_def rbind_Ok_iff)
    obtain out2 v3 where p2: "popen e (counters_cmd ''ndsINC'') v2 = (out2, v3)" by fastforce
    have oo: "case out2 of None \<Rightarrow> rc = -1 \<and> w1 = v3 | Some ls2 \<Rightarrow>
        rc = 0 \<and> counters_loop inc_format ''ACCEPT'' incoming_entry (fst (skip_two ls2)) (snd (skip_two ls2)) v3 = Ok w1"
      using u p Some v2 p2 by (auto simp: iptables_fw_counters_update_def rbind_Ok_iff split: option.splits)
    obtain s2 where m: "(timer_moves e)\<^sup>*\<^sup>* (Count_out (fst (skip_two ls)) (snd (skip_two ls)), v1) (Count_out s2 True, v2)"
      using out_lines_moves [OF v2] by blast
    have "(timer_moves e)\<^sup>*\<^sup>* (Count_out (fst (skip_two ls)) (snd (skip_two ls)), v1) (Count_start, w')"
    proof (cases out2)
      case None
      with f oo have "w' = v3" by (simp split: if_splits)
      moreover have "timer_moves e (Count_out s2 True, v2) (Count_done False, v3)" using None p2 by (simp add: timer_moves_def)
      ultimately show ?thesis using timer_moves_trans [OF m] fail by blast
    next
      case t2: (Some ls2)
      have "counters_loop inc_format ''ACCEPT'' incoming_entry (fst (skip_two ls2)) (snd (skip_two ls2)) v3 = Ok w1"
        using t2 oo by simp
      from in_lines_moves [OF this]
      obtain s3 where i: "(timer_moves e)\<^sup>*\<^sup>* (Count_in (fst (skip_two ls2)) (snd (skip_two ls2)), v3) (Count_in s3 True, w1)"
        by blast
      have "timer_moves e (Count_in s3 True, w1) (Count_done True, w1)" by (simp add: timer_moves_def)
      moreover have "timer_moves e (Count_done True, w1) (Count_start, w')" using f oo t2 by (simp add: timer_moves_def)
      ultimately have "(timer_moves e)\<^sup>*\<^sup>* (Count_in s3 True, w1) (Count_start, w')"
        by (meson converse_rtranclp_into_rtranclp r_into_rtranclp)
      with i have i: "(timer_moves e)\<^sup>*\<^sup>* (Count_in (fst (skip_two ls2)) (snd (skip_two ls2)), v3) (Count_start, w')"
        by (rule rtranclp_trans)
      have "timer_moves e (Count_out s2 True, v2) (Count_in (fst (skip_two ls2)) (snd (skip_two ls2)), v3)"
        using t2 p2 by (simp add: timer_moves_def)
      from timer_moves_trans [OF m this i] show ?thesis .
    qed
    with Some p show ?thesis
      by (intro exI [of _ "Count_out (fst (skip_two ls)) (snd (skip_two ls))"] exI [of _ v1]) (simp add: timer_moves_def)
  qed
  then show ?thesis by (meson rtranclp_into_tranclp2)
qed

text \<open>The two pieces of a request that authenticates or deauthenticates.\<close>

lemma control_pieces_act:
  assumes "take 4 request = ''auth'' \<or> take 6 request = ''deauth''"
  shows "rbind (ndsctl_begin e request w) (\<lambda>(j, w1). case j of None \<Rightarrow> Ok w1 | Some j \<Rightarrow> rbind (job_step e j w1) (\<lambda>(_, w2). Ok w2)) =
    rbind (ndsctl_dispatch v e request w) (\<lambda>(_, _, w2). Ok w2)"
proof -
  have a: "rbind (rbind r f) g = rbind r (\<lambda>x. rbind (f x) g)" for r :: "'a result" and f :: "'a \<Rightarrow> 'b result" and g :: "'b \<Rightarrow> 'c result"
    by (cases r) simp_all
  from assms consider r where "request = ''auth'' @ r" | r where "request = ''deauth'' @ r"
    by (metis append_take_drop_id)
  then show ?thesis
  proof cases
    case 1
    then show ?thesis
      by (simp add: ndsctl_begin_def ndsctl_dispatch_def strncmp_eq_def Let_def ndsctl_auth_def a)
        (intro arg_cong2 [where f = rbind] refl ext; simp add: a split_beta split: option.split; intro impI allI;
         intro arg_cong2 [where f = rbind] refl ext; simp add: a split_beta split: option.split)
  next
    case 2
    then show ?thesis
      by (simp add: ndsctl_begin_def ndsctl_dispatch_def strncmp_eq_def Let_def ndsctl_deauth_def a split_beta
          option.case_distrib [of "\<lambda>r. rbind r f" for f] cong: option.case_cong)
  qed
qed

section \<open>What a piece can do to the daemon\<close>

text \<open>The request a thread holds came from the peer it was started for.\<close>

fun phase_of :: "string \<Rightarrow> web_phase \<Rightarrow> bool" where
  "phase_of addr Web_open = True"
| "phase_of addr (Web_serve r) = (rq_clientAddr r = addr)"
| "phase_of addr (Web_client r a) = (rq_clientAddr r = addr)"
| "phase_of addr (Web_splash r t a) = (rq_clientAddr r = addr)"
| "phase_of addr (Web_lookup r t action) = (rq_clientAddr r = addr)"
| "phase_of addr (Web_find r t action mac) = (rq_clientAddr r = addr)"
| "phase_of addr (Web_verify r t action mac) = (rq_clientAddr r = addr)"
| "phase_of addr (Web_act r t action mac) = (rq_clientAddr r = addr)"

lemmas web_piece_defs = contact_piece_def auth_piece_def deny_piece_def client_piece_def splash_piece_def info_end_def
  lookup_piece_def find_piece_def verify_piece_def act_piece_def

definition next_of :: "string \<Rightarrow> web_next \<Rightarrow> bool" where
  "next_of addr nx \<longleftrightarrow> (case nx of Web_goes ph \<Rightarrow> phase_of addr ph \<and> (\<forall>r t act mac. ph \<noteq> Web_act r t act mac) | Web_ends out \<Rightarrow> True)"

definition peer_effect :: "env \<Rightarrow> string \<Rightarrow> world \<Rightarrow> world \<Rightarrow> bool" where
  "peer_effect e addr w w' \<longleftrightarrow> w' \<in> {w, tick w} \<or> (\<exists>p. http_nodogsplash_add_client e addr w = Ok (p, w'))"

lemma contact_piece_effect:
  "contact_piece h e r w = Ok (nx, w') \<Longrightarrow> peer_effect e (rq_clientAddr r) w w' \<and> next_of (rq_clientAddr r) nx"
  by (auto simp: contact_piece_def rbind_Ok_iff peer_effect_def next_of_def split: if_splits option.splits)

lemma handler_piece_effect:
  "handler_piece f h e r w = Ok (nx, w') \<Longrightarrow> peer_effect e (rq_clientAddr r) w w' \<and> next_of (rq_clientAddr r) nx"
  using contact_piece_effect [of h e r w nx w']
  by (cases f) (auto simp: auth_piece_def deny_piece_def rbind_Ok_iff peer_effect_def next_of_def split: if_splits)

lemma serve_piece_effect:
  assumes "serve_piece content h e r w = Ok (nx, w')"
  shows "peer_effect e (rq_clientAddr r) w w' \<and> next_of (rq_clientAddr r) nx"
proof -
  let ?r = "r\<lparr>rs_responseLength := 0\<rparr>"
  have ended: "peer_effect e a w w \<and> next_of a (Web_ends out)" for a out
    by (simp add: peer_effect_def next_of_def)
  show ?thesis
  proof (cases "httpdProcessRequest content (rq_path r)")
    case (Run f)
    with assms handler_piece_effect [of f h e ?r w nx w'] show ?thesis by (simp add: serve_piece_def)
  next
    case (Send_file p)
    with assms ended contact_piece_effect [of h e "?r\<lparr>rs_contentType := content_type p (rs_contentType r)\<rparr>" w nx w']
    show ?thesis by (auto simp: serve_piece_def Let_def split: option.splits)
  next
    case (Send_static data)
    with assms ended show ?thesis by (auto simp: serve_piece_def rbind_Ok_iff)
  next
    case Not_found
    with assms contact_piece_effect [of h e ?r w nx w'] show ?thesis by (simp add: serve_piece_def)
  next
    case Invalid_path
    with assms ended show ?thesis by (auto simp: serve_piece_def)
  qed
qed

text \<open>
  Every piece but the last leaves the daemon as it is or adds the peer to the list; only a piece
  that read a positive answer of the authentication server leads to the last one.
\<close>

lemma web_step_effect:
  assumes "web_step content h e addr rd ph w = Some (Ok (nx, w'))" "phase_of addr ph"
  shows "(case ph of Web_act r t act mac \<Rightarrow> auth_client_action e addr mac act w = Ok w' | _ \<Rightarrow> peer_effect e addr w w') \<and>
    (case nx of Web_ends out \<Rightarrow> True | Web_goes ph' \<Rightarrow> phase_of addr ph' \<and>
      (\<forall>r t act mac. ph' = Web_act r t act mac \<longrightarrow> ph = Web_verify r t act mac \<and> verdict h (w_conf w) (at_token t) mac))"
proof (cases ph)
  case Web_open
  with assms show ?thesis
    by (auto simp: rbind_Ok_iff peer_effect_def request_init_def dest!: buffered_request_addr split: if_splits)
next
  case (Web_serve r)
  with assms serve_piece_effect [of content h e r w nx w'] show ?thesis by (auto simp: next_of_def split: web_next.splits)
next
  case (Web_client r a)
  with assms show ?thesis by (auto simp: client_piece_def Let_def rbind_Ok_iff peer_effect_def)
next
  case (Web_splash r t a)
  with assms show ?thesis by (auto simp: splash_piece_def rbind_Ok_iff peer_effect_def dest!: serve_splash_clock)
next
  case (Web_lookup r t act)
  with assms show ?thesis by (auto simp: lookup_piece_def peer_effect_def dest: arp_get_tick split: prod.splits option.splits)
next
  case (Web_find r t act mac)
  with assms show ?thesis by (auto simp: find_piece_def info_end_def rbind_Ok_iff peer_effect_def split: option.splits if_splits)
next
  case (Web_verify r t act mac)
  with assms show ?thesis by (auto simp: verify_piece_def info_end_def rbind_Ok_iff peer_effect_def verdict_def split: if_splits)
next
  case (Web_act r t act mac)
  with assms show ?thesis by (cases act) (auto simp: act_piece_def info_end_def rbind_Ok_iff)
qed

lemma peer_effect_reachable: "peer_effect e addr w w' \<Longrightarrow> reachable e w w'"
  unfolding peer_effect_def by (blast intro: reachable.intros daemon_step.intros)

lemma web_step_reachable:
  assumes "web_step content h e addr rd ph w = Some (Ok (nx, w'))" "phase_of addr ph"
  shows "reachable e w w'"
  using web_step_effect [OF assms]
  by (cases ph) (auto intro: peer_effect_reachable reachable.step [OF reachable.start] daemon_step.access)

text \<open>A pair of addresses is authenticated by the last piece of a request, and by no other.\<close>

lemma web_step_authenticated:
  assumes "web_step content h e addr rd ph w = Some (Ok (nx, w'))" "phase_of addr ph"
    and "daemon_inv w" "w_MARK_AUTHENTICATED w \<noteq> 0" "(ip, mac) \<in> authenticated w'" "(ip, mac) \<notin> authenticated w"
  shows "ip = addr \<and> (\<exists>r t. ph = Web_act r t AUTH_MAKE_AUTHENTICATED mac)"
proof -
  have c: "\<not> peer_effect e addr w w'"
    using assms(5,6) add_client_authenticated [OF assms(3,4)] by (auto simp: peer_effect_def)
  with web_step_effect [OF assms(1,2)] obtain r t act mac' where ph: "ph = Web_act r t act mac'"
    "auth_client_action e addr mac' act w = Ok w'" by (cases ph) auto
  from auth_action_authenticated [OF assms(3) ph(2)] assms(5,6) have "ip = addr \<and> mac = mac' \<and> act = AUTH_MAKE_AUTHENTICATED"
    by (auto split: if_splits)
  with ph(1) show ?thesis by blast
qed

text \<open>The pieces of the counters and of the timer return, and the sweep only loses clients.\<close>

lemma count_line_ok:
  assumes entry: "\<And>ip n w. clist_inv (w_clients w) \<Longrightarrow> \<exists>w'. entry ip n w = Ok w' \<and> counted w w'"
    and inv: "clist_inv (w_clients w)"
  shows "\<exists>s' eof' w'. count_line fmt tgt entry s w = Ok ((s', eof'), w') \<and> counted w w'"
proof -
  obtain vals r f where sc: "scanf fmt s = (vals, r, f)" by (cases "scanf fmt s")
  obtain s' eof' where sk: "skip_line r = (s', eof')" by fastforce
  show ?thesis
  proof (cases "listed_entry tgt vals")
    case None
    with inv show ?thesis by (simp add: count_line_Ok [OF sc sk] counted_refl)
  next
    case (Some ci)
    obtain n ip where ci: "ci = (n, ip)" by fastforce
    obtain w1 where "entry ip n w = Ok w1" "counted w w1" using entry [OF inv] by blast
    with Some ci show ?thesis by (simp add: count_line_Ok [OF sc sk])
  qed
qed

lemma count_step_ok:
  assumes "clist_inv (w_clients w)"
  shows "\<exists>ph' w'. count_step e ph w = Ok (ph', w') \<and> counted w w'"
proof -
  have p: "\<exists>ph' w'. (case popen e cmd w of (out, w1) \<Rightarrow> Ok (f out, w1)) = Ok (ph', w') \<and> counted w w'" for cmd and f :: "string option \<Rightarrow> count_phase"
    using popen_counted [OF assms, of e cmd] by (cases "popen e cmd w") simp
  show ?thesis
  proof (cases ph)
    case Count_start
    with p [of _ "counters_cmd ''ndsOUT''"] show ?thesis by simp
  next
    case (Count_out s eof)
    have "\<exists>s' eof' w'. count_line out_format ''MARK'' (outgoing_entry e) s w = Ok ((s', eof'), w') \<and> counted w w'"
      using outgoing_entry_credit by (intro count_line_ok [OF _ assms]) blast
    with Count_out p [of _ "counters_cmd ''ndsINC''"] show ?thesis by (cases eof) auto
  next
    case (Count_in s eof)
    have "\<exists>s' eof' w'. count_line inc_format ''ACCEPT'' incoming_entry s w = Ok ((s', eof'), w') \<and> counted w w'"
      using incoming_entry_credit by (intro count_line_ok [OF _ assms]) blast
    with Count_in assms show ?thesis by (cases eof) (auto simp: counted_refl)
  next
    case (Count_done ok)
    with assms show ?thesis by (simp add: counted_refl)
  qed
qed

definition quiet :: "world \<Rightarrow> world \<Rightarrow> bool" where
  "quiet w w' \<longleftrightarrow> counted w w' \<or> set (clients (w_clients w')) \<subseteq> set (clients (w_clients w))"

lemma timer_step_ok:
  assumes inv: "daemon_inv w"
  shows "\<exists>ph' w'. timer_step e ph w = Ok (ph', w') \<and> keeps e k w w' \<and> quiet w w'"
proof -
  have ci: "clist_inv (w_clients w)" using inv by (simp add: daemon_inv_def)
  have c: "\<exists>ph' w'. count_step e ph w = Ok (ph', w') \<and> keeps e k w w' \<and> quiet w w'"
    using count_step_ok [OF ci, of e ph] counted_keeps [OF inv] unfolding quiet_def by blast
  show ?thesis
  proof (cases ph)
    case (Count_done ok)
    obtain w' ts where "refresh_loop e (client_get_first_client (w_clients w)) w = Some w'" "keeps e k w w'"
      "clients (w_clients w') = survivors (w_conf w) (clients (w_clients w)) ts"
      using sweep_keeps [OF inv, of e k] by blast
    with Count_done inv set_survivors [of "w_conf w" "clients (w_clients w)" ts] show ?thesis
      by (cases ok) (auto simp: quiet_def keeps_refl)
  qed (use c in auto)
qed

lemma job_step_ok:
  assumes inv: "daemon_inv w"
  shows "\<exists>j w'. job_step e job w = Ok (j, w') \<and> keeps e k w w' \<and> (\<forall>ip mac act. j \<noteq> Some (Job_act ip mac act)) \<and>
    (quiet w w' \<or> (\<exists>ip mac act. job = Job_act ip mac act \<and> auth_client_action e ip mac act w = Ok w'))"
proof (cases job)
  case (Job_act ip mac act)
  with auth_client_action_keeps [OF inv, of e ip mac act k] show ?thesis by auto
next
  case (Job_report ph)
  have ci: "clist_inv (w_clients w)" using inv by (simp add: daemon_inv_def)
  obtain ph' w' where c: "count_step e ph w = Ok (ph', w')" "counted w w'" using count_step_ok [OF ci] by blast
  with Job_report inv counted_keeps [OF inv c(2), of e k] show ?thesis
    by (cases ph) (auto simp: quiet_def keeps_refl)
qed

lemma ndsctl_begin_effect:
  assumes "ndsctl_begin e request w = Ok (j, w')"
  shows "(w' = w \<or> (\<exists>p a. http_nodogsplash_add_client e a w = Ok (p, w'))) \<and>
    (\<forall>ip mac. j = Some (Job_act ip mac AUTH_MAKE_AUTHENTICATED) \<longrightarrow> take 4 request = ''auth'')"
  using assms by (auto simp: ndsctl_begin_def Let_def rbind_Ok_iff strncmp_eq_def split: if_splits option.splits prod.splits)

lemma ndsctl_begin_ok:
  assumes inv: "daemon_inv w" and m: "w_MARK_AUTHENTICATED w \<noteq> 0" and t: "NUL \<in> set (drop 9 request)"
  shows "\<exists>j w'. ndsctl_begin e request w = Ok (j, w') \<and> keeps e k w w'"
proof -
  have ci: "clist_inv (w_clients w)" using inv by (simp add: daemon_inv_def)
  have none: "\<exists>j w'. Ok (j0, w) = Ok (j, w') \<and> keeps e k w w'" for j0 :: "control_job option"
    using inv by (simp add: keeps_refl)
  have arg: "\<exists>j w'. rbind (of_opt (cstr i request)) f = Ok (j, w') \<and> keeps e k w w'"
    if "i \<le> 9" "\<And>a. \<exists>j w'. f a = Ok (j, w') \<and> keeps e k w w'" for i and f :: "string \<Rightarrow> (control_job option \<times> world) result"
    using cstr_terminated [OF t that(1)] that(2) by auto
  have auth: "\<exists>j w'. rbind (http_nodogsplash_add_client e a w) (\<lambda>(client, w1). case client of
      None \<Rightarrow> Ok (None, w1)
    | Some c \<Rightarrow> rbind (client_keys c w1) (\<lambda>(ip, mac). Ok (Some (Job_act ip mac AUTH_MAKE_AUTHENTICATED), w1))) = Ok (j, w') \<and>
    keeps e k w w'" for a
  proof -
    obtain p w1 where a: "http_nodogsplash_add_client e a w = Ok (p, w1)"
      "\<And>x. p = Some x \<Longrightarrow> \<exists>c. client_at (w_clients w1) x = Some c"
      using add_client_returns [OF inv, of e a] by (fastforce split: option.splits)
    have "keeps e k w w1" using add_client_keeps [OF inv m, of e a k] a(1) by auto
    with a show ?thesis by (cases p) (auto simp: client_keys_at)
  qed
  have deauth: "\<exists>j w'. rbind (client_list_find_by_ip a (w_clients w)) (\<lambda>by_ip.
      rbind (if by_ip \<noteq> None then Ok by_ip else client_list_find_by_mac a (w_clients w)) (\<lambda>client. case client of
        None \<Rightarrow> Ok (None, w)
      | Some c \<Rightarrow> rbind (client_keys c w) (\<lambda>(ip, mac). Ok (Some (Job_act ip mac AUTH_MAKE_DEAUTHENTICATED), w)))) = Ok (j, w') \<and>
    keeps e k w w'" for a
  proof -
    obtain p where p: "client_list_find_by_ip a (w_clients w) = Ok p" "\<forall>x. p = Some x \<longrightarrow> client_at (w_clients w) x \<noteq> None"
      using find_refines [OF ci, of "\<lambda>c. Some (c_ip c = a)" "\<lambda>c. c_ip c = a"]
      by (auto simp: client_list_find_by_ip_def split: option.splits)
    obtain q where q: "client_list_find_by_mac a (w_clients w) = Ok q" "\<forall>x. q = Some x \<longrightarrow> client_at (w_clients w) x \<noteq> None"
      using find_refines [OF ci, of "\<lambda>c. Some (c_mac c = a)" "\<lambda>c. c_mac c = a"]
      by (auto simp: client_list_find_by_mac_def split: option.splits)
    with p inv show ?thesis by (cases p; cases q) (auto simp: client_keys_at keeps_refl)
  qed
  show ?thesis
    unfolding ndsctl_begin_def Let_def
    by (intro if_split [where P = "\<lambda>r. \<exists>j w'. r = Ok (j, w') \<and> keeps e k w w'", THEN iffD2] conjI impI none arg auth deauth) simp_all
qed

end
