(* ===== verification/Support.thy ===== *)
theory Support
  imports Config
begin

text \<open>
  What the daemon's files share: debug messages (\<^verbatim>\<open>src/debug.c\<close>), the wrappers that end the
  process when memory or processes run out (\<^verbatim>\<open>src/safe.c\<close>), and the helpers of \<^verbatim>\<open>src/util.c\<close> for
  names of hosts and the external interface, which is the device of the default route.
\<close>

section \<open>Debug messages\<close>

datatype channel = To_stderr | To_stdout | To_syslog

definition LOG_WARNING :: int where
  "LOG_WARNING = 4"

text \<open>
  \<open>ts\<close> is the time as \<^verbatim>\<open>ctime_r\<close> prints it and \<open>text\<close> the message, formatted. What is printed for
  a level, and where.
\<close>

definition debug_line :: "string \<Rightarrow> int \<Rightarrow> nat \<Rightarrow> string \<Rightarrow> int \<Rightarrow> string \<Rightarrow> string" where
  "debug_line ts level pid filename line msg =
     ''['' @ fmt_d level @ ''][''  @ take 24 ts @ ''][''  @ udec pid @ ''](''  @ filename @ '':'' @ fmt_d line @ '') '' @ msg @ [nl]"

definition debug_msg :: "s_config \<Rightarrow> string \<Rightarrow> nat \<Rightarrow> string \<Rightarrow> int \<Rightarrow> int \<Rightarrow> string \<Rightarrow> (channel \<times> string) list" where
  "debug_msg config ts pid filename line level msg =
     (if cf_debuglevel config \<ge> level then
        (if level \<le> LOG_WARNING then [(To_stderr, debug_line ts level pid filename line msg)]
         else if cf_daemon config = 0 then [(To_stdout, debug_line ts level pid filename line msg)] else []) @
        (if cf_log_syslog config \<noteq> 0 then [(To_syslog, msg)] else [])
      else [])"

section \<open>Wrappers\<close>

text \<open>\<open>got\<close> is what the library returns: nothing when memory runs out.\<close>

definition safe_malloc :: "'a option \<Rightarrow> 'a result" where
  "safe_malloc got = (case got of None \<Rightarrow> Exit 1 | Some p \<Rightarrow> Ok p)"

definition safe_strdup :: "bool \<Rightarrow> string option \<Rightarrow> string result" where
  "safe_strdup memory s = (case s of None \<Rightarrow> Exit 1 | Some t \<Rightarrow> if memory then Ok t else Exit 1)"

definition safe_vasprintf :: "string option \<Rightarrow> (int \<times> string) result" where
  "safe_vasprintf got = (case got of None \<Rightarrow> Exit 1 | Some s \<Rightarrow> Ok (int (length s), s))"

definition safe_asprintf :: "string option \<Rightarrow> (int \<times> string) result" where
  "safe_asprintf got = safe_vasprintf got"

text \<open>The result of the fork and the socket of the web server, which the child closes.\<close>

definition safe_fork :: "int \<Rightarrow> int option \<Rightarrow> (int \<times> int option \<times> int list) result" where
  "safe_fork pid webserver =
     (if pid = -1 then Exit 1
      else if pid = 0 then Ok (pid, None, case webserver of None \<Rightarrow> [] | Some sock \<Rightarrow> [sock])
      else Ok (pid, webserver, []))"

section \<open>Names of hosts\<close>

text \<open>The first address of the host; a host without one makes the code follow a null pointer.\<close>

definition wd_gethostbyname :: "(string \<Rightarrow> 32 word list option) \<Rightarrow> string \<Rightarrow> 32 word option result" where
  "wd_gethostbyname he name =
     (case he name of
        None \<Rightarrow> Ok None
      | Some [] \<Rightarrow> Undef
      | Some (addr # _) \<Rightarrow> Ok (Some addr))"

section \<open>The external interface\<close>

text \<open>
  The routing table line by line: device, destination (into the buffer for the gateway) and nine
  fields more. Each buffer has 16 bytes and keeps its content when a scan falls short.
\<close>

definition route_format :: "scan_dir list" where
  "route_format = [SStr, SWs, SStr] @ concat (replicate 9 [SWs, SSkip]) @ [SWs]"

definition put_words :: "scan_val list \<Rightarrow> string option \<times> string option \<Rightarrow> (string option \<times> string option) result" where
  "put_words vals dg =
     (if list_ex (\<lambda>v. case v of VStr s \<Rightarrow> 16 \<le> length s | VNum n \<Rightarrow> False) vals then Undef
      else Ok (case vals of
          VStr d # VStr g # _ \<Rightarrow> (Some d, Some g)
        | VStr d # _ \<Rightarrow> (Some d, snd dg)
        | _ \<Rightarrow> dg))"

lemma route_left:
  assumes "scanf route_format s = (vals, r, f)" "r \<noteq> []"
  shows "length r < length s"
proof (cases "skip_ws s = []")
  case True
  with assms show ?thesis by (simp add: route_format_def scanf.simps(5))
next
  case False
  then have "fst (scanf route_format s) \<noteq> []" by (simp add: route_format_def scanf.simps(5) Let_def)
  with scanf_shorter [of route_format s] assms(1) show ?thesis by simp
qed

function route_lines :: "string option \<times> string option \<Rightarrow> string \<Rightarrow> (string + string option \<times> string option) result" where
  "route_lines dg s =
     (case scanf route_format s of (vals, r, _) \<Rightarrow>
        (case put_words vals dg of
           Ok (Some d, Some g) \<Rightarrow>
             if g = ''00000000'' then Ok (Inl d)
             else if r = [] then Ok (Inr (Some d, Some g))
             else route_lines (Some d, Some g) r
         | _ \<Rightarrow> Undef))"
  by pat_completeness auto
termination
  by (relation "measure (\<lambda>(dg, s). length s)") (auto dest: route_left [OF sym])

declare route_lines.simps [simp del]

text \<open>
  The table is read again every second until it has a default route: the limit of the tries is 0,
  which means none. A table that cannot be opened is used all the same.
\<close>

partial_function (option) get_ext_iface ::
    "(nat \<Rightarrow> string option) \<Rightarrow> nat \<Rightarrow> string option \<times> string option \<Rightarrow> string result option" where
  "get_ext_iface table n dg =
     (case table n of
        None \<Rightarrow> Some Undef
      | Some s \<Rightarrow> (case route_lines dg s of
          Ok (Inl device) \<Rightarrow> Some (Ok device)
        | Ok (Inr dg') \<Rightarrow> get_ext_iface table (Suc n) dg'
        | Exit c \<Rightarrow> Some (Exit c)
        | Undef \<Rightarrow> Some Undef))"

text \<open>A table as the kernel prints it.\<close>

definition route_word :: "string \<Rightarrow> bool" where
  "route_word s \<longleftrightarrow> s \<noteq> [] \<and> length s < 16 \<and> list_all (\<lambda>c. \<not> isspace c) s"

definition route_entry :: "string \<times> string \<Rightarrow> string" where
  "route_entry e = fst e @ [CHR 0x09] @ snd e @ concat (replicate 9 ([CHR 0x09] @ ''0'')) @ [nl]"

lemma tab_space: "isspace (CHR 0x09)" "isspace nl" "\<not> isspace (CHR ''0'')"
  by (simp_all add: isspace_def nl_def cc_def)

lemma skip_word: "route_word w \<Longrightarrow> skip_ws (w @ s) = w @ s"
  by (cases w) (auto simp: route_word_def skip_ws_def)

lemma word_end:
  assumes "route_word w" "isspace c"
  shows "takeWhile (\<lambda>c. \<not> isspace c) (w @ c # s) = w" "dropWhile (\<lambda>c. \<not> isspace c) (w @ c # s) = c # s"
  using assms by (auto simp: route_word_def list_all_iff takeWhile_append2 dropWhile_append2)

lemma scan_entry:
  assumes "route_word d" "route_word g"
  shows "scanf route_format (route_entry (d, g) @ s) = ([VStr d, VStr g], skip_ws s, False)"
proof -
  let ?z = "concat (replicate 9 ([CHR 0x09] @ ''0'')) @ nl # s"
  have ne: "skip_ws (d @ t) \<noteq> []" "skip_ws (g @ t) \<noteq> []" for t
    using assms by (simp_all add: skip_word) (simp_all add: route_word_def)
  have z: "\<exists>u. ?z = CHR 0x09 # u" by (simp add: eval_nat_numeral)
  have tail: "scanf (concat (replicate 9 [SWs, SSkip]) @ [SWs]) ?z = ([], skip_ws s, False)"
    by (simp add: eval_nat_numeral scanf.simps skip_ws_def tab_space)
  have "scanf route_format (d @ CHR 0x09 # g @ ?z) = ([VStr d, VStr g], skip_ws s, False)"
  proof -
    have "scanf (SStr # concat (replicate 9 [SWs, SSkip]) @ [SWs]) (g @ ?z) = ([VStr g], skip_ws s, False)"
      using z tail ne(2) word_end [OF assms(2) tab_space(1)] by (auto simp: scanf.simps(5) skip_word [OF assms(2)] Let_def)
    moreover have "skip_ws (CHR 0x09 # g @ t) = g @ t" for t
      using skip_word [OF assms(2), of t] by (simp add: skip_ws_def tab_space)
    ultimately show ?thesis
      using ne(1) word_end [OF assms(1) tab_space(1)]
      by (simp add: route_format_def scanf.simps(2,5) skip_word [OF assms(1)] Let_def)
  qed
  then show ?thesis by (simp add: route_entry_def)
qed

lemma route_lines_skip: "route_lines dg (skip_ws s) = route_lines dg s"
  by (subst (1 2) route_lines.simps) (simp add: route_format_def scanf.simps(5) skip_ws_def)

text \<open>The device of the first default route of the table, or the last entry when there is none.\<close>

lemma route_lines_table:
  assumes "es \<noteq> []" "list_all (\<lambda>(d, g). route_word d \<and> route_word g) es"
  shows "route_lines dg (concat (map route_entry es)) =
    Ok (case List.find (\<lambda>e. snd e = ''00000000'') es of
          Some e \<Rightarrow> Inl (fst e)
        | None \<Rightarrow> Inr (Some (fst (last es)), Some (snd (last es))))"
  using assms
proof (induction es arbitrary: dg)
  case (Cons e es)
  obtain d g where e: "e = (d, g)" "route_word d" "route_word g" using Cons.prems by (cases e) auto
  have pw: "put_words [VStr d, VStr g] dg = Ok (Some d, Some g)" using e by (simp add: put_words_def route_word_def)
  let ?s = "concat (map route_entry es)"
  have step: "route_lines dg (route_entry e @ ?s) =
      (if g = ''00000000'' then Ok (Inl d) else if skip_ws ?s = [] then Ok (Inr (Some d, Some g)) else route_lines (Some d, Some g) (skip_ws ?s))"
    using scan_entry [OF e(2,3)] pw e(1) by (subst route_lines.simps) simp
  show ?case
  proof (cases es)
    case Nil
    with step e show ?thesis by (simp add: skip_ws_def)
  next
    case (Cons e' es')
    obtain d' g' where e': "e' = (d', g')" "route_word d'" using Cons.prems Cons by (cases e') auto
    have sk: "skip_ws ?s = ?s" using skip_word [OF e'(2)] by (simp add: Cons route_entry_def e'(1))
    have nes: "(?s = []) = False" by (simp add: Cons route_entry_def)
    have step': "route_lines dg (route_entry e @ ?s) =
        (if g = ''00000000'' then Ok (Inl d) else route_lines (Some d, Some g) ?s)" unfolding step sk nes by (simp only: if_False)
    have ne: "es \<noteq> []" by (simp add: Cons)
    with Cons.prems have "route_lines (Some d, Some g) ?s = Ok (case List.find (\<lambda>e. snd e = ''00000000'') es of
        Some e \<Rightarrow> Inl (fst e) | None \<Rightarrow> Inr (Some (fst (last es)), Some (snd (last es))))" by (intro Cons.IH) simp_all
    with step' e(1) ne show ?thesis by (simp split: option.split)
  qed
qed simp

end
