(* ===== verification/Process.thy ===== *)
theory Process
  imports Ndsctl Support
begin

text \<open>
  The process around the threads: its signals (\<^verbatim>\<open>sigchld_handler\<close> and \<^verbatim>\<open>init_signals\<close> in
  \<^verbatim>\<open>src/gateway.c\<close>), the set-up of the control socket and its connections (\<^verbatim>\<open>thread_ndsctl\<close> in
  \<^verbatim>\<open>src/ndsctl_thread.c\<close>), the deadline of the timer (\<^verbatim>\<open>src/auth.c\<close>), the random numbers of the
  tokens (\<^verbatim>\<open>src/util.c\<close>), and running a command for its output (\<^verbatim>\<open>src/http.c\<close>).
\<close>

section \<open>Signals\<close>

datatype disposition = SIG_DFL | SIG_IGN | Sigchld_handler | Termination_handler

type_synonym signals = "int \<Rightarrow> disposition"

definition SIGQUIT :: int where
  "SIGQUIT = 3"

definition SIGPIPE :: int where
  "SIGPIPE = 13"

definition SIGTERM :: int where
  "SIGTERM = 15"

definition SIGCHLD :: int where
  "SIGCHLD = 17"

text \<open>\<open>ok n\<close> tells whether the \<open>n\<close>-th \<^verbatim>\<open>sigaction\<close> succeeds.\<close>

fun set_signals :: "(nat \<Rightarrow> bool) \<Rightarrow> nat \<Rightarrow> (int \<times> disposition) list \<Rightarrow> signals \<Rightarrow> signals result" where
  "set_signals ok n [] t = Ok t"
| "set_signals ok n ((s, d) # rest) t = (if ok n then set_signals ok (Suc n) rest (t(s := d)) else Exit 1)"

definition init_signals :: "(nat \<Rightarrow> bool) \<Rightarrow> signals result" where
  "init_signals ok = set_signals ok 0
     [(SIGCHLD, Sigchld_handler), (SIGPIPE, SIG_IGN), (SIGTERM, Termination_handler), (SIGQUIT, Termination_handler),
      (SIGINT, Termination_handler)] (\<lambda>_. SIG_DFL)"

definition LOG_ERR :: int where
  "LOG_ERR = 3"

definition LOG_DEBUG :: int where
  "LOG_DEBUG = 7"

text \<open>
  What the handler reports, with its level, for the result of \<^verbatim>\<open>waitpid\<close>: one child at most is
  waited for. \<open>nochild\<close> tells whether the error is \<^verbatim>\<open>ECHILD\<close>, \<open>err\<close> is the text of another one.
\<close>

definition sigchld_handler :: "int \<Rightarrow> bool \<Rightarrow> string \<Rightarrow> nat \<Rightarrow> (int \<times> string) list" where
  "sigchld_handler rc nochild err status =
     [(LOG_DEBUG, ''SIGCHLD handler: Trying to reap a child''),
      if rc = -1 then
        (if nochild then (LOG_DEBUG, ''SIGCHLD handler: waitpid(): No child exists now.'')
         else (LOG_ERR, ''SIGCHLD handler: Error reaping child (waitpid() returned -1): '' @ err))
      else if status mod 128 = 0 then
        (LOG_DEBUG, ''SIGCHLD handler: Process PID '' @ fmt_d rc @ '' exited normally, status '' @ udec (status div 256 mod 256))
      else if status mod 128 < 127 then
        (LOG_DEBUG, ''SIGCHLD handler: Process PID '' @ fmt_d rc @ '' exited due to signal '' @ udec (status mod 128))
      else (LOG_DEBUG, ''SIGCHLD handler: Process PID '' @ fmt_d rc @ '' changed state, status '' @ udec status @
        '' not exited, ignoring'')]"

section \<open>The control socket\<close>

datatype control_thread = Control_ended | Control_listening

text \<open>
  \<open>bind\<close> and \<open>listen\<close> are the results of the two calls. A name that does not fit the address ends
  the process; an error of the calls ends the thread only.
\<close>

definition control_path_size :: nat where
  "control_path_size = 108"

definition control_setup :: "(string \<Rightarrow> int) \<Rightarrow> int \<Rightarrow> string \<Rightarrow> control_thread result" where
  "control_setup bind listen sock_name =
     (if control_path_size - 1 < length sock_name then Exit 1
      else if bind sock_name \<noteq> 0 then Ok Control_ended
      else if listen \<noteq> 0 then Ok Control_ended
      else Ok Control_listening)"

datatype control_accept = Accept_failed | Handler_started int | Handler_failed

definition control_connection :: "int \<Rightarrow> bool \<Rightarrow> control_accept" where
  "control_connection fd created =
     (if fd = -1 then Accept_failed else if created then Handler_started fd else Handler_failed)"

section \<open>The timer\<close>

definition timer_deadline :: "s_config \<Rightarrow> int \<Rightarrow> int \<times> int" where
  "timer_deadline c now = (now + cf_checkinterval c, 0)"

section \<open>Random numbers\<close>

text \<open>
  \<open>srand\<close> gives the state of the generator for a seed, \<open>rand\<close> its next number and state. The state
  is \<open>None\<close> until the first call.
\<close>

definition rand16_seed :: "int \<Rightarrow> int \<Rightarrow> int \<Rightarrow> 32 word" where
  "rand16_seed tv_sec tv_usec pid =
     xor (xor (word_of_int tv_sec) (word_of_int tv_usec)) (push_bit 16 (word_of_int pid))"

definition rand16 :: "(32 word \<Rightarrow> 'g) \<Rightarrow> ('g \<Rightarrow> 32 word \<times> 'g) \<Rightarrow> int \<Rightarrow> int \<Rightarrow> int \<Rightarrow> 'g option \<Rightarrow> 16 word \<times> 'g option" where
  "rand16 srand rand tv_sec tv_usec pid state =
     (let g = (case state of Some g \<Rightarrow> g | None \<Rightarrow> srand (rand16_seed tv_sec tv_usec pid)) in
      case rand g of (x, g') \<Rightarrow> (ucast (drop_bit 15 x), Some g'))"

section \<open>The output of a command\<close>

text \<open>
  \<open>mem\<close> and \<open>piped\<close> tell whether there are memory and a pipe, \<open>out\<close> is what the command prints
  into the pipe, which holds \<open>room\<close> bytes: more than that blocks the command, which is waited for
  before the pipe is read. The result is the text in the buffer, or a null pointer.
\<close>

definition system_exec :: "nat \<Rightarrow> bool \<Rightarrow> bool \<Rightarrow> string \<Rightarrow> string option result" where
  "system_exec room mem piped out =
     (if \<not> mem then Ok None
      else if \<not> piped then Ok (Some [])
      else if room < length out then Undef
      else Ok (Some (c_string (take 99 out))))"

section \<open>Lemmas\<close>

text \<open>
  When the signals are set, a peer that closes its connection does not end the process, and the
  signals that end it take the firewall down first.
\<close>

lemma init_signals_Ok:
  "init_signals ok = Ok t \<Longrightarrow> t SIGPIPE = SIG_IGN \<and> t SIGINT = Termination_handler \<and> t SIGTERM = Termination_handler \<and>
     t SIGQUIT = Termination_handler \<and> t SIGCHLD = Sigchld_handler"
  by (auto simp: init_signals_def SIGPIPE_def SIGINT_def SIGTERM_def SIGQUIT_def SIGCHLD_def split: if_splits)

text \<open>The number is the upper part of a random number of 31 bits, all of it.\<close>

lemma rand16_upper:
  assumes "rand g = (x, g')" "unat x < 2 ^ 31"
  shows "unat (fst (rand16 srand rand tv_sec tv_usec pid (Some g))) = unat x div 2 ^ 15"
proof -
  have "unat (drop_bit 15 x) = unat x div 2 ^ 15" by (simp add: unat_div drop_bit_eq_div)
  moreover have "unat x div 2 ^ 15 < 2 ^ 16" using assms(2) by simp
  ultimately show ?thesis using assms(1) by (simp add: rand16_def Let_def unsigned_ucast_eq take_bit_nat_eq_self)
qed

end
