(* ===== verification/Gateway.thy ===== *)
theory Gateway
  imports ServerConfig Acl Threads Process
begin

text \<open>
  The gateway as a whole (\<^verbatim>\<open>src/gateway.c\<close>, \<^verbatim>\<open>src/commandline.c\<close> and the interface queries of
  \<^verbatim>\<open>src/util.c\<close>): its command line, the configuration from the command line, the file and the
  server, the start of the firewall and the threads, the loop that accepts connections, the
  termination handler, and the state machine of all threads together. Parameters are the files,
  the network at each attempt, the interfaces, and whether the port can be bound and the threads
  created.
\<close>

section \<open>The command line\<close>

text \<open>\<^verbatim>\<open>sizeof(config->configfile)\<close>; a longer name is cut without a terminator.\<close>

definition configfile_size :: nat where
  "configfile_size = 255"

definition gateway_option :: "char \<Rightarrow> string \<Rightarrow> s_config \<Rightarrow> s_config result" where
  "gateway_option opt optarg c =
     (if opt = CHR ''h'' then Exit 1
      else if opt = CHR ''c'' then Ok (c\<lparr>cf_configfile := take configfile_size optarg\<rparr>)
      else if opt = CHR ''w'' then Ok (c\<lparr>cf_ndsctl_sock := optarg\<rparr>)
      else if opt = CHR ''f'' then Ok (c\<lparr>cf_daemon := 0\<rparr>)
      else if opt = CHR ''d'' then Ok (snd (set_log_level (atoi optarg) c))
      else if opt = CHR ''s'' then Ok (c\<lparr>cf_log_syslog := 1\<rparr>)
      else Exit 1)"

text \<open>
  \<^verbatim>\<open>getopt(argc, argv, "c:hfd:sw:vi:")\<close> with the options handled as they come; operands are
  passed over. A missing argument is an unknown option.
\<close>

fun gateway_letters :: "string \<Rightarrow> string list \<Rightarrow> s_config \<Rightarrow> (s_config \<times> string list) result" where
  "gateway_letters [] ws c = Ok (c, ws)"
| "gateway_letters (x # xs) ws c =
     (if x \<in> {CHR ''c'', CHR ''d'', CHR ''w'', CHR ''i''} then
        (if xs \<noteq> [] then rbind (gateway_option x xs c) (\<lambda>c1. Ok (c1, ws))
         else case ws of
             [] \<Rightarrow> rbind (gateway_option CHR ''?'' [] c) (\<lambda>c1. Ok (c1, []))
           | w # ws' \<Rightarrow> rbind (gateway_option x w c) (\<lambda>c1. Ok (c1, ws')))
      else rbind (gateway_option x [] c) (\<lambda>c1. gateway_letters xs ws c1))"

lemma gateway_letters_le: "gateway_letters xs ws c = Ok (c1, ws') \<Longrightarrow> length ws' \<le> length ws"
  by (induction xs ws c rule: gateway_letters.induct) (auto simp: rbind_Ok_iff split: if_splits list.splits)

function gateway_getopt :: "string list \<Rightarrow> s_config \<Rightarrow> s_config result" where
  "gateway_getopt [] c = Ok c"
| "gateway_getopt (w # ws) c =
     (if w = ''--'' then Ok c
      else case w of
        x # y # cs \<Rightarrow> if x = CHR ''-'' then
            (case gateway_letters (y # cs) ws c of
               Ok (c1, ws') \<Rightarrow> gateway_getopt ws' c1
             | Exit n \<Rightarrow> Exit n
             | Undef \<Rightarrow> Undef)
          else gateway_getopt ws c
      | _ \<Rightarrow> gateway_getopt ws c)"
  by pat_completeness auto
termination
  by (relation "measure (\<lambda>(ws, _). length ws)") (auto simp del: gateway_letters.simps dest!: gateway_letters_le)

section \<open>The surroundings of a start\<close>

record start_env =
  g_files :: "string \<Rightarrow> string option"
  g_nets :: "nat \<Rightarrow> net"
  g_ghbn :: "string \<Rightarrow> 32 word list option"
  g_iface_addr :: "string \<Rightarrow> 32 word option"
  g_iface_hw :: "string \<Rightarrow> 8 word list option"
  g_listen :: "string \<Rightarrow> 32 word \<Rightarrow> bool"
  g_thread :: "nat \<Rightarrow> bool"
  g_sigaction :: "nat \<Rightarrow> bool"
  g_fork :: int
  g_bind :: "string \<Rightarrow> int"
  g_control :: int
  g_status :: status_env

text \<open>The name of an interface is copied into 16 bytes.\<close>

definition IFNAMSIZ :: nat where
  "IFNAMSIZ = 16"

definition get_iface_ip :: "start_env \<Rightarrow> string \<Rightarrow> string option result" where
  "get_iface_ip g ifname =
     (if IFNAMSIZ \<le> length ifname then Undef else Ok (map_option inet_ntoa (g_iface_addr g ifname)))"

definition hex_pair :: "8 word \<Rightarrow> string" where
  "hex_pair b = (let digit = (\<lambda>n. ''0123456789ABCDEF'' ! n) in [digit (unat b div 16), digit (unat b mod 16)])"

definition get_iface_mac :: "start_env \<Rightarrow> string \<Rightarrow> string option result" where
  "get_iface_mac g ifname =
     (if IFNAMSIZ \<le> length ifname then Undef
      else Ok (map_option (\<lambda>hwaddr. concat (map hex_pair (take 6 hwaddr))) (g_iface_hw g ifname)))"

section \<open>The configuration\<close>

text \<open>
  As long as the configuration cannot be had from the server the request is repeated, on the
  configuration the last attempt left.
\<close>

partial_function (option) server_retry :: "start_env \<Rightarrow> nat \<Rightarrow> s_config \<Rightarrow> s_config result option" where
  "server_retry g n c =
     (case config_from_server (g_nets g n) (g_ghbn g) (s_version (g_status g)) c of
        Ok rc \<Rightarrow> if fst rc < 0 then server_retry g (Suc n) (snd rc) else Some (Ok (snd rc))
      | Exit k \<Rightarrow> Some (Exit k)
      | Undef \<Rightarrow> Some Undef)"

definition read_configuration :: "start_env \<Rightarrow> string list \<Rightarrow> s_config result" where
  "read_configuration g args =
     rbind (gateway_getopt args config_init) (\<lambda>c1.
     if configfile_size \<le> length (cf_configfile c1) then Undef
     else rbind (config_read (g_files g (cf_configfile c1)) c1) (\<lambda>c2.
     rbind (config_validate c2) (\<lambda>_.
     rbind (rbind (of_opt (server_retry g 0 c2)) (\<lambda>r. r)) (\<lambda>c3. free_ip_init c3))))"

section \<open>Start and end\<close>

text \<open>
  The state of all threads: the daemon, the counters shown in the status, the addresses of the
  connections that are accepted, and of those whose thread runs with the phase it is in, where
  the timer is, the control requests that are under way, the signals, and whether the control
  socket is listened on.
\<close>

record gateway =
  gt_world :: world
  gt_status :: status_env
  gt_accepted :: "string list"
  gt_running :: "(string \<times> web_phase) list"
  gt_timer :: count_phase
  gt_jobs :: "control_job list"
  gt_signals :: signals
  gt_control :: bool

definition world_init :: "s_config \<Rightarrow> world" where
  "world_init c = \<lparr>w_conf = c,
     w_clients = client_list_init (cf_maxclients c) \<lparr>cl_heap = [], cl_first = None, cl_count = 0, cl_arr = [], cl_last_time = 0\<rparr>,
     w_MARK_PREAUTHENTICATED = 0, w_MARK_AUTHENTICATED = 0, w_MARK_BLOCKED = 0, w_MARK_TRUSTED = 0, w_MARK_MASK = 0,
     w_markop = ''--set-mark'', w_markmask = [], w_fw_quiet = False, w_tc_quiet = False, w_log = [], w_clock = 0,
     w_authenticated_since_start = 0\<rparr>"

text \<open>
  \<open>begun\<close> tells whether another thread holds the mutex; then this one ends. Else the result is how
  the process ends and the state it leaves: once the timer thread runs, the \<^verbatim>\<open>SIGKILL\<close> meant for it
  ends the whole process, before the status of \<^verbatim>\<open>exit\<close> is reached.
\<close>

definition SIGKILL :: int where
  "SIGKILL = 9"

definition termination_handler :: "env \<Rightarrow> int \<Rightarrow> bool \<Rightarrow> bool \<Rightarrow> world \<Rightarrow> (wait_status \<times> world) option result" where
  "termination_handler e s begun timer w =
     (if begun then Ok None
      else rbind (fw_destroy e w) (\<lambda>(_, w1).
        Ok (Some (if timer then Signaled SIGKILL else Exited (if s = 0 then 1 else 0), w1))))"

text \<open>A process that is killed has the status the shell gives it.\<close>

definition terminate :: "env \<Rightarrow> bool \<Rightarrow> world \<Rightarrow> 'a result" where
  "terminate e timer w = rbind (termination_handler e 0 False timer w)
     (\<lambda>r. case r of Some (Exited n, _) \<Rightarrow> Exit n | Some (Signaled n, _) \<Rightarrow> Exit (128 + n) | _ \<Rightarrow> Undef)"

definition interface_config :: "start_env \<Rightarrow> s_config \<Rightarrow> s_config result" where
  "interface_config g c =
     rbind (of_opt (cf_gw_interface c)) (\<lambda>ifc.
     rbind (case cf_gw_address c of
         Some addr \<Rightarrow> Ok addr
       | None \<Rightarrow> rbind (get_iface_ip g ifc) (\<lambda>r. case r of None \<Rightarrow> Exit 1 | Some addr \<Rightarrow> Ok addr)) (\<lambda>addr.
     rbind (get_iface_mac g ifc) (\<lambda>r. case r of
         None \<Rightarrow> Exit 1
       | Some mac \<Rightarrow> Ok (c\<lparr>cf_gw_address := Some addr, cf_gw_mac := Some mac\<rparr>))))"

definition firewall_start :: "start_env \<Rightarrow> env \<Rightarrow> world \<Rightarrow> world result" where
  "firewall_start g e w =
     rbind (fw_destroy e w) (\<lambda>(_, w1).
     rbind (fw_init e w1) (\<lambda>(rc, w2).
       if rc \<noteq> 0 then rbind (fw_destroy e w2) (\<lambda>_. Exit 1)
       else if \<not> g_thread g 0 then terminate e False w2
       else if \<not> g_thread g 1 then terminate e True w2
       else Ok w2))"

definition threads_start :: "start_env \<Rightarrow> signals \<Rightarrow> control_thread \<Rightarrow> int \<Rightarrow> world \<Rightarrow> gateway" where
  "threads_start g sig ctl now w = \<lparr>gt_world = w,
     gt_status = (g_status g)\<lparr>s_started_time := now, s_created_httpd_threads := 0, s_current_httpd_threads := 0\<rparr>,
     gt_accepted = [], gt_running = [], gt_timer = Count_start, gt_jobs = [], gt_signals = sig, gt_control = (ctl = Control_listening)\<rparr>"

text \<open>The set-up of the control socket by its thread is taken to be over before the loop starts.\<close>

definition main_loop_start :: "start_env \<Rightarrow> env \<Rightarrow> signals \<Rightarrow> s_config \<Rightarrow> gateway result" where
  "main_loop_start g e sig c =
     (case time_now e (world_init c) of (now, w0) \<Rightarrow>
      rbind (interface_config g c) (\<lambda>c1.
        if \<not> g_listen g (str_opt (cf_gw_address c1)) (cf_gw_port c1) then Exit 1
        else rbind (firewall_start g e (w0\<lparr>w_conf := c1\<rparr>)) (\<lambda>w.
          rbind (control_setup (g_bind g) (g_control g) (cf_ndsctl_sock c1)) (\<lambda>ctl. Ok (threads_start g sig ctl now w)))))"

text \<open>\<^verbatim>\<open>main\<close>; with \<^verbatim>\<open>daemon\<close> set it is the child of the fork that goes on, and the parent ends.\<close>

definition gateway_main :: "start_env \<Rightarrow> env \<Rightarrow> string list \<Rightarrow> gateway result" where
  "gateway_main g e args = rbind (read_configuration g args) (\<lambda>c.
     rbind (init_signals (g_sigaction g)) (\<lambda>sig.
       if cf_daemon c = 0 then main_loop_start g e sig c
       else rbind (safe_fork (g_fork g) None) (\<lambda>(pid, _). if pid = 0 then main_loop_start g e sig c else Exit 0)))"

section \<open>The loop of the main thread\<close>

datatype main_event = Loop_again | Shut_down | New_request http_request

definition main_event_of :: "connection \<Rightarrow> main_event" where
  "main_event_of conn =
     (case conn of
        No_connection err \<Rightarrow> if err = -1 then Loop_again else if err < -1 then Shut_down else Loop_again
      | Denied err sent \<Rightarrow> if err = -1 then Loop_again else if err < -1 then Shut_down else Loop_again
      | Connected err r \<Rightarrow> if err = -1 then Loop_again else if err < -1 then Shut_down else New_request r)"

text \<open>The seconds and nanoseconds the main thread sleeps before it starts another thread.\<close>

definition congestion_delay :: "s_config \<Rightarrow> int \<Rightarrow> (int \<times> int) option" where
  "congestion_delay c current =
     (if cf_decongest_httpd_threads c \<noteq> 0 \<and> cf_httpd_thread_threshold c \<le> current then
        (let msec = s32 (current * cf_httpd_thread_delay_ms c)
         in Some (cdiv msec 1000, (msec - cdiv msec 1000 * 1000) * 1000000))
      else None)"

section \<open>All threads\<close>

text \<open>
  What the threads do, in any order: the main thread accepts a connection, the thread of a
  connection starts, does its next piece (\<open>Threads\<close>) or ends with it; a request comes in on the
  control socket and is handled without interruption (\<open>Controlled\<close>) or in pieces
  (\<open>Job_begun\<close>, \<open>Job_went\<close>); the timer does its next piece. The network, the files and the value
  \<^verbatim>\<open>token_verify\<close> leaves unset are different at every piece. The portal sets no access control list.
  A run goes on until a piece calls \<^verbatim>\<open>exit\<close>, or is undefined and could do anything.
\<close>

type_synonym control_reads = "nat \<Rightarrow> nat \<Rightarrow> string option"

datatype thread_event =
    Accepted http_request
  | Begun string
  | Went http_env string reads web_phase
  | Controlled control_reads string
  | Job_begun control_reads
  | Job_went control_job
  | Ticked

definition web_piece :: "http_env \<Rightarrow> env \<Rightarrow> string \<Rightarrow> reads \<Rightarrow> web_phase \<Rightarrow> gateway \<Rightarrow> web_result option" where
  "web_piece h e addr rd ph g =
     web_step (web_content (w_conf (gt_world g))) (h\<lparr>h_status := gt_status g\<rparr>) e addr rd ph (gt_world g)"

inductive gateway_step :: "env \<Rightarrow> gateway \<Rightarrow> thread_event \<Rightarrow> gateway \<Rightarrow> bool" for e where
  accept: "httpdGetConnection date sel False client_ip [] = Ok conn \<Longrightarrow> main_event_of conn = New_request r \<Longrightarrow>
    gateway_step e g (Accepted r) (g\<lparr>gt_accepted := rq_clientAddr r # gt_accepted g,
      gt_status := (gt_status g)\<lparr>s_created_httpd_threads := s32 (s_created_httpd_threads (gt_status g) + 1)\<rparr>\<rparr>)"
| begin_thread: "addr \<in> set (gt_accepted g) \<Longrightarrow>
    gateway_step e g (Begun addr) (g\<lparr>gt_accepted := remove1 addr (gt_accepted g), gt_running := (addr, Web_open) # gt_running g,
      gt_status := (gt_status g)\<lparr>s_current_httpd_threads := s_current_httpd_threads (gt_status g) + 1\<rparr>\<rparr>)"
| web_goes: "(addr, ph) \<in> set (gt_running g) \<Longrightarrow> web_piece h e addr rd ph g = Some (Ok (Web_goes ph', w')) \<Longrightarrow>
    gateway_step e g (Went h addr rd ph) (g\<lparr>gt_world := w', gt_running := (addr, ph') # remove1 (addr, ph) (gt_running g)\<rparr>)"
| web_ends: "(addr, ph) \<in> set (gt_running g) \<Longrightarrow> web_piece h e addr rd ph g = Some (Ok (Web_ends out, w')) \<Longrightarrow>
    gateway_step e g (Went h addr rd ph) (g\<lparr>gt_world := w', gt_running := remove1 (addr, ph) (gt_running g),
      gt_status := (gt_status g)\<lparr>s_current_httpd_threads := s_current_httpd_threads (gt_status g) - 1\<rparr>\<rparr>)"
| control: "gt_control g \<Longrightarrow> thread_ndsctl_handler (gt_status g) e rd (gt_world g) = Ok (reply, None, w') \<Longrightarrow>
    gateway_step e g (Controlled rd reply) (g\<lparr>gt_world := w'\<rparr>)"
| job_begin: "gt_control g \<Longrightarrow> read_request rd 0 0 False (replicate MAX_BUF NUL) = Some (request, fin) \<Longrightarrow>
    takes_turns request \<Longrightarrow> ndsctl_begin e request (gt_world g) = Ok (j, w') \<Longrightarrow>
    gateway_step e g (Job_begun rd) (g\<lparr>gt_world := w', gt_jobs := (case j of None \<Rightarrow> gt_jobs g | Some job \<Rightarrow> job # gt_jobs g)\<rparr>)"
| job_go: "job \<in> set (gt_jobs g) \<Longrightarrow> job_step e job (gt_world g) = Ok (j, w') \<Longrightarrow>
    gateway_step e g (Job_went job) (g\<lparr>gt_world := w',
      gt_jobs := (case j of None \<Rightarrow> remove1 job (gt_jobs g) | Some job' \<Rightarrow> job' # remove1 job (gt_jobs g))\<rparr>)"
| timer: "timer_step e (gt_timer g) (gt_world g) = Ok (ph, w') \<Longrightarrow> gateway_step e g Ticked (g\<lparr>gt_world := w', gt_timer := ph\<rparr>)"

inductive_cases gateway_stepE: "gateway_step e g ev g'"

inductive gateway_reach :: "env \<Rightarrow> gateway \<Rightarrow> gateway \<Rightarrow> bool" for e g0 where
  started: "gateway_reach e g0 g0"
| step: "gateway_reach e g0 g \<Longrightarrow> gateway_step e g ev g' \<Longrightarrow> gateway_reach e g0 g'"

section \<open>What the start leaves alone\<close>

definition core :: "world \<Rightarrow> s_config \<times> clist" where
  "core w = (w_conf w, w_clients w)"

lemma core_updates [simp]:
  "core (w\<lparr>w_fw_quiet := b\<rparr>) = core w" "core (w\<lparr>w_tc_quiet := b\<rparr>) = core w"
  "core (w\<lparr>w_markop := s\<rparr>) = core w" "core (w\<lparr>w_markmask := s\<rparr>) = core w"
  by (simp_all add: core_def)

lemma core_same: "same_daemon w w' \<Longrightarrow> core w' = core w"
  using same_daemon_fields by (simp add: core_def)

lemma core_run [simp]: "core (snd (iptables_do_command e c w)) = core w"
  by (rule core_same) (metis ipt.run_same prod.collapse)

lemma core_or_all [simp]: "core (snd (or_all (iptables_do_command e) cs rw)) = core (snd rw)"
  by (cases rw) (metis core_same ipt.or_all_same prod.collapse snd_conv)

lemma core_init_marks [simp]: "core (snd (iptables_init_marks w)) = core w"
  by (simp add: iptables_init_marks_def core_def)

lemma core_check_mark_masking [simp]: "core (snd (iptables_check_mark_masking e w)) = core w"
  by (simp add: iptables_check_mark_masking_def Let_def case_prod_unfold)

lemma core_init_macs [simp]: "core (snd (fw_init_macs e rw)) = core (snd rw)"
  by (cases rw) (metis core_same fw_init_macs_same prod.collapse snd_conv)

lemma core_tc_init [simp]: "core (snd (tc_init_tc e w)) = core w"
proof -
  let ?c = "w_conf w"
  have s: "only_runs (tc_attach_download_qdisc e d)" "only_runs (tc_attach_upload_qdisc e d)" for d
    by (auto simp: only_runs_def tc_attach_download_qdisc_def tc_attach_upload_qdisc_def
        simp del: or_all.simps dest: tc.or_all_same)
  obtain r1 w1 where d: "tc_init_dev e ''ndsINC'' (cf_download_imq ?c) (cf_download_limit ?c)
      (tc_attach_download_qdisc e) 0 (0, w\<lparr>w_tc_quiet := False\<rparr>) = (r1, w1)" by fastforce
  obtain r2 w2 where u: "tc_init_dev e ''ndsOUT'' (cf_upload_imq ?c) (cf_upload_limit ?c)
      (tc_attach_upload_qdisc e) (-1) (r1, w1) = (r2, w2)" by fastforce
  have "tc_init_tc e w = (r2, w2)" using d u by (simp add: tc_init_tc_def Let_def)
  with core_same [OF tc_init_dev_same [OF s(1) d]] core_same [OF tc_init_dev_same [OF s(2) u]] show ?thesis by simp
qed

lemma core_fw_init:
  assumes "fw_init e w = Ok (rc, w')"
  shows "core w' = core w"
proof -
  let ?c = "w_conf w"
  obtain ifc addr where ia: "cf_gw_interface ?c = Some ifc" "cf_gw_address ?c = Some addr"
    using assms by (auto simp: fw_init_def iptables_fw_init_def Let_def split: option.splits)
  let ?w1 = "w\<lparr>w_MARK_BLOCKED := cf_FW_MARK_BLOCKED ?c, w_MARK_TRUSTED := cf_FW_MARK_TRUSTED ?c,
    w_MARK_AUTHENTICATED := cf_FW_MARK_AUTHENTICATED ?c\<rparr>"
  obtain m1 w2 where m: "iptables_init_marks ?w1 = (m1, w2)" by fastforce
  obtain m2 w3 where k: "iptables_check_mark_masking e w2 = (m2, w3)" by fastforce
  obtain m4 w4 where f: "fw_init_macs e (or_all (iptables_do_command e) (mangle_cmds ifc (cf_gw_iprange ?c)) (m1 OR m2, w3)) = (m4, w4)"
    by fastforce
  obtain m5 w5 where t: "(if cf_traffic_control ?c \<noteq> 0
      then (case tc_init_tc e w4 of (r, w') \<Rightarrow> (m4 OR r, w')) else (m4, w4)) = (m5, w5)" by fastforce
  obtain cs where "or_all (iptables_do_command e) cs (m5, w5) = (rc, w')"
    using assms ia m k f t by (auto simp: fw_init_def iptables_fw_init_def Let_def rbind_Ok_iff simp del: or_all.simps)
  then have "core w' = core w5" using core_or_all [of e cs "(m5, w5)"] by simp
  also have "core w5 = core w4"
    using t core_tc_init [of e w4] by (cases "tc_init_tc e w4") (auto split: if_splits)
  also have "core w4 = core w3" using f core_init_macs by (metis core_or_all snd_conv)
  also have "core w3 = core w2" using k core_check_mark_masking by (metis snd_conv)
  also have "core w2 = core ?w1" using m core_init_marks by (metis snd_conv)
  finally show ?thesis by (simp add: core_def)
qed

lemma core_destroy_mention:
  assumes "destroy_mention e t c m w = Some r"
  shows "core (snd r) = core w"
proof (rule destroy_mention.raw_induct [where P = "\<lambda>e t c m w r. core (snd r) = core w", OF _ assms], goal_cases)
  case (1 f e t c m w r)
  obtain out w1 where p: "popen e (list_cmd t c) w = (out, w1)" by fastforce
  then have w1: "core w1 = core w" by (auto simp: popen_def core_def)
  show ?case
  proof (cases "case out of None \<Rightarrow> None | Some txt \<Rightarrow> find_mention m (fst (skip_two txt))")
    case None
    with 1(2) p w1 show ?thesis by auto
  next
    case (Some num)
    obtain r2 w2 where d: "iptables_do_command e (''-t '' @ t @ '' -D '' @ c @ '' '' @ num) w1 = (r2, w2)" by fastforce
    with 1(2) p Some obtain r3 where r: "f e t c m w2 = Some r3" "snd r = snd r3" by (auto split: Option.bind_splits)
    have "core w2 = core w1" using d core_run by (metis snd_conv)
    with 1(1) [OF r(1)] r(2) w1 show ?thesis by simp
  qed
qed

lemma core_destroy_mentions: "destroy_mentions e xs w = Ok w' \<Longrightarrow> core w' = core w"
proof (induction xs arbitrary: w)
  case (Cons x xs)
  obtain t c m where x: "x = (t, c, m)" by (cases x)
  with Cons.prems obtain rc w1 where "destroy_mention e t c m w = Some (rc, w1)" "destroy_mentions e xs w1 = Ok w'"
    by (auto simp: rbind_Ok_iff iptables_fw_destroy_mention_def)
  with core_destroy_mention [of e t c m w] Cons.IH [of w1] show ?case by force
qed simp

lemma core_run_all [simp]: "core (run_all e cs w) = core w"
  by (simp add: run_all_def)

lemma core_tc_destroy [simp]: "core (snd (tc_destroy_tc e w)) = core w"
proof -
  have t: "core (snd (or_all (tc_do_command e) cs rw)) = core (snd rw)" for cs rw
    by (cases rw) (metis core_same tc.or_all_same prod.collapse snd_conv)
  have s: "core (snd (or_all (execute e) cs rw)) = core (snd rw)" for cs rw
    by (cases rw) (metis core_same sh.or_all_same prod.collapse snd_conv)
  show ?thesis by (simp add: tc_destroy_tc_def Let_def case_prod_unfold t s del: or_all.simps)
qed

lemma core_fw_destroy: "fw_destroy e w = Ok (rc, w') \<Longrightarrow> core w' = core w"
  by (auto simp: fw_destroy_def iptables_fw_destroy_def Let_def rbind_Ok_iff simp del: destroy_mentions.simps
      dest!: core_destroy_mentions split: if_splits)

section \<open>What the start establishes\<close>

lemma world_init_inv:
  assumes "w_clients w = w_clients (world_init c)" "cf_maxclients (w_conf w) = cf_maxclients c"
  shows "daemon_inv w" "clients (w_clients w) = []"
proof -
  have "cl_repr (w_clients (world_init c)) []"
    by (auto simp: cl_repr_def world_init_def client_list_init_def hget_def)
  note r = cl_repr_inv [OF this] cl_repr_addrs [OF this]
  then show "clients (w_clients w) = []" using assms(1) by (simp add: clients_def)
  with r(1) assms show "daemon_inv w" by (simp add: daemon_inv_def world_init_def client_list_init_def)
qed

text \<open>Every source of the configuration keeps the marks and the MAC lists in order.\<close>

lemma gateway_option_view: "gateway_option opt arg c = Ok c1 \<Longrightarrow> config_view c1 = config_view c"
  by (auto simp: gateway_option_def set_log_level_def config_view_def split: if_splits)

lemma gateway_letters_view: "gateway_letters xs ws c = Ok (c1, ws1) \<Longrightarrow> config_view c1 = config_view c"
proof (induction xs ws c rule: gateway_letters.induct)
  case (2 x xs ws c)
  then show ?case
    by (auto simp: rbind_Ok_iff dest: gateway_option_view split: if_splits list.splits)
qed simp

lemma gateway_getopt_cases:
  assumes "gateway_getopt (w # ws) c = Ok c1"
  obtains "c1 = c" | "gateway_getopt ws c = Ok c1"
    | cs c2 ws2 where "gateway_letters cs ws c = Ok (c2, ws2)" "gateway_getopt ws2 c2 = Ok c1"
proof (cases "w = ''--''")
  case True
  with assms that(1) show ?thesis by simp
next
  case F: False
  show ?thesis
  proof (cases "\<exists>y cs. w = CHR ''-'' # y # cs")
    case True
    then obtain y cs where w: "w = CHR ''-'' # y # cs" by blast
    with assms F that(3) [of "y # cs"] show ?thesis
      by (cases "gateway_letters (y # cs) ws c") (auto simp del: gateway_letters.simps)
  next
    case False
    with assms F have "gateway_getopt ws c = Ok c1"
      by (cases w rule: remdups_adj.cases) (auto simp del: gateway_letters.simps)
    with that(2) show ?thesis .
  qed
qed

lemma gateway_getopt_view: "gateway_getopt ws c = Ok c1 \<Longrightarrow> config_view c1 = config_view c"
proof (induction "length ws" arbitrary: ws c rule: less_induct)
  case less
  show ?case
  proof (cases ws)
    case (Cons w ws1)
    consider "c1 = c" | "gateway_getopt ws1 c = Ok c1"
      | cs c2 ws2 where "gateway_letters cs ws1 c = Ok (c2, ws2)" "gateway_getopt ws2 c2 = Ok c1"
      by (rule gateway_getopt_cases [OF less.prems [unfolded Cons]])
    then show ?thesis
    proof cases
      case 3
      then have "length ws2 < length ws" using gateway_letters_le [OF 3(1)] Cons by simp
      from less.hyps [OF this 3(2)] gateway_letters_view [OF 3(1)] show ?thesis by simp
    qed (use less.hyps [of ws1 c] Cons in auto)
  qed (use less.prems in simp)
qed

lemma server_retry_kept:
  assumes "server_retry g n c = Some (Ok c1)"
  shows "server_kept c c1"
proof -
  have "\<forall>c1. r = Ok c1 \<longrightarrow> server_kept c c1" if "server_retry g n c = Some r" for r
  proof (rule server_retry.raw_induct [where P = "\<lambda>g n c r. \<forall>c1. r = Ok c1 \<longrightarrow> server_kept c c1", OF _ that], goal_cases)
    case (1 f g n c r)
    show ?case
    proof (cases "config_from_server (g_nets g n) (g_ghbn g) (s_version (g_status g)) c")
      case (Ok rc)
      note kept = config_from_server_kept [of _ _ _ _ "fst rc" "snd rc", unfolded prod.collapse, OF Ok]
      show ?thesis
      proof (cases "fst rc < 0")
        case True
        with 1(2) Ok have "f g (Suc n) (snd rc) = Some r" by simp
        from 1(1) [OF this] kept show ?thesis by (blast intro: server_kept_trans)
      next
        case False
        with 1(2) Ok kept show ?thesis by auto
      qed
    qed (use 1(2) in auto)
  qed
  with assms show ?thesis by blast
qed

lemma server_kept_config:
  assumes "server_kept c c1" "config_inv c"
  shows "config_inv c1"
proof -
  have l: "local_part c1 = local_part c" "mac_list_inv (cf_blockedmaclist c1)" "mac_list_inv (cf_trustedmaclist c1)"
    using assms by (simp_all add: server_kept_def config_inv_def mac_lists_inv_def)
  then have "f (local_part c1) = f (local_part c)" for f :: "s_config \<Rightarrow> 'b" by simp
  from this [of cf_rulesets] this [of cf_allowedmaclist] this [of cf_FW_MARK_AUTHENTICATED] this [of cf_FW_MARK_BLOCKED]
    this [of cf_FW_MARK_TRUSTED]
  have "cf_rulesets c1 = cf_rulesets c" "cf_allowedmaclist c1 = cf_allowedmaclist c" "marks_ok c1 = marks_ok c"
    by (simp_all add: local_part_def marks_ok_def)
  with l(2,3) assms(2) show ?thesis
    by (simp add: config_inv_def rulesets_inv_def ruleset_names_def mac_lists_inv_def)
qed

lemma free_ip_init_rulesets: "free_ip_init c = Ok c1 \<Longrightarrow> \<exists>rs. c1 = c\<lparr>cf_rulesets := rs\<rparr>"
proof -
  have "\<exists>rs. foldl (\<lambda>c ip. upd_ruleset n (f ip) c) c ips = c\<lparr>cf_rulesets := rs\<rparr>" for n f ips
  proof (induction ips arbitrary: c)
    case Nil
    show ?case by (intro exI [of _ "cf_rulesets c"]) simp
  next
    case (Cons ip ips)
    obtain rs where "foldl (\<lambda>c ip. upd_ruleset n (f ip) c) (upd_ruleset n (f ip) c) ips = (upd_ruleset n (f ip) c)\<lparr>cf_rulesets := rs\<rparr>"
      using Cons by blast
    then show ?case by (intro exI [of _ rs]) (simp add: upd_ruleset_def)
  qed
  then show "free_ip_init c = Ok c1 \<Longrightarrow> \<exists>rs. c1 = c\<lparr>cf_rulesets := rs\<rparr>"
    by (auto simp: free_ip_init_def split: option.splits)
qed

lemma read_configuration_inv:
  assumes "read_configuration g args = Ok c"
  shows "marks_ok c" "mac_lists_inv c"
proof -
  from assms obtain c1 where c1: "gateway_getopt args config_init = Ok c1"
    and "(if configfile_size \<le> length (cf_configfile c1) then Undef
       else rbind (config_read (g_files g (cf_configfile c1)) c1) (\<lambda>c2. rbind (config_validate c2) (\<lambda>_.
         rbind (rbind (of_opt (server_retry g 0 c2)) (\<lambda>r. r)) (\<lambda>c3. free_ip_init c3)))) = Ok c"
    unfolding read_configuration_def by (rule rbind_OkE)
  then have "rbind (config_read (g_files g (cf_configfile c1)) c1) (\<lambda>c2. rbind (config_validate c2) (\<lambda>_.
      rbind (rbind (of_opt (server_retry g 0 c2)) (\<lambda>r. r)) (\<lambda>c3. free_ip_init c3))) = Ok c"
    by (cases "configfile_size \<le> length (cf_configfile c1)") simp_all
  then obtain c2 where c2: "config_read (g_files g (cf_configfile c1)) c1 = Ok c2"
    and "rbind (config_validate c2) (\<lambda>_. rbind (rbind (of_opt (server_retry g 0 c2)) (\<lambda>r. r)) (\<lambda>c3. free_ip_init c3)) = Ok c"
    by (rule rbind_OkE)
  then obtain c3 where c3: "server_retry g 0 c2 = Some (Ok c3)" "free_ip_init c3 = Ok c"
    by (elim rbind_OkE) (cases "server_retry g 0 c2"; simp)
  have "config_inv c1" using gateway_getopt_view [OF c1] config_inv_view config_init_inv by metis
  moreover obtain fd where fd: "config_lines fd c1 = Ok c2"
    using c2 by (cases "g_files g (cf_configfile c1)") (simp_all add: config_read_def)
  ultimately have "config_inv c2"
    using config_line_inv by (intro config_lines_invariant [of config_inv c1 fd c2]) blast+
  then have "config_inv c3" using server_kept_config server_retry_kept [OF c3(1)] by blast
  with free_ip_init_rulesets [OF c3(2)] show "marks_ok c" "mac_lists_inv c"
    by (auto simp: config_inv_def marks_ok_def mac_lists_inv_def)
qed

section \<open>The invariant of all threads\<close>

text \<open>
  The daemon's invariant, the MAC lists free of duplicates, the mark in use nonzero, every
  running thread at work for its peer, and the counter of running threads the number of them.
\<close>

definition threads_inv :: "gateway \<Rightarrow> bool" where
  "threads_inv g \<longleftrightarrow> daemon_inv (gt_world g) \<and> mac_lists_inv (w_conf (gt_world g)) \<and>
     w_MARK_AUTHENTICATED (gt_world g) \<noteq> 0 \<and> list_all (\<lambda>(addr, ph). phase_of addr ph) (gt_running g) \<and>
     s_current_httpd_threads (gt_status g) = int (length (gt_running g))"

lemma fw_init_marks_set:
  assumes "fw_init e w = Ok (0, w')"
  shows "[w_MARK_BLOCKED w', w_MARK_TRUSTED w', w_MARK_AUTHENTICATED w'] =
    [cf_FW_MARK_BLOCKED (w_conf w), cf_FW_MARK_TRUSTED (w_conf w), cf_FW_MARK_AUTHENTICATED (w_conf w)]"
proof -
  from assms have "iptables_fw_init e w = Ok (0, w')" by (simp add: fw_init_def)
  from fw_init_stages [OF this] obtain cs w5 where "or_all (iptables_do_command e) cs (0, w5) = (0, w')"
    "rule_view w5 = (w_conf w, [cf_FW_MARK_BLOCKED (w_conf w), cf_FW_MARK_TRUSTED (w_conf w),
       cf_FW_MARK_AUTHENTICATED (w_conf w)])" by metis
  with same_rule_view [OF ipt.or_all_same [OF this(1)]] show ?thesis by (simp add: rule_view_def)
qed

text \<open>What a start that succeeds has gone through.\<close>

lemma terminate_not_ok: "terminate e t w \<noteq> Ok x"
  by (auto simp: terminate_def termination_handler_def rbind_Ok_iff)

lemma firewall_start_ok:
  assumes "firewall_start g e w = Ok w'"
  shows "\<exists>w1. core w1 = core w \<and> fw_init e w1 = Ok (0, w')"
proof -
  obtain r1 w1 r2 w2 where "fw_destroy e w = Ok (r1, w1)" "fw_init e w1 = Ok (r2, w2)"
    "(if r2 \<noteq> 0 then rbind (fw_destroy e w2) (\<lambda>_. Exit 1) else if \<not> g_thread g 0 then terminate e False w2
      else if \<not> g_thread g 1 then terminate e True w2 else Ok w2) = Ok w'"
    using assms by (fastforce simp: firewall_start_def rbind_Ok_iff)
  moreover from this(3) have "r2 = 0 \<and> w2 = w'"
    using terminate_not_ok [of e _ w2 w'] by (cases "fw_destroy e w2") (auto split: if_splits)
  ultimately show ?thesis using core_fw_destroy by blast
qed

lemma interface_config_ok:
  assumes "interface_config g c = Ok c1"
  shows "\<exists>addr mac. c1 = c\<lparr>cf_gw_address := Some addr, cf_gw_mac := Some mac\<rparr>"
  using assms by (auto simp: interface_config_def rbind_Ok_iff split: option.splits)

text \<open>What the start of the loop was called with.\<close>

lemma gateway_main_ok:
  assumes "gateway_main g e args = Ok s"
  obtains c sig where "read_configuration g args = Ok c" "init_signals (g_sigaction g) = Ok sig" "main_loop_start g e sig c = Ok s"
  using assms by (auto simp: gateway_main_def rbind_Ok_iff split: if_splits)

lemma main_loop_start_ok:
  assumes "main_loop_start g e sig c = Ok s"
  obtains addr mac w2 where "w_conf w2 = c\<lparr>cf_gw_address := Some addr, cf_gw_mac := Some mac\<rparr>"
    "w_clients w2 = w_clients (world_init c)" "fw_init e w2 = Ok (0, gt_world s)"
    "gt_accepted s = []" "gt_running s = []" "s_current_httpd_threads (gt_status s) = 0" "gt_signals s = sig" "gt_jobs s = []"
proof -
  obtain now w0 where w0: "time_now e (world_init c) = (now, w0)" by fastforce
  then have cl: "w_clients w0 = w_clients (world_init c)" by (auto simp: time_now_def tick_def)
  let ?go = "\<lambda>c1. rbind (firewall_start g e (w0\<lparr>w_conf := c1\<rparr>)) (\<lambda>w.
      rbind (control_setup (g_bind g) (g_control g) (cf_ndsctl_sock c1)) (\<lambda>ctl. Ok (threads_start g sig ctl now w)))"
  from assms have "rbind (interface_config g c) (\<lambda>c1.
      if \<not> g_listen g (str_opt (cf_gw_address c1)) (cf_gw_port c1) then Exit 1 else ?go c1) = Ok s"
    by (simp add: main_loop_start_def w0)
  then obtain c1 where c1: "interface_config g c = Ok c1"
    and "(if \<not> g_listen g (str_opt (cf_gw_address c1)) (cf_gw_port c1) then Exit 1 else ?go c1) = Ok s"
    by (rule rbind_OkE)
  then have "?go c1 = Ok s" by (cases "g_listen g (str_opt (cf_gw_address c1)) (cf_gw_port c1)") simp_all
  then obtain w where f: "firewall_start g e (w0\<lparr>w_conf := c1\<rparr>) = Ok w"
    and "rbind (control_setup (g_bind g) (g_control g) (cf_ndsctl_sock c1)) (\<lambda>ctl. Ok (threads_start g sig ctl now w)) = Ok s"
    by (rule rbind_OkE)
  then have s: "gt_world s = w" "gt_accepted s = []" "gt_running s = []" "s_current_httpd_threads (gt_status s) = 0"
    "gt_signals s = sig" "gt_jobs s = []"
    by (auto simp: threads_start_def rbind_Ok_iff)
  note f = f [folded s(1)]
  obtain addr mac where c1': "c1 = c\<lparr>cf_gw_address := Some addr, cf_gw_mac := Some mac\<rparr>"
    using interface_config_ok [OF c1] by blast
  obtain w2 where w2: "core w2 = core (w0\<lparr>w_conf := c1\<rparr>)" "fw_init e w2 = Ok (0, gt_world s)"
    using firewall_start_ok [OF f] by blast
  from w2(1) have "w_conf w2 = c1" "w_clients w2 = w_clients w0" by (simp_all add: core_def)
  from that [OF this [unfolded c1' cl] w2(2) s(2-6)] show thesis .
qed

lemma gateway_main_inv:
  assumes "gateway_main g e args = Ok s"
  shows "threads_inv s" "clients (w_clients (gt_world s)) = []" "marks_ok (w_conf (gt_world s))"
    "w_MARK_AUTHENTICATED (gt_world s) = cf_FW_MARK_AUTHENTICATED (w_conf (gt_world s))"
    "gt_running s = []" "gt_jobs s = []"
proof -
  obtain c sig where c: "read_configuration g args = Ok c" "main_loop_start g e sig c = Ok s"
    by (rule gateway_main_ok [OF assms])
  note inv = read_configuration_inv [OF c(1)]
  obtain addr mac w2 where w2: "w_conf w2 = c\<lparr>cf_gw_address := Some addr, cf_gw_mac := Some mac\<rparr>"
    "w_clients w2 = w_clients (world_init c)" "fw_init e w2 = Ok (0, gt_world s)"
    "gt_accepted s = []" "gt_running s = []" "s_current_httpd_threads (gt_status s) = 0" "gt_jobs s = []"
    by (rule main_loop_start_ok [OF c(2)])
  show "gt_running s = []" "gt_jobs s = []" by (fact w2(5), fact w2(7))
  have core: "w_conf (gt_world s) = w_conf w2" "w_clients (gt_world s) = w_clients w2"
    using core_fw_init [OF w2(3)] by (simp_all add: core_def)
  have m: "w_MARK_AUTHENTICATED (gt_world s) = cf_FW_MARK_AUTHENTICATED (w_conf w2)"
    using fw_init_marks_set [OF w2(3)] by simp
  have "cf_maxclients (w_conf (gt_world s)) = cf_maxclients c" using core(1) w2(1) by simp
  note d = world_init_inv [OF _ this, unfolded core(2) w2(2), OF refl]
  then show "clients (w_clients (gt_world s)) = []" unfolding core(2) w2(2) by simp
  show "marks_ok (w_conf (gt_world s))" using inv(1) core(1) w2(1) by (simp add: marks_ok_def)
  show "w_MARK_AUTHENTICATED (gt_world s) = cf_FW_MARK_AUTHENTICATED (w_conf (gt_world s))" using m core(1) by simp
  have "mac_lists_inv (w_conf (gt_world s))" using inv(2) core(1) w2(1) by (simp add: mac_lists_inv_def)
  moreover have "w_MARK_AUTHENTICATED (gt_world s) \<noteq> 0" using m inv(1) w2(1) by (simp add: marks_ok_def)
  ultimately show "threads_inv s" using d(1) w2(5,6) by (simp add: threads_inv_def)
qed

text \<open>A control request that returns has left a sound state, whatever the request was.\<close>

definition sound_result :: "world \<Rightarrow> handled \<Rightarrow> bool" where
  "sound_result w r \<longleftrightarrow> (\<forall>reply sig w'. r = Ok (reply, sig, w') \<longrightarrow>
     sound w w' \<and> sig \<in> {None, Some SIGINT} \<and> (sig \<noteq> None \<longrightarrow> w' = w))"

lemma handled_ok_result: "handled_ok None w r \<Longrightarrow> sound_result w r" "handled_ok (Some SIGINT) w r \<Longrightarrow> sound_result w r"
  by (auto simp: handled_ok_def sound_result_def)

lemma sound_result_rbind: "(\<And>x. sound_result w (f x)) \<Longrightarrow> sound_result w (rbind m f)"
  unfolding sound_result_def rbind_Ok_iff by blast

lemma dispatch_sound:
  assumes "daemon_inv w" "mac_lists_inv (w_conf w)" "w_MARK_AUTHENTICATED w \<noteq> 0"
  shows "sound_result w (ndsctl_dispatch v e request w)"
proof -
  note ok = handlers_ok [OF assms]
  note ok = ok(1,2,4-14) [THEN handled_ok_result(1)] ok(3) [THEN handled_ok_result(2)]
  have none: "sound_result w (Ok ([], None, w))" using assms by (simp add: sound_result_def sound_def)
  show ?thesis
    unfolding ndsctl_dispatch_def Let_def
    by (intro if_split [where P = "sound_result w", THEN iffD2] conjI impI sound_result_rbind none ok)
qed

lemma control_sound:
  assumes "thread_ndsctl_handler v e rd w = Ok (reply, sig, w')"
    "daemon_inv w" "mac_lists_inv (w_conf w)" "w_MARK_AUTHENTICATED w \<noteq> 0"
  shows "sound w w' \<and> sig \<in> {None, Some SIGINT} \<and> (sig \<noteq> None \<longrightarrow> w' = w)"
proof -
  obtain request fin where "ndsctl_dispatch v e request w = Ok (reply, sig, w')"
    using assms(1) by (auto simp: thread_ndsctl_handler_def rbind_Ok_iff)
  with dispatch_sound [OF assms(2-4)] show ?thesis unfolding sound_result_def by blast
qed

definition threads_kept :: "gateway \<Rightarrow> gateway \<Rightarrow> bool" where
  "threads_kept g g' \<longleftrightarrow> threads_inv g' \<and> w_MARK_AUTHENTICATED (gt_world g') = w_MARK_AUTHENTICATED (gt_world g) \<and>
     gt_signals g' = gt_signals g \<and> gt_control g' = gt_control g \<and> cf_maxclients (w_conf (gt_world g')) = cf_maxclients (w_conf (gt_world g))"

lemma threads_kept_world:
  assumes "threads_inv g" "sound (gt_world g) w'"
  shows "threads_kept g (g\<lparr>gt_world := w'\<rparr>)"
  using assms by (simp add: threads_kept_def threads_inv_def sound_def)

lemma begin_sound:
  assumes "ndsctl_begin e request w = Ok (j, w')" "daemon_inv w" "mac_lists_inv (w_conf w)" "w_MARK_AUTHENTICATED w \<noteq> 0"
  shows "sound w w'"
proof -
  from ndsctl_begin_effect [OF assms(1)] consider "w' = w" | p a where "http_nodogsplash_add_client e a w = Ok (p, w')" by blast
  then show ?thesis
  proof cases
    case 2
    with add_client_keeps [OF assms(2,4), of e a "\<lambda>_. 0"] have "keeps e (\<lambda>_. 0) w w'" by auto
    with keeps_sound assms(3) show ?thesis by blast
  qed (use assms(2,3) in \<open>simp add: sound_def\<close>)
qed

lemma running_removed: "x \<in> set xs \<Longrightarrow> int (length xs) = int (length (remove1 x xs)) + 1"
  by (simp add: length_remove1) (metis length_pos_if_in_set Suc_pred of_nat_Suc add.commute)

lemma list_all_remove1: "list_all P xs \<Longrightarrow> list_all P (remove1 x xs)"
  using set_remove1_subset [of x xs] by (auto simp: list_all_iff)

lemma web_piece_sound:
  assumes "web_piece h e addr rd ph g = Some (Ok (nx, w'))" "(addr, ph) \<in> set (gt_running g)" "threads_inv g"
  shows "sound (gt_world g) w' \<and> (case nx of Web_goes ph' \<Rightarrow> phase_of addr ph' | Web_ends out \<Rightarrow> True)"
proof -
  have d: "daemon_inv (gt_world g)" "mac_lists_inv (w_conf (gt_world g))" "w_MARK_AUTHENTICATED (gt_world g) \<noteq> 0"
    "phase_of addr ph" using assms(2,3) by (auto simp: threads_inv_def list_all_iff)
  have "reachable e (gt_world g) w'" using web_step_reachable assms(1) d(4) unfolding web_piece_def by blast
  from keeps_sound [OF reachable_keeps [OF this d(1,3), of "\<lambda>_. 0"] d(2)] have "sound (gt_world g) w'" .
  with web_step_effect [OF assms(1) [unfolded web_piece_def] d(4)] show ?thesis by (cases nx) auto
qed

lemma step_threads_kept:
  assumes "gateway_step e g ev g'" and inv: "threads_inv g"
  shows "threads_kept g g'"
proof -
  have d: "daemon_inv (gt_world g)" "mac_lists_inv (w_conf (gt_world g))" "w_MARK_AUTHENTICATED (gt_world g) \<noteq> 0"
    using inv by (simp_all add: threads_inv_def)
  have rest: "list_all (\<lambda>(addr, ph). phase_of addr ph) (remove1 x (gt_running g))" for x
    using inv by (intro list_all_remove1) (simp add: threads_inv_def)
  from assms(1) show ?thesis
  proof cases
    case (web_goes addr ph h rd ph' w')
    note web_piece_sound [OF web_goes(4,3) inv] running_removed [OF web_goes(3)]
    with inv rest show ?thesis unfolding web_goes(2)
      by (simp add: threads_kept_def threads_inv_def sound_def)
  next
    case (web_ends addr ph h rd out w')
    note web_piece_sound [OF web_ends(4,3) inv] running_removed [OF web_ends(3)]
    with inv rest show ?thesis unfolding web_ends(2)
      by (simp add: threads_kept_def threads_inv_def sound_def)
  next
    case (control rd reply w')
    from threads_kept_world [OF inv control_sound [OF control(4) d, THEN conjunct1]] show ?thesis unfolding control(2) .
  next
    case (job_begin rd request fin j w')
    from threads_kept_world [OF inv begin_sound [OF job_begin(6) d]] show ?thesis unfolding job_begin(2)
      using d(3) by (simp add: threads_kept_def threads_inv_def)
  next
    case (job_go job j w')
    have "keeps e (\<lambda>_. 0) (gt_world g) w'" using job_step_ok [OF d(1), of e job "\<lambda>_. 0"] job_go(4) by auto
    from threads_kept_world [OF inv keeps_sound [OF this d(2)]] show ?thesis unfolding job_go(2)
      using d(3) by (simp add: threads_kept_def threads_inv_def)
  next
    case (timer ph w')
    have "keeps e (\<lambda>_. 0) (gt_world g) w'" using timer_step_ok [OF d(1), of e "gt_timer g" "\<lambda>_. 0"] timer(3) by auto
    from threads_kept_world [OF inv keeps_sound [OF this d(2)]] show ?thesis unfolding timer(2)
      using d(3) by (simp add: threads_kept_def threads_inv_def)
  qed (use inv in \<open>simp_all add: threads_kept_def threads_inv_def\<close>)
qed

interpretation threads: kept_steps "\<lambda>s t. \<exists>ev. gateway_step e s ev t" threads_inv threads_kept for e
  by unfold_locales (auto simp: threads_kept_def dest: step_threads_kept)

lemma reach_run: "gateway_reach e g0 g \<Longrightarrow> (\<lambda>s t. \<exists>ev. gateway_step e s ev t)\<^sup>*\<^sup>* g0 g"
  by (induction rule: gateway_reach.induct) (auto intro: rtranclp.rtrancl_into_rtrancl)

lemma reach_threads_kept: "gateway_reach e g0 g \<Longrightarrow> threads_inv g0 \<Longrightarrow> threads_kept g0 g"
  by (blast intro: threads.run_kept reach_run)

section \<open>Who is authenticated\<close>

lemma authenticated_counted:
  assumes "counted w w'"
  shows "authenticated w' = authenticated w"
proof -
  have g: "list_all2 grown (clients (w_clients w)) (clients (w_clients w'))"
    and q: "w' = w\<lparr>w_clients := w_clients w', w_clock := w_clock w'\<rparr>"
    using assms unfolding counted_def by blast+
  have m: "w_MARK_AUTHENTICATED w' = w_MARK_AUTHENTICATED w" using arg_cong [OF q, of w_MARK_AUTHENTICATED] by simp
  let ?key = "\<lambda>c. (ckey c, c_fw_connection_state c)"
  have "map ?key cs' = map ?key cs" if "list_all2 grown cs cs'" for cs cs'
    using that
  proof induction
    case (Cons c cs c' cs')
    with grown_fields [OF Cons.hyps(1)] show ?case by (simp only: list.map)
  qed simp
  from arg_cong [OF this [OF g], of set] have "?key ` set (clients (w_clients w')) = ?key ` set (clients (w_clients w))"
    unfolding set_map .
  moreover have "authenticated v = {k. (k, w_MARK_AUTHENTICATED v) \<in> ?key ` set (clients (w_clients v))}" for v
    unfolding authenticated_def by auto
  ultimately show ?thesis using m by simp
qed

lemma authenticated_fewer:
  assumes "set (clients (w_clients w')) \<subseteq> set (clients (w_clients w))" "w_MARK_AUTHENTICATED w' = w_MARK_AUTHENTICATED w"
  shows "authenticated w' \<subseteq> authenticated w"
  using assms by (auto simp: authenticated_def)

definition admits_none :: "world \<Rightarrow> handled \<Rightarrow> bool" where
  "admits_none w r \<longleftrightarrow> (\<forall>reply sig w'. r = Ok (reply, sig, w') \<longrightarrow> authenticated w' \<subseteq> authenticated w)"

lemma admits_none_rbind: "(\<And>x. admits_none w (f x)) \<Longrightarrow> admits_none w (rbind m f)"
  unfolding admits_none_def rbind_Ok_iff by blast

lemma admits_none_reconfigured: "same_daemon (w\<lparr>w_conf := c\<rparr>) w' \<Longrightarrow> admits_none w (Ok (reply, sig, w'))"
  using same_daemon_fields(2,3) [of "w\<lparr>w_conf := c\<rparr>" w'] by (simp add: admits_none_def authenticated_def)

lemma handlers_admit_none:
  assumes inv: "daemon_inv w"
  shows "admits_none w (ndsctl_status v e w)" "admits_none w (ndsctl_clients v e w)" "admits_none w (ndsctl_stop w)"
    "admits_none w (ndsctl_block e arg w)" "admits_none w (ndsctl_unblock e arg w)"
    "admits_none w (ndsctl_allow e arg w)" "admits_none w (ndsctl_unallow e arg w)"
    "admits_none w (ndsctl_trust e arg w)" "admits_none w (ndsctl_untrust e arg w)"
    "admits_none w (ndsctl_deauth e arg w)"
    "admits_none w (ndsctl_loglevel arg w)" "admits_none w (ndsctl_password arg w)" "admits_none w (ndsctl_username arg w)"
proof -
  have ci: "clist_inv (w_clients w)" using inv by (simp add: daemon_inv_def)
  obtain t w' where "get_status_text v e w = Ok (t, w')" "counted w w'"
    using status_text_counted [OF ci] by blast
  then show "admits_none w (ndsctl_status v e w)" by (simp add: admits_none_def ndsctl_status_def authenticated_counted)
  obtain t w' where "get_clients_text v e w = Ok (t, w')" "counted w w'"
    using clients_text_counted [OF ci] by blast
  then show "admits_none w (ndsctl_clients v e w)" by (simp add: admits_none_def ndsctl_clients_def authenticated_counted)
  show "admits_none w (ndsctl_stop w)" by (simp add: admits_none_def ndsctl_stop_def)
  have mc: "admits_none w (mac_command update rule e arg w)"
    if up: "update \<in> mac_updates" and "\<exists>body. \<forall>w. rule e arg w = iptables_do_command e (body w) w" for update rule
  proof -
    from that(2) obtain body where "\<And>w. rule e arg w = iptables_do_command e (body w) w" by blast
    from mac_command_result [of update rule e arg body w, OF up this] show ?thesis using admits_none_reconfigured by metis
  qed
  show "admits_none w (ndsctl_block e arg w)" "admits_none w (ndsctl_unblock e arg w)"
    "admits_none w (ndsctl_allow e arg w)" "admits_none w (ndsctl_unallow e arg w)"
    "admits_none w (ndsctl_trust e arg w)" "admits_none w (ndsctl_untrust e arg w)"
    unfolding mac_handler_defs
    by (rule mc, simp, rule mac_rules_are_commands)+
  obtain reply w' where d: "ndsctl_deauth e arg w = Ok (reply, None, w')" "static w' = static w"
    "set (clients (w_clients w')) \<subseteq> set (clients (w_clients w))"
    using ndsctl_deauth_result [OF inv, of e arg "\<lambda>_. 0"] by (fastforce simp: keeps_def split: option.splits)
  then show "admits_none w (ndsctl_deauth e arg w)"
    using authenticated_fewer [OF d(3)] static_mark [OF d(2)] by (simp add: admits_none_def)
  show "admits_none w (ndsctl_loglevel arg w)" "admits_none w (ndsctl_password arg w)" "admits_none w (ndsctl_username arg w)"
    by (auto simp: ndsctl_loglevel_def ndsctl_password_def ndsctl_username_def set_command_def split: prod.splits
        intro!: admits_none_reconfigured [OF same_daemon_refl])
qed

text \<open>Only a request that starts with \<^verbatim>\<open>auth\<close> can authenticate a client.\<close>

lemma dispatch_admits:
  assumes "daemon_inv w" "ndsctl_dispatch v e request w = Ok (reply, sig, w')" "\<not> authenticated w' \<subseteq> authenticated w"
  shows "take 4 request = ''auth''"
proof (rule ccontr)
  assume "take 4 request \<noteq> ''auth''"
  then have na: "strncmp_eq request ''auth'' 4 = False" by (simp add: strncmp_eq_def)
  have none: "admits_none w (Ok ([], None, w))" by (simp add: admits_none_def)
  have "admits_none w (ndsctl_dispatch v e request w)"
    unfolding ndsctl_dispatch_def Let_def na if_False
    by (intro if_split [where P = "admits_none w", THEN iffD2] conjI impI admits_none_rbind none handlers_admit_none [OF assms(1)])
  with assms(2,3) show False by (simp add: admits_none_def)
qed

lemma quiet_authenticated:
  assumes "quiet w w'" "static w' = static w"
  shows "authenticated w' \<subseteq> authenticated w"
  using assms authenticated_counted authenticated_fewer static_mark [OF assms(2)] unfolding quiet_def by blast

section \<open>Where an authentication comes from\<close>

text \<open>
  The thread that is about to authenticate has read a positive answer to the query for that
  very token and MAC address, in an earlier piece; a control request that is about to was
  read earlier and starts with \<^verbatim>\<open>auth\<close>.
\<close>

definition verified_before :: "env \<Rightarrow> gateway \<Rightarrow> gateway \<Rightarrow> string \<Rightarrow> http_request \<Rightarrow> t_auth_target \<Rightarrow> t_authaction \<Rightarrow> string \<Rightarrow> bool" where
  "verified_before e s0 s addr r t act mac \<longleftrightarrow> (\<exists>h rd s1 s2. gateway_reach e s0 s1 \<and>
     gateway_step e s1 (Went h addr rd (Web_verify r t act mac)) s2 \<and> gateway_reach e s2 s \<and>
     verdict (h\<lparr>h_status := gt_status s1\<rparr>) (w_conf (gt_world s1)) (at_token t) mac)"

definition requested_before :: "env \<Rightarrow> gateway \<Rightarrow> gateway \<Rightarrow> bool" where
  "requested_before e s0 s \<longleftrightarrow> (\<exists>rd request fin s1 s2. gateway_reach e s0 s1 \<and> gateway_step e s1 (Job_begun rd) s2 \<and>
     gateway_reach e s2 s \<and> read_request rd 0 0 False (replicate MAX_BUF NUL) = Some (request, fin) \<and> take 4 request = ''auth'')"

lemma before_step:
  assumes "gateway_step e s ev s'"
  shows "verified_before e s0 s addr r t act mac \<Longrightarrow> verified_before e s0 s' addr r t act mac"
    and "requested_before e s0 s \<Longrightarrow> requested_before e s0 s'"
  using assms unfolding verified_before_def requested_before_def by (blast intro: gateway_reach.step)+

definition traced :: "env \<Rightarrow> gateway \<Rightarrow> gateway \<Rightarrow> bool" where
  "traced e s0 s \<longleftrightarrow>
     (\<forall>addr r t act mac. (addr, Web_act r t act mac) \<in> set (gt_running s) \<longrightarrow> verified_before e s0 s addr r t act mac) \<and>
     (\<forall>ip mac. Job_act ip mac AUTH_MAKE_AUTHENTICATED \<in> set (gt_jobs s) \<longrightarrow> requested_before e s0 s)"

lemma traced_mono:
  assumes "traced e s0 s" "gateway_step e s ev s'"
    "\<And>addr r t act mac. (addr, Web_act r t act mac) \<in> set (gt_running s') \<Longrightarrow>
       (addr, Web_act r t act mac) \<in> set (gt_running s) \<or> verified_before e s0 s' addr r t act mac"
    "\<And>ip mac. Job_act ip mac AUTH_MAKE_AUTHENTICATED \<in> set (gt_jobs s') \<Longrightarrow>
       Job_act ip mac AUTH_MAKE_AUTHENTICATED \<in> set (gt_jobs s) \<or> requested_before e s0 s'"
  shows "traced e s0 s'"
  unfolding traced_def
proof (intro conjI allI impI)
  show "verified_before e s0 s' addr r t act mac" if "(addr, Web_act r t act mac) \<in> set (gt_running s')" for addr r t act mac
    using assms(3) [OF that] assms(1) before_step(1) [OF assms(2)] unfolding traced_def by blast
  show "requested_before e s0 s'" if "Job_act ip mac AUTH_MAKE_AUTHENTICATED \<in> set (gt_jobs s')" for ip mac
    using assms(4) [OF that] assms(1) before_step(2) [OF assms(2)] unfolding traced_def by blast
qed

lemma reach_traced:
  assumes "gateway_reach e s0 s" "threads_inv s0" "gt_running s0 = []" "gt_jobs s0 = []"
  shows "traced e s0 s"
  using assms(1)
proof induction
  case started
  with assms(3,4) show ?case by (simp add: traced_def)
next
  case (step s ev s')
  have inv: "threads_inv s" using reach_threads_kept [OF step(1) assms(2)] by (simp add: threads_kept_def)
  note mono = traced_mono [OF step.IH step(2)]
  from step(2) show ?case
  proof cases
    case (web_goes addr ph h rd ph' w')
    have "phase_of addr ph" using inv web_goes(3) by (auto simp: threads_inv_def list_all_iff)
    note eff = web_step_effect [OF web_goes(4) [unfolded web_piece_def] this]
    have "verified_before e s0 s' addr r t act mac" if "ph' = Web_act r t act mac" for r t act mac
    proof -
      have "ph = Web_verify r t act mac" "verdict (h\<lparr>h_status := gt_status s\<rparr>) (w_conf (gt_world s)) (at_token t) mac"
        using eff that by auto
      with step(1,2) web_goes(1) gateway_reach.started show ?thesis unfolding verified_before_def by blast
    qed
    then show ?thesis using web_goes(2) by (intro mono) (auto dest: set_remove1_subset [THEN subsetD])
  next
    case (job_begin rd request fin j w')
    have "requested_before e s0 s'" if "j = Some (Job_act ip mac AUTH_MAKE_AUTHENTICATED)" for ip mac
    proof -
      have "take 4 request = ''auth''" using ndsctl_begin_effect [OF job_begin(6)] that by blast
      with step(1,2) job_begin(1,4) gateway_reach.started show ?thesis unfolding requested_before_def by blast
    qed
    then show ?thesis using job_begin(2) by (intro mono) (auto split: option.splits)
  next
    case (job_go job j w')
    have "daemon_inv (gt_world s)" using inv by (simp add: threads_inv_def)
    from job_step_ok [OF this, of e job "\<lambda>_. 0"] job_go(4) have "j \<noteq> Some (Job_act ip mac act)" for ip mac act by auto
    then show ?thesis using job_go(2) by (intro mono) (auto split: option.splits dest: set_remove1_subset [THEN subsetD])
  qed (use mono in \<open>auto dest: set_remove1_subset [THEN subsetD]\<close>)
qed

text \<open>Which steps authenticate.\<close>

lemma step_admits:
  assumes "gateway_step e s ev s'" "threads_inv s"
    and "(ip, mac) \<in> authenticated (gt_world s')" "(ip, mac) \<notin> authenticated (gt_world s)"
  shows "(\<exists>h rd r t. ev = Went h ip rd (Web_act r t AUTH_MAKE_AUTHENTICATED mac) \<and>
      (ip, Web_act r t AUTH_MAKE_AUTHENTICATED mac) \<in> set (gt_running s)) \<or>
    (\<exists>rd reply request fin. ev = Controlled rd reply \<and>
      read_request rd 0 0 False (replicate MAX_BUF NUL) = Some (request, fin) \<and> take 4 request = ''auth'') \<or>
    (ev = Job_went (Job_act ip mac AUTH_MAKE_AUTHENTICATED) \<and> Job_act ip mac AUTH_MAKE_AUTHENTICATED \<in> set (gt_jobs s))"
proof -
  have inv: "daemon_inv (gt_world s)" "w_MARK_AUTHENTICATED (gt_world s) \<noteq> 0" using assms(2) by (simp_all add: threads_inv_def)
  have web: "ip = addr \<and> (\<exists>r t. ph = Web_act r t AUTH_MAKE_AUTHENTICATED mac)"
    if "(addr, ph) \<in> set (gt_running s)" "web_piece h e addr rd ph s = Some (Ok (nx, w'))" "gt_world s' = w'" for addr ph h rd nx w'
  proof -
    have "phase_of addr ph" using that(1) assms(2) by (auto simp: threads_inv_def list_all_iff)
    from web_step_authenticated [OF that(2) [unfolded web_piece_def] this inv] assms(3,4) that(3) show ?thesis by blast
  qed
  from assms(1) show ?thesis
  proof cases
    case (web_goes addr ph h rd ph' w')
    with web [OF web_goes(3,4)] show ?thesis by auto
  next
    case (web_ends addr ph h rd out w')
    with web [OF web_ends(3,4)] show ?thesis by auto
  next
    case (control rd reply w')
    then obtain request fin where r: "read_request rd 0 0 False (replicate MAX_BUF NUL) = Some (request, fin)"
      "ndsctl_dispatch (gt_status s) e request (gt_world s) = Ok (reply, None, w')"
      by (auto simp: thread_ndsctl_handler_def rbind_Ok_iff)
    from dispatch_admits [OF inv(1) r(2)] assms(3,4) r(1) control(1,2) show ?thesis by auto
  next
    case (job_begin rd request fin j w')
    from ndsctl_begin_effect [OF job_begin(6)] add_client_authenticated [OF inv] have "authenticated w' = authenticated (gt_world s)" by blast
    with assms(3,4) job_begin(2) show ?thesis by simp
  next
    case (job_go job j w')
    then have w: "gt_world s' = w'" by simp
    have st: "static w' = static (gt_world s)" and q: "quiet (gt_world s) w' \<or> (\<exists>ip mac act. job = Job_act ip mac act \<and>
        auth_client_action e ip mac act (gt_world s) = Ok w')"
      using job_step_ok [OF inv(1), of e job "\<lambda>_. 0"] job_go(4) by (auto simp: keeps_def)
    from q quiet_authenticated [OF _ st] assms(3,4) w obtain ip' mac' act where a: "job = Job_act ip' mac' act"
      "auth_client_action e ip' mac' act (gt_world s) = Ok w'" by blast
    from auth_action_authenticated [OF inv(1) a(2)] assms(3,4) w have "ip' = ip \<and> mac' = mac \<and> act = AUTH_MAKE_AUTHENTICATED"
      by (auto split: if_splits)
    with a(1) job_go(1,3) show ?thesis by simp
  next
    case (timer ph w')
    have "static w' = static (gt_world s)" "quiet (gt_world s) w'"
      using timer_step_ok [OF inv(1), of e "gt_timer s" "\<lambda>_. 0"] timer(3) by (auto simp: keeps_def)
    with quiet_authenticated assms(3,4) timer(2) show ?thesis by fastforce
  qed (use assms(3,4) in simp_all)
qed

section \<open>A sample start\<close>

text \<open>
  A configuration file with the interface, a server that sends the empty object, and
  surroundings in which every command works and no rule is listed.
\<close>

definition sample_start :: start_env where
  "sample_start = \<lparr>g_files = (\<lambda>p. Some (''gatewayinterface br0'' @ [nl])),
     g_nets = (\<lambda>n. answering (''HTTP/1.0 200 OK'' @ crlf @ crlf @ json_object [])), g_ghbn = (\<lambda>d. None),
     g_iface_addr = (\<lambda>i. Some 0x0A000001), g_iface_hw = (\<lambda>i. Some [0, 0x1a, 0x22, 0x33, 0x44, 0x55]),
     g_listen = (\<lambda>ip port. True), g_thread = (\<lambda>n. True), g_sigaction = (\<lambda>n. True), g_fork = 0,
     g_bind = (\<lambda>name. 0), g_control = 0, g_status = sample_status\<rparr>"

definition sample_conf :: s_config where
  "sample_conf = config_init\<lparr>cf_gw_interface := Some ''br0''\<rparr>"

lemma config_init_fields:
  "cf_configfile config_init = ''/etc/wificat/wificat.conf''" "cf_auth_server config_init = Some ''manage.yiroy.com''"
  "cf_free_ip_list config_init = []" "cf_ndsctl_sock config_init = ''/tmp/ndsctl.sock''" "cf_maxclients config_init = 20" "cf_gw_address config_init = None"
  "get_ruleset ''preauthenticated-users'' config_init \<noteq> None"
  by (simp_all add: config_init_def add_default_ruleset_def add_ruleset_def set_ruleset_policy_def get_ruleset_def
      upd_ruleset_def config_defaults_def)

lemma empty_object: "config_from_json ghbn (json_object []) c = Ok (1, c)"
proof -
  obtain t0 where "jsmn_parse (json_object []) 256 = Ok (1, [t0])" "tk_type t0 = JSMN_OBJECT"
    using object_parse [of "[]" 256] by (auto simp: object_tokens_def)
  then show ?thesis by (simp add: config_from_json_def config_keys.simps [of _ _ _ "Suc 0"])
qed

lemma sample_file_read: "config_read (g_files sample_start p) config_init = Ok sample_conf"
proof -
  have "config_parse_opcode ''gatewayinterface'' = oGatewayInterface"
    by (simp add: config_parse_opcode_def keyword_table_def strcasecmp_eq_def tolower_def cc_def char_of_def bit_0)
  then show ?thesis
    by (simp add: sample_start_def sample_conf_def config_read_def config_lines.simps fgets_def c_string_def NUL_def Let_def nl_def
        strip_whitespace_def rstrip_def isspace_def cc_def MAX_BUF_def config_line_def isblank_def config_opt_basic_def)
qed

lemma sample_server: "config_from_server (g_nets sample_start n) ghbn v sample_conf = Ok (1, sample_conf)"
proof -
  let ?r = "''HTTP/1.0 200 OK'' @ crlf @ crlf @ json_object []"
  have "length ?r < 8192" "NUL \<notin> set ?r" by (simp_all add: crlf_def json_object_def NUL_def)
  note a = answering_request [OF this]
  have "strstr ?r (crlf @ crlf) = Some (crlf @ crlf @ json_object [])" by (simp add: crlf_def strstr_eval json_object_def)
  moreover have "drop 4 (crlf @ crlf @ json_object []) = json_object []" by (simp add: crlf_def)
  moreover have "g_nets sample_start n = answering ?r" by (simp add: sample_start_def)
  moreover have "cf_auth_server sample_conf = Some ''manage.yiroy.com''" by (simp add: sample_conf_def config_init_fields)
  ultimately show ?thesis using empty_object [of ghbn sample_conf] by (simp add: config_from_server_def a del: append.simps)
qed

lemma sample_read: "read_configuration sample_start [] = Ok sample_conf"
proof -
  have "server_retry sample_start 0 sample_conf = Some (Ok sample_conf)"
    by (subst server_retry.simps) (simp add: sample_server)
  moreover have "free_ip_init sample_conf = Ok sample_conf"
    using config_init_fields(7) by (auto simp: free_ip_init_def sample_conf_def config_init_fields(3) get_ruleset_def)
  ultimately show ?thesis
    by (simp add: read_configuration_def sample_file_read config_init_fields configfile_size_def config_validate_def
        config_notnull_def) (simp add: sample_conf_def config_init_fields)
qed

lemma destroy_mentions_silent:
  assumes "\<And>t c m n. \<not> mentions e t c m n"
  shows "\<exists>w'. destroy_mentions e xs w = Ok w'"
proof (induction xs arbitrary: w)
  case (Cons x xs)
  obtain t c m where x: "x = (t, c, m)" by (cases x)
  obtain rc w1 where "destroy_mention e t c m w = Some (rc, w1)" using destroy_mention_ends [of 0 e t c m w] assms by blast
  with Cons.IH [of w1] show ?case by (auto simp: x iptables_fw_destroy_mention_def)
qed simp

lemma fw_destroy_silent:
  assumes "\<And>t c m n. \<not> mentions e t c m n"
  shows "\<exists>w'. fw_destroy e w = Ok (0, w')"
proof -
  have d: "\<exists>w'. rbind (destroy_mentions e xs w) f = Ok (0, w')" if "\<And>w. \<exists>w'. f w = Ok (0, w')" for xs w and f :: "world \<Rightarrow> (int \<times> world) result"
    using destroy_mentions_silent [OF assms, of xs w] that by auto
  show ?thesis
    unfolding fw_destroy_def iptables_fw_destroy_def Let_def
    by (intro d) simp
qed

lemma sample_env_silent: "\<not> mentions gateway_env t c m n" "works gateway_env"
  using mentions_silent [of t c m n] works_good_env by (simp_all add: mentions_def works_def gateway_env_def)

lemma sample_main: "\<exists>s. gateway_main sample_start gateway_env [] = Ok s \<and> gt_control s"
proof -
  obtain now w0 where w0: "time_now gateway_env (world_init sample_conf) = (now, w0)" by fastforce
  obtain addr mac where ic: "interface_config sample_start sample_conf = Ok (sample_conf\<lparr>cf_gw_address := Some addr, cf_gw_mac := Some mac\<rparr>)"
    by (auto simp: interface_config_def sample_conf_def config_init_fields get_iface_ip_def get_iface_mac_def IFNAMSIZ_def sample_start_def)
  let ?c = "sample_conf\<lparr>cf_gw_address := Some addr, cf_gw_mac := Some mac\<rparr>"
  obtain w1 where d: "fw_destroy gateway_env (w0\<lparr>w_conf := ?c\<rparr>) = Ok (0, w1)" using fw_destroy_silent sample_env_silent(1) by blast
  from core_fw_destroy [OF this] have c1: "w_conf w1 = ?c" by (simp add: core_def)
  have marks: "distinct [0, cf_FW_MARK_AUTHENTICATED (w_conf w1), cf_FW_MARK_BLOCKED (w_conf w1), cf_FW_MARK_TRUSTED (w_conf w1)]"
    by (simp add: c1 sample_conf_def config_init_marks)
  have "\<exists>w2. iptables_fw_init gateway_env w1 = Ok (0, w2)"
    by (rule fw_init_good [OF _ _ _ _ _ _ _ marks sample_env_silent(2), of "''br0''" addr])
      (use config_init_view in \<open>simp_all add: c1 sample_conf_def\<close>)
  then obtain w2 where "fw_init gateway_env w1 = Ok (0, w2)" by (auto simp: fw_init_def)
  with d have "firewall_start sample_start gateway_env (w0\<lparr>w_conf := ?c\<rparr>) = Ok w2"
    by (simp add: firewall_start_def) (simp add: sample_start_def)
  moreover have "g_listen sample_start a b" for a b by (simp add: sample_start_def)
  moreover obtain sig where "init_signals (g_sigaction sample_start) = Ok sig"
    by (simp add: sample_start_def init_signals_def)
  moreover have "control_setup (g_bind sample_start) (g_control sample_start) (cf_ndsctl_sock ?c) = Ok Control_listening"
    by (simp add: sample_start_def control_setup_def control_path_size_def sample_conf_def config_init_fields)
  moreover have "safe_fork (g_fork sample_start) None = Ok (0, None, [])" by (simp add: sample_start_def safe_fork_def)
  ultimately show ?thesis
    by (simp add: gateway_main_def sample_read main_loop_start_def w0 ic threads_start_def)
qed

text \<open>The sample client authenticated by a request on the control socket.\<close>

lemma auth_present:
  assumes inv: "daemon_inv w" and m: "w_MARK_AUTHENTICATED w \<noteq> 0" and ip: "check_ip_format ip" "fst (arp_get e ip w) = Some mac"
    and room: "int (length (clients (w_clients w))) < cf_maxclients (w_conf w)"
  shows "\<exists>w'. ndsctl_auth e ip w = Ok (''Yes'', None, w') \<and> (ip, mac) \<in> authenticated w'"
proof -
  obtain a w1 c where a: "http_nodogsplash_add_client e ip w = Ok (Some a, w1)" "client_at (w_clients w1) a = Some c"
    "ckey c = (ip, mac)" "c \<in> set (clients (w_clients w1))"
    using contact_present [OF inv m ip disjI2 [OF room]] by blast
  have "daemon_inv w1" using add_client_keeps [OF inv m, of e ip "\<lambda>_. 0"] a(1) by (auto simp: keeps_def)
  from authenticate_present [OF this a(4,3), of e] obtain w2
    where w2: "auth_client_action e ip mac AUTH_MAKE_AUTHENTICATED w1 = Ok w2" "(ip, mac) \<in> authenticated w2" by blast
  then have "ndsctl_auth e ip w = Ok (''Yes'', None, w2)" using a by (simp add: ndsctl_auth_def client_keys_at)
  with w2(2) show ?thesis by blast
qed

definition sample_request :: "nat \<Rightarrow> nat \<Rightarrow> string option" where
  "sample_request = peer [''auth 10.0.0.2'' @ [nl]]"

lemma sample_request_read:
  "\<exists>request. read_request sample_request 0 0 False (replicate MAX_BUF NUL) = Some (request, True) \<and>
     take 4 request = ''auth'' \<and> cstr 5 request = Some ''10.0.0.2''"
proof -
  let ?s = "''auth 10.0.0.2'' @ [nl]"
  have e: "list_ex eol (concat [?s])" by (simp add: eol_def nl_def)
  have l: "length ?s + 10 \<le> MAX_BUF" by (simp add: MAX_BUF_def)
  obtain k where k: "k \<le> length ?s" "list_ex eol (take k ?s) \<or> MAX_BUF - 1 \<le> k"
    "read_request sample_request 0 0 False (replicate MAX_BUF NUL) = Some (image (take k ?s), list_ex eol (take k ?s))"
    using read_request_start [OF disjI1 [OF e]] by (auto simp: sample_request_def)
  have "k = length ?s"
  proof (rule ccontr)
    assume "k \<noteq> length ?s"
    with k(1) have k': "k \<le> length ''auth 10.0.0.2''" by simp
    have "take k (xs @ ys) = take k xs" if "k \<le> length xs" for xs ys :: string using that by simp
    from this [OF k'] have "set (take k ?s) \<subseteq> set ''auth 10.0.0.2''" using set_take_subset by metis
    moreover have "list_all (\<lambda>c. \<not> eol c) ''auth 10.0.0.2''" by (simp add: eol_def)
    ultimately have "\<not> list_ex eol (take k ?s)" by (auto simp only: list_ex_iff list_all_iff)
    with k(1,2) l show False by simp
  qed
  moreover have "image ?s = ''auth 10.0.0.2'' @ replicate (MAX_BUF - 13) NUL"
  proof -
    have "MAX_BUF - 13 = Suc (MAX_BUF - 14)" by (simp add: MAX_BUF_def)
    then show ?thesis by (simp add: image_def end_line_def eol_def nl_def)
  qed
  moreover have "MAX_BUF - 13 = Suc (MAX_BUF - 14)" by (simp add: MAX_BUF_def)
  ultimately show ?thesis using k(3) e by (simp add: cstr_def NUL_def)
qed

lemma sample_room:
  assumes "gateway_main sample_start gateway_env [] = Ok s"
  shows "int (length (clients (w_clients (gt_world s)))) < cf_maxclients (w_conf (gt_world s))"
proof -
  obtain c sig where "read_configuration sample_start [] = Ok c" and m: "main_loop_start sample_start gateway_env sig c = Ok s"
    by (rule gateway_main_ok [OF assms])
  then have m: "main_loop_start sample_start gateway_env sig sample_conf = Ok s" by (simp add: sample_read)
  obtain addr mac w2 where "w_conf w2 = sample_conf\<lparr>cf_gw_address := Some addr, cf_gw_mac := Some mac\<rparr>"
    "fw_init gateway_env w2 = Ok (0, gt_world s)" by (rule main_loop_start_ok [OF m])
  with core_fw_init [OF this(2)] gateway_main_inv(2) [OF assms] show ?thesis
    by (simp add: core_def sample_conf_def config_init_fields)
qed

lemma sample_auth_step:
  assumes s: "gateway_main sample_start gateway_env [] = Ok s" "gt_control s"
  shows "\<exists>s'. gateway_step gateway_env s (Controlled sample_request ''Yes'') s' \<and>
    (''10.0.0.2'', ''00:1a:22:33:44:5f'') \<in> authenticated (gt_world s')"
proof -
  let ?w = "gt_world s"
  have inv: "daemon_inv ?w" "w_MARK_AUTHENTICATED ?w \<noteq> 0"
    using gateway_main_inv(1) [OF s(1)] by (simp_all add: threads_inv_def)
  obtain w' where w': "ndsctl_auth gateway_env ''10.0.0.2'' ?w = Ok (''Yes'', None, w')"
    "(''10.0.0.2'', ''00:1a:22:33:44:5f'') \<in> authenticated w'"
    using auth_present [OF inv gateway_conf(4) gateway_arp sample_room [OF s(1)]] by blast
  obtain request where r: "read_request sample_request 0 0 False (replicate MAX_BUF NUL) = Some (request, True)"
    "take 4 request = ''auth''" "cstr 5 request = Some ''10.0.0.2''"
    using sample_request_read by blast
  then obtain r' where "request = ''auth'' @ r'" by (metis append_take_drop_id)
  with r(3) w' have "ndsctl_dispatch (gt_status s) gateway_env request ?w = Ok (''Yes'', None, w')"
    by (simp add: ndsctl_dispatch_def strncmp_eq_def Let_def)
  with r(1) have "thread_ndsctl_handler (gt_status s) gateway_env sample_request ?w = Ok (''Yes'', None, w')"
    by (simp add: thread_ndsctl_handler_def)
  from gateway_step.control [OF s(2) this] w'(2) show ?thesis by force
qed

section \<open>What always returns\<close>

lemma pieces_return:
  assumes "daemon_inv w" "mac_lists_inv (w_conf w)" "w_MARK_AUTHENTICATED w \<noteq> 0"
  shows "is_ok (http_nodogsplash_add_client e ip w)" "is_ok (client_list_find ip mac (w_clients w))"
    "is_ok (auth_client_action e ip mac action w)" "is_ok (timer_step e ph w)" "is_ok (job_step e job w)"
    "is_ok (fw_refresh_client_list e w)" "NUL \<in> set (drop 9 request) \<Longrightarrow> is_ok (ndsctl_begin e request w)"
    "NUL \<in> set (drop 9 request) \<Longrightarrow> is_ok (ndsctl_dispatch v e request w)"
proof -
  have ci: "clist_inv (w_clients w)" using assms(1) by (simp add: daemon_inv_def)
  show "is_ok (http_nodogsplash_add_client e ip w)"
    using add_client_keeps [OF assms(1,3), of e ip "\<lambda>_. 0"] unfolding is_ok_iff by blast
  show "is_ok (auth_client_action e ip mac action w)"
    using auth_client_action_keeps [OF assms(1), of e ip mac action "\<lambda>_. 0"] unfolding is_ok_iff by blast
  show "is_ok (timer_step e ph w)" using timer_step_ok [OF assms(1), of e ph "\<lambda>_. 0"] unfolding is_ok_iff by blast
  show "is_ok (job_step e job w)" using job_step_ok [OF assms(1), of e job "\<lambda>_. 0"] unfolding is_ok_iff by blast
  show "is_ok (fw_refresh_client_list e w)" using refresh_keeps [OF assms(1), of e "\<lambda>_. 0"] unfolding is_ok_iff by blast
  show "is_ok (ndsctl_begin e request w)" if "NUL \<in> set (drop 9 request)"
    using ndsctl_begin_ok [OF assms(1,3) that, of e "\<lambda>_. 0"] unfolding is_ok_iff by blast
  show "is_ok (ndsctl_dispatch v e request w)" if "NUL \<in> set (drop 9 request)"
    using dispatch_ok [OF assms that] unfolding is_ok_iff handled_ok_def by blast
  show "is_ok (client_list_find ip mac (w_clients w))"
    using find_refines [OF ci, of "\<lambda>c. Some (c_ip c = ip \<and> c_mac c = mac)" "\<lambda>c. c_ip c = ip \<and> c_mac c = mac"]
    unfolding is_ok_iff by (auto simp: client_list_find_def)
qed

section \<open>Properties\<close>

text \<open>
  C3. A start that succeeds leaves the gateway closed: nobody is on the client list, no thread
  runs, a peer that hangs up does not end the process and the signals that do run the handler that
  takes the firewall down, the interface has an address and a hardware address, the marks of the configuration are
  in use, nonzero and different, and the last command that took effect is the one that rejects
  what the forwarding rules before it, which start with the drops, did not let through.
\<close>

theorem gateway_starts_closed:
  assumes "gateway_main g e args = Ok s"
  shows "clients (w_clients (gt_world s)) = [] \<and> authenticated (gt_world s) = {} \<and> gt_accepted s = [] \<and> gt_running s = [] \<and>
    gt_signals s SIGPIPE = SIG_IGN \<and> (\<forall>sig \<in> {SIGINT, SIGTERM, SIGQUIT}. gt_signals s sig = Termination_handler) \<and>
    cf_gw_address (w_conf (gt_world s)) \<noteq> None \<and> cf_gw_mac (w_conf (gt_world s)) \<noteq> None \<and>
    w_MARK_AUTHENTICATED (gt_world s) = cf_FW_MARK_AUTHENTICATED (w_conf (gt_world s)) \<and> marks_ok (w_conf (gt_world s)) \<and>
    (\<exists>ifc mm pre mid. cf_gw_interface (w_conf (gt_world s)) = Some ifc \<and>
      effects (w_log (gt_world s)) = pre @ map ipt_cmd (net_head ifc (w_conf (gt_world s)) mm) @ mid @
        [ipt_cmd (reject_rest ''ndsNET'')])"
proof -
  obtain c sig where c: "init_signals (g_sigaction g) = Ok sig" "main_loop_start g e sig c = Ok s"
    by (rule gateway_main_ok [OF assms])
  obtain addr mac w2 where w2: "w_conf w2 = c\<lparr>cf_gw_address := Some addr, cf_gw_mac := Some mac\<rparr>"
    "fw_init e w2 = Ok (0, gt_world s)" "gt_accepted s = []" "gt_running s = []" "gt_signals s = sig"
    by (rule main_loop_start_ok [OF c(2)])
  have conf: "w_conf (gt_world s) = w_conf w2" using core_fw_init [OF w2(2)] by (simp add: core_def)
  note inv = gateway_main_inv [OF assms]
  have "authenticated (gt_world s) = {}" using inv(2) by (simp add: authenticated_def)
  moreover from w2(2) have "iptables_fw_init e w2 = Ok (0, gt_world s)" by (simp add: fw_init_def)
  note fw_init_closed [OF this]
  ultimately show ?thesis using inv(2-4) w2(1,3-5) init_signals_Ok [OF c(1)] unfolding conf by simp
qed

lemma gateway_starts_closed_witness:
  "\<exists>s. gateway_main sample_start gateway_env [] = Ok s \<and> clients (w_clients (gt_world s)) = [] \<and>
     (\<exists>l. effects (w_log (gt_world s)) = l @ [ipt_cmd (reject_rest ''ndsNET'')])"
proof -
  obtain s where s: "gateway_main sample_start gateway_env [] = Ok s" using sample_main by blast
  with gateway_starts_closed [OF s] show ?thesis by (metis append.assoc)
qed

text \<open>
  C1. However the threads of a running gateway interleave between the locked sections and the
  unlocked accesses of a request thread, of a control request and of the timer, whatever peers send
  and whatever the surroundings answer, as long as no request thread has run into undefined
  behaviour: the client list stays well formed, within the capacity the start set and
  free of duplicates, every client has a token and is unauthenticated or has the configured mark,
  the MAC lists stay free of duplicates, the counter in the status is the number of running
  request threads, and everything that is done under the mutex returns, as do the next piece of
  the timer and of every control request and a whole refresh; a control request with its terminator
  in the buffer can always be handled. So only what a request thread does outside the mutex, with
  the request, the replies of the servers and the pointer it kept, can end a run.
\<close>

theorem gateway_safe:
  assumes "gateway_main g e args = Ok s0" "gateway_reach e s0 s"
  shows "clist_inv (w_clients (gt_world s)) \<and>
    int (length (clients (w_clients (gt_world s)))) \<le> max 0 (cf_maxclients (w_conf (gt_world s0))) \<and>
    distinct (map (\<lambda>c. (c_ip c, c_mac c)) (clients (w_clients (gt_world s)))) \<and>
    list_all (client_ok (cf_FW_MARK_AUTHENTICATED (w_conf (gt_world s0)))) (clients (w_clients (gt_world s))) \<and>
    mac_lists_inv (w_conf (gt_world s)) \<and>
    s_current_httpd_threads (gt_status s) = int (length (gt_running s)) \<and>
    (\<forall>ip mac action. is_ok (http_nodogsplash_add_client e ip (gt_world s)) \<and>
      is_ok (client_list_find ip mac (w_clients (gt_world s))) \<and> is_ok (auth_client_action e ip mac action (gt_world s))) \<and>
    is_ok (timer_step e (gt_timer s) (gt_world s)) \<and> (\<forall>job \<in> set (gt_jobs s). is_ok (job_step e job (gt_world s))) \<and>
    is_ok (fw_refresh_client_list e (gt_world s)) \<and>
    (\<forall>request. NUL \<in> set (drop 9 request) \<longrightarrow> is_ok (ndsctl_begin e request (gt_world s)) \<and>
      is_ok (ndsctl_dispatch (gt_status s) e request (gt_world s)))"
proof -
  note start = gateway_main_inv [OF assms(1)]
  have inv: "threads_inv s" and m: "w_MARK_AUTHENTICATED (gt_world s) = cf_FW_MARK_AUTHENTICATED (w_conf (gt_world s0))"
    and cap: "cf_maxclients (w_conf (gt_world s)) = cf_maxclients (w_conf (gt_world s0))"
    using reach_threads_kept [OF assms(2) start(1)] start(4) by (simp_all add: threads_kept_def)
  then have d: "daemon_inv (gt_world s)" "mac_lists_inv (w_conf (gt_world s))" "w_MARK_AUTHENTICATED (gt_world s) \<noteq> 0"
    by (simp_all add: threads_inv_def)
  note returns = pieces_return [OF d]
  have "length (clients (w_clients (gt_world s))) \<le> length (cl_arr (w_clients (gt_world s)))"
    using d(1) reg.size_ok by (simp add: daemon_inv_def)
  then have "int (length (clients (w_clients (gt_world s)))) \<le> max 0 (cf_maxclients (w_conf (gt_world s0)))"
    using d(1) cap by (simp add: daemon_inv_def) linarith
  moreover have "clist_inv (w_clients (gt_world s))" "distinct (map (\<lambda>c. (c_ip c, c_mac c)) (clients (w_clients (gt_world s))))"
    "list_all (client_ok (cf_FW_MARK_AUTHENTICATED (w_conf (gt_world s0)))) (clients (w_clients (gt_world s)))"
    "s_current_httpd_threads (gt_status s) = int (length (gt_running s))"
    using d(1) inv m by (simp_all add: daemon_inv_def threads_inv_def)
  ultimately show ?thesis using d(2) returns by blast
qed

lemma gateway_safe_witness:
  "\<exists>s0 s. gateway_main sample_start gateway_env [] = Ok s0 \<and> gateway_reach gateway_env s0 s \<and>
     clients (w_clients (gt_world s)) \<noteq> [] \<and> clist_inv (w_clients (gt_world s))"
proof -
  obtain s0 where s0: "gateway_main sample_start gateway_env [] = Ok s0" "gt_control s0" using sample_main by blast
  obtain s where s: "gateway_step gateway_env s0 (Controlled sample_request ''Yes'') s"
    "(''10.0.0.2'', ''00:1a:22:33:44:5f'') \<in> authenticated (gt_world s)"
    using sample_auth_step [OF s0] by blast
  then have r: "gateway_reach gateway_env s0 s" by (blast intro: gateway_reach.intros)
  from s(2) have "clients (w_clients (gt_world s)) \<noteq> []" by (auto simp: authenticated_def)
  with gateway_safe [OF s0(1) r] s0 r show ?thesis by blast
qed

text \<open>
  C2. In a running gateway, however its threads interleave, a step that authenticates a pair of
  addresses that was not is one of three. It is the last piece of a request from that very IP
  address, whose thread in an earlier piece had the authentication server's response to the query
  made of its token and that MAC address: the header with the digit 1 after it, or a response
  without an empty line, for which \<^verbatim>\<open>token_verify\<close> returns no value and the caller found a
  positive one. Or it is a control request that starts with \<^verbatim>\<open>auth\<close>, handled at once, or one
  that was read earlier. No timer, no other request and no other peer can do it.
\<close>

theorem gateway_auth_authorised:
  assumes "gateway_main g e args = Ok s0" "gateway_reach e s0 s" "gateway_step e s ev s'"
    and "(ip, mac) \<in> authenticated (gt_world s')" "(ip, mac) \<notin> authenticated (gt_world s)"
  shows "(\<exists>h rd r t h1 rd1 s1 s2 response. ev = Went h ip rd (Web_act r t AUTH_MAKE_AUTHENTICATED mac) \<and>
      gateway_reach e s0 s1 \<and> gateway_step e s1 (Went h1 ip rd1 (Web_verify r t AUTH_MAKE_AUTHENTICATED mac)) s2 \<and>
      gateway_reach e s2 s \<and>
      verify_response (h1\<lparr>h_status := gt_status s1\<rparr>) (w_conf (gt_world s1)) (at_token t) mac response \<and>
      (strstr response (crlf @ crlf) = Some (crlf @ crlf @ ''1'') \<or>
       strstr response (crlf @ crlf) = None \<and> 0 < h_unset h1)) \<or>
    (\<exists>rd reply request fin. ev = Controlled rd reply \<and>
      read_request rd 0 0 False (replicate MAX_BUF NUL) = Some (request, fin) \<and> take 4 request = ''auth'') \<or>
    (\<exists>rd request fin s1 s2. ev = Job_went (Job_act ip mac AUTH_MAKE_AUTHENTICATED) \<and>
      gateway_reach e s0 s1 \<and> gateway_step e s1 (Job_begun rd) s2 \<and> gateway_reach e s2 s \<and>
      read_request rd 0 0 False (replicate MAX_BUF NUL) = Some (request, fin) \<and> take 4 request = ''auth'')"
proof -
  note start = gateway_main_inv [OF assms(1)]
  have inv: "threads_inv s" using reach_threads_kept [OF assms(2) start(1)] by (simp add: threads_kept_def)
  have tr: "traced e s0 s" by (rule reach_traced [OF assms(2) start(1,5,6)])
  from step_admits [OF assms(3) inv assms(4,5)] show ?thesis
  proof (elim disjE exE conjE, goal_cases)
    case (1 h rd r t)
    with tr have "verified_before e s0 s ip r t AUTH_MAKE_AUTHENTICATED mac" by (simp add: traced_def)
    then obtain h1 rd1 s1 s2 where b: "gateway_reach e s0 s1"
      "gateway_step e s1 (Went h1 ip rd1 (Web_verify r t AUTH_MAKE_AUTHENTICATED mac)) s2" "gateway_reach e s2 s"
      "verdict (h1\<lparr>h_status := gt_status s1\<rparr>) (w_conf (gt_world s1)) (at_token t) mac"
      unfolding verified_before_def by blast
    obtain response where "verify_response (h1\<lparr>h_status := gt_status s1\<rparr>) (w_conf (gt_world s1)) (at_token t) mac response"
      "strstr response (crlf @ crlf) = Some (crlf @ crlf @ ''1'') \<or> strstr response (crlf @ crlf) = None \<and> 0 < h_unset h1"
      using verdict_response [OF b(4)] by auto
    with b(1-3) 1(1) show ?thesis by blast
  next
    case (3)
    with tr have "requested_before e s0 s" by (auto simp: traced_def)
    with 3(1) show ?thesis unfolding requested_before_def by blast
  qed blast
qed

lemma gateway_auth_authorised_witness:
  "\<exists>s ev s'. gateway_step gateway_env s ev s' \<and>
     (''10.0.0.2'', ''00:1a:22:33:44:5f'') \<in> authenticated (gt_world s') - authenticated (gt_world s) \<and>
     (\<exists>request fin. read_request sample_request 0 0 False (replicate MAX_BUF NUL) = Some (request, fin) \<and>
       take 4 request = ''auth'')"
proof -
  obtain s0 where s0: "gateway_main sample_start gateway_env [] = Ok s0" "gt_control s0" using sample_main by blast
  obtain s where s: "gateway_step gateway_env s0 (Controlled sample_request ''Yes'') s"
    "(''10.0.0.2'', ''00:1a:22:33:44:5f'') \<in> authenticated (gt_world s)"
    using sample_auth_step [OF s0] by blast
  have n: "(''10.0.0.2'', ''00:1a:22:33:44:5f'') \<notin> authenticated (gt_world s0)"
    using gateway_main_inv(2) [OF s0(1)] by (simp add: authenticated_def)
  from gateway_auth_authorised [OF s0(1) gateway_reach.started s n] obtain request fin
    where "read_request sample_request 0 0 False (replicate MAX_BUF NUL) = Some (request, fin)" "take 4 request = ''auth''"
    by auto
  with s n show ?thesis by blast
qed

end
