(* ===== verification/NdsctlClient.thy ===== *)
theory NdsctlClient
  imports Ndsctl
begin

text \<open>
  The client of the control socket, the program \<^verbatim>\<open>src/ndsctl.c\<close>: its command line, the
  request it builds and sends, the reply it reads and what it prints, and its agreement
  with the daemon's side. The connection is a parameter: whether \<^verbatim>\<open>connect\<close> succeeds, how many
  bytes each \<^verbatim>\<open>write\<close> takes (\<open>-1\<close> for an error) and what each \<^verbatim>\<open>read\<close> gives. Messages on
  \<^verbatim>\<open>stderr\<close> are left out.
\<close>

section \<open>The command line\<close>

definition DEFAULT_SOCK :: string where
  "DEFAULT_SOCK = ''/tmp/ndsctl.sock''"

definition usage :: string where
  "usage = concat (map line
     [''Usage: ndsctl [options] command [arguments]'',
      [],
      ''options:'',
      ''  -s <path>         Path to the socket'',
      ''  -h                Print usage'',
      [],
      ''commands:'',
      ''  status            View the status of nodogsplash'',
      ''  clients           Display machine-readable client list'',
      ''  stop              Stop the running nodogsplash'',
      ''  auth ip           Authenticate user with specified ip'',
      ''  deauth mac|ip     Deauthenticate user with specified mac or ip'',
      ''  block mac         Block the given MAC address'',
      ''  unblock mac       Unblock the given MAC address'',
      ''  allow mac         Allow the given MAC address'',
      ''  unallow mac       Unallow the given MAC address'',
      ''  trust mac         Trust the given MAC address'',
      ''  untrust mac       Untrust the given MAC address'',
      ''  loglevel n        Set logging level to n'',
      ''  password pass     Set gateway password'',
      ''  username name     Set gateway username'',
      []])"

datatype ndsctl_command = NDSCTL_UNDEF | NDSCTL_STATUS | NDSCTL_STOP | NDSCTL_KILL
  | NDSCTL_RESTART | NDSCTL_BLOCK | NDSCTL_UNBLOCK
  | NDSCTL_ALLOW | NDSCTL_UNALLOW | NDSCTL_TRUST | NDSCTL_UNTRUST | NDSCTL_AUTH | NDSCTL_DEAUTH
  | NDSCTL_LOGLEVEL | NDSCTL_PASSWORD | NDSCTL_USERNAME | NDSCTL_CLIENTS

record ndsctl_config =
  nc_socket :: string
  nc_command :: ndsctl_command
  nc_param :: "string option"

definition init_config :: ndsctl_config where
  "init_config = \<lparr>nc_socket = DEFAULT_SOCK, nc_command = NDSCTL_UNDEF, nc_param = None\<rparr>"

text \<open>
  \<^verbatim>\<open>getopt(argc, argv, "s:h")\<close> with the options handled as they come: the letters of one
  word (the argument of \<^verbatim>\<open>-s\<close> is the rest of the word or the next word), the words up to
  \<^verbatim>\<open>--\<close>, operands collected in order. \<open>None\<close> is \<^verbatim>\<open>usage(); exit(1)\<close>.
\<close>

fun short_options :: "string \<Rightarrow> string list \<Rightarrow> (string option \<times> string list) option" where
  "short_options [] ws = Some (None, ws)"
| "short_options (c # cs) ws =
     (if c = CHR ''s'' then
        (if cs \<noteq> [] then Some (Some cs, ws)
         else case ws of [] \<Rightarrow> None | w # ws' \<Rightarrow> Some (Some w, ws'))
      else None)"

lemma short_options_le: "short_options cs ws = Some (p, ws') \<Longrightarrow> length ws' \<le> length ws"
  by (cases cs) (auto split: if_splits list.splits)

function getopt_loop :: "string list \<Rightarrow> string \<Rightarrow> (string \<times> string list) option" where
  "getopt_loop [] sock = Some (sock, [])"
| "getopt_loop (w # ws) sock =
     (if w = ''--'' then Some (sock, ws)
      else case w of
        c # d # cs \<Rightarrow> if c = CHR ''-'' then
            (case short_options (d # cs) ws of
               None \<Rightarrow> None
             | Some (s, ws') \<Rightarrow> getopt_loop ws' (case s of None \<Rightarrow> sock | Some t \<Rightarrow> t))
          else map_option (apsnd ((#) w)) (getopt_loop ws sock)
      | _ \<Rightarrow> map_option (apsnd ((#) w)) (getopt_loop ws sock))"
  by pat_completeness auto
termination
  by (relation "measure (\<lambda>(ws, _). length ws)")
     (auto dest!: short_options_le split: if_splits list.splits)

text \<open>The commands, and whether they take a parameter.\<close>

definition command_table :: "(string \<times> ndsctl_command \<times> bool) list" where
  "command_table =
     [(''status'', NDSCTL_STATUS, False), (''clients'', NDSCTL_CLIENTS, False), (''stop'', NDSCTL_STOP, False),
      (''block'', NDSCTL_BLOCK, True), (''unblock'', NDSCTL_UNBLOCK, True), (''allow'', NDSCTL_ALLOW, True),
      (''unallow'', NDSCTL_UNALLOW, True), (''trust'', NDSCTL_TRUST, True), (''untrust'', NDSCTL_UNTRUST, True),
      (''auth'', NDSCTL_AUTH, True), (''deauth'', NDSCTL_DEAUTH, True), (''loglevel'', NDSCTL_LOGLEVEL, True),
      (''password'', NDSCTL_PASSWORD, True), (''username'', NDSCTL_USERNAME, True)]"

definition parse_commandline :: "string list \<Rightarrow> ndsctl_config option" where
  "parse_commandline args =
     (case getopt_loop args (nc_socket init_config) of
        None \<Rightarrow> None
      | Some (sock, []) \<Rightarrow> None
      | Some (sock, cmd # operands) \<Rightarrow>
          (case map_of command_table cmd of
             None \<Rightarrow> None
           | Some (c, False) \<Rightarrow> Some (init_config\<lparr>nc_socket := sock, nc_command := c\<rparr>)
           | Some (c, True) \<Rightarrow>
               (case operands of
                  [] \<Rightarrow> None
                | p # _ \<Rightarrow> Some (init_config\<lparr>nc_socket := sock, nc_command := c, nc_param := Some p\<rparr>))))"

section \<open>The connection\<close>

record ndsctl_env =
  ne_connect :: "string \<Rightarrow> bool"
  ne_write :: "nat \<Rightarrow> string \<Rightarrow> int"
  ne_read :: "nat \<Rightarrow> nat \<Rightarrow> string option"

text \<open>What a run leaves behind: the bytes written, in pieces, its output and its exit status.\<close>

record run =
  r_sent :: "string list"
  r_out :: string
  r_code :: int

definition sun_path_size :: nat where
  "sun_path_size = 108"

definition connect_to_server :: "ndsctl_env \<Rightarrow> string \<Rightarrow> bool" where
  "connect_to_server e sock_name = ne_connect e (take (sun_path_size - 1) sock_name)"

text \<open>The pieces taken, and whether the whole request went out; an error ends the program.\<close>

partial_function (option) send_request ::
    "(nat \<Rightarrow> string \<Rightarrow> int) \<Rightarrow> nat \<Rightarrow> string \<Rightarrow> nat \<Rightarrow> (string list \<times> bool) option" where
  "send_request wr n request len =
     (if len = length request then Some ([], True)
      else let written = wr n (drop len request) in
        if written = -1 then Some ([], False)
        else Option.bind (send_request wr (Suc n) request (len + nat written))
          (\<lambda>(ps, ok). Some (take (nat written) (drop len request) # ps, ok)))"

definition NDSCTL_TERMINATOR :: string where
  "NDSCTL_TERMINATOR = [CHR 0x0D, CHR 0x0A, CHR 0x0D, CHR 0x0A]"

definition action_request :: "string \<Rightarrow> string \<Rightarrow> string" where
  "action_request cmd param =
     snprintf_s (128 - length NDSCTL_TERMINATOR) (cmd @ '' '' @ param) @ NDSCTL_TERMINATOR"

definition print_request :: "string \<Rightarrow> string" where
  "print_request cmd = snprintf_s (32 - length NDSCTL_TERMINATOR) cmd @ NDSCTL_TERMINATOR"

text \<open>The reply of an action: a buffer of 4096 zero bytes, filled until the end of the stream.\<close>

function read_reply :: "(nat \<Rightarrow> nat \<Rightarrow> string option) \<Rightarrow> nat \<Rightarrow> nat \<Rightarrow> string \<Rightarrow> string" where
  "read_reply rd n len buf =
     (if len < 4096 then
        (case rd n (4096 - len) of
           None \<Rightarrow> buf
         | Some s \<Rightarrow> if s = [] then buf else read_reply rd (Suc n) (len + length s) (store len s buf))
      else buf)"
  by pat_completeness auto
termination
proof (relation "measure (\<lambda>(rd, n, len, buf). 4096 - len)", goal_cases)
  case (2 rd n len buf s)
  then show ?case by (cases s) auto
qed simp

declare read_reply.simps [simp del]

text \<open>\<^verbatim>\<open>printf(format, s)\<close> for a format that has only \<^verbatim>\<open>%s\<close> directives.\<close>

fun printf_s :: "string \<Rightarrow> string \<Rightarrow> string" where
  "printf_s (c # d # f) s =
     (if c = CHR ''%'' \<and> d = CHR ''s'' then s @ printf_s f s else c # printf_s (d # f) s)"
| "printf_s f s = f"

definition ndsctl_action :: "ndsctl_env \<Rightarrow> ndsctl_config \<Rightarrow> string \<Rightarrow> string \<Rightarrow> string \<Rightarrow> run option" where
  "ndsctl_action e config cmd ifyes ifno =
     (if \<not> connect_to_server e (nc_socket config) then Some \<lparr>r_sent = [], r_out = [], r_code = 1\<rparr>
      else let param = str_opt (nc_param config) in
        case send_request (ne_write e) 0 (action_request cmd param) 0 of
          None \<Rightarrow> None
        | Some (sent, False) \<Rightarrow> Some \<lparr>r_sent = sent, r_out = [], r_code = 1\<rparr>
        | Some (sent, True) \<Rightarrow>
            let buffer = cstr 0 (read_reply (ne_read e) 0 0 (replicate 4096 NUL))
            in Some \<lparr>r_sent = sent, r_out =
                 if buffer = Some ''Yes'' then printf_s ifyes param
                 else if buffer = Some ''No'' then printf_s ifno param else [], r_code = 0\<rparr>)"

text \<open>The reply of a report: every piece is printed up to its first NUL byte.\<close>

partial_function (option) print_reply :: "(nat \<Rightarrow> nat \<Rightarrow> string option) \<Rightarrow> nat \<Rightarrow> string option" where
  "print_reply rd n =
     (case rd n (4096 - 1) of
        None \<Rightarrow> Some []
      | Some s \<Rightarrow> if s = [] then Some []
          else Option.bind (print_reply rd (Suc n)) (\<lambda>out. Some (takeWhile (\<lambda>c. c \<noteq> NUL) s @ out)))"

definition ndsctl_print :: "ndsctl_env \<Rightarrow> ndsctl_config \<Rightarrow> string \<Rightarrow> run option" where
  "ndsctl_print e config cmd =
     (if \<not> connect_to_server e (nc_socket config) then Some \<lparr>r_sent = [], r_out = [], r_code = 1\<rparr>
      else case send_request (ne_write e) 0 (print_request cmd) 0 of
          None \<Rightarrow> None
        | Some (sent, False) \<Rightarrow> Some \<lparr>r_sent = sent, r_out = [], r_code = 1\<rparr>
        | Some (sent, True) \<Rightarrow>
            map_option (\<lambda>out. \<lparr>r_sent = sent, r_out = out, r_code = 0\<rparr>) (print_reply (ne_read e) 0))"

section \<open>The program\<close>

text \<open>The arguments of \<^verbatim>\<open>ndsctl_action\<close> in the functions named after the commands.\<close>

fun action_texts :: "ndsctl_command \<Rightarrow> (string \<times> string \<times> string) option" where
  "action_texts NDSCTL_LOGLEVEL = Some (''loglevel'', line ''Log level set to %s.'', line ''Failed to set log level to %s.'')"
| "action_texts NDSCTL_PASSWORD = Some (''password'', line ''Password set to %s.'', line ''Failed to set password to %s.'')"
| "action_texts NDSCTL_USERNAME = Some (''username'', line ''Username set to %s.'', line ''Failed to set username to %s.'')"
| "action_texts NDSCTL_DEAUTH = Some (''deauth'', line ''Client %s deauthenticated.'', line ''Client %s not found.'')"
| "action_texts NDSCTL_AUTH = Some (''auth'', line ''Client %s authenticated.'', line ''Failed to authenticate client %s.'')"
| "action_texts NDSCTL_BLOCK = Some (''block'', line ''MAC %s blocked.'', line ''Failed to block MAC %s.'')"
| "action_texts NDSCTL_UNBLOCK = Some (''unblock'', line ''MAC %s unblocked.'', line ''Failed to unblock MAC %s.'')"
| "action_texts NDSCTL_ALLOW = Some (''allow'', line ''MAC %s allowed.'', line ''Failed to allow MAC %s.'')"
| "action_texts NDSCTL_UNALLOW = Some (''unallow'', line ''MAC %s unallowed.'', line ''Failed to unallow MAC %s.'')"
| "action_texts NDSCTL_TRUST = Some (''trust'', line ''MAC %s trusted.'', line ''Failed to trust MAC %s.'')"
| "action_texts NDSCTL_UNTRUST = Some (''untrust'', line ''MAC %s untrusted.'', line ''Failed to untrust MAC %s.'')"
| "action_texts c = None"

fun report_text :: "ndsctl_command \<Rightarrow> string option" where
  "report_text NDSCTL_CLIENTS = Some ''clients''"
| "report_text NDSCTL_STATUS = Some ''status''"
| "report_text NDSCTL_STOP = Some ''stop''"
| "report_text c = None"

definition ndsctl_main :: "ndsctl_env \<Rightarrow> string list \<Rightarrow> run option" where
  "ndsctl_main e args =
     (case parse_commandline args of
        None \<Rightarrow> Some \<lparr>r_sent = [], r_out = usage, r_code = 1\<rparr>
      | Some config \<Rightarrow>
          (case action_texts (nc_command config) of
             Some (cmd, ifyes, ifno) \<Rightarrow> ndsctl_action e config cmd ifyes ifno
           | None \<Rightarrow> (case report_text (nc_command config) of
               Some cmd \<Rightarrow> ndsctl_print e config cmd
             | None \<Rightarrow> Some \<lparr>r_sent = [], r_out = [], r_code = 1\<rparr>)))"

section \<open>Lemmas\<close>

text \<open>A connection on which every write takes at least one byte.\<close>

definition writes :: "(nat \<Rightarrow> string \<Rightarrow> int) \<Rightarrow> bool" where
  "writes wr \<longleftrightarrow> (\<forall>n s. s \<noteq> [] \<longrightarrow> 1 \<le> wr n s \<and> wr n s \<le> int (length s))"

lemma send_request_all:
  "writes wr \<Longrightarrow> len \<le> length req \<Longrightarrow> \<exists>ps. send_request wr n req len = Some (ps, True) \<and> concat ps = drop len req"
proof (induction "length req - len" arbitrary: n len rule: less_induct)
  case less
  show ?case
  proof (cases "len = length req")
    case True
    then show ?thesis by (subst send_request.simps) simp
  next
    case False
    let ?k = "wr n (drop len req)"
    have "drop len req \<noteq> []" using less.prems(2) False by simp
    with less.prems(1) have "1 \<le> ?k \<and> ?k \<le> int (length (drop len req))" unfolding writes_def by blast
    then have k: "1 \<le> ?k" "?k \<le> int (length req - len)" by simp_all
    then have "length req - (len + nat ?k) < length req - len" "len + nat ?k \<le> length req"
      using less.prems(2) False by linarith+
    from less.hyps [OF this(1) less.prems(1) this(2)] obtain ps where
      "send_request wr (Suc n) req (len + nat ?k) = Some (ps, True)" "concat ps = drop (len + nat ?k) req" by blast
    moreover have "take (nat ?k) (drop len req) @ drop (len + nat ?k) req = drop len req"
      by (metis append_take_drop_id drop_drop add.commute)
    ultimately show ?thesis using False k(1) by (subst send_request.simps) (auto simp: Let_def)
  qed
qed

lemma store_zeros:
  "length p + length s \<le> m \<Longrightarrow> store (length p) s (p @ replicate (m - length p) NUL) =
    (p @ s) @ replicate (m - length (p @ s)) NUL"
  by (simp add: store_def)

lemma read_reply_chunks:
  "serves rd n rs \<Longrightarrow> [] \<notin> set rs \<Longrightarrow> length p + length (concat rs) < 4096 \<Longrightarrow>
   read_reply rd n (length p) (p @ replicate (4096 - length p) NUL) =
     (p @ concat rs) @ replicate (4096 - length (p @ concat rs)) NUL"
proof (induction rs arbitrary: n p)
  case Nil
  then show ?case using serves_Nil [of rd n] by (subst read_reply.simps) simp
next
  case (Cons c rs)
  have rd: "rd n (4096 - length p) = Some c" "serves rd (Suc n) rs"
    using serves_Cons [OF Cons.prems(1)] Cons.prems(3) by simp_all
  have "length p + length c \<le> 4096" "c \<noteq> []" using Cons.prems(2,3) by auto
  from store_zeros [OF this(1)] this(2) Cons.IH [OF rd(2), of "p @ c"] Cons.prems(2,3) rd(1) show ?case
    by (subst read_reply.simps) simp
qed

lemma cstr_zeros: "length s < m \<Longrightarrow> cstr 0 (s @ replicate (m - length s) NUL) = Some (takeWhile (\<lambda>c. c \<noteq> NUL) s)"
proof -
  assume "length s < m"
  then obtain k where k: "m - length s = Suc k" by (cases "m - length s") auto
  have "takeWhile (\<lambda>c. c \<noteq> NUL) (s @ NUL # r) = takeWhile (\<lambda>c. c \<noteq> NUL) s" for r
    by (induction s) simp_all
  then show ?thesis by (simp add: cstr_def k)
qed

text \<open>The daemon's view of the buffer after the request of an action.\<close>

lemma eol_end: "list_ex eol (take k (req @ NDSCTL_TERMINATOR)) \<Longrightarrow> \<forall>c \<in> set req. \<not> eol c \<Longrightarrow> length req < k"
  by (rule ccontr) (auto simp: list_ex_iff dest: in_set_takeD)

lemma end_line_id: "\<forall>c \<in> set s. \<not> eol c \<Longrightarrow> map end_line s = s"
  by (induction s) (auto simp: end_line_def)

lemma image_request:
  assumes "length req < k" "\<forall>c \<in> set req. \<not> eol c"
  shows "\<exists>rest. image (take k (req @ NDSCTL_TERMINATOR)) = req @ NUL # rest"
proof -
  obtain j where j: "k - length req = Suc j" using assms(1) by (cases "k - length req") auto
  have "take k (req @ NDSCTL_TERMINATOR) = req @ CHR 0x0D # take j (tl NDSCTL_TERMINATOR)"
    using assms(1) by (simp add: j NDSCTL_TERMINATOR_def)
  then show ?thesis by (simp add: image_def end_line_id [OF assms(2)]) (simp add: end_line_def eol_def)
qed

lemma read_action_request:
  assumes "concat cs = req @ NDSCTL_TERMINATOR" "\<forall>c \<in> set req. \<not> eol c" "length req < 4000"
  shows "\<exists>rest. thread_ndsctl_handler v e (peer cs) w = ndsctl_dispatch v e (req @ NUL # rest) w"
proof -
  have "list_ex eol (concat cs)" by (simp add: assms(1) list_ex_iff NDSCTL_TERMINATOR_def eol_def)
  with read_request_start [of cs] obtain k where k: "k \<le> length (concat cs)"
    "read_request (peer cs) 0 0 False (replicate MAX_BUF NUL) = Some (image (take k (concat cs)), list_ex eol (take k (concat cs)))"
    "list_ex eol (take k (concat cs)) \<or> MAX_BUF - 1 \<le> k" by blast
  have "\<not> MAX_BUF - 1 \<le> k" using k(1) assms(1,3) by (simp add: MAX_BUF_def NDSCTL_TERMINATOR_def)
  with k(3) assms(1) have "list_ex eol (take k (req @ NDSCTL_TERMINATOR))" by simp
  from image_request [OF eol_end [OF this assms(2)] assms(2)] obtain rest
    where "image (take k (req @ NDSCTL_TERMINATOR)) = req @ NUL # rest" by blast
  with k(2) assms(1) show ?thesis by (intro exI [of _ rest]) (simp add: thread_ndsctl_handler_def)
qed

lemma cstr_at:
  "NUL \<notin> set param \<Longrightarrow> cstr (length p) (p @ param @ NUL # rest) = Some param"
proof -
  assume "NUL \<notin> set param"
  then have "takeWhile (\<lambda>c. c \<noteq> NUL) (param @ NUL # rest) = param" by (induction param) auto
  then show ?thesis by (simp add: cstr_def)
qed

text \<open>The request of an action is handled as the command it names.\<close>

lemma action_handled:
  assumes "concat cs = action_request cmd param" "\<forall>c \<in> set param. c \<noteq> NUL \<and> \<not> eol c"
    and "length param \<le> 114"
    and "(cmd, handler) \<in> {(''block'', \<lambda>arg. ndsctl_block e arg w), (''unblock'', \<lambda>arg. ndsctl_unblock e arg w),
      (''allow'', \<lambda>arg. ndsctl_allow e arg w), (''unallow'', \<lambda>arg. ndsctl_unallow e arg w),
      (''trust'', \<lambda>arg. ndsctl_trust e arg w), (''untrust'', \<lambda>arg. ndsctl_untrust e arg w),
      (''auth'', \<lambda>arg. ndsctl_auth e arg w), (''deauth'', \<lambda>arg. ndsctl_deauth e arg w),
      (''loglevel'', \<lambda>arg. ndsctl_loglevel arg w), (''password'', \<lambda>arg. ndsctl_password arg w),
      (''username'', \<lambda>arg. ndsctl_username arg w)}"
  shows "thread_ndsctl_handler v e (peer cs) w = handler param"
proof -
  let ?req = "cmd @ '' '' @ param"
  have cmd: "length cmd \<le> 8" "\<forall>c \<in> set cmd. \<not> eol c" using assms(4) by (auto simp: eol_def)
  have r: "concat cs = ?req @ NDSCTL_TERMINATOR"
    using assms(1,3) cmd(1) by (simp add: action_request_def snprintf_s_def NDSCTL_TERMINATOR_def)
  have "\<forall>c \<in> set ?req. \<not> eol c" using cmd(2) assms(2) by (auto simp: eol_def)
  from read_action_request [OF r this, of v e w] cmd(1) assms(3) obtain rest
    where run: "thread_ndsctl_handler v e (peer cs) w = ndsctl_dispatch v e (?req @ NUL # rest) w" by auto
  have arg: "cstr (Suc (length cmd)) (cmd @ CHR '' '' # param @ NUL # rest) = Some param"
    using cstr_at [of param "cmd @ '' ''" rest] assms(2) by auto
  from assms(4) show ?thesis
    unfolding run using arg
    by (elim insertE emptyE) (simp_all add: ndsctl_dispatch_def strncmp_eq_def eval_nat_numeral)
qed

section \<open>Properties\<close>

text \<open>
  C33. The client and the daemon agree: the request the client builds for a command with a
  parameter that has no NUL byte or end of line and fits the client's buffer, cut into
  pieces in any way, makes the daemon run the handler of that command on exactly that
  parameter.
\<close>

theorem ndsctl_roundtrip:
  assumes "concat cs = action_request cmd param" "\<forall>c \<in> set param. c \<noteq> NUL \<and> \<not> eol c"
    and "length param \<le> 114"
    and "(cmd, handler) \<in> {(''block'', \<lambda>arg. ndsctl_block e arg w), (''unblock'', \<lambda>arg. ndsctl_unblock e arg w),
      (''allow'', \<lambda>arg. ndsctl_allow e arg w), (''unallow'', \<lambda>arg. ndsctl_unallow e arg w),
      (''trust'', \<lambda>arg. ndsctl_trust e arg w), (''untrust'', \<lambda>arg. ndsctl_untrust e arg w),
      (''auth'', \<lambda>arg. ndsctl_auth e arg w), (''deauth'', \<lambda>arg. ndsctl_deauth e arg w),
      (''loglevel'', \<lambda>arg. ndsctl_loglevel arg w), (''password'', \<lambda>arg. ndsctl_password arg w),
      (''username'', \<lambda>arg. ndsctl_username arg w)}"
  shows "thread_ndsctl_handler v e (peer cs) w = handler param"
  by (rule action_handled [OF assms])

lemma ndsctl_roundtrip_witness:
  "thread_ndsctl_handler sample_status good_env (peer [''auth 10.'', ''0.0.3'' @ [CHR 0x0D, CHR 0x0A, CHR 0x0D], [CHR 0x0A]]) sample_daemon =
     ndsctl_auth good_env ''10.0.0.3'' sample_daemon"
  by (rule ndsctl_roundtrip [of _ "''auth''"])
    (simp_all add: action_request_def snprintf_s_def NDSCTL_TERMINATOR_def eol_def NUL_def)

text \<open>
  A run of the client with an action on the command line, connected to a peer that
  takes what it is sent and replies in any pieces: all of the request goes out, cut to the
  size of its buffer and terminated, the exit status is 0, and the text for Yes or No is
  printed, with the parameter filled in, exactly when the reply up to its first NUL byte is
  that word; any other reply prints nothing.
\<close>

theorem ndsctl_main_spec:
  assumes "parse_commandline args = Some config" "nc_param config = Some param"
    and "action_texts (nc_command config) = Some (cmd, ifyes, ifno)"
    and "ne_connect e (take 107 (nc_socket config))" "writes (ne_write e)"
    and "ne_read e = peer rs" "[] \<notin> set rs" "length (concat rs) < 4096"
  shows "\<exists>r. ndsctl_main e args = Some r \<and> r_code r = 0 \<and>
    concat (r_sent r) = take 123 (cmd @ '' '' @ param) @ [CHR 0x0D, CHR 0x0A, CHR 0x0D, CHR 0x0A] \<and>
    r_out r = (let reply = takeWhile (\<lambda>c. c \<noteq> NUL) (concat rs) in
      if reply = ''Yes'' then printf_s ifyes param else if reply = ''No'' then printf_s ifno param else [])"
proof -
  obtain ps where ps: "send_request (ne_write e) 0 (action_request cmd param) 0 = Some (ps, True)"
    "concat ps = action_request cmd param"
    using send_request_all [OF assms(5), of 0 "action_request cmd param" 0] by auto
  have "cstr 0 (read_reply (ne_read e) 0 0 (replicate 4096 NUL)) = Some (takeWhile (\<lambda>c. c \<noteq> NUL) (concat rs))"
    using read_reply_chunks [OF serves_peer assms(7), of "[]"] cstr_zeros [OF assms(8)] assms(6,8) by simp
  with ps assms(1-4) show ?thesis
    by (simp add: ndsctl_main_def ndsctl_action_def connect_to_server_def sun_path_size_def str_opt_def
        action_request_def snprintf_s_def NDSCTL_TERMINATOR_def)
qed

definition sample_peer :: ndsctl_env where
  "sample_peer = \<lparr>ne_connect = (\<lambda>s. s = ''/run/n''), ne_write = (\<lambda>n s. min 5 (int (length s))),
     ne_read = peer [''Y'', ''es'']\<rparr>"

lemma ndsctl_main_spec_witness:
  "\<exists>r. ndsctl_main sample_peer [''-s/run/n'', ''auth'', ''10.0.0.3''] = Some r \<and>
     r_out r = line ''Client 10.0.0.3 authenticated.'' \<and>
     concat (r_sent r) = ''auth 10.0.0.3'' @ [CHR 0x0D, CHR 0x0A, CHR 0x0D, CHR 0x0A]"
proof -
  have p: "parse_commandline [''-s/run/n'', ''auth'', ''10.0.0.3''] =
      Some \<lparr>nc_socket = ''/run/n'', nc_command = NDSCTL_AUTH, nc_param = Some ''10.0.0.3''\<rparr>"
    by (simp add: parse_commandline_def command_table_def init_config_def)
  have w: "writes (ne_write sample_peer)" by (auto simp: writes_def sample_peer_def Suc_le_eq)
  show ?thesis
    using ndsctl_main_spec [OF p, of "''10.0.0.3''" "''auth''" "line ''Client %s authenticated.''"
        "line ''Failed to authenticate client %s.''" sample_peer "[''Y'', ''es'']"] w
    by (auto simp: sample_peer_def NUL_def line_def nl_def)
qed

end
