(* ===== verification/Shutdown.thy ===== *)
theory Shutdown
  imports Gateway NdsctlClient
begin

text \<open>
  The end of the gateway: the ways a running gateway ends (\<^verbatim>\<open>src/gateway.c\<close>), and what is left of
  the firewall then. Every chain the start created is flushed and deleted, and the rules that led
  into them are gone from the listings.
\<close>

section \<open>Commands that were run\<close>

definition commands :: "world \<Rightarrow> world \<Rightarrow> string list" where
  "commands w w' = map fst (drop (length (w_log w)) (w_log w'))"

text \<open>
  \<open>ran e w w'\<close>: between the two states time went on and commands were run, each with the exit
  status the shell gave it; \<open>tried e cs w w'\<close>: they include \<open>cs\<close> in this order, whatever became of
  them; \<open>logged P w w'\<close>: all of them satisfy \<open>P\<close>.
\<close>

definition ran :: "env \<Rightarrow> world \<Rightarrow> world \<Rightarrow> bool" where
  "ran e w w' \<longleftrightarrow> w_clock w \<le> w_clock w' \<and> (\<exists>l. w_log w' = w_log w @ l \<and>
     (\<forall>(c, rc) \<in> set l. \<exists>n. w_clock w \<le> n \<and> rc = wait_retval (e_sh e n c)))"

definition tried :: "env \<Rightarrow> string list \<Rightarrow> world \<Rightarrow> world \<Rightarrow> bool" where
  "tried e cs w w' \<longleftrightarrow> ran e w w' \<and> subseq cs (commands w w')"

definition logged :: "(string \<Rightarrow> bool) \<Rightarrow> world \<Rightarrow> world \<Rightarrow> bool" where
  "logged P w w' \<longleftrightarrow> (\<exists>l. w_log w' = w_log w @ l \<and> list_all P (map fst l))"

lemma ran_refl: "w_log w' = w_log w \<Longrightarrow> w_clock w \<le> w_clock w' \<Longrightarrow> ran e w w'"
  by (simp add: ran_def)

lemma ran_trans:
  assumes "ran e w w1" "ran e w1 w2"
  shows "ran e w w2"
proof -
  let ?ok = "\<lambda>w (c, rc). \<exists>n. w_clock w \<le> n \<and> rc = wait_retval (e_sh e n c)"
  obtain l l' where l: "w_log w1 = w_log w @ l" "\<forall>x \<in> set l. ?ok w x" "w_log w2 = w_log w1 @ l'" "\<forall>x \<in> set l'. ?ok w1 x"
    and c: "w_clock w \<le> w_clock w1" "w_clock w1 \<le> w_clock w2"
    using assms unfolding ran_def by blast
  have "?ok w x" if "?ok w1 x" for x using that c(1) by (cases x) (auto intro: le_trans)
  with l(4) have "\<forall>x \<in> set l'. ?ok w x" by blast
  with l(2) have "\<forall>x \<in> set (l @ l'). ?ok w x" unfolding set_append by blast
  with l(1,3) have "w_log w2 = w_log w @ l @ l' \<and> (\<forall>x \<in> set (l @ l'). ?ok w x)" by (simp only: append_assoc simp_thms)
  with c show ?thesis unfolding ran_def using le_trans by blast
qed

lemma ran_updates [simp]:
  "ran e w (w'\<lparr>w_fw_quiet := q\<rparr>) = ran e w w'" "ran e (w\<lparr>w_fw_quiet := q\<rparr>) w' = ran e w w'"
  "ran e w (w'\<lparr>w_tc_quiet := q\<rparr>) = ran e w w'" "ran e (w\<lparr>w_tc_quiet := q\<rparr>) w' = ran e w w'"
  by (simp_all add: ran_def)

lemma tried_refl: "w_log w' = w_log w \<Longrightarrow> w_clock w \<le> w_clock w' \<Longrightarrow> tried e [] w w'"
  by (simp add: tried_def ran_refl)

lemma tried_trans:
  assumes "tried e a w w1" "tried e b w1 w2"
  shows "tried e (a @ b) w w2"
proof -
  obtain l l' where "w_log w1 = w_log w @ l" "w_log w2 = w_log w1 @ l'" using assms by (auto simp: tried_def ran_def)
  then have "commands w w2 = commands w w1 @ commands w1 w2" by (simp add: commands_def)
  with assms ran_trans show ?thesis by (auto simp: tried_def intro: list_emb_append_mono)
qed

lemma tried_commands: "tried e cs w w' \<Longrightarrow> subseq cs (commands w w')"
  by (simp add: tried_def)

text \<open>Commands that the shell lets succeed whenever they are run took effect, in this order.\<close>

lemma tried_effects:
  assumes "tried e cs w w'" "\<And>c n. c \<in> set cs \<Longrightarrow> w_clock w \<le> n \<Longrightarrow> wait_retval (e_sh e n c) = 0"
  shows "subseq cs (effects (drop (length (w_log w)) (w_log w')))"
proof -
  let ?l = "drop (length (w_log w)) (w_log w')"
  have ok: "snd x = 0" if "x \<in> set ?l" "fst x \<in> set cs" for x
    using assms that unfolding tried_def ran_def by (cases x) fastforce
  have "filter (\<lambda>x. fst x \<in> set cs) ?l = filter (\<lambda>x. fst x \<in> set cs) (filter (\<lambda>(c, rc). rc = 0) ?l)"
    using ok by (auto simp: filter_filter intro!: filter_cong)
  then have f: "filter (\<lambda>c. c \<in> set cs) (map fst ?l) = filter (\<lambda>c. c \<in> set cs) (effects ?l)"
    unfolding effects_def filter_map comp_def by simp
  have "subseq (filter (\<lambda>c. c \<in> set cs) cs) (filter (\<lambda>c. c \<in> set cs) (map fst ?l))"
    using assms(1) by (intro subseq_filter) (simp add: tried_def commands_def)
  then have "subseq cs (filter (\<lambda>c. c \<in> set cs) (effects ?l))" unfolding f by simp
  then show ?thesis by (rule subseq_order.trans) (rule subseq_filter_left)
qed

lemma logged_same: "w_log w' = w_log w \<Longrightarrow> logged P w w'"
  by (simp add: logged_def)

lemma logged_updates [simp]:
  "logged P w (w'\<lparr>w_fw_quiet := q\<rparr>) = logged P w w'" "logged P (w\<lparr>w_fw_quiet := q\<rparr>) w' = logged P w w'"
  "logged P w (w'\<lparr>w_tc_quiet := q\<rparr>) = logged P w w'" "logged P (w\<lparr>w_tc_quiet := q\<rparr>) w' = logged P w w'"
  "logged P w (w'\<lparr>w_markop := s\<rparr>) = logged P w w'" "logged P w (w'\<lparr>w_markmask := s\<rparr>) = logged P w w'"
  by (simp_all add: logged_def)

lemma logged_trans: "logged P w w1 \<Longrightarrow> logged P w1 w2 \<Longrightarrow> logged P w w2"
  by (auto simp: logged_def)

lemma logged_commands: "logged P w w' \<Longrightarrow> list_all P (commands w w')"
  by (auto simp: logged_def commands_def)

context command_runner
begin

lemma run_logged: "run c w = (rc, w') \<Longrightarrow> P (full c) \<Longrightarrow> logged P w w'"
  using run_log [of c w rc w'] by (auto simp: logged_def list_all_iff)

lemma or_all_logged: "or_all run cs (r0, w) = (rc, w') \<Longrightarrow> list_all P (map full cs) \<Longrightarrow> logged P w w'"
proof (induction cs arbitrary: r0 w)
  case (Cons c cs)
  obtain r1 w1 where r: "run c w = (r1, w1)" by (cases "run c w")
  with Cons show ?case by (auto intro: logged_trans run_logged)
qed (simp add: logged_same)

lemma run_tried: "run c w = (rc, w') \<Longrightarrow> ran e w w' \<Longrightarrow> tried e [full c] w w'"
  using run_log [of c w rc w'] by (auto simp: tried_def commands_def subseq_singleton_left)

end

lemma execute_ran: "execute e c w = (rc, w') \<Longrightarrow> ran e w w'"
  by (auto simp: execute_def Let_def tick_def ran_def)

lemma attempts_ran: "iptables_attempts e n c w = (rc, w') \<Longrightarrow> ran e w w'"
proof (induction n arbitrary: w)
  case (Suc n)
  obtain r1 w1 where r: "execute e c w = (r1, w1)" by (cases "execute e c w")
  with Suc execute_ran [OF r] ran_trans show ?case by (auto split: if_splits)
qed (simp add: execute_ran)

lemma commands_ran:
  "execute e c w = (rc, w') \<Longrightarrow> ran e w w'" "tc_do_command e c w = (rc, w') \<Longrightarrow> ran e w w'"
  "iptables_do_command e c w = (rc, w') \<Longrightarrow> ran e w w'"
  by (simp_all add: execute_ran tc_do_command_def iptables_do_command_def attempts_ran)

text \<open>A sequence of commands, each tried in its turn.\<close>

lemma or_all_tried:
  assumes "\<And>c w rc w'. f c w = (rc, w') \<Longrightarrow> tried e [full c] w w'"
  shows "or_all f cs (r0, w) = (rc, w') \<Longrightarrow> tried e (map full cs) w w'"
proof (induction cs arbitrary: r0 w)
  case (Cons c cs)
  obtain r1 w1 where r: "f c w = (r1, w1)" by (cases "f c w")
  with Cons tried_trans [OF assms [OF r]] show ?case by auto
qed (simp add: tried_refl)

lemma tried_each:
  "or_all (execute e) cs (r0, w) = (rc, w') \<Longrightarrow> tried e (map (\<lambda>c. c) cs) w w'"
  "or_all (tc_do_command e) cs (r0, w) = (rc, w') \<Longrightarrow> tried e (map tc_cmd cs) w w'"
  "or_all (iptables_do_command e) cs (r0, w) = (rc, w') \<Longrightarrow> tried e (map ipt_cmd cs) w w'"
  by (rule or_all_tried; blast intro: sh.run_tried tc.run_tried ipt.run_tried commands_ran)+

lemma tried_less: "subseq cs' cs \<Longrightarrow> tried e cs w w' \<Longrightarrow> tried e cs' w w'"
  unfolding tried_def by (blast intro: subseq_order.trans)

lemma run_all_tried: "tried e (map ipt_cmd cs) w (run_all e cs w)"
  unfolding run_all_def by (rule tried_each(3)) (rule prod.collapse [symmetric])

section \<open>The chains\<close>

text \<open>The table and the name of the chain a command creates.\<close>

definition creates :: "string \<Rightarrow> (string \<times> string) option" where
  "creates cmd =
     (let r = drop 12 cmd; opt = dropWhile (\<lambda>c. c \<noteq> CHR '' '') r in
      if take 12 cmd = ''iptables -t '' \<and> take 4 opt = '' -N '' then Some (takeWhile (\<lambda>c. c \<noteq> CHR '' '') r, drop 4 opt)
      else None)"

definition flush_chain :: "string \<Rightarrow> string \<Rightarrow> string" where
  "flush_chain t c = ipt_cmd (''-t '' @ t @ '' -F '' @ c)"

definition delete_chain :: "string \<Rightarrow> string \<Rightarrow> string" where
  "delete_chain t c = ipt_cmd (''-t '' @ t @ '' -X '' @ c)"

definition nds_chains :: "(string \<times> string) list" where
  "nds_chains = map (Pair ''mangle'') [''ndsTRU'', ''ndsBLK'', ''ndsINC'', ''ndsOUT''] @ [(''nat'', ''ndsOUT'')] @
     map (Pair ''filter'') [''ndsNET'', ''ndsRTR'', ''ndsAUT'', ''ndsTRU'', ''ndsTRT'']"

text \<open>The rules of the built-in chains that lead into them: table, chain and target.\<close>

definition nds_jumps :: "(string \<times> string \<times> string) list" where
  "nds_jumps = [(''mangle'', ''PREROUTING'', ''ndsTRU''), (''mangle'', ''PREROUTING'', ''ndsBLK''),
     (''mangle'', ''PREROUTING'', ''ndsOUT''), (''mangle'', ''POSTROUTING'', ''ndsINC''), (''nat'', ''PREROUTING'', ''ndsOUT''),
     (''filter'', ''INPUT'', ''ndsRTR''), (''filter'', ''FORWARD'', ''ndsNET'')]"

definition known_chain :: "string \<Rightarrow> bool" where
  "known_chain cmd \<longleftrightarrow> (case creates cmd of None \<Rightarrow> True | Some x \<Rightarrow> x \<in> set nds_chains)"

lemmas known_simps = known_chain_def creates_def ipt_cmd_def nds_chains_def Let_def

lemma known_literals:
  "list_all known_chain (map ipt_cmd (mangle_cmds ifc rng))"
  "list_all known_chain (map ipt_cmd [''-t mangle -A ndsTRU'' @ s, ''-t mangle -A ndsBLK'' @ s, ''-t mangle -I ndsBLK'' @ s,
     ''-t mangle -I PREROUTING'' @ s, ''-t mangle -D PREROUTING'' @ s, ''-t filter -I FORWARD'' @ s, ''-t filter -D FORWARD'' @ s,
     ''-t mangle -A ndsINC'' @ s, ''-t mangle -A ndsOUT'' @ s])"
  "known_chain (tc_cmd s)" "known_chain (''ip link set '' @ s)"
  by (simp_all add: known_simps mangle_cmds_def tc_cmd_def)

text \<open>The rules of a ruleset, compiled and printed, begin as the code writes them.\<close>

lemma fmt_expand_prefix: "CHR 0x25 \<notin> set p \<Longrightarrow> fmt_expand (p @ x) = Some s \<Longrightarrow> \<exists>y. s = p @ y"
  by (induction p arbitrary: s) auto

lemma snprintf_s_prefix: "length p < n \<Longrightarrow> snprintf_s n (p @ x) = p @ take (n - 1 - length p) x"
  by (simp add: snprintf_s_def)

definition known_cmds :: "string option list \<Rightarrow> bool" where
  "known_cmds cs \<longleftrightarrow> list_all (case_option True (\<lambda>c. known_chain (ipt_cmd c))) cs"

lemma known_cmds_simps [simp]:
  "known_cmds []" "known_cmds (a @ b) \<longleftrightarrow> known_cmds a \<and> known_cmds b"
  "known_cmds (map Some cs) \<longleftrightarrow> list_all known_chain (map ipt_cmd cs)"
  "known_cmds (Some c # a) \<longleftrightarrow> known_chain (ipt_cmd c) \<and> known_cmds a"
  by (auto simp: known_cmds_def list_all_iff)

lemma append_rule_known:
  "t \<in> {''nat'', ''filter''} \<Longrightarrow> known_chain (ipt_cmd ((''-t '' @ t @ '' -A '') @ y))"
proof -
  have "known_chain (ipt_cmd ((''-t '' @ ''nat'' @ '' -A '') @ y))" "known_chain (ipt_cmd ((''-t '' @ ''filter'' @ '' -A '') @ y))"
    by (simp_all add: known_simps)
  then show "t \<in> {''nat'', ''filter''} \<Longrightarrow> ?thesis" by blast
qed

lemma ruleset_known:
  assumes "t \<in> {''nat'', ''filter''}"
  shows "known_cmds (ruleset_cmds t n ch c)"
proof -
  have "known_chain (ipt_cmd s)" if s: "fmt_expand (iptables_compile t ch r) = Some s" for r s
  proof -
    let ?p = "''-t '' @ t @ '' -A ''"
    have p: "CHR 0x25 \<notin> set ?p" "length ?p < MAX_BUF" using assms by (auto simp: MAX_BUF_def)
    obtain x where "iptables_compile t ch r = snprintf_s MAX_BUF (?p @ x)"
      by (simp only: iptables_compile_def append_assoc)
    with s have "fmt_expand (?p @ take (MAX_BUF - 1 - length ?p) x) = Some s" by (simp only: snprintf_s_prefix [OF p(2)])
    then obtain y where "s = ?p @ y" using fmt_expand_prefix [OF p(1)] by blast
    then show ?thesis using append_rule_known [OF assms] by simp
  qed
  then show ?thesis by (auto simp: known_cmds_def ruleset_cmds_def list_all_iff split: option.split)
qed

lemma marked_known: "known_cmds (marked_ruleset w ch m n sub)"
  by (simp add: marked_ruleset_def ruleset_known reject_rest_def) (simp add: known_simps)

lemma lists_known:
  "known_cmds (nat_cmds w ifc rng addr port)" "known_cmds (filter_router_cmds w ifc rng port)"
  "known_cmds (filter_forward_cmds w ifc rng)"
  by (simp_all add: nat_cmds_def filter_router_cmds_def filter_forward_cmds_def Let_def ruleset_known marked_known reject_rest_def)
    (simp_all add: known_simps)

text \<open>Putting up the rules creates no other chain.\<close>

lemma or_macs_logged:
  assumes "\<And>m w r w'. f m w = (r, w') \<Longrightarrow> logged P w w'"
  shows "or_macs f ms (r0, w) = (rc, w') \<Longrightarrow> logged P w w'"
proof (induction ms arbitrary: r0 w)
  case (Cons m ms)
  obtain r1 w1 where r: "f m w = (r1, w1)" by (cases "f m w")
  with Cons assms [OF r] show ?case by (auto intro: logged_trans)
qed (simp add: logged_same)

lemma mac_commands_logged:
  "iptables_trust_mac e m w = (r, w') \<Longrightarrow> logged known_chain w w'"
  "iptables_block_mac e m w = (r, w') \<Longrightarrow> logged known_chain w w'"
  "iptables_allow_mac e m w = (r, w') \<Longrightarrow> logged known_chain w w'"
  unfolding iptables_trust_mac_def iptables_block_mac_def iptables_allow_mac_def
  by (erule ipt.run_logged; simp add: known_simps)+

lemma ipt_logged: "known_chain (ipt_cmd c) \<Longrightarrow> logged known_chain w (snd (iptables_do_command e c w))"
  by (metis ipt.run_logged prod.collapse)

lemma fw_init_macs_logged:
  assumes "fw_init_macs e (r0, w) = (rc, w')"
  shows "logged known_chain w w'"
proof -
  have macs: "or_macs (iptables_trust_mac e) ms (v0, v) = (x, v') \<Longrightarrow> logged known_chain v v'"
    "or_macs (iptables_block_mac e) ms (v0, v) = (x, v') \<Longrightarrow> logged known_chain v v'"
    "or_macs (iptables_allow_mac e) ms (v0, v) = (x, v') \<Longrightarrow> logged known_chain v v'" for ms v0 v x v'
    using or_macs_logged mac_commands_logged by metis+
  obtain r1 w1 where t: "or_macs (iptables_trust_mac e) (cf_trustedmaclist (w_conf w)) (r0, w) = (r1, w1)" by fastforce
  let ?a = "iptables_do_command e (''-t mangle -A ndsBLK'' @ mark_rule w1 (w_MARK_BLOCKED w1)) w1"
  obtain r2 w2 where a: "?a = (r2, w2)" by fastforce
  have "logged known_chain w1 (snd ?a)" by (rule ipt_logged) (simp add: known_simps)
  with a have "logged known_chain w w2" using macs(1) [OF t] by (auto intro: logged_trans)
  with assms t a macs(1) [OF t] show ?thesis
    by (auto simp: fw_init_macs_def Let_def split: if_splits intro: logged_trans macs(2,3))
qed

lemma logged_intros:
  "logged P w w" "logged P w v \<Longrightarrow> logged P w (v\<lparr>w_fw_quiet := q\<rparr>)" "logged P w v \<Longrightarrow> logged P w (v\<lparr>w_markop := s\<rparr>)"
  "logged P w v \<Longrightarrow> logged P w (v\<lparr>w_markmask := s\<rparr>)" "logged P w a \<Longrightarrow> logged P w b \<Longrightarrow> logged P w (if c then a else b)"
  by (simp_all add: logged_same)

lemma ipt_logged_after:
  "known_chain (ipt_cmd c) \<Longrightarrow> logged known_chain w v \<Longrightarrow> logged known_chain w (snd (iptables_do_command e c v))"
  by (blast intro: logged_trans ipt_logged)

lemma mark_masking_logged:
  assumes "iptables_check_mark_masking e w = (rc, w')"
  shows "logged known_chain w w'"
proof -
  have k: "known_chain (ipt_cmd (''-t mangle -I PREROUTING 1 -j MARK --or-mark 0x'' @ s))"
    "known_chain (ipt_cmd (''-t filter -I FORWARD 1 -m mark --mark 0x'' @ s))"
    "known_chain (ipt_cmd ''-t mangle -D PREROUTING 1'')" "known_chain (ipt_cmd ''-t filter -D FORWARD 1'')" for s
    by (simp_all add: known_simps)
  have "logged known_chain w (snd (iptables_check_mark_masking e w))"
    unfolding iptables_check_mark_masking_def Let_def case_prod_unfold fst_conv snd_conv
    by (intro logged_intros ipt_logged_after k)
  with assms show ?thesis by (simp only: snd_conv)
qed

lemma tc_cmds_logged: "or_all (tc_do_command e) cs (r0, w) = (rc, w') \<Longrightarrow> logged known_chain w w'"
  by (erule tc.or_all_logged) (simp add: list_all_iff known_literals(3))

lemma tc_init_dev_logged:
  assumes ch: "ch \<in> {''ndsINC'', ''ndsOUT''}" and attach: "\<And>d l v. logged known_chain v (snd (attach d l v))"
    and run: "tc_init_dev e ch n l attach failed (r0, w) = (rc, w')"
  shows "logged known_chain w w'"
proof -
  let ?up = "''ip link set '' @ imq n @ '' up''" and ?rule = "''-t mangle -A '' @ ch @ '' -j IMQ --todev '' @ fmt_d n @ '' ''"
  have r: "known_chain (ipt_cmd ?rule)" using ch by (auto simp: known_simps)
  have up: "logged known_chain w (snd (execute e ?up w))"
    using sh.run_logged [OF prod.collapse [symmetric]] known_literals(4) by blast
  have "logged known_chain w (snd (tc_init_dev e ch n l attach failed (r0, w)))"
    unfolding tc_init_dev_def case_prod_unfold fst_conv snd_conv if_distrib [of snd]
    by (intro logged_intros up logged_trans [OF ipt_logged_after [OF r up] attach])
  with run show ?thesis by (simp only: snd_conv)
qed

lemma tc_init_logged:
  assumes "tc_init_tc e w = (rc, w')"
  shows "logged known_chain w w'"
proof -
  have a: "logged known_chain v (snd (tc_attach_download_qdisc e d l v))"
    "logged known_chain v (snd (tc_attach_upload_qdisc e d l v))" for d l v
    unfolding tc_attach_download_qdisc_def tc_attach_upload_qdisc_def
    using tc_cmds_logged [OF prod.collapse [symmetric]] by blast+
  let ?w = "w\<lparr>w_tc_quiet := False\<rparr>" and ?c = "w_conf w"
  obtain r1 w1 where d: "tc_init_dev e ''ndsINC'' (cf_download_imq ?c) (cf_download_limit ?c)
      (tc_attach_download_qdisc e) 0 (0, ?w) = (r1, w1)" by fastforce
  then have u: "tc_init_dev e ''ndsOUT'' (cf_upload_imq ?c) (cf_upload_limit ?c) (tc_attach_upload_qdisc e) (-1) (r1, w1) = (rc, w')"
    using assms by (simp add: tc_init_tc_def Let_def)
  from tc_init_dev_logged [OF _ a(1) d] tc_init_dev_logged [OF _ a(2) u] show ?thesis
    by (auto intro: logged_trans)
qed

lemma fw_init_logged:
  assumes run: "iptables_fw_init e w = Ok (rc, w')"
  shows "logged known_chain w w'"
proof -
  let ?c = "w_conf w" and ?rng = "cf_gw_iprange (w_conf w)" and ?port = "sint (cf_gw_port (w_conf w))"
  obtain ifc addr where ia: "cf_gw_interface ?c = Some ifc" "cf_gw_address ?c = Some addr"
    using assms by (auto simp: iptables_fw_init_def Let_def split: option.splits)
  let ?w1 = "w\<lparr>w_MARK_BLOCKED := cf_FW_MARK_BLOCKED ?c, w_MARK_TRUSTED := cf_FW_MARK_TRUSTED ?c,
    w_MARK_AUTHENTICATED := cf_FW_MARK_AUTHENTICATED ?c\<rparr>"
  obtain m1 w2 where m: "iptables_init_marks ?w1 = (m1, w2)" by fastforce
  obtain m2 w3 where k: "iptables_check_mark_masking e w2 = (m2, w3)" by fastforce
  obtain m3 w3' where g: "or_all (iptables_do_command e) (mangle_cmds ifc ?rng) (m1 OR m2, w3) = (m3, w3')" by fastforce
  obtain m4 w4 where f: "fw_init_macs e (m3, w3') = (m4, w4)" by fastforce
  obtain m5 w5 where t: "(if cf_traffic_control ?c \<noteq> 0
      then (case tc_init_tc e w4 of (r, w') \<Rightarrow> (m4 OR r, w')) else (m4, w4)) = (m5, w5)" by fastforce
  let ?all = "nat_cmds w5 ifc ?rng addr ?port @ filter_router_cmds w5 ifc ?rng ?port @ filter_forward_cmds w5 ifc ?rng"
  have "rbind (of_opt (all_some ?all)) (\<lambda>cs. Ok (or_all (iptables_do_command e) cs (m5, w5))) = Ok (rc, w')"
    using assms ia m k g f t by (simp add: iptables_fw_init_def Let_def del: or_all.simps)
  then obtain cs where cs: "?all = map Some cs" and last: "or_all (iptables_do_command e) cs (m5, w5) = (rc, w')"
    by (auto simp: rbind_Ok_iff all_some_map)
  have "known_cmds (map Some cs)" unfolding cs [symmetric] by (simp only: known_cmds_simps lists_known simp_thms)
  then have l: "logged known_chain w5 w'" using ipt.or_all_logged [OF last] by simp
  have "logged known_chain w w2" using m by (auto simp: iptables_init_marks_def logged_def split: if_splits)
  moreover have "logged known_chain w4 w5"
    using t by (auto simp: logged_same split: if_splits prod.splits intro: tc_init_logged)
  ultimately show ?thesis
    using mark_masking_logged [OF k] ipt.or_all_logged [OF g known_literals(1)] fw_init_macs_logged [OF f] l
    by (blast intro: logged_trans)
qed

section \<open>Taking the rules down\<close>

text \<open>
  A listing without the mention was seen between the two states. \<open>torn e js cs w w'\<close>: that holds
  of every jump of \<open>js\<close>, the commands \<open>cs\<close> were tried in this order, and no command that was run
  creates another chain.
\<close>

definition gone :: "env \<Rightarrow> world \<Rightarrow> world \<Rightarrow> string \<times> string \<times> string \<Rightarrow> bool" where
  "gone e w w' = (\<lambda>(t, c, m). \<exists>n. w_clock w \<le> n \<and> n < w_clock w' \<and> \<not> mentions e t c m n)"

definition torn :: "env \<Rightarrow> (string \<times> string \<times> string) list \<Rightarrow> string list \<Rightarrow> world \<Rightarrow> world \<Rightarrow> bool" where
  "torn e js cs w w' \<longleftrightarrow> tried e cs w w' \<and> logged known_chain w w' \<and> list_all (gone e w w') js"

lemma tried_clock: "tried e cs w w' \<Longrightarrow> w_clock w \<le> w_clock w'"
  by (simp add: tried_def ran_def)

lemma gone_widens: "gone e w1 w2 j \<Longrightarrow> w_clock w \<le> w_clock w1 \<Longrightarrow> w_clock w2 \<le> w_clock w' \<Longrightarrow> gone e w w' j"
  unfolding gone_def by (cases j) (auto intro: le_trans less_le_trans)

lemma torn_trans: "torn e js cs w w1 \<Longrightarrow> torn e js' cs' w1 w2 \<Longrightarrow> torn e (js @ js') (cs @ cs') w w2"
  unfolding torn_def list_all_iff by (auto intro: tried_trans logged_trans gone_widens dest: tried_clock)

lemma torn_tried: "tried e cs w w' \<Longrightarrow> logged known_chain w w' \<Longrightarrow> torn e [] cs w w'"
  by (simp add: torn_def)

lemma torn_updates [simp]:
  "torn e js cs (w\<lparr>w_fw_quiet := q\<rparr>) w' = torn e js cs w w'" "torn e js cs (w\<lparr>w_tc_quiet := q\<rparr>) w' = torn e js cs w w'"
  "torn e js cs w (w'\<lparr>w_fw_quiet := q\<rparr>) = torn e js cs w w'" "torn e js cs w (w'\<lparr>w_tc_quiet := q\<rparr>) = torn e js cs w w'"
  by (simp_all add: torn_def tried_def commands_def logged_def gone_def)

lemma delete_rule_known:
  assumes "CHR '' '' \<notin> set t"
  shows "known_chain (ipt_cmd (''-t '' @ t @ '' -D '' @ x))"
proof -
  have "dropWhile (\<lambda>c. c \<noteq> CHR '' '') (t @ '' -D '' @ x) = '' -D '' @ x" using assms by (subst dropWhile_append2) auto
  then show ?thesis by (simp add: known_chain_def creates_def ipt_cmd_def Let_def)
qed

lemma destroy_mention_torn:
  assumes "CHR '' '' \<notin> set t" "destroy_mention e t c m w = Some r"
  shows "torn e [(t, c, m)] [] w (snd r)"
proof (rule destroy_mention.raw_induct [where P = "\<lambda>e t c m w r. CHR '' '' \<notin> set t \<longrightarrow> torn e [(t, c, m)] [] w (snd r)",
    OF _ assms(2), THEN mp, OF _ assms(1)], intro impI, goal_cases)
  case (1 f e t c m w r)
  note t = 1(3)
  obtain out w1 where p: "popen e (list_cmd t c) w = (out, w1)" by fastforce
  then have w1: "torn e [] [] w w1" "w_clock w1 = Suc (w_clock w)" and out: "out = e_popen e (w_clock w) (list_cmd t c)"
    by (auto simp: popen_def tick_def torn_def tried_def ran_def logged_def)
  show ?case
  proof (cases "case out of None \<Rightarrow> None | Some txt \<Rightarrow> find_mention m (fst (skip_two txt))")
    case None
    then have "gone e w w1 (t, c, m)" using out w1(2) by (auto simp: gone_def mentions_def split: option.splits)
    with 1(2) p None w1(1) show ?thesis by (auto simp: torn_def)
  next
    case (Some num)
    let ?d = "''-t '' @ t @ '' -D '' @ c @ '' '' @ num"
    obtain r2 w2 where d: "iptables_do_command e ?d w1 = (r2, w2)" by fastforce
    with 1(2) p Some obtain r3 where r: "f e t c m w2 = Some r3" "snd r = snd r3" by (auto split: Option.bind_splits)
    have "tried e [] w1 w2" by (rule tried_less [OF _ ipt.run_tried [OF d commands_ran(3) [OF d]]]) simp
    from torn_tried [OF this ipt.run_logged [OF d]] delete_rule_known [OF t]
    have "torn e [] [] w1 w2" by simp
    from torn_trans [OF torn_trans [OF w1(1) this] 1(1) [OF r(1), THEN mp, OF t]] r(2) show ?thesis by simp
  qed
qed

lemma destroy_mentions_torn:
  "destroy_mentions e js w = Ok w' \<Longrightarrow> list_all (\<lambda>(t, _). CHR '' '' \<notin> set t) js \<Longrightarrow> torn e js [] w w'"
proof (induction js arbitrary: w)
  case (Cons j js)
  obtain t c m where j: "j = (t, c, m)" by (cases j)
  with Cons.prems(1) obtain rc w1 where d: "destroy_mention e t c m w = Some (rc, w1)" "destroy_mentions e js w1 = Ok w'"
    by (auto simp: rbind_Ok_iff iptables_fw_destroy_mention_def)
  from Cons.prems(2) j have "torn e [j] [] w w1" "torn e js [] w1 w'"
    using destroy_mention_torn [OF _ d(1)] Cons.IH [OF d(2)] by simp_all
  from torn_trans [OF this] show ?case by simp
qed (simp add: torn_def tried_refl logged_same)

lemma mentions_then_commands:
  assumes "destroy_mentions e js w = Ok w1" "list_all (\<lambda>(t, _). CHR '' '' \<notin> set t) js" "list_all known_chain (map ipt_cmd cs)"
  shows "torn e js (map ipt_cmd cs) w (run_all e cs w1)"
proof -
  have "logged known_chain w1 (run_all e cs w1)"
    unfolding run_all_def using ipt.or_all_logged [OF prod.collapse [symmetric] assms(3)] by blast
  from torn_trans [OF destroy_mentions_torn [OF assms(1,2)] torn_tried [OF run_all_tried this]] show ?thesis by simp
qed

lemma tc_destroy_torn: "torn e [] [] w (snd (tc_destroy_tc e w))"
proof -
  have t: "torn e [] [] v (snd (or_all (tc_do_command e) cs (r, v)))" for cs r v
    by (rule torn_tried [OF tried_less [OF _ tried_each(2) [OF prod.collapse [symmetric]]] tc_cmds_logged [OF prod.collapse [symmetric]]])
      simp
  have s: "torn e [] [] v (snd (or_all (execute e) [''ip link set '' @ x, ''ip link set '' @ y] (r, v)))" for x y r v
    by (rule torn_tried [OF tried_less [OF _ tried_each(1) [OF prod.collapse [symmetric]]] sh.or_all_logged [OF prod.collapse [symmetric]]])
      (simp_all add: known_literals(4) del: append.simps)
  have "torn e [] [] v (snd (or_all (execute e) [''ip link set '' @ x, ''ip link set '' @ y] (or_all (tc_do_command e) cs (r, v))))"
    for cs x y r v
    using torn_trans [OF t s] by (metis append.simps(1) prod.collapse)
  from this [where v = "w\<lparr>w_tc_quiet := True\<rparr>"] show ?thesis
    by (simp add: tc_destroy_tc_def Let_def case_prod_unfold del: or_all.simps)
qed

text \<open>What the teardown looks for, and the commands it runs.\<close>

definition teardown_jumps :: "(string \<times> string \<times> string) list" where
  "teardown_jumps = map (\<lambda>(c, m). (''mangle'', c, m)) [(''PREROUTING'', ''ndsTRU''), (''PREROUTING'', ''ndsBLK''),
     (''PREROUTING'', ''ndsALW''), (''PREROUTING'', ''ndsOUT''), (''POSTROUTING'', ''ndsINC'')] @
     [(''nat'', ''PREROUTING'', ''ndsOUT''), (''filter'', ''INPUT'', ''ndsRTR''), (''filter'', ''FORWARD'', ''ndsNET'')]"

definition teardown_cmds :: "string list" where
  "teardown_cmds =
     (let clear = \<lambda>t cs. map (flush_chain t) cs @ map (delete_chain t) cs
      in clear ''mangle'' [''ndsTRU'', ''ndsBLK'', ''ndsALW'', ''ndsOUT'', ''ndsINC''] @ clear ''nat'' [''ndsOUT''] @
         clear ''filter'' [''ndsRTR'', ''ndsNET'', ''ndsAUT'', ''ndsTRU'', ''ndsTRT''])"

lemma teardown_covers:
  "list_all (\<lambda>(t, c). subseq [flush_chain t c, delete_chain t c] teardown_cmds) nds_chains"
  "set nds_jumps \<subseteq> set teardown_jumps"
  "list_all known_chain teardown_cmds" "list_all (\<lambda>(t, _). CHR '' '' \<notin> set t) teardown_jumps"
  by code_simp (simp add: nds_jumps_def teardown_jumps_def, code_simp+)

lemma fw_destroy_torn:
  assumes "iptables_fw_destroy e w = Ok (rc, w')"
  shows "torn e teardown_jumps teardown_cmds w w'"
proof -
  let ?w0 = "w\<lparr>w_fw_quiet := True\<rparr>"
  let ?w1 = "if cf_traffic_control (w_conf ?w0) \<noteq> 0 then snd (tc_destroy_tc e ?w0) else ?w0"
  have start: "torn e [] [] w ?w1"
    using tc_destroy_torn [of e ?w0] by (auto simp: torn_def tried_def ran_def logged_def)
  obtain w2 w3 w4 cs1 cs2 cs3 js1 js2 js3 where w: "destroy_mentions e js1 ?w1 = Ok w2" "destroy_mentions e js2 (run_all e cs1 w2) = Ok w3"
    "destroy_mentions e js3 (run_all e cs2 w3) = Ok w4" "w' = run_all e cs3 w4"
    and js: "teardown_jumps = js1 @ js2 @ js3" and cs: "teardown_cmds = map ipt_cmd cs1 @ map ipt_cmd cs2 @ map ipt_cmd cs3"
    using assms unfolding iptables_fw_destroy_def Let_def rbind_Ok_iff
    by (fastforce simp: teardown_jumps_def teardown_cmds_def flush_chain_def delete_chain_def Let_def simp del: destroy_mentions.simps)
  have k: "list_all known_chain (map ipt_cmd cs1)" "list_all known_chain (map ipt_cmd cs2)" "list_all known_chain (map ipt_cmd cs3)"
    using teardown_covers(3) by (simp_all only: cs list_all_append)
  have b: "list_all (\<lambda>(t, _). CHR '' '' \<notin> set t) js1" "list_all (\<lambda>(t, _). CHR '' '' \<notin> set t) js2"
    "list_all (\<lambda>(t, _). CHR '' '' \<notin> set t) js3"
    using teardown_covers(4) by (simp_all only: js list_all_append)
  from torn_trans [OF start torn_trans [OF mentions_then_commands [OF w(1) b(1) k(1)]
    torn_trans [OF mentions_then_commands [OF w(2) b(2) k(2)] mentions_then_commands [OF w(3) b(3) k(3)]]]]
  show ?thesis unfolding js cs w(4) by simp
qed

section \<open>The end\<close>

text \<open>
  What ends a running gateway. Through its handler: a signal, a request on the control socket, or a
  failure of the main thread, when waiting for connections or when the thread for a request cannot
  be created. The handler runs between the pieces of the other threads; none of them holds its
  mutex. Past the handler: a signal whose default action ends the process (signal(7)), and
  \<^verbatim>\<open>exit(1)\<close> in one of the wrappers of \<^verbatim>\<open>src/safe.c\<close> when a thread gets no memory or no child.
\<close>

datatype end_cause = Caught int | Requested control_reads | Failed | Killed int | Gave_up

fun orderly :: "end_cause \<Rightarrow> bool" where
  "orderly (Killed sig) = False"
| "orderly Gave_up = False"
| "orderly cause = True"

definition ends_process :: "int \<Rightarrow> bool" where
  "ends_process sig \<longleftrightarrow> sig \<in> set ([1 .. 16] @ [24 .. 27] @ [29 .. 31])"

inductive gateway_end :: "env \<Rightarrow> gateway \<Rightarrow> end_cause \<Rightarrow> wait_status \<Rightarrow> world \<Rightarrow> bool" for e g where
  by_signal: "gt_signals g sig = Termination_handler \<Longrightarrow>
    termination_handler e sig False True (gt_world g) = Ok (Some (st, w)) \<Longrightarrow> gateway_end e g (Caught sig) st w"
| by_request: "gt_control g \<Longrightarrow> thread_ndsctl_handler (gt_status g) e rd (gt_world g) = Ok (reply, Some sig, w1) \<Longrightarrow>
    gt_signals g sig = Termination_handler \<Longrightarrow> termination_handler e sig False True w1 = Ok (Some (st, w)) \<Longrightarrow>
    gateway_end e g (Requested rd) st w"
| by_failure: "httpdGetConnection date sel False client_ip [] = Ok conn \<Longrightarrow> main_event_of conn \<noteq> Loop_again \<Longrightarrow>
    termination_handler e 0 False True (gt_world g) = Ok (Some (st, w)) \<Longrightarrow> gateway_end e g Failed st w"
| by_default: "ends_process sig \<Longrightarrow> sig = SIGKILL \<or> gt_signals g sig = SIG_DFL \<Longrightarrow>
    gateway_end e g (Killed sig) (Signaled sig) (gt_world g)"
| by_wrapper: "gateway_end e g Gave_up (Exited 1) (gt_world g)"

inductive_cases gateway_endE: "gateway_end e g cause st w"

text \<open>The orderly ways go through the handler, on the state the gateway was in; the others leave that state as it is.\<close>

lemma gateway_end_handler:
  assumes "gateway_end e g cause st w" "threads_inv g" "orderly cause"
  obtains rc where "fw_destroy e (gt_world g) = Ok (rc, w)" "st = Signaled SIGKILL"
proof -
  have inv: "daemon_inv (gt_world g)" "mac_lists_inv (w_conf (gt_world g))" "w_MARK_AUTHENTICATED (gt_world g) \<noteq> 0"
    using assms(2) by (simp_all add: threads_inv_def)
  from assms(1) obtain sig where "termination_handler e sig False True (gt_world g) = Ok (Some (st, w))"
  proof cases
    case (by_request rd reply sig w1)
    from control_sound [OF by_request(3) inv] have "w1 = gt_world g" by simp
    with by_request(5) that show thesis by simp
  qed (use that assms(3) in auto)
  with that show thesis by (auto simp: termination_handler_def rbind_Ok_iff)
qed

lemma gateway_end_other:
  assumes "gateway_end e g cause st w" "\<not> orderly cause"
  shows "w = gt_world g \<and> (cause = Gave_up \<and> st = Exited 1 \<or>
    (\<exists>sig. cause = Killed sig \<and> st = Signaled sig \<and> (sig = SIGKILL \<or> gt_signals g sig = SIG_DFL)))"
  using assms by cases auto

lemma firewall_start_logged:
  assumes "firewall_start g e w = Ok w'"
  shows "logged known_chain w w'"
proof -
  obtain r1 w1 r2 w2 where d: "fw_destroy e w = Ok (r1, w1)" "fw_init e w1 = Ok (r2, w2)"
    "(if r2 \<noteq> 0 then rbind (fw_destroy e w2) (\<lambda>_. Exit 1) else if \<not> g_thread g 0 then terminate e False w2
      else if \<not> g_thread g 1 then terminate e True w2 else Ok w2) = Ok w'"
    using assms by (fastforce simp: firewall_start_def rbind_Ok_iff)
  from d(3) have "w2 = w'"
    using terminate_not_ok [of e _ w2 w'] by (cases "fw_destroy e w2") (auto split: if_splits)
  moreover have "logged known_chain w w1" using fw_destroy_torn d(1) by (auto simp: fw_destroy_def torn_def)
  moreover have "logged known_chain w1 w2" using fw_init_logged d(2) by (simp add: fw_init_def)
  ultimately show ?thesis by (blast intro: logged_trans)
qed

lemma gateway_main_logged:
  assumes "gateway_main g e args = Ok s"
  shows "list_all known_chain (map fst (w_log (gt_world s)))"
proof -
  obtain c sig where "main_loop_start g e sig c = Ok s" by (rule gateway_main_ok [OF assms])
  moreover obtain now w0 where w0: "time_now e (world_init c) = (now, w0)" by fastforce
  ultimately obtain c1 where "firewall_start g e (w0\<lparr>w_conf := c1\<rparr>) = Ok (gt_world s)"
    by (auto simp: main_loop_start_def rbind_Ok_iff threads_start_def split: if_splits)
  from firewall_start_logged [OF this] w0 show ?thesis
    by (auto simp: logged_def time_now_def tick_def world_init_def)
qed

text \<open>The teardown returns when the listings stop mentioning the jumps.\<close>

lemma destroy_mentions_return:
  assumes "\<And>t c m n. (t, c, m) \<in> set js \<Longrightarrow> k \<le> n \<Longrightarrow> \<not> mentions e t c m n"
  shows "\<exists>w'. destroy_mentions e js w = Ok w'"
  using assms
proof (induction js arbitrary: w)
  case (Cons j js)
  obtain t c m where j: "j = (t, c, m)" by (cases j)
  obtain rc w1 where "destroy_mention e t c m w = Some (rc, w1)"
    using destroy_mention_ends [of k e t c m w] Cons.prems [of t c m] j by auto
  with Cons.IH [of w1] Cons.prems show ?case by (auto simp: j iptables_fw_destroy_mention_def)
qed simp

lemma fw_destroy_returns:
  assumes "\<And>t c m n. (t, c, m) \<in> set teardown_jumps \<Longrightarrow> k \<le> n \<Longrightarrow> \<not> mentions e t c m n"
  shows "\<exists>w'. fw_destroy e w = Ok (0, w')"
proof -
  have d: "\<exists>w'. rbind (destroy_mentions e js w) f = Ok (0, w')"
    if js: "set js \<subseteq> set teardown_jumps" and f: "\<And>w. \<exists>w'. f w = Ok (0, w')"
    for js w and f :: "world \<Rightarrow> (int \<times> world) result"
  proof -
    obtain w1 where "destroy_mentions e js w = Ok w1"
      using destroy_mentions_return [of js k e w] assms js by blast
    with f [of w1] show ?thesis by simp
  qed
  show ?thesis
    unfolding fw_destroy_def iptables_fw_destroy_def Let_def
    by (intro d) (simp_all add: teardown_jumps_def)
qed

lemma stop_request:
  assumes "concat cs = print_request ''stop''"
  shows "thread_ndsctl_handler v e (peer cs) w = Ok ([], Some SIGINT, w)"
proof -
  have "concat cs = ''stop'' @ NDSCTL_TERMINATOR"
    unfolding assms print_request_def by (simp add: snprintf_s_def NDSCTL_TERMINATOR_def)
  from read_action_request [OF this, of v e w] show ?thesis
    by (auto simp: eol_def ndsctl_dispatch_def strncmp_eq_def ndsctl_stop_def)
qed

lemma reach_signals:
  assumes "gateway_main g e args = Ok s0" "gateway_reach e s0 s"
  shows "threads_inv s" "gt_signals s = gt_signals s0" "gt_control s = gt_control s0"
  using reach_threads_kept [OF assms(2) gateway_main_inv(1) [OF assms(1)]] by (simp_all add: threads_kept_def)

lemma main_signals:
  assumes "gateway_main g e args = Ok s"
  shows "\<forall>sig \<in> {SIGINT, SIGTERM, SIGQUIT}. gt_signals s sig = Termination_handler"
proof -
  obtain c sig where c: "init_signals (g_sigaction g) = Ok sig" "main_loop_start g e sig c = Ok s"
    by (rule gateway_main_ok [OF assms])
  have "gt_signals s = sig" by (rule main_loop_start_ok [OF c(2)])
  with init_signals_Ok [OF c(1)] show ?thesis by simp
qed

text \<open>The start creates the chain that forwarded packets go through.\<close>

lemma main_creates:
  assumes "gateway_main g e args = Ok s"
  shows "ipt_cmd ''-t filter -N ndsNET'' \<in> set (map fst (w_log (gt_world s)))"
proof -
  obtain c sig where "main_loop_start g e sig c = Ok s" by (rule gateway_main_ok [OF assms])
  then obtain w2 where "fw_init e w2 = Ok (0, gt_world s)" by (rule main_loop_start_ok)
  then have "iptables_fw_init e w2 = Ok (0, gt_world s)" by (simp add: fw_init_def)
  from fw_init_stages [OF this] obtain ifc addr w5 cs where run: "or_all (iptables_do_command e) cs (0, w5) = (0, gt_world s)"
    and cs: "map Some cs = nat_cmds w5 ifc (cf_gw_iprange (w_conf w2)) addr (sint (cf_gw_port (w_conf w2))) @
      filter_router_cmds w5 ifc (cf_gw_iprange (w_conf w2)) (sint (cf_gw_port (w_conf w2))) @
      filter_forward_cmds w5 ifc (cf_gw_iprange (w_conf w2))" by metis
  have "Some ''-t filter -N ndsNET'' \<in> set (map Some cs)" unfolding cs by (simp add: filter_router_cmds_def)
  then have "''-t filter -N ndsNET'' \<in> set cs" by auto
  then have "ipt_cmd ''-t filter -N ndsNET'' \<in> set (effects (w_log (gt_world s)))" using ipt.or_all_zero [OF run] by simp
  then show ?thesis unfolding effects_def by auto
qed

section \<open>Properties\<close>

text \<open>
  C10. A running gateway can always be stopped: when a listing of the firewall stops mentioning the
  jumps after some time, each of the three signals, and the request of \<^verbatim>\<open>ndsctl stop\<close> in any pieces,
  ends it once the firewall is torn down; the status is that of a killed process.
\<close>

theorem gateway_stops:
  assumes "gateway_main g e args = Ok s0" "gateway_reach e s0 s"
    and "\<And>t c m n. (t, c, m) \<in> set teardown_jumps \<Longrightarrow> k \<le> n \<Longrightarrow> \<not> mentions e t c m n"
    and "concat cs = print_request ''stop''"
  shows "(\<forall>sig \<in> {SIGINT, SIGTERM, SIGQUIT}. \<exists>w. gateway_end e s (Caught sig) (Signaled 9) w) \<and>
    (gt_control s0 \<longrightarrow> (\<exists>w. gateway_end e s (Requested (peer cs)) (Signaled 9) w))"
proof -
  note sig = main_signals [OF assms(1), folded reach_signals(2) [OF assms(1,2)]]
  obtain w where "fw_destroy e (gt_world s) = Ok (0, w)" using fw_destroy_returns [of k e, OF assms(3)] by blast
  then have t: "termination_handler e x False True (gt_world s) = Ok (Some (Signaled 9, w))" for x
    by (simp add: termination_handler_def SIGKILL_def)
  have "\<exists>w. gateway_end e s (Caught x) (Signaled 9) w" if "x \<in> {SIGINT, SIGTERM, SIGQUIT}" for x
    using gateway_end.by_signal [OF _ t] sig that by blast
  moreover have "\<exists>w. gateway_end e s (Requested (peer cs)) (Signaled 9) w" if "gt_control s0"
    using gateway_end.by_request [OF _ stop_request [OF assms(4)] _ t] sig that reach_signals(3) [OF assms(1,2)] by blast
  ultimately show ?thesis by blast
qed

lemma gateway_stops_witness:
  "\<exists>s w. gateway_main sample_start gateway_env [] = Ok s \<and>
     gateway_end gateway_env s (Requested (peer [''st'', ''op'' @ NDSCTL_TERMINATOR])) (Signaled 9) w"
proof -
  obtain s where s: "gateway_main sample_start gateway_env [] = Ok s" "gt_control s" using sample_main by blast
  have "concat [''st'', ''op'' @ NDSCTL_TERMINATOR] = print_request ''stop''"
    by (simp add: print_request_def snprintf_s_def NDSCTL_TERMINATOR_def)
  from gateway_stops [OF s(1) gateway_reach.started sample_env_silent(1) this] s show ?thesis by blast
qed



end
