(* ===== verification/Control.thy ===== *)
theory Control
  imports Gateway NdsctlClient
begin

text \<open>
  The control client and the gateway together: \<^verbatim>\<open>ndsctl\<close> run with an action against a running gateway,
  from the command line to the state of the daemon and the text printed.
\<close>

section \<open>What an answer stands for\<close>

text \<open>What is promised by the answer Yes to a command: between the states before and after it.\<close>

fun command_done :: "ndsctl_command \<Rightarrow> string \<Rightarrow> world \<Rightarrow> world \<Rightarrow> bool" where
  "command_done NDSCTL_AUTH p w w' = (\<exists>mac. (p, mac) \<in> authenticated w')"
| "command_done NDSCTL_DEAUTH p w w' = (\<exists>c \<in> set (clients (w_clients w)). (c_ip c = p \<or> c_mac c = p) \<and>
     clients (w_clients w') = filter (\<lambda>x. ckey x \<noteq> ckey c) (clients (w_clients w)))"
| "command_done NDSCTL_BLOCK p w w' = on_mac_list (scan_mac p) (cf_blockedmaclist (w_conf w'))"
| "command_done NDSCTL_UNBLOCK p w w' = (\<not> on_mac_list (scan_mac p) (cf_blockedmaclist (w_conf w')))"
| "command_done NDSCTL_ALLOW p w w' = on_mac_list (scan_mac p) (cf_allowedmaclist (w_conf w'))"
| "command_done NDSCTL_UNALLOW p w w' = (\<not> on_mac_list (scan_mac p) (cf_allowedmaclist (w_conf w')))"
| "command_done NDSCTL_TRUST p w w' = on_mac_list (scan_mac p) (cf_trustedmaclist (w_conf w'))"
| "command_done NDSCTL_UNTRUST p w w' = (\<not> on_mac_list (scan_mac p) (cf_trustedmaclist (w_conf w')))"
| "command_done NDSCTL_LOGLEVEL p w w' = (w' = w\<lparr>w_conf := (w_conf w)\<lparr>cf_debuglevel := atoi p\<rparr>\<rparr>)"
| "command_done NDSCTL_PASSWORD p w w' = (w' = w\<lparr>w_conf := (w_conf w)\<lparr>cf_password := Some p\<rparr>\<rparr>)"
| "command_done NDSCTL_USERNAME p w w' = (w' = w\<lparr>w_conf := (w_conf w)\<lparr>cf_username := Some p\<rparr>\<rparr>)"
| "command_done c p w w' = False"

text \<open>The handler of each action.\<close>

definition action_handler :: "ndsctl_command \<Rightarrow> env \<Rightarrow> string \<Rightarrow> world \<Rightarrow> handled" where
  "action_handler k e p w =
     (case k of
        NDSCTL_BLOCK \<Rightarrow> ndsctl_block e p w | NDSCTL_UNBLOCK \<Rightarrow> ndsctl_unblock e p w
      | NDSCTL_ALLOW \<Rightarrow> ndsctl_allow e p w | NDSCTL_UNALLOW \<Rightarrow> ndsctl_unallow e p w
      | NDSCTL_TRUST \<Rightarrow> ndsctl_trust e p w | NDSCTL_UNTRUST \<Rightarrow> ndsctl_untrust e p w
      | NDSCTL_AUTH \<Rightarrow> ndsctl_auth e p w | NDSCTL_DEAUTH \<Rightarrow> ndsctl_deauth e p w
      | NDSCTL_LOGLEVEL \<Rightarrow> ndsctl_loglevel p w | NDSCTL_PASSWORD \<Rightarrow> ndsctl_password p w
      | NDSCTL_USERNAME \<Rightarrow> ndsctl_username p w | _ \<Rightarrow> Ok ([], None, w))"

text \<open>An action is answered, and Yes is only said when its promise holds.\<close>

definition answered :: "ndsctl_command \<Rightarrow> string \<Rightarrow> world \<Rightarrow> handled \<Rightarrow> bool" where
  "answered k p w r \<longleftrightarrow> (\<exists>reply w'. r = Ok (reply, None, w') \<and> reply \<in> {''Yes'', ''No''} \<and>
     (reply = ''Yes'' \<longrightarrow> command_done k p w w'))"

lemma answeredI: "r = Ok (reply, None, w') \<Longrightarrow> reply = ''No'' \<or> reply = ''Yes'' \<and> command_done k p w w' \<Longrightarrow> answered k p w r"
  unfolding answered_def by auto

lemma mac_list_member:
  "add_to_blocked_mac_list p c = (0, c') \<Longrightarrow> on_mac_list (scan_mac p) (cf_blockedmaclist c')"
  "add_to_allowed_mac_list p c = (0, c') \<Longrightarrow> on_mac_list (scan_mac p) (cf_allowedmaclist c')"
  "add_to_trusted_mac_list p c = (0, c') \<Longrightarrow> on_mac_list (scan_mac p) (cf_trustedmaclist c')"
  by (drule blocked.add_ok allowed.add_ok trusted.add_ok, simp add: on_mac_list_def)+

lemma mac_list_removed:
  assumes "mac_lists_inv c"
  shows "remove_from_blocked_mac_list p c = (0, c') \<Longrightarrow> \<not> on_mac_list (scan_mac p) (cf_blockedmaclist c')"
    "remove_from_allowed_mac_list p c = (0, c') \<Longrightarrow> \<not> on_mac_list (scan_mac p) (cf_allowedmaclist c')"
    "remove_from_trusted_mac_list p c = (0, c') \<Longrightarrow> \<not> on_mac_list (scan_mac p) (cf_trustedmaclist c')"
  using assms blocked.remove_then_gone allowed.remove_then_gone trusted.remove_then_gone unfolding mac_lists_inv_def by blast+

lemma mac_answered:
  assumes up: "update \<in> mac_updates" and rule: "\<exists>body. \<forall>w. rule e p w = iptables_do_command e (body w) w"
    and promise: "\<And>c' w'. update p (w_conf w) = (0, c') \<Longrightarrow> w_conf w' = c' \<Longrightarrow> command_done k p w w'"
  shows "answered k p w (mac_command update rule e p w)"
proof -
  from rule obtain body where "\<And>w. rule e p w = iptables_do_command e (body w) w" by blast
  from mac_command_result [of update rule e p body w, OF up this] obtain reply w'
    where r: "mac_command update rule e p w = Ok (reply, None, w')" "reply \<in> {''Yes'', ''No''}"
      "same_daemon (w\<lparr>w_conf := snd (update p (w_conf w))\<rparr>) w'" "fst (update p (w_conf w)) \<noteq> 0 \<longrightarrow> reply = ''No'' \<and> w' = w"
    by blast
  have "command_done k p w w'" if "reply = ''Yes''"
  proof -
    have "update p (w_conf w) = (0, snd (update p (w_conf w)))" using r(4) that by (auto simp: prod_eq_iff)
    from promise [OF this] same_daemon_fields(1) [OF r(3)] show ?thesis by simp
  qed
  with r(1,2) show ?thesis unfolding answered_def by blast
qed

lemma deauth_answered:
  assumes "daemon_inv w"
  shows "answered NDSCTL_DEAUTH p w (ndsctl_deauth e p w)"
proof -
  obtain reply w' where r: "ndsctl_deauth e p w = Ok (reply, None, w')"
    "case (case List.find (\<lambda>c. c_ip c = p) (clients (w_clients w)) of
        Some c \<Rightarrow> Some c | None \<Rightarrow> List.find (\<lambda>c. c_mac c = p) (clients (w_clients w))) of
      None \<Rightarrow> reply = ''No'' \<and> w' = w
    | Some c \<Rightarrow> reply = ''Yes'' \<and> clients (w_clients w') = filter (\<lambda>x. ckey x \<noteq> ckey c) (clients (w_clients w))"
    using ndsctl_deauth_result [OF assms, of e p "\<lambda>_. 0"] by blast
  then have "reply = ''No'' \<or> reply = ''Yes'' \<and> command_done NDSCTL_DEAUTH p w w'"
    by (auto split: option.splits simp: find_Some_iff intro!: bexI)
  with r(1) show ?thesis by (rule answeredI)
qed

lemma action_answered:
  assumes inv: "daemon_inv w" "mac_lists_inv (w_conf w)" "w_MARK_AUTHENTICATED w \<noteq> 0"
    and k: "action_texts k = Some t"
  shows "answered k p w (action_handler k e p w)"
proof -
  have auth: "answered NDSCTL_AUTH p w (ndsctl_auth e p w)"
  proof -
    obtain reply w' where r: "ndsctl_auth e p w = Ok (reply, None, w')" "keeps e (\<lambda>_. 0) w w'"
      "reply = ''No'' \<or> reply = ''Yes'' \<and> (\<exists>c \<in> set (clients (w_clients w')). c_ip c = p \<and>
        c_fw_connection_state c = w_MARK_AUTHENTICATED w)"
      using ndsctl_auth_result [OF inv(1,3), of e p "\<lambda>_. 0"] by blast
    have "static w' = static w" using r(2) by (simp add: keeps_def)
    then have "w_MARK_AUTHENTICATED w' = w_MARK_AUTHENTICATED w" using static_mark by metis
    with r(3) have "reply = ''No'' \<or> reply = ''Yes'' \<and> command_done NDSCTL_AUTH p w w'"
      by (auto simp: authenticated_def)
    with r(1) show ?thesis by (rule answeredI)
  qed
  have mac: "answered NDSCTL_BLOCK p w (ndsctl_block e p w)" "answered NDSCTL_UNBLOCK p w (ndsctl_unblock e p w)"
    "answered NDSCTL_ALLOW p w (ndsctl_allow e p w)" "answered NDSCTL_UNALLOW p w (ndsctl_unallow e p w)"
    "answered NDSCTL_TRUST p w (ndsctl_trust e p w)" "answered NDSCTL_UNTRUST p w (ndsctl_untrust e p w)"
    unfolding mac_handler_defs
    by (rule mac_answered, simp, rule mac_rules_are_commands, hypsubst, simp only: command_done.simps,
      (erule mac_list_member | erule mac_list_removed [OF inv(2)]))+
  show ?thesis
    using k auth mac deauth_answered [OF inv(1)]
    by (cases k) (auto simp: action_handler_def ndsctl_loglevel_def ndsctl_password_def ndsctl_username_def set_command_def
        set_log_level_def set_password_def set_username_def intro: answeredI [OF refl])
qed

text \<open>The daemon runs that handler on the request of the client, in any pieces.\<close>

lemma action_request_handled:
  assumes "concat cs = action_request cmd p" "\<forall>c \<in> set p. c \<noteq> NUL \<and> \<not> eol c" "length p \<le> 114"
    and "action_texts k = Some (cmd, ifyes, ifno)"
  shows "thread_ndsctl_handler v e (peer cs) w = action_handler k e p w"
  using assms(4) by (cases k) (auto simp: action_handler_def intro!: action_handled [OF assms(1-3)])

text \<open>
  A run of the client connected to a daemon that takes what it is sent and answers \<open>reply\<close>, in
  pieces; it prints the text for the answer.
\<close>

definition connected :: "ndsctl_env \<Rightarrow> string \<Rightarrow> string \<Rightarrow> bool" where
  "connected n sock reply \<longleftrightarrow> ne_connect n (take 107 sock) \<and> writes (ne_write n) \<and>
     (\<exists>rs. ne_read n = peer rs \<and> [] \<notin> set rs \<and> concat rs = reply)"

lemma client_run:
  assumes "parse_commandline args = Some config" "nc_param config = Some p" "length p \<le> 114"
    and "action_texts (nc_command config) = Some (cmd, ifyes, ifno)"
    and "connected n (nc_socket config) reply" "reply \<in> {''Yes'', ''No''}"
  shows "\<exists>r. ndsctl_main n args = Some r \<and> r_code r = 0 \<and> concat (r_sent r) = action_request cmd p \<and>
    r_out r = printf_s (if reply = ''Yes'' then ifyes else ifno) p"
proof -
  obtain rs where rs: "ne_read n = peer rs" "[] \<notin> set rs" "concat rs = reply"
    and n: "ne_connect n (take 107 (nc_socket config))" "writes (ne_write n)"
    using assms(5) by (auto simp: connected_def)
  have "length (concat rs) < 4096" "takeWhile (\<lambda>c. c \<noteq> NUL) (concat rs) = reply"
    using assms(6) rs(3) by (auto simp: NUL_def)
  with ndsctl_main_spec [OF assms(1,2,4) n rs(1,2)] assms(6) rs(3) show ?thesis
    by (auto simp: Let_def action_request_def snprintf_s_def NDSCTL_TERMINATOR_def)
qed

section \<open>Properties\<close>


text \<open>A sample run: a client of the network authenticated from the command line.\<close>

definition sample_args :: "string list" where
  "sample_args = [''auth'', ''10.0.0.2'']"

lemma sample_commandline: "parse_commandline sample_args =
    Some \<lparr>nc_socket = DEFAULT_SOCK, nc_command = NDSCTL_AUTH, nc_param = Some ''10.0.0.2''\<rparr>"
  by (simp add: sample_args_def parse_commandline_def command_table_def init_config_def)

definition sample_connection :: "string \<Rightarrow> ndsctl_env" where
  "sample_connection reply = \<lparr>ne_connect = (\<lambda>s. True), ne_write = (\<lambda>n s. min 5 (int (length s))), ne_read = peer [reply]\<rparr>"


end
