(* ===== verification/HttpdApi.thy ===== *)
theory HttpdApi
  imports Acl
begin

text \<open>
  The calls of the embedded web server that its other clients make and the portal does not
  (\<^verbatim>\<open>libhttpd/api.c\<close>, \<^verbatim>\<open>libhttpd/protocol.c\<close>): variables by prefix, cookies, challenges for
  credentials, the lines of the two logs, the page for a path that leads nowhere, and the set-up of
  the server.
\<close>

section \<open>Variables\<close>

fun httpdRequestMethodName :: "http_method \<Rightarrow> string" where
  "httpdRequestMethodName HTTP_GET = ''GET''"
| "httpdRequestMethodName HTTP_POST = ''POST''"
| "httpdRequestMethodName HTTP_NONE = ''INVALID''"

text \<open>A pointer to a variable is the list of the variables from it on, the null pointer the empty one.\<close>

fun from_prefix :: "string \<Rightarrow> http_vars \<Rightarrow> http_vars" where
  "from_prefix p [] = []"
| "from_prefix p ((n, v) # vars) =
     (if strncmp_eq n p (length p) then (n, v) # vars else from_prefix p vars)"

definition httpdGetVariableByPrefix :: "string option \<Rightarrow> http_vars \<Rightarrow> http_vars" where
  "httpdGetVariableByPrefix pre vars = (case pre of None \<Rightarrow> vars | Some p \<Rightarrow> from_prefix p vars)"

definition httpdGetNextVariableByPrefix :: "http_vars \<Rightarrow> string \<Rightarrow> http_vars" where
  "httpdGetNextVariableByPrefix cur p = from_prefix p (tl cur)"

fun httpdGetVariableByPrefixedName :: "string option \<Rightarrow> string \<Rightarrow> http_vars \<Rightarrow> http_vars" where
  "httpdGetVariableByPrefixedName None name vars = vars"
| "httpdGetVariableByPrefixedName (Some p) name [] = []"
| "httpdGetVariableByPrefixedName (Some p) name ((n, v) # vars) =
     (if strncmp_eq n p (length p) \<and> drop (length p) n = name then (n, v) # vars
      else httpdGetVariableByPrefixedName (Some p) name vars)"

definition httpdDumpVariables :: "http_vars \<Rightarrow> string" where
  "httpdDumpVariables vars = concat (map (\<lambda>(n, v, vs). ''Variable '' @ [CHR 39] @ n @ [CHR 39, nl] @
     concat (map (\<lambda>w. [CHR 0x09] @ ''= '' @ [CHR 39] @ w @ [CHR 39, nl]) (v # vs))) vars)"

section \<open>Responses\<close>

definition httpdSetContentType :: "string \<Rightarrow> http_request \<Rightarrow> http_request result" where
  "httpdSetContentType type r = (if HTTP_MAX_URL \<le> length type then Undef else Ok (r\<lparr>rs_contentType := type\<rparr>))"

definition httpdSetCookie :: "string \<Rightarrow> string \<Rightarrow> http_request \<Rightarrow> http_request" where
  "httpdSetCookie name v r =
     httpdAddHeader (snprintf_s HTTP_MAX_URL (''Set-Cookie: '' @ name @ ''='' @ v @ ''; path=/;'')) r"

text \<open>The response of a challenge has no newline of its own.\<close>

definition httpdForceAuthenticate :: "string \<Rightarrow> string \<Rightarrow> http_request \<Rightarrow> http_request result" where
  "httpdForceAuthenticate date realm r =
     httpdOutput date [nl] (httpdAddHeader
       (snprintf_s 255 (''WWW-Authenticate: Basic realm='' @ [CHR 0x22] @ realm @ [CHR 0x22, nl]))
       (httpdSetResponse ''401 Please Authenticate'' r))"

definition httpdAuthenticate :: "string \<Rightarrow> string \<Rightarrow> http_request \<Rightarrow> http_request result" where
  "httpdAuthenticate date realm r =
     (if rq_authLength r = 0 then httpdForceAuthenticate date realm r else Ok r)"

section \<open>The logs\<close>

text \<open>A log is what has been written to it; the portal opens neither.\<close>

definition LEVEL_ERROR :: string where
  "LEVEL_ERROR = ''error''"

definition httpd_writeAccessLog :: "string \<Rightarrow> http_request \<Rightarrow> string option \<Rightarrow> string option" where
  "httpd_writeAccessLog date r log = map_option (\<lambda>l. l @ rq_clientAddr r @ '' - - ['' @ date @ ''] '' @
     httpdRequestMethodName (rq_method r) @ '' '' @ [CHR 0x22] @ rq_path r @ [CHR 0x22] @ '' '' @
     fmt_d (atoi (rs_response r)) @ '' '' @ fmt_d (int (rs_responseLength r)) @ [nl]) log"

definition httpd_writeErrorLog :: "string \<Rightarrow> http_request option \<Rightarrow> string \<Rightarrow> string \<Rightarrow> string option \<Rightarrow> string option" where
  "httpd_writeErrorLog date r level message log = map_option (\<lambda>l. l @ ''['' @ date @ ''] ['' @ level @ ''] '' @
     (case r of
        Some q \<Rightarrow> if rq_clientAddr q \<noteq> [] then ''[client '' @ rq_clientAddr q @ ''] '' else []
      | None \<Rightarrow> []) @ message @ [nl]) log"

section \<open>The page for a path that leads nowhere\<close>

text \<open>\<open>handler\<close> is \<^verbatim>\<open>handle404\<close>; the stock page is for a server without one. The log comes first.\<close>

definition httpd_send404 ::
    "(http_request \<Rightarrow> http_request result) option \<Rightarrow> string \<Rightarrow> string \<Rightarrow> http_request \<Rightarrow> string option \<Rightarrow>
      (http_request \<times> string option) result" where
  "httpd_send404 handler logdate date r log =
     (let msg = snprintf_s HTTP_MAX_URL (''File does not exist: '' @ rq_path r @ [nl]);
          log1 = httpd_writeErrorLog logdate (Some r) LEVEL_ERROR msg log in
      rbind (case handler of
        Some f \<Rightarrow> f r
      | None \<Rightarrow> Ok (httpd_sendText (''</BODY></HTML>'' @ [nl])
          (httpd_sendText (''<BODY><H1>The request URL was not found!</H1>'' @ [nl])
          (httpd_sendText (''<HTML><HEAD><TITLE>404 Not Found</TITLE></HEAD>'' @ [nl])
          (httpd_sendHeaders date 0 [] (httpdSetResponse (''404 Not Found'' @ [nl]) r))))))
      (\<lambda>r1. Ok (r1, log1)))"

section \<open>The server\<close>

text \<open>Its socket, its settings and its content, as \<^verbatim>\<open>httpdCreate\<close> sets them up.\<close>

record 'h httpd =
  sv_port :: int
  sv_serverSock :: int
  sv_startTime :: int
  sv_fileBasePath :: string
  sv_host :: "string option"
  sv_content :: "'h http_dirs"
  sv_defaultAcl :: "httpAcl list"
  sv_handle404 :: "'h option"
  sv_accessLog :: "string option"
  sv_errorLog :: "string option"

text \<open>
  \<open>sock\<close> is the result of \<^verbatim>\<open>socket\<close> for a family, \<open>pton\<close> the address a text stands for, \<open>bind\<close> the
  result of \<^verbatim>\<open>bind\<close> for family, port in 16 bits and address. A text that is no address leaves the
  address zero, which is every interface. The sockets that are closed come with the result.
\<close>

definition httpdCreate ::
    "(bool \<Rightarrow> int) \<Rightarrow> (bool \<Rightarrow> string \<Rightarrow> nat option) \<Rightarrow> (bool \<Rightarrow> int \<Rightarrow> nat \<Rightarrow> int) \<Rightarrow> int \<Rightarrow>
      string option \<Rightarrow> int \<Rightarrow> bool \<Rightarrow> 'h httpd option \<times> int list" where
  "httpdCreate sock pton bind now host port ip6 =
     (if sock ip6 < 0 then (None, [])
      else (let text = (case host of Some h \<Rightarrow> h | None \<Rightarrow> if ip6 then ''::'' else ''0.0.0.0'');
                addr = (case pton ip6 text of Some a \<Rightarrow> a | None \<Rightarrow> 0) in
        if bind ip6 (port mod 2 ^ 16) addr < 0 then (None, [sock ip6])
        else (Some \<lparr>sv_port = port, sv_serverSock = sock ip6, sv_startTime = now, sv_fileBasePath = [], sv_host = host,
                sv_content = [], sv_defaultAcl = [], sv_handle404 = None, sv_accessLog = None, sv_errorLog = None\<rparr>, [])))"

definition httpdSetFileBase :: "string \<Rightarrow> 'h httpd \<Rightarrow> 'h httpd" where
  "httpdSetFileBase path server = server\<lparr>sv_fileBasePath := take (HTTP_MAX_URL - 1) path\<rparr>"

text \<open>\<open>memory\<close> says whether the first handler finds memory; a later one takes its place.\<close>

definition httpdAddC404Content :: "bool \<Rightarrow> 'h \<Rightarrow> 'h httpd \<Rightarrow> int \<times> 'h httpd" where
  "httpdAddC404Content memory f server =
     (if sv_handle404 server = None \<and> \<not> memory then (-1, server) else (0, server\<lparr>sv_handle404 := Some f\<rparr>))"

definition httpdSetAccessLog :: "string option \<Rightarrow> 'h httpd \<Rightarrow> 'h httpd" where
  "httpdSetAccessLog fp server = server\<lparr>sv_accessLog := fp\<rparr>"

definition httpdSetErrorLog :: "string option \<Rightarrow> 'h httpd \<Rightarrow> 'h httpd" where
  "httpdSetErrorLog fp server = server\<lparr>sv_errorLog := fp\<rparr>"

definition httpdSetDefaultAcl :: "httpAcl list \<Rightarrow> 'h httpd \<Rightarrow> 'h httpd" where
  "httpdSetDefaultAcl acl server = server\<lparr>sv_defaultAcl := acl\<rparr>"

section \<open>Lemmas\<close>

text \<open>Stepping from one variable with a prefix to the next meets all of them, in their order.\<close>

fun walk_prefix :: "nat \<Rightarrow> string \<Rightarrow> http_vars \<Rightarrow> http_vars" where
  "walk_prefix 0 p cur = []"
| "walk_prefix (Suc n) p cur = (case cur of [] \<Rightarrow> [] | v # _ \<Rightarrow> v # walk_prefix n p (httpdGetNextVariableByPrefix cur p))"

lemma from_prefix_dropWhile: "from_prefix p vars = dropWhile (\<lambda>v. \<not> prefix p (fst v)) vars"
proof (induction vars)
  case (Cons v vars)
  have "strncmp_eq n p (length p) \<longleftrightarrow> prefix p n" for n :: string
    unfolding strncmp_eq_def prefix_def by (metis append_eq_conv_conj append_take_drop_id order_refl take_all)
  with Cons show ?case by (cases v) auto
qed simp

lemma walk_prefix_all:
  "length vars \<le> n \<Longrightarrow> walk_prefix n p (httpdGetVariableByPrefix (Some p) vars) = filter (\<lambda>v. prefix p (fst v)) vars"
proof (induction vars arbitrary: n)
  case Nil
  then show ?case by (cases n) (simp_all add: httpdGetVariableByPrefix_def)
next
  case (Cons v vars)
  obtain m where m: "n = Suc m" "length vars \<le> m" using Cons.prems by (cases n) auto
  show ?case
  proof (cases "prefix p (fst v)")
    case True
    with Cons.IH [OF m(2)] m(1) show ?thesis
      by (simp add: httpdGetVariableByPrefix_def httpdGetNextVariableByPrefix_def from_prefix_dropWhile)
  next
    case False
    have "length vars \<le> n" using Cons.prems by simp
    from Cons.IH [OF this] False show ?thesis by (simp add: httpdGetVariableByPrefix_def from_prefix_dropWhile)
  qed
qed

text \<open>A name with a prefix is the name of the two together.\<close>

lemma prefixed_name: "httpdGetVariableByPrefixedName (Some p) name vars = dropWhile (\<lambda>v. fst v \<noteq> p @ name) vars"
proof (induction vars)
  case (Cons v vars)
  have "strncmp_eq n p (length p) \<and> drop (length p) n = name \<longleftrightarrow> n = p @ name" for n :: string
    unfolding strncmp_eq_def by (metis append_eq_conv_conj append_take_drop_id order_refl take_all)
  with Cons show ?case by (cases v) auto
qed simp

text \<open>A server that is created has its socket bound, and nothing else set.\<close>

lemma httpdCreate_binds:
  "fst (httpdCreate sock pton bind now host port ip6) = Some server \<Longrightarrow>
     sv_serverSock server = sock ip6 \<and> 0 \<le> sock ip6 \<and> sv_handle404 server = None \<and> sv_defaultAcl server = [] \<and>
     (\<exists>addr. 0 \<le> bind ip6 (port mod 2 ^ 16) addr)"
  by (auto simp: httpdCreate_def Let_def not_less split: if_splits)

text \<open>A cookie leaves the headers room for their terminator.\<close>

lemma cookie_room: "length (rs_headers r) < HTTP_MAX_HEADERS \<Longrightarrow> length (rs_headers (httpdSetCookie name v r)) < HTTP_MAX_HEADERS"
  by (auto simp: httpdSetCookie_def httpdAddHeader_def Let_def HTTP_MAX_HEADERS_def)

end
